(* ===== verification/Prelude.thy ===== *)
theory Prelude
  imports Main "HOL-Library.Word"
begin

text \<open>
  Shared vocabulary of the StewieOS development: the machine integers of
  \<^verbatim>\<open>kernel.h\<close>, the error numbers the kernel returns, and the generic facts on lists,
  functions and words that the component theories use.

  Error returns. The C code returns \<^verbatim>\<open>-EXXX\<close> from functions that otherwise return a
  non-negative value or a pointer (\<^verbatim>\<open>ERR_PTR\<close>). The numbers themselves are defined by the C
  library, so the model keeps the names as a datatype and a fallible call has the type
  \<open>errno + 'a\<close>, with \<open>Inl\<close> the error.

  Non-termination. A loop that follows pointers, and a spin lock, may run for ever. Those
  operations are \<^theory_text>\<open>partial_function (option)\<close>: \<open>None\<close> means that the call does not
  return.
\<close>

unbundle bit_operations_syntax

type_synonym u8 = "8 word"
type_synonym u16 = "16 word"
type_synonym u32 = "32 word"

text \<open>The kernel stack of a task, from \<^verbatim>\<open>task.h\<close>.\<close>

definition TASK_KSTACK_ADDR :: u32 where "TASK_KSTACK_ADDR = 0xFFFFD000"
definition TASK_KSTACK_SIZE :: u32 where "TASK_KSTACK_SIZE = 0x2000"

datatype errno =
    EPERM | ENOENT | EIO | ENXIO | E2BIG | ENOEXEC | EBADF | ECHILD | ENOMEM | EACCES | EFAULT
  | EBUSY | EEXIST | EXDEV | ENODEV | ENOTDIR | EISDIR | EINVAL | EMFILE | ENOTTY | ENOSPC
  | EROFS | ENAMETOOLONG | ENOSYS | ETIMEDOUT

type_synonym 'a result = "errno + 'a"

named_theorems list_ops \<open>definitions of the intrusive list operations\<close>
named_theorems list_laws \<open>what the intrusive list operations do to a represented list\<close>
named_theorems heap_ops \<open>definitions of the kernel heap operations\<close>

subsection \<open>Options and lists\<close>

lemma bind_eq_Some_iff:
  "Option.bind x f = Some y \<longleftrightarrow> (\<exists>z. x = Some z \<and> f z = Some y)"
  by (cases x) auto

lemma last_append_nonempty [simp]: "last (x # xs @ y # ys) = last (y # ys)"
  by (induction xs arbitrary: x) auto

lemma set_take_drop: "set xs = set (take n xs) \<union> set (drop n xs)"
  by (metis append_take_drop_id set_append)

lemma nth_append_mid [simp]: "(xs @ y # ys) ! length xs = y"
  by (simp add: nth_append)

lemma nat_eq_div_mod: "(f :: nat) = g \<longleftrightarrow> f div n = g div n \<and> f mod n = g mod n"
  by (metis div_mult_mod_eq)

subsection \<open>Words\<close>

lemma unat_minus_one_u32 [simp]: "unat (- 1 :: u32) = 4294967295"
  by (simp add: unsigned_minus_1_eq_mask mask_eq_exp_minus_1)

lemma unat_sint_u32: "sint (w :: u32) = int m \<Longrightarrow> unat w = m"
proof -
  assume s: "sint w = int m"
  have "sint w < 2 ^ 31" using sint_lt [of w] by simp
  then have "m < 2 ^ 31" using s by simp
  moreover have "uint w = take_bit 32 (sint w)" using uint_sint [of w] by simp
  ultimately have "uint w = int m" using s by (simp add: take_bit_eq_mod)
  then show ?thesis by (simp add: unat_eq_nat_uint)
qed

lemma sint_u32: "m < 2 ^ 31 \<Longrightarrow> sint (word_of_nat m :: u32) = int m"
  by (simp add: signed_of_nat signed_take_bit_int_eq_self)

lemma map_remove1_inj: "inj f \<Longrightarrow> map f (remove1 x xs) = remove1 (f x) (map f xs)"
  by (induction xs) (auto simp: inj_eq)

end
