(* ===== verification/LinkedList.thy ===== *)
theory LinkedList
  imports Prelude
begin

text \<open>
  The intrusive doubly linked lists of \<^verbatim>\<open>kernel/include/stewieos/linkedlist.h\<close>. A
  \<^verbatim>\<open>list_t\<close> is embedded in a larger structure; a list head is one more \<^verbatim>\<open>list_t\<close> and an empty
  list is a head that points to itself. The memory that holds the nodes is a record of two total
  functions, one for each pointer field; the node type \<open>'n\<close> is chosen by the component that embeds
  the nodes. Every operation is the sequence of pointer stores of the C code, so that aliasing
  (a head that is its own neighbour) is part of the model.

  \<open>dll h hd xs\<close> says that in memory \<open>h\<close> the nodes \<open>xs\<close> are the list of head \<open>hd\<close>, in order. The
  lemmas show what each operation does to it, and that it leaves every other list alone.
\<close>

record 'n links =
  lprev :: "'n \<Rightarrow> 'n"
  lnext :: "'n \<Rightarrow> 'n"

subsection \<open>The operations\<close>

definition INIT_LIST :: "'n \<Rightarrow> 'n links \<Rightarrow> 'n links" where
  "INIT_LIST name h =
     (let h1 = h\<lparr>lprev := (lprev h)(name := name)\<rparr>
      in h1\<lparr>lnext := (lnext h1)(name := name)\<rparr>)"

definition list_is_last :: "'n links \<Rightarrow> 'n \<Rightarrow> 'n \<Rightarrow> bool" where
  "list_is_last h item head \<longleftrightarrow> lnext h item = head"

definition list_is_first :: "'n links \<Rightarrow> 'n \<Rightarrow> 'n \<Rightarrow> bool" where
  "list_is_first h item head \<longleftrightarrow> lnext h head = item"

definition list_is_lonely :: "'n links \<Rightarrow> 'n \<Rightarrow> 'n \<Rightarrow> bool" where
  "list_is_lonely h item head \<longleftrightarrow> lnext h item = head \<and> lprev h item = head"

definition list_inserted :: "'n links \<Rightarrow> 'n \<Rightarrow> bool" where
  "list_inserted h item \<longleftrightarrow> \<not> list_is_lonely h item item"

definition list_next :: "'n links \<Rightarrow> 'n \<Rightarrow> 'n \<Rightarrow> 'n option" where
  "list_next h item head = (if lnext h item = head then None else Some (lnext h item))"

definition list_first :: "'n links \<Rightarrow> 'n \<Rightarrow> 'n" where
  "list_first h head = lnext h head"

definition list_last :: "'n links \<Rightarrow> 'n \<Rightarrow> 'n" where
  "list_last h head = lprev h head"

definition list_empty :: "'n links \<Rightarrow> 'n \<Rightarrow> bool" where
  "list_empty h l \<longleftrightarrow> lnext h l = l"

text \<open>\<^verbatim>\<open>_list_add\<close>: the four stores, in the order of the source.\<close>

definition list_add_at :: "'n \<Rightarrow> 'n \<Rightarrow> 'n \<Rightarrow> 'n links \<Rightarrow> 'n links" where
  "list_add_at what p n h =
     (let h1 = h\<lparr>lnext := (lnext h)(p := what)\<rparr>;
          h2 = h1\<lparr>lprev := (lprev h1)(n := what)\<rparr>;
          h3 = h2\<lparr>lprev := (lprev h2)(what := p)\<rparr>
      in h3\<lparr>lnext := (lnext h3)(what := n)\<rparr>)"

definition list_add :: "'n \<Rightarrow> 'n \<Rightarrow> 'n links \<Rightarrow> 'n links" where
  "list_add what loc h = list_add_at what loc (lnext h loc) h"

definition list_add_before :: "'n \<Rightarrow> 'n \<Rightarrow> 'n links \<Rightarrow> 'n links" where
  "list_add_before what loc h = list_add_at what (lprev h loc) loc h"

text \<open>\<^verbatim>\<open>_list_rem\<close>\<close>

definition list_rem_at :: "'n \<Rightarrow> 'n \<Rightarrow> 'n links \<Rightarrow> 'n links" where
  "list_rem_at p n h =
     (let h1 = h\<lparr>lnext := (lnext h)(p := n)\<rparr>
      in h1\<lparr>lprev := (lprev h1)(n := p)\<rparr>)"

definition list_rem :: "'n \<Rightarrow> 'n links \<Rightarrow> 'n links" where
  "list_rem what h = INIT_LIST what (list_rem_at (lprev h what) (lnext h what) h)"

text \<open>
  \<^verbatim>\<open>list_for_each\<close> follows \<^verbatim>\<open>next\<close> until it is back at the head. \<open>list_find\<close> is such a loop whose
  body leaves it at the first item with a property; \<open>list_items\<close> is one that visits every item and
  does not change the list. On a damaged list neither need return.
\<close>

partial_function (option) list_find ::
  "'n links \<Rightarrow> 'n \<Rightarrow> ('n \<Rightarrow> bool) \<Rightarrow> 'n \<Rightarrow> 'n option option" where
  "list_find h head P item =
     (if item = head then Some None
      else if P item then Some (Some item)
      else list_find h head P (lnext h item))"

partial_function (option) list_items :: "'n links \<Rightarrow> 'n \<Rightarrow> 'n \<Rightarrow> 'n list option" where
  "list_items h head item =
     (if item = head then Some []
      else Option.bind (list_items h head (lnext h item)) (\<lambda>is. Some (item # is)))"

text \<open>\<^verbatim>\<open>list_add_ordered\<close>; the comparison returns a negative, zero or positive number.\<close>

partial_function (option) list_add_ordered_loop ::
  "'n \<Rightarrow> 'n \<Rightarrow> ('n \<Rightarrow> 'n \<Rightarrow> int) \<Rightarrow> 'n \<Rightarrow> 'n links \<Rightarrow> 'n links option" where
  "list_add_ordered_loop what loc cmp item h =
     (if item = loc then Some (list_add_before what loc h)
      else if cmp what item \<le> 0 then Some (list_add_before what item h)
      else list_add_ordered_loop what loc cmp (lnext h item) h)"

definition list_add_ordered ::
  "'n \<Rightarrow> 'n \<Rightarrow> ('n \<Rightarrow> 'n \<Rightarrow> int) \<Rightarrow> 'n links \<Rightarrow> 'n links option" where
  "list_add_ordered what loc cmp h =
     (if list_empty h loc then Some (list_add what loc h)
      else list_add_ordered_loop what loc cmp (lnext h loc) h)"

declare list_find.simps [code] list_items.simps [code] list_add_ordered_loop.simps [code]

lemmas list_defs [list_ops] =
  INIT_LIST_def list_is_last_def list_is_first_def list_is_lonely_def list_inserted_def
  list_next_def list_first_def list_last_def list_empty_def list_add_at_def list_add_def
  list_add_before_def list_rem_at_def list_rem_def Let_def

subsection \<open>The list a head represents\<close>

fun seg :: "'n links \<Rightarrow> 'n \<Rightarrow> 'n list \<Rightarrow> 'n \<Rightarrow> bool" where
  "seg h p [] q \<longleftrightarrow> lnext h p = q \<and> lprev h q = p"
| "seg h p (x # xs) q \<longleftrightarrow> lnext h p = x \<and> lprev h x = p \<and> seg h x xs q"

definition dll :: "'n links \<Rightarrow> 'n \<Rightarrow> 'n list \<Rightarrow> bool" where
  "dll h d xs \<longleftrightarrow> seg h d xs d \<and> distinct (d # xs)"

text \<open>A node that is in no list: it points to itself.\<close>

definition unlinked :: "'n links \<Rightarrow> 'n \<Rightarrow> bool" where
  "unlinked h n \<longleftrightarrow> lnext h n = n \<and> lprev h n = n"

text \<open>Where \<^verbatim>\<open>list_add_ordered\<close> puts an element: before the first one that is not smaller.\<close>

fun ordered_insert :: "('n \<Rightarrow> 'n \<Rightarrow> int) \<Rightarrow> 'n \<Rightarrow> 'n list \<Rightarrow> 'n list" where
  "ordered_insert cmp x [] = [x]"
| "ordered_insert cmp x (y # ys) =
     (if cmp x y \<le> 0 then x # y # ys else y # ordered_insert cmp x ys)"

lemma seg_append: "seg h p (xs @ y # ys) q \<longleftrightarrow> seg h p xs y \<and> seg h y ys q"
  by (induction xs arbitrary: p) auto

lemma seg_cong:
  assumes "\<And>n. n \<in> set (p # xs) \<Longrightarrow> lnext h' n = lnext h n"
    and "\<And>n. n \<in> set (xs @ [q]) \<Longrightarrow> lprev h' n = lprev h n"
  shows "seg h' p xs q = seg h p xs q"
  using assms by (induction xs arbitrary: p) auto

lemma seg_lprev_end: "seg h p xs q \<Longrightarrow> lprev h q = last (p # xs)"
  by (induction xs arbitrary: p) auto

lemma seg_lnext_start: "seg h p xs q \<Longrightarrow> lnext h p = hd (xs @ [q])"
  by (cases xs) auto

lemma dll_distinct: "dll h d xs \<Longrightarrow> distinct xs \<and> d \<notin> set xs"
  by (simp add: dll_def)

lemma dll_first: "dll h d xs \<Longrightarrow> lnext h d = hd (xs @ [d])"
  by (auto simp: dll_def dest: seg_lnext_start)

lemma dll_last: "dll h d xs \<Longrightarrow> lprev h d = last (d # xs)"
  unfolding dll_def using seg_lprev_end by fast

text \<open>Splitting the list at a node gives the two neighbours of the node.\<close>

lemma dll_mid:
  assumes "dll h d (xs @ x # ys)"
  shows "lprev h x = last (d # xs)" and "lnext h x = hd (ys @ [d])"
  using assms seg_lprev_end [of h d xs x] seg_lnext_start [of h x ys d]
  by (simp_all add: dll_def seg_append)

lemma dll_last_next:
  assumes "dll h d (xs @ ys)"
  shows "lnext h (last (d # xs)) = hd (ys @ [d])"
proof (cases xs rule: rev_cases)
  case Nil
  then show ?thesis using assms dll_first [of h d ys] by (cases ys) simp_all
next
  case (snoc zs z)
  then show ?thesis using dll_mid(2) [of h d zs z ys] assms by simp
qed

lemma dll_empty_iff: "dll h d xs \<Longrightarrow> list_empty h d \<longleftrightarrow> xs = []"
  by (cases xs) (auto simp: dll_def list_empty_def)

lemma dll_inserted: "dll h d xs \<Longrightarrow> x \<in> set xs \<Longrightarrow> list_inserted h x"
proof -
  assume a: "dll h d xs" and "x \<in> set xs"
  then obtain ys zs where xs: "xs = ys @ x # zs" by (meson split_list)
  then have "x \<notin> set (d # ys)" using a by (auto simp: dll_def)
  then have "last (d # ys) \<noteq> x" by (metis last_in_set list.distinct(1))
  then show ?thesis
    using dll_mid(1) a unfolding xs list_inserted_def list_is_lonely_def by fastforce
qed

lemma unlinked_inserted: "unlinked h n \<longleftrightarrow> \<not> list_inserted h n"
  by (simp add: list_inserted_def list_is_lonely_def unlinked_def)

lemma dll_unique: "dll h d xs \<Longrightarrow> dll h d ys \<Longrightarrow> xs = ys"
proof -
  have "seg h p xs d \<Longrightarrow> seg h p ys d \<Longrightarrow> d \<notin> set xs \<Longrightarrow> d \<notin> set ys \<Longrightarrow> xs = ys" for p
  proof (induction xs arbitrary: p ys)
    case Nil
    then show ?case by (cases ys) auto
  next
    case (Cons x xs)
    then show ?case by (cases ys) auto
  qed
  then show "dll h d xs \<Longrightarrow> dll h d ys \<Longrightarrow> xs = ys"
    by (auto simp: dll_def)
qed

subsection \<open>What the operations do to a represented list\<close>

lemma seg_add_at:
  assumes "seg h p (xs @ ys) q" "distinct (p # xs @ ys)" "q \<notin> set (xs @ ys)"
    and "x \<notin> set (p # q # xs @ ys)"
  shows "seg (list_add_at x (last (p # xs)) (hd (ys @ [q])) h) p (xs @ x # ys) q"
  using assms
proof (induction xs arbitrary: p)
  case Nil
  show ?case
  proof (cases ys)
    case (Cons b bs)
    let ?h = "list_add_at x p b h"
    have "seg ?h b bs q = seg h b bs q"
      by (rule seg_cong) (use Nil Cons in \<open>auto simp: list_ops\<close>)
    then show ?thesis using Nil Cons by (auto simp: list_ops)
  qed (use Nil in \<open>auto simp: list_ops\<close>)
next
  case (Cons a xs)
  let ?l = "last (a # xs)" and ?n = "hd (ys @ [q])"
  have "?l \<noteq> p" using Cons.prems(2) by (metis append_Cons distinct.simps(2) last_in_set
        list.distinct(1) Un_iff set_append)
  moreover have "?n \<noteq> a" using Cons.prems(2,3) by (cases ys) auto
  ultimately show ?case using Cons.IH [of a] Cons.prems by (auto simp: list_ops)
qed

lemma seg_rem_at:
  assumes "seg h p (xs @ x # ys) q" "distinct (p # xs @ x # ys)" "q \<notin> set (xs @ x # ys)"
  shows "seg (list_rem_at (last (p # xs)) (hd (ys @ [q])) h) p (xs @ ys) q"
  using assms
proof (induction xs arbitrary: p)
  case Nil
  show ?case
  proof (cases ys)
    case (Cons b bs)
    let ?h = "list_rem_at p b h"
    have "seg ?h b bs q = seg h b bs q"
      by (rule seg_cong) (use Nil Cons in \<open>auto simp: list_ops\<close>)
    then show ?thesis using Nil Cons by (auto simp: list_ops)
  qed (use Nil in \<open>auto simp: list_ops\<close>)
next
  case (Cons a xs)
  let ?l = "last (a # xs)" and ?n = "hd (ys @ [q])"
  have "?l \<noteq> p" using Cons.prems(2) by (metis append_Cons distinct.simps(2) last_in_set
        list.distinct(1) Un_iff set_append)
  moreover have "?n \<noteq> a" using Cons.prems(2,3) by (cases ys) auto
  ultimately show ?case using Cons.IH [of a] Cons.prems by (auto simp: list_ops)
qed

lemma seg_INIT_LIST:
  "n \<notin> set (p # q # xs) \<Longrightarrow> seg (INIT_LIST n h) p xs q = seg h p xs q"
  by (rule seg_cong) (auto simp: list_ops)

lemma dll_INIT_LIST [list_laws]: "dll (INIT_LIST d h) d []"
  by (simp add: dll_def list_ops)

lemma unlinked_INIT_LIST [list_laws]: "unlinked (INIT_LIST n h) n"
  by (simp add: unlinked_def list_ops)

lemma dll_add_at:
  assumes "dll h d (xs @ ys)" "x \<notin> set (d # xs @ ys)"
  shows "dll (list_add_at x (last (d # xs)) (hd (ys @ [d])) h) d (xs @ x # ys)"
  using assms seg_add_at [of h d xs ys d x] by (auto simp: dll_def)

lemma dll_list_add [list_laws]:
  "dll h d xs \<Longrightarrow> x \<notin> set (d # xs) \<Longrightarrow> dll (list_add x d h) d (x # xs)"
  using dll_add_at [of h d "[]" xs x] dll_first [of h d xs] by (simp add: list_add_def)

lemma dll_list_add_after:
  assumes "dll h d (xs @ y # ys)" "x \<notin> set (d # xs @ y # ys)"
  shows "dll (list_add x y h) d (xs @ y # x # ys)"
  using dll_add_at [of h d "xs @ [y]" ys x] dll_mid(2) [OF assms(1)] assms
  by (simp add: list_add_def)

lemma dll_list_add_before [list_laws]:
  "dll h d xs \<Longrightarrow> x \<notin> set (d # xs) \<Longrightarrow> dll (list_add_before x d h) d (xs @ [x])"
  using dll_add_at [of h d xs "[]" x] dll_last [of h d xs] by (simp add: list_add_before_def)

lemma dll_list_add_before_mid:
  assumes "dll h d (xs @ y # ys)" "x \<notin> set (d # xs @ y # ys)"
  shows "dll (list_add_before x y h) d (xs @ x # y # ys)"
  using dll_add_at [of h d xs "y # ys" x] dll_mid(1) [OF assms(1)] assms
  by (simp add: list_add_before_def)

lemma dll_list_rem_mid:
  assumes "dll h d (xs @ x # ys)"
  shows "dll (list_rem x h) d (xs @ ys)"
proof -
  have "seg (list_rem_at (lprev h x) (lnext h x) h) d (xs @ ys) d"
    using seg_rem_at [of h d xs x ys d] assms dll_mid [OF assms] by (simp add: dll_def)
  then show ?thesis
    using assms by (auto simp: dll_def list_rem_def seg_INIT_LIST)
qed

lemma dll_list_rem [list_laws]:
  assumes "dll h d xs" "x \<in> set xs"
  shows "dll (list_rem x h) d (remove1 x xs)"
proof -
  obtain ys zs where xs: "xs = ys @ x # zs" using assms(2) by (meson split_list)
  then have "remove1 x xs = ys @ zs" using assms(1) by (auto simp: dll_def remove1_append)
  then show ?thesis using dll_list_rem_mid assms(1) unfolding xs by metis
qed

lemma unlinked_list_rem [list_laws]: "unlinked (list_rem x h) x"
  by (simp add: list_rem_def unlinked_INIT_LIST)

lemma list_rem_unlinked: "unlinked h x \<Longrightarrow> list_rem x h = h"
  by (simp add: unlinked_def list_ops fun_upd_idem)

text \<open>Frame: a list none of whose nodes is touched keeps its contents.\<close>

lemma dll_cong:
  assumes "\<And>n. n \<in> set (d # xs) \<Longrightarrow> lnext h' n = lnext h n \<and> lprev h' n = lprev h n"
  shows "dll h' d xs = dll h d xs"
proof -
  have "seg h' d xs d = seg h d xs d" by (rule seg_cong) (use assms in auto)
  then show ?thesis by (simp add: dll_def)
qed

lemma INIT_LIST_frame [list_laws]:
  "n \<notin> set (d # xs) \<Longrightarrow> dll h d xs \<Longrightarrow> dll (INIT_LIST n h) d xs"
  by (auto simp: dll_def seg_INIT_LIST)

lemma list_add_at_frame:
  "set [x, p, n] \<inter> set (d # xs) = {} \<Longrightarrow> dll h d xs \<Longrightarrow> dll (list_add_at x p n h) d xs"
  by (subst dll_cong [of d xs _ h]) (auto simp: list_ops)

lemma dll_neighbours:
  assumes "dll h d xs" "y \<in> set (d # xs)"
  shows "lnext h y \<in> set (d # xs)" "lprev h y \<in> set (d # xs)"
proof -
  have "lnext h y \<in> set (d # xs) \<and> lprev h y \<in> set (d # xs)"
  proof (cases "y = d")
    case True
    then show ?thesis using dll_first [OF assms(1)] dll_last [OF assms(1)]
      by (cases xs) auto
  next
    case False
    then obtain ys zs where xs: "xs = ys @ y # zs" using assms(2) by (auto dest: split_list)
    have "last (d # ys) \<in> set (d # ys)" by (rule last_in_set) simp
    moreover have "hd (zs @ [d]) \<in> set (d # zs)" by (cases zs) auto
    ultimately show ?thesis using dll_mid [OF assms(1) [unfolded xs]] xs by auto
  qed
  then show "lnext h y \<in> set (d # xs)" "lprev h y \<in> set (d # xs)" by auto
qed

lemma list_add_frame [list_laws]:
  assumes "dll h e ys" "set (e # ys) \<inter> set (x # d # xs) = {}" "dll h d xs" "y \<in> set (d # xs)"
  shows "dll (list_add x y h) e ys" "dll (list_add_before x y h) e ys"
proof -
  have n: "lnext h y \<in> set (d # xs)" "lprev h y \<in> set (d # xs)"
    using dll_neighbours [OF assms(3,4)] .
  have "set [x, y, lnext h y] \<inter> set (e # ys) = {}" "set [x, lprev h y, y] \<inter> set (e # ys) = {}"
    using n assms(2,4) by auto
  then show "dll (list_add x y h) e ys" "dll (list_add_before x y h) e ys"
    unfolding list_add_def list_add_before_def using list_add_at_frame assms(1) by metis+
qed

lemma list_rem_frame [list_laws]:
  assumes "dll h e ys" "set (e # ys) \<inter> set (d # xs) = {}" "dll h d xs" "x \<in> set xs"
  shows "dll (list_rem x h) e ys"
proof -
  have "lnext h x \<in> set (d # xs)" "lprev h x \<in> set (d # xs)" "x \<in> set (d # xs)"
    using dll_neighbours [OF assms(3)] assms(4) by auto
  note near = this
  have "lnext (list_rem x h) n = lnext h n \<and> lprev (list_rem x h) n = lprev h n"
    if "n \<in> set (e # ys)" for n
  proof -
    have "n \<noteq> x" "n \<noteq> lnext h x" "n \<noteq> lprev h x"
      using near assms(2) that by (metis disjoint_iff)+
    then show ?thesis by (simp add: list_ops)
  qed
  then show ?thesis using assms(1) dll_cong by metis
qed

text \<open>Removal and initialisation change no node outside the list.\<close>

lemma list_rem_other:
  assumes "dll h d xs" "x \<in> set xs" "n \<notin> set (d # xs)"
  shows "lnext (list_rem x h) n = lnext h n" "lprev (list_rem x h) n = lprev h n"
proof -
  have "lnext h x \<in> set (d # xs)" "lprev h x \<in> set (d # xs)"
    using dll_neighbours [OF assms(1)] assms(2) by auto
  then have "n \<noteq> x" "n \<noteq> lnext h x" "n \<noteq> lprev h x" using assms by auto
  then show "lnext (list_rem x h) n = lnext h n" "lprev (list_rem x h) n = lprev h n"
    by (simp_all add: list_ops)
qed

lemma list_add_other:
  assumes "dll h d xs" "y \<in> set (d # xs)" "n \<notin> set (x # d # xs)"
  shows "lnext (list_add x y h) n = lnext h n" "lprev (list_add x y h) n = lprev h n"
proof -
  have "n \<noteq> lnext h y" "n \<noteq> y" "n \<noteq> x" using dll_neighbours [OF assms(1,2)] assms by auto
  then show "lnext (list_add x y h) n = lnext h n" "lprev (list_add x y h) n = lprev h n"
    by (simp_all add: list_ops)
qed

lemma INIT_LIST_unlinked: "unlinked h n \<Longrightarrow> INIT_LIST n h = h"
  by (simp add: unlinked_def list_ops fun_upd_idem)

lemma unlinked_INIT: "unlinked h n \<Longrightarrow> unlinked (INIT_LIST m h) n"
  by (auto simp: unlinked_def list_ops)

text \<open>Emptying a list.\<close>

lemma fold_list_rem:
  assumes "dll h d xs"
  shows "dll (fold list_rem xs h) d []"
    and "dll h e ys \<Longrightarrow> set (e # ys) \<inter> set (d # xs) = {} \<Longrightarrow> dll (fold list_rem xs h) e ys"
    and "n \<notin> set (d # xs) \<Longrightarrow> lnext (fold list_rem xs h) n = lnext h n \<and> lprev (fold list_rem xs h) n = lprev h n"
    and "x \<in> set xs \<Longrightarrow> unlinked (fold list_rem xs h) x"
proof -
  have "dll (fold list_rem xs h) d []
    \<and> (dll h e ys \<longrightarrow> set (e # ys) \<inter> set (d # xs) = {} \<longrightarrow> dll (fold list_rem xs h) e ys)
    \<and> (\<forall>n. n \<notin> set (d # xs) \<longrightarrow> lnext (fold list_rem xs h) n = lnext h n \<and> lprev (fold list_rem xs h) n = lprev h n)
    \<and> (\<forall>x \<in> set xs. unlinked (fold list_rem xs h) x)"
    using assms
  proof (induction xs arbitrary: h)
    case (Cons x xs)
    have d: "dll (list_rem x h) d xs" using dll_list_rem [OF Cons.prems, of x] by simp
    have x: "x \<notin> set (d # xs)" using Cons.prems by (auto simp: dll_def)
    have fr: "dll (list_rem x h) e ys" if "dll h e ys" "set (e # ys) \<inter> set (d # x # xs) = {}"
      using list_rem_frame [OF that(1) _ Cons.prems] that(2) by simp
    have nn: "lnext (list_rem x h) n = lnext h n \<and> lprev (list_rem x h) n = lprev h n"
      if "n \<notin> set (d # x # xs)" for n
      using list_rem_other [OF Cons.prems _ that] by simp
    note IH = Cons.IH [OF d]
    have "unlinked (fold list_rem xs (list_rem x h)) x"
      using IH x unlinked_list_rem [of x h] by (auto simp: unlinked_def)
    then show ?case using IH fr nn by auto
  qed simp
  then show "dll (fold list_rem xs h) d []"
    and "dll h e ys \<Longrightarrow> set (e # ys) \<inter> set (d # xs) = {} \<Longrightarrow> dll (fold list_rem xs h) e ys"
    and "n \<notin> set (d # xs) \<Longrightarrow> lnext (fold list_rem xs h) n = lnext h n \<and> lprev (fold list_rem xs h) n = lprev h n"
    and "x \<in> set xs \<Longrightarrow> unlinked (fold list_rem xs h) x"
    by blast+
qed

subsection \<open>Traversal\<close>

lemma list_items_seg: "seg h p xs q \<Longrightarrow> q \<notin> set xs \<Longrightarrow> list_items h q (lnext h p) = Some xs"
proof (induction xs arbitrary: p)
  case Nil
  then show ?case by (simp add: list_items.simps)
next
  case (Cons x xs)
  then show ?case using Cons.IH [of x] by (auto simp: list_items.simps [of h q x])
qed

lemma list_items_dll [list_laws]: "dll h d xs \<Longrightarrow> list_items h d (lnext h d) = Some xs"
  by (simp add: dll_def list_items_seg)

lemma list_find_seg:
  "seg h p xs q \<Longrightarrow> q \<notin> set xs \<Longrightarrow> list_find h q P (lnext h p) = Some (List.find P xs)"
proof (induction xs arbitrary: p)
  case Nil
  then show ?case by (simp add: list_find.simps)
next
  case (Cons x xs)
  then show ?case using Cons.IH [of x] by (auto simp: list_find.simps [of h q P x])
qed

lemma list_find_dll [list_laws]: "dll h d xs \<Longrightarrow> list_find h d P (lnext h d) = Some (List.find P xs)"
  by (simp add: dll_def list_find_seg)

subsection \<open>Ordered insertion\<close>

lemma list_add_before_other:
  assumes "dll h d xs" "y \<in> set (d # xs)" "n \<notin> set (x # d # xs)"
  shows "lnext (list_add_before x y h) n = lnext h n" "lprev (list_add_before x y h) n = lprev h n"
proof -
  have "n \<noteq> lprev h y" "n \<noteq> y" "n \<noteq> x" using dll_neighbours [OF assms(1,2)] assms by auto
  then show "lnext (list_add_before x y h) n = lnext h n" "lprev (list_add_before x y h) n = lprev h n"
    by (simp_all add: list_ops)
qed

lemma list_add_ordered_loop_dll:
  assumes "dll h d (xs @ ys)" "x \<notin> set (d # xs @ ys)"
  shows "\<exists>y \<in> set (d # xs @ ys). list_add_ordered_loop x d cmp (hd (ys @ [d])) h = Some (list_add_before x y h)
            \<and> dll (list_add_before x y h) d (xs @ ordered_insert cmp x ys)"
  using assms
proof (induction ys arbitrary: xs)
  case Nil
  then show ?case
    by (subst list_add_ordered_loop.simps) (auto intro: dll_list_add_before)
next
  case (Cons y ys)
  have yd: "y \<noteq> d" using Cons.prems(1) by (auto simp: dll_def)
  show ?case
  proof (cases "cmp x y \<le> 0")
    case True
    then show ?thesis using yd Cons.prems dll_list_add_before_mid [of h d xs y ys x]
      by (subst list_add_ordered_loop.simps) auto
  next
    case False
    have "lnext h y = hd (ys @ [d])" using dll_mid(2) Cons.prems(1) by fast
    then show ?thesis using False yd Cons.IH [of "xs @ [y]"] Cons.prems
      by (subst list_add_ordered_loop.simps) auto
  qed
qed

lemma list_add_ordered_dll [list_laws]:
  assumes "dll h d xs" "x \<notin> set (d # xs)"
  shows "\<exists>h'. list_add_ordered x d cmp h = Some h' \<and> dll h' d (ordered_insert cmp x xs)
    \<and> (\<forall>n. n \<notin> set (x # d # xs) \<longrightarrow> lnext h' n = lnext h n \<and> lprev h' n = lprev h n)"
proof (cases "xs = []")
  case True
  then have "lnext h d = d" using assms(1) by (simp add: dll_def)
  then show ?thesis using True dll_empty_iff [OF assms(1)] dll_list_add [OF assms]
    by (simp add: list_add_ordered_def) (simp add: list_ops)
next
  case False
  then obtain y where "y \<in> set (d # xs)" "list_add_ordered x d cmp h = Some (list_add_before x y h)"
    "dll (list_add_before x y h) d (ordered_insert cmp x xs)"
    using assms dll_empty_iff [OF assms(1)] dll_first [OF assms(1)]
      list_add_ordered_loop_dll [of h d "[]" xs x cmp]
    by (auto simp: list_add_ordered_def)
  then show ?thesis using list_add_before_other [OF assms(1)] by blast
qed

lemma map_ordered_insert:
  "ordered_insert cmp (f x) (map f xs) = map f (ordered_insert (\<lambda>a b. cmp (f a) (f b)) x xs)"
  by (induction xs) auto

lemma set_ordered_insert [simp]: "set (ordered_insert cmp x xs) = insert x (set xs)"
  by (induction xs) auto

lemma length_ordered_insert [simp]: "length (ordered_insert cmp x xs) = Suc (length xs)"
  by (induction xs) auto

text \<open>A comparison the ordered insertion can sort by.\<close>

definition total_cmp :: "('n \<Rightarrow> 'n \<Rightarrow> int) \<Rightarrow> bool" where
  "total_cmp cmp \<longleftrightarrow>
     (\<forall>a b. cmp a b \<le> 0 \<or> cmp b a \<le> 0) \<and> (\<forall>a b c. cmp a b \<le> 0 \<longrightarrow> cmp b c \<le> 0 \<longrightarrow> cmp a c \<le> 0)"

lemma sorted_ordered_insert:
  assumes "total_cmp cmp" "sorted_wrt (\<lambda>a b. cmp a b \<le> 0) xs"
  shows "sorted_wrt (\<lambda>a b. cmp a b \<le> 0) (ordered_insert cmp x xs)"
  using assms(2)
proof (induction xs)
  case (Cons y ys)
  then show ?case using assms(1) unfolding total_cmp_def by (auto; meson)
qed simp

subsection \<open>The interface the kernel's queues rely on\<close>

text \<open>
  The kernel keeps its queues (pending messages, waiting tasks, ready tasks) as lists that are
  appended to with \<^verbatim>\<open>list_add_before\<close> on the head and consumed from \<^verbatim>\<open>list_first\<close>. The locale
  states what those clients rely on, for any representation of the list; its lemmas are the FIFO
  behaviour.
\<close>

locale fifo_list =
  fixes rep :: "'h \<Rightarrow> 'n \<Rightarrow> 'n list \<Rightarrow> bool"
    and mk :: "'n \<Rightarrow> 'h \<Rightarrow> 'h"
    and isempty :: "'h \<Rightarrow> 'n \<Rightarrow> bool"
    and front :: "'h \<Rightarrow> 'n \<Rightarrow> 'n"
    and push :: "'n \<Rightarrow> 'n \<Rightarrow> 'h \<Rightarrow> 'h"
    and del :: "'n \<Rightarrow> 'h \<Rightarrow> 'h"
  assumes rep_mk: "rep (mk d h) d []"
    and rep_nodes: "rep h d xs \<Longrightarrow> distinct (d # xs)"
    and isempty_rep: "rep h d xs \<Longrightarrow> isempty h d \<longleftrightarrow> xs = []"
    and front_rep: "rep h d (x # xs) \<Longrightarrow> front h d = x"
    and push_rep: "rep h d xs \<Longrightarrow> x \<notin> set (d # xs) \<Longrightarrow> rep (push x d h) d (xs @ [x])"
    and del_rep: "rep h d xs \<Longrightarrow> x \<in> set xs \<Longrightarrow> rep (del x h) d (remove1 x xs)"
begin

lemma push_all:
  "rep h d xs \<Longrightarrow> distinct (d # xs @ ys) \<Longrightarrow> rep (fold (\<lambda>y. push y d) ys h) d (xs @ ys)"
proof (induction ys arbitrary: h xs)
  case (Cons y ys)
  have "rep (push y d h) d (xs @ [y])" using Cons.prems push_rep by auto
  then show ?case using Cons.IH [of "push y d h" "xs @ [y]"] Cons.prems by simp
qed simp

lemma pop_front: "rep h d (x # xs) \<Longrightarrow> \<not> isempty h d \<and> front h d = x \<and> rep (del (front h d) h) d xs"
  using isempty_rep front_rep del_rep [of h d "x # xs" x] by simp

text \<open>Emptying the list from the front yields what was pushed, in order.\<close>

fun popn :: "nat \<Rightarrow> 'n \<Rightarrow> 'h \<Rightarrow> 'n list \<times> 'h" where
  "popn 0 d h = ([], h)"
| "popn (Suc n) d h =
     (if isempty h d then ([], h)
      else let (xs, h') = popn n d (del (front h d) h) in (front h d # xs, h'))"

lemma popn_rep:
  "rep h d xs \<Longrightarrow> fst (popn n d h) = take n xs \<and> rep (snd (popn n d h)) d (drop n xs)"
proof (induction n arbitrary: h xs)
  case (Suc n)
  show ?case
  proof (cases xs)
    case Nil
    then show ?thesis using Suc.prems isempty_rep by auto
  next
    case (Cons y ys)
    then show ?thesis
      using pop_front [of h d y ys] Suc.IH [of "del y h" ys] Suc.prems
      by (auto simp: split_beta)
  qed
qed simp

lemma fifo:
  assumes "distinct (d # ys)"
  shows "fst (popn (length ys) d (fold (\<lambda>y. push y d) ys (mk d h))) = ys"
  using popn_rep [OF push_all [OF rep_mk]] assms by simp

end

lemma dll_list_first: "dll h d (x # xs) \<Longrightarrow> list_first h d = x"
  by (simp add: dll_def list_first_def)

interpretation ll: fifo_list dll INIT_LIST list_empty list_first list_add_before list_rem
  by unfold_locales
    (blast intro: dll_INIT_LIST dll_list_rem dll_list_first dll_list_add_before
      dest: dll_empty_iff | simp add: dll_def)+

subsection \<open>Properties\<close>

text \<open>A head \<open>0\<close> with the nodes 10 and 20.\<close>

definition demo_links :: "nat links" where
  "demo_links = list_add_before 20 0 (list_add 10 0 (INIT_LIST 0 \<lparr>lprev = id, lnext = id\<rparr>))"

lemma demo_links_dll: "dll demo_links 0 [10, 20]"
  by (simp add: demo_links_def dll_def list_ops)

text \<open>
  C1: The list operations implement the operations on sequences, the empty one included:
  initialisation, the emptiness test, a traversal, which ends and visits the elements in order,
  adding at the front and at the back, and removing any element, which leaves it unlinked.
\<close>

theorem list_ops_refine:
  assumes "dll h d xs" "x \<notin> set (d # xs)"
  shows "dll (INIT_LIST d h0) d [] \<and> (list_empty h d \<longleftrightarrow> xs = []) \<and> list_items h d (list_first h d) = Some xs
    \<and> dll (list_add x d h) d (x # xs) \<and> dll (list_add_before x d h) d (xs @ [x])
    \<and> (\<forall>y\<in>set xs. dll (list_rem y h) d (remove1 y xs) \<and> \<not> list_inserted (list_rem y h) y)"
  using assms
  by (simp add: dll_list_add dll_list_add_before dll_list_rem unlinked_inserted [symmetric] dll_INIT_LIST
      unlinked_list_rem dll_empty_iff list_first_def list_items_dll del: list.set)

theorem list_ops_refine_witness:
  "dll (list_add 5 0 demo_links) 0 [5, 10, 20] \<and> dll (list_add_before 5 0 demo_links) 0 [10, 20, 5]
    \<and> dll (list_rem 10 demo_links) 0 [20] \<and> \<not> list_inserted (list_rem 10 demo_links) 10
    \<and> \<not> list_empty demo_links 0 \<and> list_items demo_links 0 (list_first demo_links 0) = Some [10, 20]
    \<and> list_empty (INIT_LIST 0 demo_links) 0 \<and> dll (list_add 5 0 (INIT_LIST 0 demo_links)) 0 [5]"
proof -
  have "dll (INIT_LIST 0 demo_links) 0 []" using list_ops_refine [OF demo_links_dll, of 5 demo_links] by simp
  then show ?thesis using list_ops_refine [OF demo_links_dll, of 5 demo_links]
      list_ops_refine [of "INIT_LIST 0 demo_links" 0 "[]" 5 demo_links] by simp
qed

text \<open>
  C2: \<^verbatim>\<open>list_add_ordered\<close> returns on every list, inserts the new element and nothing else, and keeps
  a list that is sorted by the comparison sorted.
\<close>

theorem list_add_ordered_sorted:
  assumes "dll h d xs" "x \<notin> set (d # xs)" "total_cmp cmp" "sorted_wrt (\<lambda>a b. cmp a b \<le> 0) xs"
  shows "\<exists>h' ys. list_add_ordered x d cmp h = Some h' \<and> dll h' d ys \<and> set ys = insert x (set xs)
    \<and> length ys = Suc (length xs) \<and> sorted_wrt (\<lambda>a b. cmp a b \<le> 0) ys"
proof -
  obtain h' where h': "list_add_ordered x d cmp h = Some h'" "dll h' d (ordered_insert cmp x xs)"
    using list_add_ordered_dll [OF assms(1,2)] by blast
  show ?thesis
    by (intro exI conjI, rule h'(1), rule h'(2)) (simp_all add: sorted_ordered_insert [OF assms(3,4)])
qed

theorem list_add_ordered_sorted_witness:
  "\<exists>h' ys. list_add_ordered 15 0 (\<lambda>a b. int a - int b) demo_links = Some h' \<and> dll h' 0 ys
    \<and> set ys = insert 15 (set [10, 20]) \<and> length ys = Suc (length [10 :: nat, 20])
    \<and> sorted_wrt (\<lambda>a b. int a - int b \<le> 0) ys"
  by (rule list_add_ordered_sorted [OF demo_links_dll]) (auto simp: total_cmp_def)

text \<open>
  First in, first out: nodes that are queued with \<^verbatim>\<open>list_add_before\<close> on the head leave in the
  same order when they are taken with \<^verbatim>\<open>list_first\<close> and \<^verbatim>\<open>list_rem\<close>.
\<close>

theorem list_fifo:
  assumes "distinct (d # ys)"
  shows "fst (ll.popn (length ys) d (fold (\<lambda>y. list_add_before y d) ys (INIT_LIST d h))) = ys"
  using assms by (rule ll.fifo)

theorem list_fifo_witness:
  "fst (ll.popn (length [3, 1, 2 :: nat]) 0 (fold (\<lambda>y. list_add_before y 0) [3, 1, 2] (INIT_LIST 0 demo_links)))
     = [3, 1, 2]"
  by (rule list_fifo) simp

end
