(* ===== verification/Spinlock.thy ===== *)
theory Spinlock
  imports Prelude
begin

text \<open>
  The spin locks of \<^verbatim>\<open>kernel/src/spinlock.s\<close>, at the level of the x86 instructions they are written
  in. A lock is one 32 bit word. \<open>cmpxchg\<close> is the instruction \<^verbatim>\<open>lock cmpxchg [mem], edx\<close>: it
  compares \<^verbatim>\<open>eax\<close> with memory, and either stores \<^verbatim>\<open>edx\<close> or loads memory into \<^verbatim>\<open>eax\<close>.

  The first part is the sequential meaning that the other components use: taking a lock that is
  already held, with nobody else to release it, does not return. The second part lets any
  number of tasks run the code interleaved and shows mutual exclusion.
\<close>

record cpu =
  eax :: u32
  edx :: u32
  zf :: bool

definition cmpxchg :: "u32 \<Rightarrow> cpu \<Rightarrow> u32 \<times> cpu" where
  "cmpxchg mem c =
     (if mem = eax c then (edx c, c\<lparr>zf := True\<rparr>) else (mem, c\<lparr>eax := mem, zf := False\<rparr>))"

text \<open>One turn of \<^verbatim>\<open>.loop0\<close>: load the registers and try to exchange.\<close>

definition spin_attempt :: "u32 \<Rightarrow> cpu \<Rightarrow> u32 \<times> cpu" where
  "spin_attempt lock c = cmpxchg lock (c\<lparr>eax := 0, edx := 1\<rparr>)"

partial_function (option) spin_loop :: "u32 \<Rightarrow> cpu \<Rightarrow> u32 option" where
  "spin_loop lock c =
     (let (lock', c') = spin_attempt lock c in if \<not> zf c' then spin_loop lock' c' else Some lock')"

declare spin_loop.simps [code]

definition spin_lock :: "u32 \<Rightarrow> u32 option" where
  "spin_lock lock = spin_loop lock \<lparr>eax = 0, edx = 1, zf = False\<rparr>"

definition spin_unlock :: "u32 \<Rightarrow> u32" where
  "spin_unlock lock = (let (reg, mem) = (lock, 0) in mem)"

definition spin_init :: "u32 \<Rightarrow> u32" where
  "spin_init lock = spin_unlock lock"

text \<open>\<^verbatim>\<open>spin_try_lock\<close> returns what is in \<^verbatim>\<open>eax\<close> at \<^verbatim>\<open>ret\<close>.\<close>

definition spin_try_lock :: "u32 \<Rightarrow> u32 \<times> u32" where
  "spin_try_lock lock =
     (let (lock', c) = cmpxchg lock \<lparr>eax = 0, edx = 1, zf = False\<rparr>;
          c' = (if zf c then c\<lparr>eax := 1\<rparr> else c)
      in (lock', eax c'))"

subsection \<open>One task alone\<close>

lemma spin_loop_Some: "spin_loop lock c = Some lock' \<Longrightarrow> lock = 0 \<and> lock' = 1"
  by (induction rule: spin_loop.raw_induct [rotated 1, consumes 1])
    (auto simp: spin_attempt_def cmpxchg_def split: if_splits)

lemma spin_lock_free [simp]: "spin_lock 0 = Some 1"
  by (simp add: spin_lock_def spin_loop.simps spin_attempt_def cmpxchg_def)

lemma spin_lock_held: "lock \<noteq> 0 \<Longrightarrow> spin_lock lock = None"
  unfolding spin_lock_def using spin_loop_Some by (metis not_None_eq)

lemma spin_lock_eq: "spin_lock lock = (if lock = 0 then Some 1 else None)"
  by (simp add: spin_lock_held)

lemma spin_unlock_0 [simp]: "spin_unlock lock = 0"
  by (simp add: spin_unlock_def)

lemma spin_init_0 [simp]: "spin_init lock = 0"
  by (simp add: spin_init_def)

subsection \<open>Many tasks\<close>

datatype pc = Outside | Spinning cpu | Inside

record 't lock_state =
  lock_word :: u32
  pcs :: "'t \<Rightarrow> pc"

inductive lock_step :: "'t lock_state \<Rightarrow> 't lock_state \<Rightarrow> bool" where
  enter: "pcs s t = Outside \<Longrightarrow> lock_step s (s\<lparr>pcs := (pcs s)(t := Spinning c)\<rparr>)"
| spin: "pcs s t = Spinning c \<Longrightarrow> spin_attempt (lock_word s) c = (l, c') \<Longrightarrow> \<not> zf c' \<Longrightarrow>
     lock_step s (s\<lparr>lock_word := l, pcs := (pcs s)(t := Spinning c')\<rparr>)"
| acquire: "pcs s t = Spinning c \<Longrightarrow> spin_attempt (lock_word s) c = (l, c') \<Longrightarrow> zf c' \<Longrightarrow>
     lock_step s (s\<lparr>lock_word := l, pcs := (pcs s)(t := Inside)\<rparr>)"
| release: "pcs s t = Inside \<Longrightarrow>
     lock_step s (s\<lparr>lock_word := spin_unlock (lock_word s), pcs := (pcs s)(t := Outside)\<rparr>)"

definition lock_inv :: "'t lock_state \<Rightarrow> bool" where
  "lock_inv s \<longleftrightarrow> (lock_word s = 0 \<and> (\<forall>t. pcs s t \<noteq> Inside)
     \<or> lock_word s = 1 \<and> (\<exists>!t. pcs s t = Inside))"

definition lock_start :: "'t lock_state" where
  "lock_start = \<lparr>lock_word = spin_init 0, pcs = \<lambda>_. Outside\<rparr>"

lemma spin_attempt_cases:
  assumes "spin_attempt l c = (l', c')"
  shows "zf c' \<Longrightarrow> l = 0 \<and> l' = 1" "\<not> zf c' \<Longrightarrow> l \<noteq> 0 \<and> l' = l"
  using assms by (auto simp: spin_attempt_def cmpxchg_def split: if_splits)

lemma lock_inv_cong:
  "lock_word s' = lock_word s \<Longrightarrow> (\<And>u. pcs s' u = Inside \<longleftrightarrow> pcs s u = Inside) \<Longrightarrow> lock_inv s \<Longrightarrow> lock_inv s'"
  unfolding lock_inv_def by presburger

lemma lock_step_inv: "lock_step s s' \<Longrightarrow> lock_inv s \<Longrightarrow> lock_inv s'"
proof (induction rule: lock_step.induct)
  case (enter s t c)
  then show ?case by (auto elim!: lock_inv_cong [rotated 2] split: if_splits)
next
  case (spin s t c l c')
  then have "l = lock_word s" using spin_attempt_cases(2) by blast
  then show ?case using spin.hyps(1) spin.prems by (auto elim!: lock_inv_cong [rotated 2] split: if_splits)
next
  case (acquire s t c l c')
  then have "l = 1" "lock_word s = 0" using spin_attempt_cases(1) by blast+
  then show ?case using acquire.prems unfolding lock_inv_def by auto
next
  case (release s t)
  then show ?case by (auto simp: lock_inv_def)
qed

lemma lock_reach_inv: "lock_step\<^sup>*\<^sup>* lock_start s \<Longrightarrow> lock_inv s"
  by (induction rule: rtranclp_induct)
    (auto simp: lock_start_def lock_inv_def [of "\<lparr>lock_word = 0, pcs = \<lambda>_. Outside\<rparr>"]
      intro: lock_step_inv)

text \<open>
  C3: Mutual exclusion. However the tasks interleave, two tasks are never both between
  \<^verbatim>\<open>spin_lock\<close> and \<^verbatim>\<open>spin_unlock\<close> of one lock.
\<close>

theorem spin_mutual_exclusion:
  assumes "lock_step\<^sup>*\<^sup>* lock_start s" "pcs s t = Inside" "pcs s u = Inside"
  shows "t = u"
  using lock_reach_inv [OF assms(1)] assms(2,3) by (auto simp: lock_inv_def)

theorem spin_mutual_exclusion_witness:
  "let s1 = lock_start\<lparr>pcs := (pcs lock_start)(0 :: nat := Spinning \<lparr>eax = 0, edx = 0, zf = False\<rparr>)\<rparr>;
       s2 = s1\<lparr>lock_word := 1, pcs := (pcs s1)(0 := Inside)\<rparr>
   in pcs s2 0 = Inside \<and> lock_step\<^sup>*\<^sup>* lock_start s2 \<and> (\<forall>u. pcs s2 u = Inside \<longrightarrow> 0 = u)"
proof -
  let ?c = "\<lparr>eax = 0, edx = 0, zf = False\<rparr>"
  let ?s1 = "lock_start\<lparr>pcs := (pcs lock_start)(0 :: nat := Spinning ?c)\<rparr>"
  let ?s2 = "?s1\<lparr>lock_word := 1, pcs := (pcs ?s1)(0 := Inside)\<rparr>"
  have "lock_step lock_start ?s1" by (rule lock_step.enter) (simp add: lock_start_def)
  moreover have "lock_step ?s1 ?s2"
    by (rule lock_step.acquire [where c = ?c])
      (auto simp: lock_start_def spin_attempt_def cmpxchg_def)
  ultimately have r: "lock_step\<^sup>*\<^sup>* lock_start ?s2"
    by (rule converse_rtranclp_into_rtranclp [OF _ r_into_rtranclp])
  have i: "pcs ?s2 0 = Inside" by simp
  have "\<forall>u. pcs ?s2 u = Inside \<longrightarrow> 0 = u" using spin_mutual_exclusion [OF r i] by blast
  then show ?thesis unfolding Let_def using r i by blast
qed

text \<open>
  \<^verbatim>\<open>spin_try_lock\<close> is documented to return 0 when the lock is taken. It returns 1 whether or
  not it acquired the lock, because the failed exchange loads the lock word into \<^verbatim>\<open>eax\<close>.
\<close>

theorem spin_try_lock_result:
  "spin_try_lock 0 = (1, 1) \<and> spin_try_lock 1 = (1, 1)"
  by (simp add: spin_try_lock_def cmpxchg_def)

end
