(* ===== verification/Pmm.thy ===== *)
theory Pmm
  imports Prelude
begin

text \<open>
  The physical frame allocator of \<^verbatim>\<open>kernel/src/pmm.c\<close>: a bitmap with one bit for each 4 KiB frame,
  and an older stack of free frames. A page table entry (\<^verbatim>\<open>page_t\<close> of \<^verbatim>\<open>paging.h\<close>) is a record.

  \<open>None\<close> stands for a call that never returns: the code prints a message and executes
  \<^verbatim>\<open>cli; hlt\<close>, or it indexes the bitmap outside its bounds. Turning interrupts off and on around
  the search (\<^verbatim>\<open>disablei\<close>, \<^verbatim>\<open>restore\<close>) has no effect on a sequential run and is left out.
\<close>

definition PAGE_SIZE :: u32 where
  "PAGE_SIZE = 0x1000"

definition PAGE_ALIGN :: "u32 \<Rightarrow> u32" where
  "PAGE_ALIGN addr = addr AND 0xFFFFF000"

definition PAGE_OFFSET :: "u32 \<Rightarrow> u32" where
  "PAGE_OFFSET addr = addr AND 0x00000FFF"

definition PAGE_TABLE :: "u32 \<Rightarrow> u32" where
  "PAGE_TABLE addr = drop_bit 22 addr AND 0x3FF"

definition PAGE_PAGE :: "u32 \<Rightarrow> u32" where
  "PAGE_PAGE addr = drop_bit 12 addr AND 0x3FF"

definition PAGE_ALIGNED :: "u32 \<Rightarrow> bool" where
  "PAGE_ALIGNED addr \<longleftrightarrow> PAGE_OFFSET addr = 0"

record page =
  present :: bool
  rw :: bool
  user :: bool
  accessed :: bool
  dirty :: bool
  unused :: "7 word"
  frame :: "20 word"

record pmm =
  physical_frame :: "u32 list"
  physical_frame_count :: u32

lemma PAGE_ALIGN_push_bit: "PAGE_ALIGN a = push_bit 12 (drop_bit 12 a)"
proof -
  have "(0xFFFFF000 :: u32) = NOT (mask 12)" by (simp add: mask_eq_exp_minus_1)
  then have "PAGE_ALIGN a = a AND NOT (mask 12)" by (simp only: PAGE_ALIGN_def)
  also have "\<dots> = push_bit 12 (drop_bit 12 a)"
    by (rule bit_word_eqI) (auto simp: bit_simps)
  finally show ?thesis .
qed

subsection \<open>The bitmap\<close>

text \<open>The inner loop of \<^verbatim>\<open>find_free_frame\<close> over the bits \<open>m\<close> of word \<open>i\<close>.\<close>

function find_free_bit :: "u32 \<Rightarrow> nat \<Rightarrow> nat \<Rightarrow> nat option" where
  "find_free_bit w i m =
     (if m < 32 then
        (if i = 0 \<and> m = 0 then find_free_bit w i (Suc m)
         else if w AND push_bit m 1 = 0 then Some m
         else find_free_bit w i (Suc m))
      else None)"
  by auto
termination by (relation "measure (\<lambda>(w, i, m). 32 - m)") auto

declare find_free_bit.simps [simp del]

text \<open>The outer loop; \<open>n\<close> is \<^verbatim>\<open>physical_frame_count/32\<close>.\<close>

function find_free_frame_from :: "u32 list \<Rightarrow> nat \<Rightarrow> nat \<Rightarrow> u32 option" where
  "find_free_frame_from fs n i =
     (if i < n then
        (if length fs \<le> i then None
         else if fs ! i = 0xFFFFFFFF then find_free_frame_from fs n (Suc i)
         else case find_free_bit (fs ! i) i 0 of
                Some m \<Rightarrow> Some (word_of_nat i * 32 + word_of_nat m)
              | None \<Rightarrow> find_free_frame_from fs n (Suc i))
      else Some (- 1))"
  by pat_completeness auto
termination by (relation "measure (\<lambda>(fs, n, i). n - i)") auto

declare find_free_frame_from.simps [simp del]

definition find_free_frame :: "pmm \<Rightarrow> u32 option" where
  "find_free_frame s =
     find_free_frame_from (physical_frame s) (unat (physical_frame_count s div 32)) 0"

definition reserve_frame :: "u32 \<Rightarrow> pmm \<Rightarrow> pmm option" where
  "reserve_frame idx s =
     (let i = unat (idx div 32) in
      if i < length (physical_frame s)
      then Some (s\<lparr>physical_frame := (physical_frame s)
                     [i := physical_frame s ! i OR push_bit (unat (idx mod 32)) 1]\<rparr>)
      else None)"

definition release_frame :: "u32 \<Rightarrow> pmm \<Rightarrow> pmm option" where
  "release_frame idx s =
     (let i = unat (idx div 32) in
      if i < length (physical_frame s)
      then Some (s\<lparr>physical_frame := (physical_frame s)
                     [i := physical_frame s ! i AND NOT (push_bit (unat (idx mod 32)) 1)]\<rparr>)
      else None)"

definition alloc_frame :: "page \<Rightarrow> bool \<Rightarrow> bool \<Rightarrow> pmm \<Rightarrow> (page \<times> pmm) option" where
  "alloc_frame p usr wr s =
     (if present p then None
      else Option.bind (find_free_frame s) (\<lambda>idx.
        if idx = - 1 then None
        else Option.bind (reserve_frame idx s) (\<lambda>s'.
          Some (p\<lparr>present := True, user := usr, rw := wr,
                  frame := ucast (idx AND 0x000FFFFF)\<rparr>, s'))))"

definition clone_frame :: "page \<Rightarrow> page \<Rightarrow> page" where
  "clone_frame dst src =
     dst\<lparr>present := True, user := user src, rw := rw src, frame := frame src\<rparr>"

definition free_frame :: "page \<Rightarrow> pmm \<Rightarrow> (page \<times> pmm) option" where
  "free_frame p s =
     (if \<not> present p \<or> frame p = 0 then Some (p, s)
      else Option.bind (release_frame (ucast (frame p)) s) (\<lambda>s'.
        Some (p\<lparr>frame := 0, present := False\<rparr>, s')))"

subsection \<open>The frame stack\<close>

text \<open>
  \<^verbatim>\<open>phys_stack\<close> is an array of 16 bit frame numbers that grows downwards; \<open>sp\<close> is the index of
  \<^verbatim>\<open>phys_stack_ptr\<close> in it.
\<close>

record frame_stack =
  phys_stack :: "u16 list"
  sp :: nat

definition push_frame :: "u32 \<Rightarrow> frame_stack \<Rightarrow> frame_stack option" where
  "push_frame f s =
     (if sp s = 0 then None
      else Some (s\<lparr>sp := sp s - 1,
                   phys_stack := (phys_stack s)[sp s - 1 := ucast (f div 0x1000)]\<rparr>))"

definition pop_frame :: "frame_stack \<Rightarrow> (u32 \<times> frame_stack) option" where
  "pop_frame s =
     (if sp s = length (phys_stack s) then None
      else Some (ucast (phys_stack s ! sp s) * 0x1000, s\<lparr>sp := sp s + 1\<rparr>))"

subsection \<open>Meaning of the bitmap\<close>

definition frame_used :: "pmm \<Rightarrow> nat \<Rightarrow> bool" where
  "frame_used s f \<longleftrightarrow> bit (physical_frame s ! (f div 32)) (f mod 32)"

definition used_frames :: "pmm \<Rightarrow> nat set" where
  "used_frames s = {f. f < 32 * length (physical_frame s) \<and> frame_used s f}"

text \<open>
  The bitmap holds a bit for every frame of the count, and there are no more frames than a page
  table entry can name.
\<close>

definition pmm_inv :: "pmm \<Rightarrow> bool" where
  "pmm_inv s \<longleftrightarrow> length (physical_frame s) = unat (physical_frame_count s div 32)
     \<and> physical_frame_count s \<le> 0x100000"

lemma find_free_bit_eq:
  assumes "m < 32"
  shows "find_free_bit w i m =
    (if (i = 0 \<and> m = 0) \<or> bit w m then find_free_bit w i (Suc m) else Some m)"
  using assms by (subst find_free_bit.simps) (simp add: and_exp_eq_0_iff_not_bit)

lemma find_free_bit_32: "32 \<le> m \<Longrightarrow> find_free_bit w i m = None"
  by (subst find_free_bit.simps) simp

text \<open>The search finds the least clear bit, apart from bit 0 of word 0.\<close>

definition clear_bit :: "u32 \<Rightarrow> nat \<Rightarrow> nat \<Rightarrow> bool" where
  "clear_bit w i k \<longleftrightarrow> k < 32 \<and> \<not> bit w k \<and> \<not> (i = 0 \<and> k = 0)"

lemma find_free_bit_spec:
  "(case find_free_bit w i m of
      Some k \<Rightarrow> m \<le> k \<and> clear_bit w i k \<and> (\<forall>j. m \<le> j \<and> j < k \<longrightarrow> \<not> clear_bit w i j)
    | None \<Rightarrow> \<forall>j. m \<le> j \<longrightarrow> \<not> clear_bit w i j)"
proof (induction "32 - m" arbitrary: m)
  case 0
  then show ?case by (simp add: find_free_bit_32 clear_bit_def)
next
  case (Suc n)
  then have m: "m < 32" "n = 32 - Suc m" by auto
  show ?case
  proof (cases "clear_bit w i m")
    case True
    then show ?thesis using m find_free_bit_eq [OF m(1), of w i] by (auto simp: clear_bit_def)
  next
    case False
    then have eq: "find_free_bit w i m = find_free_bit w i (Suc m)"
      using find_free_bit_eq [OF m(1), of w i] m by (auto simp: clear_bit_def)
    have "\<not> clear_bit w i j" if "m \<le> j" "Suc m \<le> j \<longrightarrow> \<not> clear_bit w i j" for j
      using False that by (cases "m = j") auto
    then show ?thesis using Suc(1) [OF m(2)] unfolding eq
      by (cases "find_free_bit w i (Suc m)") auto
  qed
qed

text \<open>A frame the search may return: any clear bit but frame 0, which is never handed out.\<close>

definition free_idx :: "u32 list \<Rightarrow> nat \<Rightarrow> bool" where
  "free_idx fs f \<longleftrightarrow> f < 32 * length fs \<and> clear_bit (fs ! (f div 32)) (f div 32) (f mod 32)"

lemma free_idx_iff:
  "free_idx fs f \<longleftrightarrow> f < 32 * length fs \<and> f \<noteq> 0 \<and> \<not> bit (fs ! (f div 32)) (f mod 32)"
  by (auto simp: free_idx_def clear_bit_def)

lemma full_word_clear: "\<not> clear_bit 0xFFFFFFFF i k"
proof -
  have "(0xFFFFFFFF :: u32) = mask 32" by (simp add: mask_eq_exp_minus_1)
  then show ?thesis unfolding clear_bit_def by (simp only: bit_mask_iff) simp
qed

lemma word_idx_clear:
  assumes "\<And>j. \<not> clear_bit (fs ! i) i j" "32 * i \<le> f" "free_idx fs f"
  shows "32 * Suc i \<le> f"
proof (rule ccontr)
  assume "\<not> 32 * Suc i \<le> f"
  then have "f div 32 = i" using assms(2) by auto
  then show False using assms(1,3) by (auto simp: free_idx_def)
qed

lemma word_idx_unat:
  assumes "i < 0x8000" "m < 32"
  shows "unat (word_of_nat i * 32 + word_of_nat m :: u32) = 32 * i + m"
proof -
  have "(word_of_nat i * 32 + word_of_nat m :: u32) = word_of_nat (32 * i + m)" by simp
  then show ?thesis using assms by (simp only: unat_of_nat) simp
qed

text \<open>What the search from word \<open>i\<close> on returns: the least free frame, or \<open>-1\<close>.\<close>

definition search_ok :: "u32 list \<Rightarrow> nat \<Rightarrow> u32 \<Rightarrow> bool" where
  "search_ok fs lo w \<longleftrightarrow>
    (if w = - 1 then \<forall>f. lo \<le> f \<longrightarrow> \<not> free_idx fs f
     else lo \<le> unat w \<and> free_idx fs (unat w)
          \<and> (\<forall>f. lo \<le> f \<and> f < unat w \<longrightarrow> \<not> free_idx fs f))"

lemma search_ok_skip:
  assumes "search_ok fs hi w" "lo \<le> hi" "\<And>f. lo \<le> f \<Longrightarrow> free_idx fs f \<Longrightarrow> hi \<le> f"
  shows "search_ok fs lo w"
  using assms unfolding search_ok_def by (meson le_trans)

lemma find_free_frame_from_spec:
  assumes "length fs \<le> 0x8000" "i \<le> length fs"
  shows "\<exists>w. find_free_frame_from fs (length fs) i = Some w \<and> search_ok fs (32 * i) w"
  using assms(2)
proof (induction "length fs - i" arbitrary: i)
  case 0
  then have "i = length fs" by simp
  then show ?case by (subst find_free_frame_from.simps) (auto simp: free_idx_def search_ok_def)
next
  case (Suc n)
  then have i: "i < length fs" "n = length fs - Suc i" "Suc i \<le> length fs" by auto
  note IH = Suc(1) [OF i(2,3)]
  have skip: ?case
    if eq: "find_free_frame_from fs (length fs) i = find_free_frame_from fs (length fs) (Suc i)"
      and none: "\<And>j. \<not> clear_bit (fs ! i) i j"
  proof -
    have "32 * Suc i \<le> f" if "32 * i \<le> f" "free_idx fs f" for f
      using word_idx_clear [OF none that] .
    then have "search_ok fs (32 * i) w" if "search_ok fs (32 * Suc i) w" for w
      using that by (elim search_ok_skip) auto
    then show ?thesis using IH unfolding eq by blast
  qed
  show ?case
  proof (cases "fs ! i = 0xFFFFFFFF")
    case True
    then show ?thesis using i full_word_clear
      by (intro skip) (subst find_free_frame_from.simps, auto)
  next
    case False
    show ?thesis
    proof (cases "find_free_bit (fs ! i) i 0")
      case None
      then show ?thesis using i False find_free_bit_spec [where w = "fs ! i" and i = i and m = 0]
        by (intro skip) (subst find_free_frame_from.simps, auto)
    next
      case (Some m)
      let ?w = "word_of_nat i * 32 + word_of_nat m :: u32"
      have m: "clear_bit (fs ! i) i m" "\<And>j. j < m \<Longrightarrow> \<not> clear_bit (fs ! i) i j"
        using find_free_bit_spec [where w = "fs ! i" and i = i and m = 0] Some by auto
      then have u: "unat ?w = 32 * i + m" "m < 32"
        using word_idx_unat [of i m] i assms(1) by (auto simp: clear_bit_def)
      have w: "find_free_frame_from fs (length fs) i = Some ?w"
        using i False Some by (subst find_free_frame_from.simps) auto
      have "?w \<noteq> - 1" using u i assms(1) by (auto dest: arg_cong [where f = unat])
      moreover have "free_idx fs (32 * i + m)" using m u i by (auto simp: free_idx_def)
      moreover have "\<not> free_idx fs f" if "32 * i \<le> f" "f < 32 * i + m" for f
      proof -
        obtain r where "f = 32 * i + r" using le_Suc_ex \<open>32 * i \<le> f\<close> by blast
        then have "f div 32 = i" "f mod 32 < m" using that(2) u(2) by auto
        then show ?thesis using m(2) by (auto simp: free_idx_def)
      qed
      ultimately show ?thesis using w u by (auto simp: search_ok_def)
    qed
  qed
qed

subsection \<open>Allocating and freeing\<close>

lemma pmm_inv_length:
  assumes "pmm_inv s"
  shows "length (physical_frame s) \<le> 0x8000" "unat (physical_frame_count s div 32) = length (physical_frame s)"
  using assms by (auto simp: pmm_inv_def unat_div word_le_nat_alt)

lemma find_free_frame_spec:
  assumes "pmm_inv s"
  shows "\<exists>w. find_free_frame s = Some w \<and> search_ok (physical_frame s) 0 w"
  using find_free_frame_from_spec [of "physical_frame s" 0] pmm_inv_length [OF assms]
  by (simp add: find_free_frame_def)

lemma free_idx_used: "free_idx (physical_frame s) f \<longleftrightarrow>
    f < 32 * length (physical_frame s) \<and> f \<noteq> 0 \<and> f \<notin> used_frames s"
  by (auto simp: free_idx_iff used_frames_def frame_used_def)

lemma bit_u32:
  "bit (w OR 2 ^ n :: u32) k \<longleftrightarrow> bit w k \<or> k = n \<and> k < 32"
  "bit (w AND NOT (2 ^ n) :: u32) k \<longleftrightarrow> bit w k \<and> k \<noteq> n"
  by (auto simp: bit_simps dest: bit_imp_le_length)

lemma reserve_frame_used:
  assumes "unat w < 32 * length (physical_frame s)"
  shows "\<exists>s'. reserve_frame w s = Some s' \<and> used_frames s' = insert (unat w) (used_frames s)
     \<and> length (physical_frame s') = length (physical_frame s)
     \<and> physical_frame_count s' = physical_frame_count s"
proof -
  let ?i = "unat w div 32"
  let ?fs = "(physical_frame s)[?i := physical_frame s ! ?i OR push_bit (unat w mod 32) 1]"
  have i: "?i < length (physical_frame s)" using assms by auto
  have "bit (?fs ! (f div 32)) (f mod 32) \<longleftrightarrow> f = unat w \<or> frame_used s f"
    if "f < 32 * length (physical_frame s)" for f
    using i by (cases "f div 32 = ?i") (simp_all add: frame_used_def bit_u32 nat_eq_div_mod [of f _ 32] disj_commute conj_commute)
  then have "used_frames (s\<lparr>physical_frame := ?fs\<rparr>) = insert (unat w) (used_frames s)"
    using assms by (auto simp: used_frames_def frame_used_def)
  then show ?thesis using i by (simp add: reserve_frame_def unat_div unat_mod Let_def)
qed

lemma release_frame_used:
  assumes "unat w < 32 * length (physical_frame s)"
  shows "\<exists>s'. release_frame w s = Some s' \<and> used_frames s' = used_frames s - {unat w}
     \<and> length (physical_frame s') = length (physical_frame s)
     \<and> physical_frame_count s' = physical_frame_count s"
proof -
  let ?i = "unat w div 32"
  let ?fs = "(physical_frame s)[?i := physical_frame s ! ?i AND NOT (push_bit (unat w mod 32) 1)]"
  have i: "?i < length (physical_frame s)" using assms by auto
  have "bit (?fs ! (f div 32)) (f mod 32) \<longleftrightarrow> f \<noteq> unat w \<and> frame_used s f"
    if "f < 32 * length (physical_frame s)" for f
    using i by (cases "f div 32 = ?i") (simp_all add: frame_used_def bit_u32 nat_eq_div_mod [of f _ 32] disj_commute conj_commute)
  then have "used_frames (s\<lparr>physical_frame := ?fs\<rparr>) = used_frames s - {unat w}"
    using assms by (auto simp: used_frames_def frame_used_def)
  then show ?thesis using i by (simp add: release_frame_def unat_div unat_mod Let_def)
qed

lemma and_mask_u20:
  assumes "unat (w :: u32) < 2 ^ 20"
  shows "unat (ucast (w AND 0x000FFFFF) :: 20 word) = unat w"
proof -
  have "(0x000FFFFF :: u32) = mask 20" by (simp add: mask_eq_exp_minus_1)
  then have "unat (w AND 0x000FFFFF) = take_bit 20 (unat w)"
    by (simp only: take_bit_eq_mask [symmetric] unsigned_take_bit_eq)
  then show ?thesis using assms
    by (simp add: unsigned_ucast_eq take_bit_nat_eq_self)
qed

lemma alloc_frame_spec:
  assumes inv: "pmm_inv s" and free: "\<not> present p"
  shows "alloc_frame p usr wr s = None \<and> (\<forall>f. \<not> free_idx (physical_frame s) f)
    \<or> (\<exists>p' s'. alloc_frame p usr wr s = Some (p', s') \<and> pmm_inv s'
        \<and> free_idx (physical_frame s) (unat (frame p'))
        \<and> (\<forall>f < unat (frame p'). \<not> free_idx (physical_frame s) f)
        \<and> used_frames s' = insert (unat (frame p')) (used_frames s)
        \<and> physical_frame_count s' = physical_frame_count s
        \<and> present p' \<and> p' = p\<lparr>present := True, user := usr, rw := wr, frame := frame p'\<rparr>)"
proof -
  obtain w where w: "find_free_frame s = Some w" and ok: "search_ok (physical_frame s) 0 w"
    using find_free_frame_spec [OF inv] by blast
  show ?thesis
  proof (cases "w = - 1")
    case True
    then show ?thesis using w ok free by (simp add: alloc_frame_def search_ok_def)
  next
    case False
    have len: "length (physical_frame s) \<le> 0x8000" using pmm_inv_length [OF inv] by simp
    have fr: "free_idx (physical_frame s) (unat w)"
      "\<And>f. f < unat w \<Longrightarrow> \<not> free_idx (physical_frame s) f"
      using ok False by (auto simp: search_ok_def)
    then have lt: "unat w < 32 * length (physical_frame s)" by (simp add: free_idx_def)
    then have "unat w < 2 ^ 20" using len by simp
    then have u: "unat (ucast (w AND 0x000FFFFF) :: 20 word) = unat w"
      using and_mask_u20 by blast
    obtain s' where s': "reserve_frame w s = Some s'" "used_frames s' = insert (unat w) (used_frames s)"
      "length (physical_frame s') = length (physical_frame s)"
      "physical_frame_count s' = physical_frame_count s"
      using reserve_frame_used [OF lt] by blast
    then have "pmm_inv s'" using inv by (simp add: pmm_inv_def)
    then show ?thesis using w False free s' fr u by (simp add: alloc_frame_def)
  qed
qed

lemma free_frame_spec:
  assumes inv: "pmm_inv s" and used: "present p" "frame p \<noteq> 0" "unat (frame p) \<in> used_frames s"
  shows "\<exists>s'. free_frame p s = Some (p\<lparr>frame := 0, present := False\<rparr>, s') \<and> pmm_inv s'
    \<and> used_frames s' = used_frames s - {unat (frame p)}"
proof -
  have u: "unat (ucast (frame p) :: u32) = unat (frame p)"
    using unsigned_less [of "frame p", where 'a = nat] by (simp add: unsigned_ucast_eq take_bit_nat_eq_self)
  then have "unat (ucast (frame p) :: u32) < 32 * length (physical_frame s)"
    using used by (simp add: used_frames_def)
  then show ?thesis using release_frame_used [of "ucast (frame p)" s] used inv u
    by (auto simp: free_frame_def pmm_inv_def)
qed

subsection \<open>The interface of the frame allocator\<close>

text \<open>
  What the heap and the paging code rely on. They obtain frames for page table entries one at a
  time and give them back one at a time.
\<close>

locale frame_allocator =
  fixes inv :: "'s \<Rightarrow> bool"
    and used :: "'s \<Rightarrow> nat set"
    and mapped :: "'p \<Rightarrow> bool"
    and fr :: "'p \<Rightarrow> nat"
    and alloc :: "'p \<Rightarrow> 's \<Rightarrow> ('p \<times> 's) option"
    and release :: "'p \<Rightarrow> 's \<Rightarrow> ('p \<times> 's) option"
  assumes alloc_fresh: "inv s \<Longrightarrow> \<not> mapped p \<Longrightarrow> alloc p s = Some (p', s') \<Longrightarrow>
      inv s' \<and> mapped p' \<and> fr p' \<noteq> 0 \<and> fr p' \<notin> used s \<and> used s' = insert (fr p') (used s)"
    and release_used: "inv s \<Longrightarrow> mapped p \<Longrightarrow> fr p \<noteq> 0 \<Longrightarrow> fr p \<in> used s \<Longrightarrow>
      \<exists>p' s'. release p s = Some (p', s') \<and> inv s' \<and> \<not> mapped p' \<and> used s' = used s - {fr p}"
begin

fun alloc_all :: "'p list \<Rightarrow> 's \<Rightarrow> ('p list \<times> 's) option" where
  "alloc_all [] s = Some ([], s)"
| "alloc_all (p # ps) s =
     Option.bind (alloc p s) (\<lambda>(p', s'). Option.bind (alloc_all ps s') (\<lambda>(ps', s'').
       Some (p' # ps', s'')))"

fun release_all :: "'p list \<Rightarrow> 's \<Rightarrow> 's option" where
  "release_all [] s = Some s"
| "release_all (p # ps) s = Option.bind (release p s) (\<lambda>(p', s'). release_all ps s')"

text \<open>Pages that are allocated one after the other never share a frame.\<close>

lemma alloc_all_fresh:
  assumes "inv s" "\<forall>p \<in> set ps. \<not> mapped p" "alloc_all ps s = Some (ps', s')"
  shows "inv s' \<and> distinct (map fr ps') \<and> length ps' = length ps
    \<and> (\<forall>p \<in> set ps'. mapped p \<and> fr p \<noteq> 0 \<and> fr p \<notin> used s) \<and> used s' = fr ` set ps' \<union> used s"
  using assms
proof (induction ps arbitrary: s ps')
  case (Cons p ps)
  then obtain q t qs where q: "alloc p s = Some (q, t)" "alloc_all ps t = Some (qs, s')"
    "ps' = q # qs"
    by (auto simp: bind_eq_Some_iff)
  have a: "inv t \<and> mapped q \<and> fr q \<noteq> 0 \<and> fr q \<notin> used s \<and> used t = insert (fr q) (used s)"
    using alloc_fresh [OF Cons.prems(1) _ q(1)] Cons.prems(2) by simp
  then show ?case using Cons.IH [of t qs] Cons.prems(2) q by auto
qed simp

lemma release_all_used:
  assumes "inv s" "distinct (map fr ps)" "\<forall>p \<in> set ps. mapped p \<and> fr p \<noteq> 0 \<and> fr p \<in> used s"
  shows "\<exists>s'. release_all ps s = Some s' \<and> inv s' \<and> used s' = used s - fr ` set ps"
  using assms
proof (induction ps arbitrary: s)
  case (Cons p ps)
  then obtain q t where t: "release p s = Some (q, t)" "inv t" "used t = used s - {fr p}"
    using release_used [of s p] by auto
  have "\<forall>p' \<in> set ps. mapped p' \<and> fr p' \<noteq> 0 \<and> fr p' \<in> used t"
    using Cons.prems t(3) by (metis DiffI distinct.simps(2) image_eqI list.set_intros(2) list.set_map
        list.simps(9) singletonD)
  then show ?case using Cons.IH [of t] t Cons.prems by auto
qed simp

lemma alloc_release:
  assumes "inv s" "\<forall>p \<in> set ps. \<not> mapped p" "alloc_all ps s = Some (ps', s')"
  shows "\<exists>t. release_all ps' s' = Some t \<and> used t = used s"
proof -
  note a = alloc_all_fresh [OF assms]
  have "\<exists>t. release_all ps' s' = Some t \<and> inv t \<and> used t = used s' - fr ` set ps'"
    by (rule release_all_used) (use a in auto)
  moreover have "used s' - fr ` set ps' = used s" using a by auto
  ultimately show ?thesis by auto
qed

end

interpretation fa: frame_allocator pmm_inv used_frames present "\<lambda>p. unat (frame p)"
  "\<lambda>p. alloc_frame p usr wr" free_frame for usr wr
proof (unfold_locales, goal_cases)
  case (1 s p p' s')
  then show ?case using alloc_frame_spec [of s p usr wr] by (auto simp: free_idx_used)
next
  case (2 s p)
  then show ?case using free_frame_spec [of s p] by fastforce
qed

subsection \<open>Properties\<close>

definition demo_page :: page where
  "demo_page = \<lparr>present = False, rw = False, user = False, accessed = False, dirty = False,
     unused = 0, frame = 0\<rparr>"

text \<open>64 frames, of which the first 33 are in use.\<close>

definition demo_pmm :: pmm where
  "demo_pmm = \<lparr>physical_frame = [0xFFFFFFFF, 1], physical_frame_count = 64\<rparr>"

lemma demo_pmm_inv: "pmm_inv demo_pmm"
  by (simp add: pmm_inv_def demo_pmm_def)

lemma demo_pmm_free: "free_idx (physical_frame demo_pmm) 33"
  by (simp add: free_idx_iff demo_pmm_def)

text \<open>
  C4: \<^verbatim>\<open>alloc_frame\<close> on an unmapped entry gives it the lowest free frame other than frame 0, marks
  that frame and no other as used, and sets the access bits as asked. It halts exactly when
  there is no free frame.
\<close>

theorem alloc_frame_correct:
  assumes "pmm_inv s" "\<not> present p"
  shows "alloc_frame p usr wr s = None \<and> (\<forall>f. \<not> free_idx (physical_frame s) f)
    \<or> (\<exists>p' s'. alloc_frame p usr wr s = Some (p', s') \<and> pmm_inv s'
        \<and> free_idx (physical_frame s) (unat (frame p'))
        \<and> (\<forall>f < unat (frame p'). \<not> free_idx (physical_frame s) f)
        \<and> used_frames s' = insert (unat (frame p')) (used_frames s)
        \<and> p' = p\<lparr>present := True, user := usr, rw := wr, frame := frame p'\<rparr>)"
  using alloc_frame_spec [OF assms, of usr wr] by blast

theorem alloc_frame_correct_witness:
  "\<exists>p' s'. alloc_frame demo_page True False demo_pmm = Some (p', s') \<and> pmm_inv s'
    \<and> used_frames s' = insert (unat (frame p')) (used_frames demo_pmm)"
  using alloc_frame_correct [OF demo_pmm_inv, of demo_page True False] demo_pmm_free
  by (auto simp: demo_page_def)

text \<open>
  Entries that are given frames one after the other get different frames, none of them in use
  before, and freeing the entries makes the set of used frames what it was.
\<close>

theorem frames_alloc_free:
  assumes "pmm_inv s" "\<forall>p \<in> set ps. \<not> present p" "fa.alloc_all usr wr ps s = Some (ps', s')"
  shows "distinct (map (\<lambda>p. unat (frame p)) ps') \<and> (\<forall>p \<in> set ps'. unat (frame p) \<notin> used_frames s)
    \<and> (\<exists>t. fa.release_all ps' s' = Some t \<and> used_frames t = used_frames s)"
  using fa.alloc_all_fresh [OF assms] fa.alloc_release [OF assms] by auto

theorem frames_alloc_free_witness:
  "\<exists>ps' s'. fa.alloc_all False True [demo_page, demo_page] demo_pmm = Some (ps', s')
    \<and> distinct (map (\<lambda>p. unat (frame p)) ps')
    \<and> (\<exists>t. fa.release_all ps' s' = Some t \<and> used_frames t = used_frames demo_pmm)"
proof -
  have "\<not> Option.is_none (fa.alloc_all False True [demo_page, demo_page] demo_pmm)"
    by (simp add: fa.alloc_all.simps) code_simp
  then obtain ps' s' where "fa.alloc_all False True [demo_page, demo_page] demo_pmm = Some (ps', s')"
    by (auto simp: Option.is_none_def)
  with frames_alloc_free [OF demo_pmm_inv _ this] show ?thesis by (auto simp: demo_page_def)
qed

text \<open>
  On the frame stack, a frame that is pushed is the next one popped, for page-aligned
  addresses below 256 MiB, which is what 16 bits of frame number can hold.
\<close>

theorem push_pop_frame:
  assumes "push_frame f s = Some s'" "sp s \<le> length (phys_stack s)" "f = n * 0x1000" "n < 0x10000"
  shows "\<exists>t. pop_frame s' = Some (f, t) \<and> sp t = sp s"
proof -
  have n: "unat n < 65536" using assms(4) by (simp add: word_less_nat_alt)
  then have "unat (n * 0x1000) = unat n * 4096" by (simp add: unat_word_ariths)
  then have "n * 0x1000 div 0x1000 = n" by (simp add: word_unat_eq_iff unat_div)
  moreover have "ucast (ucast n :: u16) = n"
    using n by (simp add: word_unat_eq_iff unsigned_ucast_eq unsigned_take_bit_eq take_bit_nat_eq_self)
  ultimately show ?thesis using assms(1-3)
    by (auto simp: push_frame_def pop_frame_def split: if_splits)
qed

theorem push_pop_frame_witness:
  "\<exists>s' t. push_frame 0x5000 \<lparr>phys_stack = [0, 0], sp = 2\<rparr> = Some s' \<and> pop_frame s' = Some (0x5000, t) \<and> sp t = 2"
proof -
  let ?s = "\<lparr>phys_stack = [0, 0], sp = 2\<rparr>"
  obtain s' where s': "push_frame 0x5000 ?s = Some s'" by (simp add: push_frame_def)
  have "\<exists>t. pop_frame s' = Some (0x5000, t) \<and> sp t = sp ?s"
    by (rule push_pop_frame [OF s', where n = 5]) simp_all
  then show ?thesis using s' by auto
qed

end
