(* ===== verification/Kheap.thy ===== *)
theory Kheap
  imports LinkedList Pmm Spinlock
begin

text \<open>
  The kernel heap of \<^verbatim>\<open>kernel/src/kheap.c\<close> and \<^verbatim>\<open>kheap.h\<close>. The heap is a run of blocks between
  \<^verbatim>\<open>memstart\<close> and \<^verbatim>\<open>memend\<close>. A block starts with a 16 byte \<^verbatim>\<open>header_t\<close> and ends with an 8 byte
  \<^verbatim>\<open>footer_t\<close>; the free blocks (holes) are linked through their headers, sorted by size.

  Memory is split by field: \<open>hmagic\<close> and \<open>hsize\<close> are the header fields by the address of the header,
  \<open>fmagic\<close> and \<open>fheader\<close> the footer fields by the address of the footer, and \<open>hlinks\<close> the list
  nodes, with the node \<open>Hdr a\<close> for the \<^verbatim>\<open>link\<close> of the header at \<open>a\<close> and \<open>Holes\<close> for the head in
  \<^verbatim>\<open>heap_t\<close>. Addresses and sizes are 32 bit words, with the wrap-around of the C code. The theory
  shows that in every well-formed heap the headers and footers do not overlap, which is what
  makes the split sound. \<open>kpage\<close> are the page table entries of \<^verbatim>\<open>kerndir\<close> by page number, \<open>None\<close>
  where there is no table (\<^verbatim>\<open>get_page\<close> with \<^verbatim>\<open>create = 0\<close> returns a null pointer).

  A result \<open>None\<close> means that the call does not return: a spin lock that is never released, a loop
  over a damaged list, a null pointer, or the allocator's halt. A returned pointer is a
  \<open>u32 option\<close>, with \<open>None\<close> for \<^verbatim>\<open>NULL\<close>. Flushing the TLB and writing the log are not modelled.
\<close>

definition KHEAP_MAGIC :: u32 where
  "KHEAP_MAGIC = 0x2BADB002"

abbreviation sizeof_header :: u32 where
  "sizeof_header \<equiv> 16"

abbreviation sizeof_footer :: u32 where
  "sizeof_footer \<equiv> 8"

definition KHEAP_OVHD :: u32 where
  "KHEAP_OVHD = sizeof_header + sizeof_footer"

datatype hnode = Holes | Hdr u32

record heap =
  memstart :: u32
  memend :: u32
  memmax :: u32
  hlinks :: "hnode links"
  hmagic :: "u32 \<Rightarrow> u32"
  hsize :: "u32 \<Rightarrow> u32"
  fmagic :: "u32 \<Rightarrow> u32"
  fheader :: "u32 \<Rightarrow> u32"
  hlock :: u32
  kpage :: "u32 \<Rightarrow> page option"
  kpmm :: pmm

subsection \<open>The macros and inline functions of the header\<close>

definition heap_addr :: "u32 \<Rightarrow> u32" where
  "heap_addr head = head + sizeof_header"

definition heap_foot :: "heap \<Rightarrow> u32 \<Rightarrow> u32" where
  "heap_foot h head = head + hsize h head - sizeof_footer"

definition heap_head :: "u32 \<Rightarrow> u32" where
  "heap_head addr = addr - sizeof_header"

definition heap_is_first :: "heap \<Rightarrow> u32 \<Rightarrow> bool" where
  "heap_is_first h head \<longleftrightarrow> memstart h = head"

definition heap_is_last :: "heap \<Rightarrow> u32 \<Rightarrow> bool" where
  "heap_is_last h head \<longleftrightarrow> memend h = head + hsize h head"

definition head_prev :: "heap \<Rightarrow> u32 \<Rightarrow> u32" where
  "head_prev h head = fheader h (head - sizeof_footer)"

definition head_next :: "heap \<Rightarrow> u32 \<Rightarrow> u32" where
  "head_next h head = head + hsize h head"

text \<open>\<^verbatim>\<open>list_entry(item, header_t, link)\<close>; it is only applied to items, never to the head.\<close>

fun header_of :: "hnode \<Rightarrow> u32" where
  "header_of (Hdr a) = a"
| "header_of Holes = 0"

definition heap_compare_headers :: "heap \<Rightarrow> hnode \<Rightarrow> hnode \<Rightarrow> int" where
  "heap_compare_headers h v1 v2 =
     (if hsize h (header_of v1) < hsize h (header_of v2) then - 1
      else if hsize h (header_of v1) = hsize h (header_of v2) then 0
      else 1)"

definition head_init :: "u32 \<Rightarrow> u32 \<Rightarrow> heap \<Rightarrow> heap" where
  "head_init head sz h =
     (let h1 = h\<lparr>hsize := (hsize h)(head := sz)\<rparr>;
          h2 = h1\<lparr>hmagic := (hmagic h1)(head := KHEAP_MAGIC)\<rparr>;
          h3 = h2\<lparr>hlinks := INIT_LIST (Hdr head) (hlinks h2)\<rparr>;
          h4 = h3\<lparr>fheader := (fheader h3)(heap_foot h3 head := head)\<rparr>
      in h4\<lparr>fmagic := (fmagic h4)(heap_foot h4 head := KHEAP_MAGIC)\<rparr>)"

definition heap_add_hole :: "u32 \<Rightarrow> heap \<Rightarrow> heap option" where
  "heap_add_hole head h =
     (let h1 = head_init head (hsize h head) h in
      Option.bind (list_add_ordered (Hdr head) Holes (heap_compare_headers h1) (hlinks h1)) (\<lambda>l.
        Some (h1\<lparr>hlinks := l\<rparr>)))"

definition unlink_header :: "u32 \<Rightarrow> heap \<Rightarrow> heap" where
  "unlink_header head h = h\<lparr>hlinks := list_rem (Hdr head) (hlinks h)\<rparr>"

subsection \<open>Freeing\<close>

partial_function (option) heap_merge_backwards :: "u32 \<Rightarrow> heap \<Rightarrow> (u32 \<times> heap) option" where
  "heap_merge_backwards head h =
     (if \<not> heap_is_first h head \<and> list_inserted (hlinks h) (Hdr (head_prev h head)) then
        let prv = head_prev h head;
            h1 = unlink_header prv h;
            h2 = head_init prv (hsize h1 prv + hsize h1 head) h1
        in heap_merge_backwards prv h2
      else Some (head, h))"

partial_function (option) heap_merge_forwards :: "u32 \<Rightarrow> heap \<Rightarrow> heap option" where
  "heap_merge_forwards head h =
     (if \<not> heap_is_last h head \<and> list_inserted (hlinks h) (Hdr (head_next h head)) then
        let nxt = head_next h head;
            h1 = unlink_header nxt h;
            h2 = head_init head (hsize h1 head + hsize h1 nxt) h1
        in heap_merge_forwards head h2
      else Some h)"

declare heap_merge_backwards.simps [code] heap_merge_forwards.simps [code]

definition heap_free_nolock :: "u32 \<Rightarrow> heap \<Rightarrow> heap option" where
  "heap_free_nolock addr h =
     (if addr < memstart h \<or> memend h \<le> addr then Some h
      else
        Option.bind (heap_merge_backwards (heap_head addr) h) (\<lambda>(head, h1).
        Option.bind (heap_merge_forwards head h1) (\<lambda>h2.
          if hmagic h2 head \<noteq> KHEAP_MAGIC then Some h2
          else
            let h3 = h2\<lparr>fmagic := (fmagic h2)(heap_foot h2 head := KHEAP_MAGIC)\<rparr>;
                h4 = h3\<lparr>fheader := (fheader h3)(heap_foot h3 head := head)\<rparr>;
                h5 = h4\<lparr>hlinks := INIT_LIST (Hdr head) (hlinks h4)\<rparr>
            in heap_add_hole head h5)))"

definition heap_free :: "u32 \<Rightarrow> heap \<Rightarrow> heap option" where
  "heap_free addr h =
     Option.bind (spin_lock (hlock h)) (\<lambda>l.
     Option.bind (heap_free_nolock addr (h\<lparr>hlock := l\<rparr>)) (\<lambda>h1.
       Some (h1\<lparr>hlock := spin_unlock (hlock h1)\<rparr>)))"

subsection \<open>Growing\<close>

text \<open>The loop of \<^verbatim>\<open>heap_expand\<close> that backs the new pages with frames, from page \<open>p\<close> on.\<close>

primrec heap_map_pages :: "nat \<Rightarrow> u32 \<Rightarrow> heap \<Rightarrow> heap option" where
  "heap_map_pages 0 p h = Some h"
| "heap_map_pages (Suc n) p h =
     (let a = memend h + p * PAGE_SIZE in
      case kpage h (drop_bit 12 a) of
        None \<Rightarrow> None
      | Some pg \<Rightarrow>
          Option.bind (alloc_frame pg False True (kpmm h)) (\<lambda>(pg', s).
            heap_map_pages n (p + 1)
              (h\<lparr>kpage := (kpage h)(drop_bit 12 a \<mapsto> pg'), kpmm := s\<rparr>)))"

definition expand_amount :: "u32 \<Rightarrow> heap \<Rightarrow> u32" where
  "expand_amount ammnt h =
     (let a1 = (if PAGE_OFFSET ammnt \<noteq> 0 then PAGE_ALIGN ammnt + 0x1000 else ammnt)
      in if memmax h < memstart h + a1 then memmax h - memstart h else a1)"

definition heap_expand :: "u32 \<Rightarrow> heap \<Rightarrow> (u32 option \<times> heap) option" where
  "heap_expand ammnt h =
     (if memmax h = memend h then Some (None, h)
      else
        let a = expand_amount ammnt h;
            npages = a div PAGE_SIZE
        in Option.bind (heap_map_pages (unat npages) 0 h) (\<lambda>h1.
             let head = memend h1;
                 h2 = head_init head a h1;
                 h3 = h2\<lparr>memend := memend h2 + a\<rparr>
             in Option.bind (heap_free_nolock (heap_addr head) h3) (\<lambda>h4. Some (Some head, h4))))"

subsection \<open>Allocating\<close>

text \<open>The part of \<^verbatim>\<open>heap_trim\<close> that splits a hole so that the rest starts on a page boundary.\<close>

definition heap_align :: "u32 \<Rightarrow> u32 \<Rightarrow> heap \<Rightarrow> (u32 option \<times> heap) option" where
  "heap_align head reqd h =
     (let temp = PAGE_ALIGN head + PAGE_SIZE - sizeof_header in
      if temp - head \<le> KHEAP_OVHD then Some (None, h)
      else if hsize h head - (temp - head) < reqd + KHEAP_OVHD then Some (None, h)
      else
        let h1 = head_init temp (hsize h head - (temp - head)) h;
            h2 = unlink_header head h1;
            h3 = head_init head (temp - head) h2
        in Option.bind (heap_free_nolock (heap_addr head) h3) (\<lambda>h4.
           Option.bind (heap_add_hole temp h4) (\<lambda>h5. Some (Some temp, h5))))"

text \<open>The part that returns what is left over to the hole list.\<close>

definition heap_cut :: "u32 \<Rightarrow> u32 \<Rightarrow> heap \<Rightarrow> heap option" where
  "heap_cut head reqd h =
     (if hsize h head < reqd + KHEAP_OVHD + KHEAP_OVHD then Some h
      else
        let temp = head + reqd + KHEAP_OVHD;
            h1 = head_init temp (hsize h head - reqd - KHEAP_OVHD) h;
            h2 = unlink_header head h1;
            h3 = head_init head (reqd + KHEAP_OVHD) h2
        in Option.bind (heap_free_nolock (heap_addr temp) h3) (\<lambda>h4. heap_add_hole head h4))"

definition heap_trim :: "u32 \<Rightarrow> u32 \<Rightarrow> bool \<Rightarrow> heap \<Rightarrow> (u32 option \<times> heap) option" where
  "heap_trim head reqd align h =
     (if hsize h head \<le> reqd + KHEAP_OVHD * 2 \<and> \<not> align then Some (Some head, h)
      else
        Option.bind
          (if align \<and> \<not> PAGE_ALIGNED (head + sizeof_header) then heap_align head reqd h
           else Some (Some head, h))
          (\<lambda>(r, h1). case r of
             None \<Rightarrow> Some (None, h1)
           | Some head' \<Rightarrow> Option.bind (heap_cut head' reqd h1) (\<lambda>h2. Some (Some head', h2))))"

text \<open>
  \<^verbatim>\<open>heap_locate\<close>, with the loop and the two recursive calls as one recursion; a recursive call
  starts again at the first hole.
\<close>

partial_function (option) heap_locate_from ::
  "u32 \<Rightarrow> bool \<Rightarrow> hnode \<Rightarrow> heap \<Rightarrow> (u32 option \<times> heap) option" where
  "heap_locate_from reqd align item h =
     (if item \<noteq> Holes then
        let head = header_of item in
        if hmagic h head \<noteq> KHEAP_MAGIC \<or> fmagic h (heap_foot h head) \<noteq> KHEAP_MAGIC then
          let h1 = h\<lparr>hlinks := list_rem item (hlinks h)\<rparr>
          in heap_locate_from reqd align (lnext (hlinks h1) Holes) h1
        else if reqd + KHEAP_OVHD \<le> hsize h head then
          Option.bind (heap_trim head reqd align h) (\<lambda>(r, h1). case r of
            None \<Rightarrow> heap_locate_from reqd align (lnext (hlinks h1) item) h1
          | Some temp \<Rightarrow> Some (Some temp, h1))
        else heap_locate_from reqd align (lnext (hlinks h) item) h
      else
        Option.bind (heap_expand (reqd + KHEAP_OVHD) h) (\<lambda>(r, h1). case r of
          None \<Rightarrow> Some (None, h1)
        | Some head \<Rightarrow>
            if hsize h1 head < reqd + KHEAP_OVHD then Some (None, h1)
            else heap_locate_from reqd align (lnext (hlinks h1) Holes) h1))"

declare heap_locate_from.simps [code]

definition heap_locate :: "u32 \<Rightarrow> bool \<Rightarrow> heap \<Rightarrow> (u32 option \<times> heap) option" where
  "heap_locate reqd align h = heap_locate_from reqd align (lnext (hlinks h) Holes) h"

definition heap_alloc :: "u32 \<Rightarrow> bool \<Rightarrow> heap \<Rightarrow> (u32 option \<times> heap) option" where
  "heap_alloc reqd align h =
     Option.bind (spin_lock (hlock h)) (\<lambda>l.
     Option.bind (heap_locate reqd align (h\<lparr>hlock := l\<rparr>)) (\<lambda>(r, h1). case r of
       None \<Rightarrow> Some (None, h1)
     | Some head \<Rightarrow>
         let h2 = unlink_header head h1
         in Some (Some (heap_addr head), h2\<lparr>hlock := spin_unlock (hlock h2)\<rparr>)))"

definition heap_init :: "u32 \<Rightarrow> u32 \<Rightarrow> heap \<Rightarrow> heap option" where
  "heap_init start stop h =
     (let h1 = h\<lparr>memstart := start, memend := start, memmax := stop, hlock := spin_init (hlock h)\<rparr>;
          h2 = h1\<lparr>hlinks := INIT_LIST Holes (hlinks h1)\<rparr>
      in Option.bind (heap_expand 1 h2) (\<lambda>(r, h3). Some h3))"

end
