(* ===== verification/KheapInv.thy ===== *)
theory KheapInv
  imports Kheap
begin

text \<open>
  Well-formed heaps. \<open>tiles h bs s e\<close> says that the blocks at \<open>bs\<close> cover the addresses from \<open>s\<close> to
  \<open>e\<close> without gap or overlap and that each carries a correct header and footer. \<open>heap_wf\<close> adds
  the hole list: it holds some of the blocks, sorted by size, and every other block is allocated
  and linked nowhere. The lemmas show that merging, splitting, freeing and trimming keep it.
\<close>

definition block_ok :: "heap \<Rightarrow> u32 \<Rightarrow> bool" where
  "block_ok h b \<longleftrightarrow> hmagic h b = KHEAP_MAGIC \<and> fmagic h (heap_foot h b) = KHEAP_MAGIC
     \<and> fheader h (heap_foot h b) = b \<and> 24 \<le> unat (hsize h b)"

fun tiles :: "heap \<Rightarrow> u32 list \<Rightarrow> nat \<Rightarrow> nat \<Rightarrow> bool" where
  "tiles h [] s e \<longleftrightarrow> s = e"
| "tiles h (b # bs) s e \<longleftrightarrow> unat b = s \<and> block_ok h b \<and> s + unat (hsize h b) \<le> e
     \<and> tiles h bs (s + unat (hsize h b)) e"

definition sorted_holes :: "heap \<Rightarrow> u32 list \<Rightarrow> bool" where
  "sorted_holes h hs \<longleftrightarrow> sorted_wrt (\<lambda>a b. hsize h a \<le> hsize h b) hs"

definition heap_wf :: "heap \<Rightarrow> u32 list \<Rightarrow> u32 list \<Rightarrow> bool" where
  "heap_wf h bs hs \<longleftrightarrow> tiles h bs (unat (memstart h)) (unat (memend h))
     \<and> dll (hlinks h) Holes (map Hdr hs) \<and> set hs \<subseteq> set bs
     \<and> (\<forall>b \<in> set bs - set hs. unlinked (hlinks h) (Hdr b))
     \<and> sorted_holes h hs"

subsection \<open>Addresses\<close>

lemma unat_add_u32: "unat (a :: u32) + unat b < 2 ^ 32 \<Longrightarrow> unat (a + b) = unat a + unat b"
  by (simp add: unat_word_ariths)

lemma unat_sub_u32: "unat (b :: u32) \<le> unat a \<Longrightarrow> unat (a - b) = unat a - unat b"
  by (simp add: unat_sub word_le_nat_alt)

lemma unat_lt_u32 [simp]: "unat (a :: u32) < 4294967296"
  using unsigned_less [of a, where 'a = nat] by simp

text \<open>Where a block ends and where its footer is.\<close>

lemma block_end:
  assumes "unat b + unat (hsize h b) \<le> e" "e < 2 ^ 32"
  shows "unat (b + hsize h b) = unat b + unat (hsize h b)"
  using assms by (intro unat_add_u32) simp

lemma unat_foot:
  assumes "unat b + unat sz < 2 ^ 32" "24 \<le> unat sz"
  shows "unat (b + sz - sizeof_footer) = unat b + unat sz - 8"
proof -
  have "unat (b + sz) = unat b + unat sz" using assms by (intro unat_add_u32) simp
  then show ?thesis using assms by (subst unat_sub_u32) simp_all
qed

subsection \<open>Tilings\<close>

lemma tiles_bounds: "tiles h bs s e \<Longrightarrow> s \<le> e"
  by (induction bs arbitrary: s) fastforce+

lemma tiles_append: "tiles h (xs @ ys) s e \<longleftrightarrow> (\<exists>m. tiles h xs s m \<and> m \<le> e \<and> tiles h ys m e)"
proof (induction xs arbitrary: s)
  case Nil
  then show ?case using tiles_bounds by auto
next
  case (Cons x xs)
  have "s + unat (hsize h x) \<le> m" if "tiles h xs (s + unat (hsize h x)) m" for m
    using tiles_bounds [OF that] .
  then show ?case using Cons.IH [of "s + unat (hsize h x)"] by (auto intro: le_trans)
qed

lemma tiles_addr: "tiles h bs s e \<Longrightarrow> b \<in> set bs \<Longrightarrow> s \<le> unat b \<and> unat b + unat (hsize h b) \<le> e"
proof (induction bs arbitrary: s)
  case (Cons a bs)
  then show ?case
    using Cons.IH [of "s + unat (hsize h a)"] by (auto dest: add_leD1)
qed simp

lemma tiles_block_ok: "tiles h bs s e \<Longrightarrow> b \<in> set bs \<Longrightarrow> block_ok h b"
  by (induction bs arbitrary: s) auto

lemma tiles_distinct: "tiles h bs s e \<Longrightarrow> distinct bs"
proof (induction bs arbitrary: s)
  case (Cons a bs)
  have "a \<notin> set bs"
    using tiles_addr [of h bs "s + unat (hsize h a)" e a] Cons.prems by (auto simp: block_ok_def)
  then show ?case using Cons by auto
qed simp

text \<open>Splitting the tiling at a block.\<close>

lemma tiles_split:
  "tiles h (xs @ b # ys) s e \<longleftrightarrow> tiles h xs s (unat b) \<and> block_ok h b
     \<and> unat b + unat (hsize h b) \<le> e \<and> tiles h ys (unat b + unat (hsize h b)) e"
  by (auto simp: tiles_append)

text \<open>A tiling only depends on the header and footer words inside its range.\<close>

definition same_on :: "heap \<Rightarrow> heap \<Rightarrow> nat \<Rightarrow> nat \<Rightarrow> bool" where
  "same_on h h' s e \<longleftrightarrow> (\<forall>a. s \<le> unat a \<and> unat a < e \<longrightarrow>
     hmagic h' a = hmagic h a \<and> hsize h' a = hsize h a
     \<and> fmagic h' a = fmagic h a \<and> fheader h' a = fheader h a)"

lemma same_on_block:
  assumes "same_on h h' s e" "block_ok h b" "s \<le> unat b" "unat b + unat (hsize h b) \<le> e" "e < 2 ^ 32"
  shows "block_ok h' b" "hsize h' b = hsize h b"
proof -
  have big: "24 \<le> unat (hsize h b)" using assms(2) by (simp add: block_ok_def)
  have f: "unat (heap_foot h b) = unat b + unat (hsize h b) - 8"
    unfolding heap_foot_def using assms(4,5) big by (intro unat_foot) auto
  have b: "s \<le> unat b \<and> unat b < e" and ft: "s \<le> unat (heap_foot h b) \<and> unat (heap_foot h b) < e"
    using assms(3,4) big f by auto
  have hb: "hsize h' b = hsize h b" "hmagic h' b = hmagic h b"
    using assms(1) b by (auto simp: same_on_def)
  then have hf: "heap_foot h' b = heap_foot h b" by (simp add: heap_foot_def)
  have "fmagic h' (heap_foot h b) = fmagic h (heap_foot h b)"
    "fheader h' (heap_foot h b) = fheader h (heap_foot h b)"
    using assms(1) ft by (auto simp: same_on_def)
  then show "block_ok h' b" "hsize h' b = hsize h b"
    using assms(2) hb hf by (auto simp: block_ok_def)
qed

lemma same_on_mono: "same_on h h' s e \<Longrightarrow> s \<le> s' \<Longrightarrow> e' \<le> e \<Longrightarrow> same_on h h' s' e'"
  by (auto simp: same_on_def)

lemma tiles_same:
  assumes "tiles h bs s e" "same_on h h' s e" "e < 2 ^ 32"
  shows "tiles h' bs s e"
  using assms
proof (induction bs arbitrary: s)
  case (Cons b bs)
  then have b: "block_ok h' b" "hsize h' b = hsize h b"
    using same_on_block [of h h' s e b] by auto
  have "same_on h h' (s + unat (hsize h b)) e" using Cons.prems(2) by (rule same_on_mono) auto
  then show ?case using Cons b by auto
qed simp

subsection \<open>Writing a header and a footer\<close>

lemma head_init_sel [simp]:
  "hsize (head_init b sz h) = (hsize h)(b := sz)"
  "hmagic (head_init b sz h) = (hmagic h)(b := KHEAP_MAGIC)"
  "hlinks (head_init b sz h) = INIT_LIST (Hdr b) (hlinks h)"
  "fheader (head_init b sz h) = (fheader h)(b + sz - sizeof_footer := b)"
  "fmagic (head_init b sz h) = (fmagic h)(b + sz - sizeof_footer := KHEAP_MAGIC)"
  "memstart (head_init b sz h) = memstart h"
  "memend (head_init b sz h) = memend h"
  "memmax (head_init b sz h) = memmax h"
  "hlock (head_init b sz h) = hlock h"
  "kpage (head_init b sz h) = kpage h"
  "kpmm (head_init b sz h) = kpmm h"
  by (simp_all add: head_init_def heap_foot_def Let_def)

lemma unlink_header_sel [simp]:
  "hsize (unlink_header b h) = hsize h" "hmagic (unlink_header b h) = hmagic h"
  "fheader (unlink_header b h) = fheader h" "fmagic (unlink_header b h) = fmagic h"
  "hlinks (unlink_header b h) = list_rem (Hdr b) (hlinks h)"
  "memstart (unlink_header b h) = memstart h" "memend (unlink_header b h) = memend h"
  "memmax (unlink_header b h) = memmax h" "hlock (unlink_header b h) = hlock h"
  "kpage (unlink_header b h) = kpage h" "kpmm (unlink_header b h) = kpmm h"
  by (simp_all add: unlink_header_def)

text \<open>The memory words of two heaps that differ only in other fields.\<close>

definition same_words :: "heap \<Rightarrow> heap \<Rightarrow> bool" where
  "same_words h h' \<longleftrightarrow> hsize h' = hsize h \<and> hmagic h' = hmagic h \<and> fheader h' = fheader h
     \<and> fmagic h' = fmagic h"

lemma same_words_tiles: "same_words h h' \<Longrightarrow> tiles h' bs s e = tiles h bs s e"
  by (induction bs arbitrary: s) (auto simp: same_words_def block_ok_def heap_foot_def)

lemma block_ok_head_init: "24 \<le> unat sz \<Longrightarrow> block_ok (head_init b sz h) b"
  by (simp add: block_ok_def heap_foot_def)

lemma head_init_same_on:
  assumes "unat b + unat sz < 2 ^ 32" "24 \<le> unat sz" "e \<le> unat b \<or> unat b + unat sz \<le> s"
  shows "same_on h (head_init b sz h) s e"
proof -
  have "unat (b + sz - sizeof_footer) = unat b + unat sz - 8" using assms(1,2) by (rule unat_foot)
  then have "a \<noteq> b \<and> a \<noteq> b + sz - sizeof_footer" if "s \<le> unat a" "unat a < e" for a
    using assms(2,3) that by auto
  then show ?thesis by (auto simp: same_on_def)
qed

text \<open>A header is written over a run of blocks that it replaces.\<close>

lemma tiles_replace:
  assumes "tiles h xs s (unat b)" "tiles h ys (unat b + unat sz) e"
    and "24 \<le> unat sz" "unat b + unat sz \<le> e" "e < 2 ^ 32"
  shows "tiles (head_init b sz h) (xs @ b # ys) s e"
proof -
  let ?h = "head_init b sz h"
  have "same_on h ?h s (unat b)" "same_on h ?h (unat b + unat sz) e"
    by (rule head_init_same_on; use assms in simp)+
  then have "tiles ?h xs s (unat b)" "tiles ?h ys (unat b + unat sz) e"
    using assms tiles_same by auto
  then show ?thesis using assms by (simp add: tiles_split block_ok_head_init)
qed

lemma tiles_merge:
  assumes "tiles h (xs @ a # b # ys) s e" "e < 2 ^ 32"
  shows "tiles (head_init a (hsize h a + hsize h b) h) (xs @ a # ys) s e"
    and "unat (hsize h a + hsize h b) = unat (hsize h a) + unat (hsize h b)"
proof -
  have t: "tiles h xs s (unat a)" "block_ok h a" "unat b = unat a + unat (hsize h a)"
    "unat b + unat (hsize h b) \<le> e" "tiles h ys (unat b + unat (hsize h b)) e"
    using assms(1) by (auto simp: tiles_split)
  show u: "unat (hsize h a + hsize h b) = unat (hsize h a) + unat (hsize h b)"
    using t assms(2) by (intro unat_add_u32) simp
  show "tiles (head_init a (hsize h a + hsize h b) h) (xs @ a # ys) s e"
    using t assms(2) u by (intro tiles_replace) (auto simp: block_ok_def add.assoc)
qed

text \<open>Splitting a block of size \<open>n + m\<close>: the code writes the second part first.\<close>

lemma tiles_cut:
  assumes "tiles h (xs @ b # ys) s e" "e < 2 ^ 32"
    and "unat (hsize h b) = unat n + unat m" "24 \<le> unat n" "24 \<le> unat m"
    and "same_words (head_init (b + n) m h) h1"
  shows "tiles (head_init b n h1) (xs @ b # (b + n) # ys) s e"
proof -
  have t: "tiles h xs s (unat b)" "unat b + unat n + unat m \<le> e"
    "tiles h ys (unat b + unat n + unat m) e"
    using assms(1,3) by (auto simp: tiles_split add.assoc)
  have bn: "unat (b + n) = unat b + unat n" using t(2) assms(2) by (intro unat_add_u32) simp
  have "tiles (head_init (b + n) m h) ([] @ (b + n) # ys) (unat (b + n)) e"
    using t assms bn by (intro tiles_replace) auto
  moreover have "same_on h (head_init (b + n) m h) s (unat b)"
    using t assms bn by (intro head_init_same_on) auto
  then have "tiles (head_init (b + n) m h) xs s (unat b)"
    using tiles_same [OF t(1)] t(2) assms(2) by simp
  ultimately have "tiles h1 ((b + n) # ys) (unat b + unat n) e" "tiles h1 xs s (unat b)"
    unfolding same_words_tiles [OF assms(6)] by (simp_all del: tiles.simps add: bn)
  then show ?thesis using t assms by (intro tiles_replace) auto
qed

subsection \<open>Neighbours\<close>

lemma word_eq_unat: "unat (a :: u32) = unat b \<Longrightarrow> a = b"
  by (simp add: word_unat_eq_iff)

lemma tiles_next:
  assumes "tiles h (xs @ a # b # ys) s e" "e < 2 ^ 32"
  shows "head_next h a = b" "head_prev h b = a"
proof -
  have t: "block_ok h a" "unat b = unat a + unat (hsize h a)" "unat a + unat (hsize h a) \<le> e"
    using assms(1) by (auto simp: tiles_split)
  have ab: "a + hsize h a = b" using t assms(2) block_end [of a h e] by (intro word_eq_unat) simp
  then show "head_next h a = b" by (simp add: head_next_def)
  have "b - sizeof_footer = heap_foot h a" using ab by (simp add: heap_foot_def)
  then show "head_prev h b = a" using t(1) by (simp add: head_prev_def block_ok_def)
qed

lemma wf_tiles: "heap_wf h bs hs \<Longrightarrow> tiles h bs (unat (memstart h)) (unat (memend h))"
  by (simp add: heap_wf_def)

lemma wf_first:
  assumes "heap_wf h (xs @ b # ys) hs"
  shows "heap_is_first h b \<longleftrightarrow> xs = []"
proof (cases xs)
  case (Cons a as)
  then have "unat (memstart h) = unat a" "a \<noteq> b"
    using wf_tiles [OF assms] tiles_distinct [OF wf_tiles [OF assms]] by auto
  then show ?thesis using Cons word_eq_unat by (auto simp: heap_is_first_def)
qed (use wf_tiles [OF assms] word_eq_unat in \<open>auto simp: heap_is_first_def\<close>)

lemma wf_last:
  assumes "heap_wf h (xs @ b # ys) hs"
  shows "heap_is_last h b \<longleftrightarrow> ys = []"
proof -
  have t: "unat b + unat (hsize h b) \<le> unat (memend h)"
    "tiles h ys (unat b + unat (hsize h b)) (unat (memend h))"
    using wf_tiles [OF assms] by (auto simp: tiles_split)
  have u: "unat (b + hsize h b) = unat b + unat (hsize h b)" using t(1) by (intro block_end) auto
  have "memend h = b + hsize h b \<longleftrightarrow> unat (memend h) = unat b + unat (hsize h b)"
    using u by (metis word_eq_unat)
  also have "\<dots> \<longleftrightarrow> ys = []"
    using t(2) by (cases ys) (auto simp: block_ok_def)
  finally show ?thesis by (simp add: heap_is_last_def)
qed

lemma wf_inserted:
  assumes "heap_wf h bs hs" "b \<in> set bs"
  shows "list_inserted (hlinks h) (Hdr b) \<longleftrightarrow> b \<in> set hs"
  using assms dll_inserted [of "hlinks h" Holes "map Hdr hs" "Hdr b"]
  by (auto simp: heap_wf_def unlinked_inserted)

subsection \<open>Merging two blocks\<close>

lemma map_Hdr_remove1: "map Hdr (remove1 c hs) = remove1 (Hdr c) (map Hdr hs)"
  by (induction hs) auto

lemma sorted_wrt_remove1: "sorted_wrt P xs \<Longrightarrow> sorted_wrt P (remove1 x xs)"
  by (induction xs) (auto dest: subsetD [OF set_remove1_subset])

lemma wf_unlink_links:
  assumes "heap_wf h bs hs" "c \<in> set hs"
  shows "dll (list_rem (Hdr c) (hlinks h)) Holes (map Hdr (remove1 c hs))"
    and "b \<in> set bs \<Longrightarrow> b \<notin> set hs \<or> b = c \<Longrightarrow> unlinked (list_rem (Hdr c) (hlinks h)) (Hdr b)"
proof -
  have d: "dll (hlinks h) Holes (map Hdr hs)" using assms by (simp add: heap_wf_def)
  then show "dll (list_rem (Hdr c) (hlinks h)) Holes (map Hdr (remove1 c hs))"
    using assms(2) by (simp add: map_Hdr_remove1 dll_list_rem)
  assume "b \<in> set bs" "b \<notin> set hs \<or> b = c"
  then show "unlinked (list_rem (Hdr c) (hlinks h)) (Hdr b)"
  proof (cases "b = c")
    case False
    then show ?thesis
      using list_rem_other [OF d, of "Hdr c" "Hdr b"] assms \<open>b \<in> set bs\<close> \<open>b \<notin> set hs \<or> b = c\<close>
      by (auto simp: heap_wf_def unlinked_def)
  qed (simp add: unlinked_list_rem)
qed

lemma wf_merge:
  assumes wf: "heap_wf h (xs @ a # b # ys) hs" and c: "{a, b} \<inter> set hs = {c}"
  shows "heap_wf (head_init a (hsize h a + hsize h b) (unlink_header c h)) (xs @ a # ys) (remove1 c hs)"
proof -
  let ?u = "unlink_header c h" and ?bs = "xs @ a # b # ys"
  let ?h = "head_init a (hsize h a + hsize h b) ?u"
  have ch: "c \<in> set hs" "c \<in> set ?bs" using c by auto
  have d: "distinct ?bs" "distinct hs"
    using tiles_distinct [OF wf_tiles [OF wf]] wf by (auto simp: heap_wf_def dll_def distinct_map)
  then have rs: "set (remove1 c hs) = set hs - {c}" by (simp add: set_remove1_eq)
  then have ab: "a \<notin> set (remove1 c hs)" "b \<notin> set (remove1 c hs)" using c by auto
  have "tiles ?u ?bs (unat (memstart h)) (unat (memend h))"
    using wf_tiles [OF wf] same_words_tiles [of h ?u] by (simp add: same_words_def del: tiles.simps)
  then have t: "tiles ?h (xs @ a # ys) (unat (memstart ?h)) (unat (memend ?h))"
    using tiles_merge(1) [of ?u xs a b ys] by simp
  have l: "dll (hlinks ?h) Holes (map Hdr (remove1 c hs))"
    using wf_unlink_links(1) [OF wf ch(1)] ab by (auto intro!: INIT_LIST_frame)
  have "unlinked (hlinks ?u) (Hdr x)" if "x \<in> set ?bs" "x \<notin> set (remove1 c hs)" for x
    using wf_unlink_links(2) [OF wf ch(1) that(1)] that(2) rs by auto
  then have u: "\<forall>x \<in> set (xs @ a # ys) - set (remove1 c hs). unlinked (hlinks ?h) (Hdr x)"
    by (auto simp: unlinked_INIT)
  have "sorted_wrt (\<lambda>x y. hsize h x \<le> hsize h y) (remove1 c hs)"
    using wf by (intro sorted_wrt_remove1) (simp add: heap_wf_def sorted_holes_def)
  then have "sorted_holes ?h (remove1 c hs)"
    unfolding sorted_holes_def using ab(1) by (elim sorted_wrt_mono_rel [rotated]) auto
  moreover have "set (remove1 c hs) \<subseteq> set (xs @ a # ys)"
    using rs ab wf by (auto simp: heap_wf_def)
  ultimately show ?thesis using t l u unfolding heap_wf_def by blast
qed

text \<open>The allocated blocks with their sizes, and the part of the state that these operations keep.\<close>

definition allocated :: "heap \<Rightarrow> u32 list \<Rightarrow> u32 list \<Rightarrow> (u32 \<times> u32) set" where
  "allocated h bs hs = (\<lambda>b. (b, hsize h b)) ` (set bs - set hs)"

definition same_cfg :: "heap \<Rightarrow> heap \<Rightarrow> bool" where
  "same_cfg h h' \<longleftrightarrow> memstart h' = memstart h \<and> memend h' = memend h \<and> memmax h' = memmax h
     \<and> hlock h' = hlock h \<and> kpage h' = kpage h \<and> kpmm h' = kpmm h"

text \<open>Block \<open>b'\<close> of \<open>h'\<close> contains the memory of block \<open>b\<close> of \<open>h\<close>.\<close>

definition covers :: "heap \<Rightarrow> u32 \<Rightarrow> heap \<Rightarrow> u32 \<Rightarrow> bool" where
  "covers h' b' h b \<longleftrightarrow> unat b' \<le> unat b \<and> unat b + unat (hsize h b) \<le> unat b' + unat (hsize h' b')"

lemma same_cfg_refl [simp]: "same_cfg h h"
  by (simp add: same_cfg_def)

lemma same_cfg_trans: "same_cfg h h1 \<Longrightarrow> same_cfg h1 h2 \<Longrightarrow> same_cfg h h2"
  by (simp add: same_cfg_def)

lemma covers_refl [simp]: "covers h b h b"
  by (simp add: covers_def)

lemma covers_trans: "covers h1 b1 h b \<Longrightarrow> covers h2 b2 h1 b1 \<Longrightarrow> covers h2 b2 h b"
  by (auto simp: covers_def)

lemma allocated_merge:
  assumes wf: "heap_wf h (xs @ a # b # ys) hs" and c: "{a, b} \<inter> set hs = {c}"
    and h': "h' = head_init a (hsize h a + hsize h b) (unlink_header c h)"
  shows "allocated h' (xs @ ys) (remove1 c hs) = allocated h (xs @ ys) hs"
    and "same_cfg h h'" and "covers h' a h a" and "covers h' a h b"
proof -
  have d: "distinct (xs @ a # b # ys)" "distinct hs"
    using tiles_distinct [OF wf_tiles [OF wf]] wf by (auto simp: heap_wf_def dll_def distinct_map)
  have "c \<notin> set (xs @ ys)" "a \<notin> set (xs @ ys)" using c d(1) by auto
  then show "allocated h' (xs @ ys) (remove1 c hs) = allocated h (xs @ ys) hs"
    unfolding allocated_def h' using d(2) by (intro image_cong) (auto simp: set_remove1_eq)
  show "same_cfg h h'" by (simp add: h' same_cfg_def)
  have "unat (hsize h a + hsize h b) = unat (hsize h a) + unat (hsize h b)"
    using tiles_merge(2) [OF wf_tiles [OF wf]] by simp
  moreover have "unat b = unat a + unat (hsize h a)"
    using wf_tiles [OF wf] by (auto simp: tiles_split)
  ultimately show "covers h' a h a" "covers h' a h b" by (auto simp: covers_def h')
qed

lemma heap_merge_backwards_ok:
  assumes "heap_wf h (xs @ b # ys) hs" "b \<notin> set hs"
  shows "\<exists>b' h' xs' hs'. heap_merge_backwards b h = Some (b', h') \<and> heap_wf h' (xs' @ b' # ys) hs'
    \<and> b' \<notin> set hs' \<and> same_cfg h h' \<and> covers h' b' h b
    \<and> allocated h' (xs' @ ys) hs' = allocated h (xs @ ys) hs
    \<and> (\<forall>x. unat b \<le> unat x \<longrightarrow> hsize h' x = hsize h x)"
  using assms
proof (induction xs arbitrary: b h hs rule: rev_induct)
  case Nil
  then have "heap_is_first h b" using wf_first [of h "[]" b ys hs] by simp
  then show ?case using Nil
    by (subst heap_merge_backwards.simps) (metis append_Nil covers_refl same_cfg_refl)
next
  case (snoc a zs)
  have wf: "heap_wf h (zs @ a # b # ys) hs" using snoc.prems(1) by simp
  have p: "head_prev h b = a" using tiles_next(2) [OF wf_tiles [OF wf]] by simp
  have nf: "\<not> heap_is_first h b" using wf_first [OF snoc.prems(1)] by simp
  have ins: "list_inserted (hlinks h) (Hdr a) \<longleftrightarrow> a \<in> set hs" using wf_inserted [OF wf] by simp
  show ?case
  proof (cases "a \<in> set hs")
    case False
    then have "heap_merge_backwards b h = Some (b, h)"
      using p ins by (subst heap_merge_backwards.simps) simp
    then show ?thesis using snoc.prems by (metis covers_refl same_cfg_refl)
  next
    case True
    define h2 where "h2 = head_init a (hsize h a + hsize h b) (unlink_header a h)"
    have c: "{a, b} \<inter> set hs = {a}" using True snoc.prems(2) by auto
    have eq: "heap_merge_backwards b h = heap_merge_backwards a h2"
      using p ins True nf by (subst heap_merge_backwards.simps) (simp add: h2_def Let_def)
    have wf2: "heap_wf h2 (zs @ a # ys) (remove1 a hs)" unfolding h2_def by (rule wf_merge [OF wf c])
    have "distinct hs" using wf by (auto simp: heap_wf_def dll_def distinct_map)
    then have "a \<notin> set (remove1 a hs)" by simp
    then obtain b' h' xs' hs' where r: "heap_merge_backwards a h2 = Some (b', h')"
      "heap_wf h' (xs' @ b' # ys) hs'" "b' \<notin> set hs'" "same_cfg h2 h'" "covers h' b' h2 a"
      "allocated h' (xs' @ ys) hs' = allocated h2 (zs @ ys) (remove1 a hs)"
      "\<And>x. unat a \<le> unat x \<Longrightarrow> hsize h' x = hsize h2 x"
      using snoc.IH [OF wf2] by blast
    note m = allocated_merge [OF wf c h2_def]
    have "allocated h (zs @ ys) hs = allocated h ((zs @ [a]) @ ys) hs"
      using True by (auto simp: allocated_def)
    then have "allocated h' (xs' @ ys) hs' = allocated h ((zs @ [a]) @ ys) hs" using r(6) m(1) by simp
    moreover have "hsize h' x = hsize h x" if "unat b \<le> unat x" for x
    proof -
      have "unat a < unat b" using wf_tiles [OF wf] by (auto simp: tiles_split block_ok_def)
      then show ?thesis using that r(7) [of x] by (auto simp: h2_def)
    qed
    ultimately show ?thesis unfolding eq using r same_cfg_trans [OF m(2) r(4)] covers_trans [OF m(4) r(5)]
      by blast
  qed
qed

lemma heap_merge_forwards_ok:
  assumes "heap_wf h (xs @ b # ys) hs" "b \<notin> set hs"
  shows "\<exists>h' ys' hs'. heap_merge_forwards b h = Some h' \<and> heap_wf h' (xs @ b # ys') hs'
    \<and> b \<notin> set hs' \<and> same_cfg h h' \<and> covers h' b h b
    \<and> allocated h' (xs @ ys') hs' = allocated h (xs @ ys) hs \<and> (ys = [] \<longrightarrow> h' = h)"
  using assms
proof (induction ys arbitrary: h hs)
  case Nil
  then have "heap_is_last h b" using wf_last [OF Nil.prems(1)] by simp
  then show ?case using Nil
    by (subst heap_merge_forwards.simps) (metis covers_refl same_cfg_refl)
next
  case (Cons a ys)
  note wf = Cons.prems(1)
  have p: "head_next h b = a" using tiles_next(1) [OF wf_tiles [OF wf]] by simp
  have nf: "\<not> heap_is_last h b" using wf_last [OF wf] by simp
  have ins: "list_inserted (hlinks h) (Hdr a) \<longleftrightarrow> a \<in> set hs" using wf_inserted [OF wf] by simp
  show ?case
  proof (cases "a \<in> set hs")
    case False
    then have "heap_merge_forwards b h = Some h"
      using p ins by (subst heap_merge_forwards.simps) simp
    then show ?thesis using Cons.prems by (metis covers_refl same_cfg_refl)
  next
    case True
    define h2 where "h2 = head_init b (hsize h b + hsize h a) (unlink_header a h)"
    have c: "{b, a} \<inter> set hs = {a}" using True Cons.prems(2) by auto
    have eq: "heap_merge_forwards b h = heap_merge_forwards b h2"
      using p ins True nf by (subst heap_merge_forwards.simps) (simp add: h2_def Let_def)
    have wf2: "heap_wf h2 (xs @ b # ys) (remove1 a hs)" unfolding h2_def by (rule wf_merge [OF wf c])
    have "b \<notin> set (remove1 a hs)" using Cons.prems(2) set_remove1_subset by fast
    then obtain h' ys' hs' where r: "heap_merge_forwards b h2 = Some h'"
      "heap_wf h' (xs @ b # ys') hs'" "b \<notin> set hs'" "same_cfg h2 h'" "covers h' b h2 b"
      "allocated h' (xs @ ys') hs' = allocated h2 (xs @ ys) (remove1 a hs)"
      using Cons.IH [OF wf2] by blast
    note m = allocated_merge [OF wf c h2_def]
    have "allocated h (xs @ ys) hs = allocated h (xs @ a # ys) hs"
      using True by (auto simp: allocated_def)
    then have "allocated h' (xs @ ys') hs' = allocated h (xs @ a # ys) hs" using r(6) m(1) by simp
    then show ?thesis unfolding eq using r same_cfg_trans [OF m(2) r(4)] covers_trans [OF m(3) r(5)]
      by blast
  qed
qed

end
