(* ===== verification/KheapOps.thy ===== *)
theory KheapOps
  imports KheapInv
begin

text \<open>
  The heap operations on a well-formed heap: what freeing, expanding, trimming, locating and
  allocating return, and that they keep the heap well formed.
\<close>

subsection \<open>Adding a hole\<close>

lemma wf_unlinked: "heap_wf h bs hs \<Longrightarrow> b \<in> set bs \<Longrightarrow> b \<notin> set hs \<Longrightarrow> unlinked (hlinks h) (Hdr b)"
  by (simp add: heap_wf_def)

lemma wf_block_ok: "heap_wf h bs hs \<Longrightarrow> b \<in> set bs \<Longrightarrow> block_ok h b"
  using tiles_block_ok wf_tiles by blast

lemma head_init_id:
  assumes "block_ok h b" "unlinked (hlinks h) (Hdr b)"
  shows "head_init b (hsize h b) h = h"
  using assms
  by (simp add: head_init_def block_ok_def heap_foot_def Let_def INIT_LIST_unlinked fun_upd_idem)

lemma compare_le: "heap_compare_headers h (Hdr a) (Hdr b) \<le> 0 \<longleftrightarrow> hsize h a \<le> hsize h b"
  by (auto simp: heap_compare_headers_def)

lemma total_compare: "total_cmp (\<lambda>a b. heap_compare_headers h (Hdr a) (Hdr b))"
  unfolding total_cmp_def compare_le by (meson linear order_trans)

text \<open>The position of a new hole in the list.\<close>

abbreviation hole_insert :: "heap \<Rightarrow> u32 \<Rightarrow> u32 list \<Rightarrow> u32 list" where
  "hole_insert h \<equiv> ordered_insert (\<lambda>a b. heap_compare_headers h (Hdr a) (Hdr b))"

lemma sorted_hole_insert: "sorted_holes h hs \<Longrightarrow> sorted_holes h (hole_insert h b hs)"
  using sorted_ordered_insert [OF total_compare, of h hs b] by (simp add: sorted_holes_def compare_le)

lemma heap_add_hole_ok:
  assumes wf: "heap_wf h bs hs" and b: "b \<in> set bs" "b \<notin> set hs"
  shows "\<exists>l. heap_add_hole b h = Some (h\<lparr>hlinks := l\<rparr>)
    \<and> heap_wf (h\<lparr>hlinks := l\<rparr>) bs (hole_insert h b hs)"
proof -
  have id: "head_init b (hsize h b) h = h"
    using head_init_id wf_block_ok [OF wf b(1)] wf_unlinked [OF wf b] .
  have d: "dll (hlinks h) Holes (map Hdr hs)" using wf by (simp add: heap_wf_def)
  obtain l where l: "list_add_ordered (Hdr b) Holes (heap_compare_headers h) (hlinks h) = Some l"
    "dll l Holes (map Hdr (hole_insert h b hs))"
    "\<And>n. n \<notin> set (Hdr b # Holes # map Hdr hs) \<Longrightarrow>
       lnext l n = lnext (hlinks h) n \<and> lprev l n = lprev (hlinks h) n"
    using list_add_ordered_dll [OF d, of "Hdr b" "heap_compare_headers h"] b(2)
    unfolding map_ordered_insert by auto
  have "tiles (h\<lparr>hlinks := l\<rparr>) bs s e = tiles h bs s e" for s e
    by (rule same_words_tiles) (simp add: same_words_def)
  moreover have "unlinked l (Hdr c)" if "c \<in> set bs" "c \<notin> set (hole_insert h b hs)" for c
    using wf_unlinked [OF wf that(1)] that(2) l(3) [of "Hdr c"] by (auto simp: unlinked_def)
  moreover have "sorted_holes (h\<lparr>hlinks := l\<rparr>) (hole_insert h b hs)"
    using sorted_hole_insert [of h hs b] wf by (simp add: sorted_holes_def heap_wf_def)
  ultimately have "heap_wf (h\<lparr>hlinks := l\<rparr>) bs (hole_insert h b hs)"
    using wf b(1) l(2) by (auto simp: heap_wf_def)
  then show ?thesis using l(1) id by (auto simp: heap_add_hole_def)
qed

subsection \<open>Freeing\<close>

lemma heap_addr_bounds:
  assumes "heap_wf h bs hs" "b \<in> set bs"
  shows "heap_head (heap_addr b) = b" "\<not> heap_addr b < memstart h" "\<not> memend h \<le> heap_addr b"
    and "unat (heap_addr b) = unat b + 16"
proof -
  have t: "unat (memstart h) \<le> unat b" "unat b + unat (hsize h b) \<le> unat (memend h)"
    using tiles_addr [OF wf_tiles [OF assms(1)] assms(2)] by auto
  have s: "24 \<le> unat (hsize h b)" using wf_block_ok [OF assms] by (simp add: block_ok_def)
  have "unat b + 16 < 4294967296" using t s unat_lt_u32 [of "memend h"] by linarith
  then show u: "unat (heap_addr b) = unat b + 16" unfolding heap_addr_def
    using unat_add_u32 [of b 16] by simp
  show "heap_head (heap_addr b) = b" by (simp add: heap_head_def heap_addr_def)
  show "\<not> heap_addr b < memstart h" "\<not> memend h \<le> heap_addr b"
    using u t s by (auto simp: word_less_nat_alt word_le_nat_alt)
qed

lemma heap_free_nolock_ok:
  assumes wf: "heap_wf h bs hs" and b: "b \<in> set bs" "b \<notin> set hs"
  shows "\<exists>h' bs' hs'. heap_free_nolock (heap_addr b) h = Some h' \<and> heap_wf h' bs' hs'
    \<and> same_cfg h h' \<and> allocated h' bs' hs' = allocated h bs hs - {(b, hsize h b)}
    \<and> (\<exists>c \<in> set hs'. covers h' c h b) \<and> (heap_is_last h b \<longrightarrow> hsize h' b = hsize h b)"
proof -
  obtain xs ys where bs: "bs = xs @ b # ys" using b(1) by (meson split_list)
  have "distinct bs" using tiles_distinct [OF wf_tiles [OF wf]] .
  then have rest: "allocated h (xs @ ys) hs = allocated h bs hs - {(b, hsize h b)}"
    using b(2) by (auto simp: allocated_def bs)
  obtain b1 h1 xs1 hs1 where r1: "heap_merge_backwards b h = Some (b1, h1)"
    "heap_wf h1 (xs1 @ b1 # ys) hs1" "b1 \<notin> set hs1" "same_cfg h h1" "covers h1 b1 h b"
    "allocated h1 (xs1 @ ys) hs1 = allocated h (xs @ ys) hs" "hsize h1 b = hsize h b"
    using heap_merge_backwards_ok [OF wf [unfolded bs] b(2)] by blast
  obtain h2 ys2 hs2 where r2: "heap_merge_forwards b1 h1 = Some h2"
    "heap_wf h2 (xs1 @ b1 # ys2) hs2" "b1 \<notin> set hs2" "same_cfg h1 h2" "covers h2 b1 h1 b1"
    "allocated h2 (xs1 @ ys2) hs2 = allocated h1 (xs1 @ ys) hs1" "ys = [] \<longrightarrow> h2 = h1"
    using heap_merge_forwards_ok [OF r1(2,3)] by blast
  have ok: "block_ok h2 b1" "unlinked (hlinks h2) (Hdr b1)"
    using wf_block_ok [OF r2(2)] wf_unlinked [OF r2(2) _ r2(3)] by auto
  have f: "heap_foot (h2\<lparr>fmagic := g\<rparr>) b1 = heap_foot h2 b1" for g by (simp add: heap_foot_def)
  obtain l where l: "heap_add_hole b1 h2 = Some (h2\<lparr>hlinks := l\<rparr>)"
    "heap_wf (h2\<lparr>hlinks := l\<rparr>) (xs1 @ b1 # ys2) (hole_insert h2 b1 hs2)"
    using heap_add_hole_ok [OF r2(2) _ r2(3)] by auto
  let ?h = "h2\<lparr>hlinks := l\<rparr>"
  have "heap_free_nolock (heap_addr b) h = Some ?h"
    using heap_addr_bounds [OF wf b(1)] r1(1) r2(1) ok l(1) f
    by (simp add: heap_free_nolock_def block_ok_def Let_def fun_upd_idem INIT_LIST_unlinked)
  moreover have "distinct (xs1 @ b1 # ys2)" using tiles_distinct [OF wf_tiles [OF r2(2)]] .
  then have "allocated ?h (xs1 @ b1 # ys2) (hole_insert h2 b1 hs2) = allocated h2 (xs1 @ ys2) hs2"
    by (auto simp: allocated_def)
  moreover have "same_cfg h ?h"
    using same_cfg_trans [OF r1(4) r2(4)] by (simp add: same_cfg_def)
  moreover have "covers ?h b1 h b"
    using covers_trans [OF r1(5) r2(5)] by (simp add: covers_def)
  moreover have "heap_is_last h b \<longrightarrow> hsize ?h b = hsize h b"
    using wf_last [OF wf [unfolded bs]] r1(7) r2(7) by simp
  moreover have "b1 \<in> set (hole_insert h2 b1 hs2)" by simp
  ultimately show ?thesis using l(2) r1(6) r2(6) rest by metis
qed

lemma heap_wf_lock [simp]: "heap_wf (h\<lparr>hlock := l\<rparr>) bs hs = heap_wf h bs hs"
  using same_words_tiles [of h "h\<lparr>hlock := l\<rparr>"] by (simp add: heap_wf_def same_words_def sorted_holes_def)

lemma allocated_lock [simp]: "allocated (h\<lparr>hlock := l\<rparr>) bs hs = allocated h bs hs"
  by (simp add: allocated_def)

lemma heap_free_ok:
  assumes wf: "heap_wf h bs hs" and b: "b \<in> set bs" "b \<notin> set hs" and lock: "hlock h = 0"
  shows "\<exists>h' bs' hs'. heap_free (heap_addr b) h = Some h' \<and> heap_wf h' bs' hs' \<and> same_cfg h h'
    \<and> allocated h' bs' hs' = allocated h bs hs - {(b, hsize h b)} \<and> (\<exists>c \<in> set hs'. covers h' c h b)"
proof -
  obtain h' bs' hs' where r: "heap_free_nolock (heap_addr b) (h\<lparr>hlock := 1\<rparr>) = Some h'"
    "heap_wf h' bs' hs'" "same_cfg (h\<lparr>hlock := 1\<rparr>) h'"
    "allocated h' bs' hs' = allocated h bs hs - {(b, hsize h b)}" "\<exists>c \<in> set hs'. covers h' c h b"
    using heap_free_nolock_ok [of "h\<lparr>hlock := 1\<rparr>" bs hs b] wf b by (auto simp: covers_def)
  have "heap_free (heap_addr b) h = Some (h'\<lparr>hlock := 0\<rparr>)"
    using r(1) lock by (simp add: heap_free_def)
  moreover have "same_cfg h (h'\<lparr>hlock := 0\<rparr>)" using r(3) lock by (simp add: same_cfg_def)
  moreover have "\<exists>c \<in> set hs'. covers (h'\<lparr>hlock := 0\<rparr>) c h b" using r(5) by (simp add: covers_def)
  moreover have "heap_wf (h'\<lparr>hlock := 0\<rparr>) bs' hs'"
    "allocated (h'\<lparr>hlock := 0\<rparr>) bs' hs' = allocated h bs hs - {(b, hsize h b)}"
    using r(2,4) by simp_all
  ultimately show ?thesis by blast
qed

subsection \<open>Splitting a hole\<close>

lemma unat_add_le: "unat (a :: u32) + unat b \<le> unat (c :: u32) \<Longrightarrow> unat (a + b) = unat a + unat b"
  using unat_lt_u32 [of c] by (intro unat_add_u32) (simp del: unat_lt_u32)

lemma tiles_inside:
  assumes "tiles h (xs @ b # ys) s e" "unat b < unat c" "unat c < unat b + unat (hsize h b)"
  shows "c \<notin> set (xs @ b # ys)"
proof -
  have t: "tiles h xs s (unat b)" "tiles h ys (unat b + unat (hsize h b)) e"
    using assms(1) by (auto simp: tiles_split)
  then show ?thesis using tiles_addr [OF t(1), of c] tiles_addr [OF t(2), of c] assms(2,3) by auto
qed

lemma wf_distinct: "heap_wf h bs hs \<Longrightarrow> distinct bs \<and> distinct hs \<and> set hs \<subseteq> set bs"
  using tiles_distinct [OF wf_tiles] by (auto simp: heap_wf_def dll_def distinct_map)

lemma wf_cut:
  assumes wf: "heap_wf h (xs @ b # ys) hs" and b: "b \<in> set hs"
    and sz: "unat (hsize h b) = unat n + unat m" "24 \<le> unat n" "24 \<le> unat m"
    and h': "h' = head_init b n (unlink_header b (head_init (b + n) m h))"
  shows "heap_wf h' (xs @ b # (b + n) # ys) (remove1 b hs)"
    and "b \<noteq> b + n" and "b + n \<notin> set hs"
    and "allocated h' (xs @ b # (b + n) # ys) (remove1 b hs)
      = allocated h (xs @ b # ys) hs \<union> {(b, n), (b + n, m)}"
    and "(b, n) \<notin> allocated h (xs @ b # ys) hs" "(b + n, m) \<notin> allocated h (xs @ b # ys) hs"
    and "same_cfg h h'"
proof -
  let ?bs = "xs @ b # ys" and ?bs' = "xs @ b # (b + n) # ys" and ?t = "b + n"
  have e: "unat b + unat (hsize h b) \<le> unat (memend h)"
    using wf_tiles [OF wf] by (auto simp: tiles_split)
  have un: "unat ?t = unat b + unat n" using e sz(1) by (intro unat_add_le [of _ _ "memend h"]) simp
  have tb: "?t \<notin> set ?bs" using tiles_inside [OF wf_tiles [OF wf], of ?t] un sz by simp
  have d: "distinct hs" "set hs \<subseteq> set ?bs" "distinct ?bs" using wf_distinct [OF wf] by auto
  show bt: "b \<noteq> ?t" and th: "?t \<notin> set hs" using tb d by auto
  have rs: "set (remove1 b hs) = set hs - {b}" using d(1) by (simp add: set_remove1_eq)
  have "same_words (head_init ?t m h) (unlink_header b (head_init ?t m h))" by (simp add: same_words_def)
  then have t: "tiles h' ?bs' (unat (memstart h)) (unat (memend h))"
    unfolding h' using tiles_cut [OF wf_tiles [OF wf] _ sz] unat_lt_u32 [of "memend h"] by auto
  have d1: "dll (INIT_LIST (Hdr ?t) (hlinks h)) Holes (map Hdr hs)"
    using wf th by (intro INIT_LIST_frame) (auto simp: heap_wf_def)
  let ?l = "list_rem (Hdr b) (INIT_LIST (Hdr ?t) (hlinks h))"
  have d2: "dll ?l Holes (map Hdr (remove1 b hs))"
    using dll_list_rem [OF d1, of "Hdr b"] b by (simp add: map_Hdr_remove1)
  have u: "unlinked ?l (Hdr c)" if "c \<in> set ?bs'" "c \<notin> set hs" for c
  proof -
    have "unlinked (INIT_LIST (Hdr ?t) (hlinks h)) (Hdr c)"
      using that wf_unlinked [OF wf] by (cases "c = ?t") (auto intro: unlinked_INIT unlinked_INIT_LIST)
    then show ?thesis
      using list_rem_other [OF d1, of "Hdr b" "Hdr c"] that b by (auto simp: unlinked_def)
  qed
  have hl: "hlinks h' = INIT_LIST (Hdr b) ?l" by (simp add: h')
  have "Hdr b \<notin> set (Holes # map Hdr (remove1 b hs))" using rs by auto
  then have l: "dll (hlinks h') Holes (map Hdr (remove1 b hs))"
    unfolding hl using d2 by (rule INIT_LIST_frame)
  have "unlinked (hlinks h') (Hdr c)" if "c \<in> set ?bs'" "c \<notin> set (remove1 b hs)" for c
    unfolding hl using that u [of c] rs
    by (cases "c = b") (simp_all add: unlinked_INIT unlinked_INIT_LIST)
  moreover have "sorted_wrt (\<lambda>x y. hsize h x \<le> hsize h y) (remove1 b hs)"
    using wf by (intro sorted_wrt_remove1) (simp add: heap_wf_def sorted_holes_def)
  then have "sorted_holes h' (remove1 b hs)"
    unfolding sorted_holes_def using rs th by (elim sorted_wrt_mono_rel [rotated]) (auto simp: h')
  moreover have "set (remove1 b hs) \<subseteq> set ?bs'" using rs d(2) by auto
  moreover show c: "same_cfg h h'" by (simp add: h' same_cfg_def)
  ultimately show "heap_wf h' ?bs' (remove1 b hs)" using t l unfolding heap_wf_def same_cfg_def by auto
  have sets: "set ?bs' - set (remove1 b hs) = (set ?bs - set hs) \<union> {b, ?t}" using rs th tb b by auto
  have "(\<lambda>c. (c, hsize h' c)) ` (set ?bs - set hs) = (\<lambda>c. (c, hsize h c)) ` (set ?bs - set hs)"
    by (rule image_cong) (use b tb in \<open>auto simp: h'\<close>)
  moreover have "hsize h' b = n" "hsize h' ?t = m" using bt by (simp_all add: h')
  ultimately show "allocated h' ?bs' (remove1 b hs) = allocated h ?bs hs \<union> {(b, n), (?t, m)}"
    unfolding allocated_def sets image_Un by simp
  show "(b, n) \<notin> allocated h ?bs hs" "(?t, m) \<notin> allocated h ?bs hs"
    using b tb by (auto simp: allocated_def)
qed

lemma allocatedD:
  "(b, n) \<in> allocated h bs hs \<Longrightarrow> b \<in> set bs \<and> b \<notin> set hs \<and> hsize h b = n"
  by (auto simp: allocated_def)

lemma allocated_add_hole:
  "b \<notin> set hs \<Longrightarrow> allocated (h\<lparr>hlinks := l\<rparr>) bs (hole_insert h b hs) = allocated h bs hs - {(b, hsize h b)}"
  by (auto simp: allocated_def)

text \<open>Free one of two allocated blocks, then make the other a hole.\<close>

lemma free_then_hole:
  assumes wf: "heap_wf h bs hs" and x: "x \<in> set bs" "x \<notin> set hs" and y: "y \<in> set bs" "y \<notin> set hs"
    and "x \<noteq> y"
  shows "\<exists>h1 h' bs' hs'. heap_free_nolock (heap_addr x) h = Some h1 \<and> heap_add_hole y h1 = Some h'
    \<and> heap_wf h' bs' hs' \<and> y \<in> set hs' \<and> hsize h' y = hsize h y \<and> same_cfg h h'
    \<and> allocated h' bs' hs' = allocated h bs hs - {(x, hsize h x), (y, hsize h y)}"
proof -
  obtain h1 bs1 hs1 where r: "heap_free_nolock (heap_addr x) h = Some h1" "heap_wf h1 bs1 hs1"
    "same_cfg h h1" "allocated h1 bs1 hs1 = allocated h bs hs - {(x, hsize h x)}"
    using heap_free_nolock_ok [OF wf x] by blast
  have "(y, hsize h y) \<in> allocated h1 bs1 hs1" using r(4) y assms(6) by (auto simp: allocated_def)
  note y1 = allocatedD [OF this]
  obtain l where l: "heap_add_hole y h1 = Some (h1\<lparr>hlinks := l\<rparr>)"
    "heap_wf (h1\<lparr>hlinks := l\<rparr>) bs1 (hole_insert h1 y hs1)"
    using heap_add_hole_ok [OF r(2)] y1 by blast
  have "allocated (h1\<lparr>hlinks := l\<rparr>) bs1 (hole_insert h1 y hs1)
      = allocated h bs hs - {(x, hsize h x), (y, hsize h y)}"
    using allocated_add_hole [where b = y and hs = hs1 and h = h1 and l = l] y1 r(4) by auto
  moreover have "same_cfg h (h1\<lparr>hlinks := l\<rparr>)" using r(3) by (simp add: same_cfg_def)
  moreover have "y \<in> set (hole_insert h1 y hs1)" "hsize (h1\<lparr>hlinks := l\<rparr>) y = hsize h y"
    using y1 by simp_all
  ultimately show ?thesis using r(1) l by blast
qed

end
