(* ===== verification/KheapAlloc.thy ===== *)
theory KheapAlloc
  imports KheapOps
begin

text \<open>
  Allocation: trimming and aligning a hole, growing the heap, the best-fit search, and the
  contract of \<^verbatim>\<open>heap_alloc\<close> and \<^verbatim>\<open>heap_free\<close>.
\<close>

lemma unat_OVHD [simp]: "unat KHEAP_OVHD = 24"
  by (simp add: KHEAP_OVHD_def)

text \<open>Requests small enough that the size computations do not wrap around.\<close>

definition req_ok :: "u32 \<Rightarrow> bool" where
  "req_ok reqd \<longleftrightarrow> unat reqd + 48 < 2 ^ 32"

lemma req_unat:
  assumes "req_ok reqd"
  shows "unat (reqd + KHEAP_OVHD) = unat reqd + 24" "unat (reqd + KHEAP_OVHD + KHEAP_OVHD) = unat reqd + 48"
    "unat (reqd + KHEAP_OVHD * 2) = unat reqd + 48"
proof -
  show a: "unat (reqd + KHEAP_OVHD) = unat reqd + 24"
    using assms by (subst unat_add_u32) (simp_all add: req_ok_def)
  show b: "unat (reqd + KHEAP_OVHD + KHEAP_OVHD) = unat reqd + 48"
    using assms a by (subst unat_add_u32) (simp_all add: req_ok_def)
  show "unat (reqd + KHEAP_OVHD * 2) = unat reqd + 48" using b by (simp add: mult_2_right add.assoc)
qed

subsection \<open>Trimming\<close>

lemma heap_cut_ok:
  assumes wf: "heap_wf h bs hs" and b: "b \<in> set hs" and rq: "req_ok reqd"
    and fit: "unat reqd + 24 \<le> unat (hsize h b)"
  shows "\<exists>h' bs' hs'. heap_cut b reqd h = Some h' \<and> heap_wf h' bs' hs' \<and> b \<in> set hs'
    \<and> unat reqd + 24 \<le> unat (hsize h' b) \<and> unat (hsize h' b) < unat reqd + 48
    \<and> same_cfg h h' \<and> allocated h' bs' hs' = allocated h bs hs"
proof (cases "unat (hsize h b) < unat reqd + 48")
  case True
  then have "heap_cut b reqd h = Some h"
    using req_unat [OF rq] by (simp add: heap_cut_def word_less_nat_alt)
  then show ?thesis using wf b fit True same_cfg_refl by blast
next
  case False
  define n where "n = reqd + KHEAP_OVHD"
  define m where "m = hsize h b - reqd - KHEAP_OVHD"
  define h3 where "h3 = head_init b n (unlink_header b (head_init (b + n) m h))"
  have n: "unat n = unat reqd + 24" unfolding n_def using req_unat [OF rq] by simp
  have "m = hsize h b - n" by (simp add: m_def n_def)
  then have m: "unat m = unat (hsize h b) - unat n" using n False by (simp add: unat_sub_u32)
  have sz: "unat (hsize h b) = unat n + unat m" "24 \<le> unat n" "24 \<le> unat m" using n m False by auto
  have "b \<in> set bs" using wf b by (auto simp: heap_wf_def)
  then obtain xs ys where bs: "bs = xs @ b # ys" by (meson split_list)
  note c = wf_cut [OF wf [unfolded bs] b sz h3_def]
  let ?bs = "xs @ b # (b + n) # ys" and ?hs = "remove1 b hs"
  have al: "(b, n) \<in> allocated h3 (xs @ b # (b + n) # ys) (remove1 b hs)"
    "(b + n, m) \<in> allocated h3 (xs @ b # (b + n) # ys) (remove1 b hs)"
    using c(4) by auto
  have in_bs: "b \<in> set ?bs" "b \<notin> set ?hs" "b + n \<in> set ?bs" "b + n \<notin> set ?hs"
    using allocatedD [OF al(1)] allocatedD [OF al(2)] by simp_all
  obtain h4 h' bs' hs' where r: "heap_free_nolock (heap_addr (b + n)) h3 = Some h4"
    "heap_add_hole b h4 = Some h'" "heap_wf h' bs' hs'" "b \<in> set hs'" "hsize h' b = hsize h3 b"
    "same_cfg h3 h'"
    "allocated h' bs' hs' = allocated h3 ?bs ?hs - {(b + n, hsize h3 (b + n)), (b, hsize h3 b)}"
    using free_then_hole [OF c(1) in_bs(3,4,1,2) not_sym [OF c(2)]] by metis
  have "heap_cut b reqd h = Some h'"
    using False req_unat [OF rq] r(1,2)
    by (simp add: heap_cut_def word_less_nat_alt Let_def h3_def n_def m_def add.assoc)
  moreover have "allocated h' bs' hs' = allocated h bs hs"
    using r(7) c(4-6) allocatedD [OF al(1)] allocatedD [OF al(2)] bs by auto
  moreover have "hsize h' b = n" using r(5) allocatedD [OF al(1)] by simp
  moreover have "same_cfg h h'" using same_cfg_trans [OF c(7) r(6)] .
  ultimately show ?thesis using r(3,4) n by auto
qed

subsection \<open>Aligning\<close>

lemma PAGE_OFFSET_take_bit: "PAGE_OFFSET a = take_bit 12 a"
proof -
  have "(0xFFF :: u32) = mask 12" by (simp add: mask_eq_exp_minus_1)
  then show ?thesis unfolding PAGE_OFFSET_def by (simp only: take_bit_eq_mask)
qed

lemma page_aligned_next: "PAGE_ALIGNED (PAGE_ALIGN a + PAGE_SIZE)"
proof -
  have "PAGE_SIZE = push_bit 12 1" by (simp add: PAGE_SIZE_def push_bit_eq_mult)
  then have "PAGE_ALIGN a + PAGE_SIZE = push_bit 12 (drop_bit 12 a + 1)"
    by (simp only: PAGE_ALIGN_push_bit push_bit_add)
  moreover have "take_bit 12 (push_bit 12 x) = 0" for x :: u32
    by (rule bit_word_eqI) (auto simp: bit_simps)
  ultimately show ?thesis by (simp only: PAGE_ALIGNED_def PAGE_OFFSET_take_bit)
qed

text \<open>Where the header of the aligned part goes: just below the next page boundary.\<close>

definition align_point :: "u32 \<Rightarrow> u32" where
  "align_point head = PAGE_ALIGN head + PAGE_SIZE - sizeof_header"

text \<open>
  The split is possible: there is room for a block in front of the aligned part, and the aligned
  part is big enough.
\<close>

definition align_ok :: "heap \<Rightarrow> u32 \<Rightarrow> u32 \<Rightarrow> bool" where
  "align_ok h head reqd \<longleftrightarrow> unat head + 24 < unat (align_point head)
     \<and> unat (align_point head) + unat reqd + 24 \<le> unat head + unat (hsize h head)"

text \<open>
  The aligned part starts inside the hole. The code does not check this before it subtracts; a
  hole for which it is false is split at a wrong place.
\<close>

definition align_safe :: "heap \<Rightarrow> u32 \<Rightarrow> bool" where
  "align_safe h head \<longleftrightarrow> unat head \<le> unat (align_point head)
     \<and> unat (align_point head) \<le> unat head + unat (hsize h head)"

lemma heap_align_ok:
  assumes wf: "heap_wf h bs hs" and b: "b \<in> set hs" and rq: "req_ok reqd" and ok: "align_ok h b reqd"
  shows "\<exists>h' bs' hs'. heap_align b reqd h = Some (Some (align_point b), h') \<and> heap_wf h' bs' hs'
    \<and> align_point b \<in> set hs' \<and> unat reqd + 24 \<le> unat (hsize h' (align_point b))
    \<and> same_cfg h h' \<and> allocated h' bs' hs' = allocated h bs hs"
proof -
  define n where "n = align_point b - b"
  define m where "m = hsize h b - n"
  define h3 where "h3 = head_init b n (unlink_header b (head_init (b + n) m h))"
  have n: "unat n = unat (align_point b) - unat b" "b + n = align_point b"
    unfolding n_def using ok by (simp_all add: align_ok_def unat_sub_u32)
  then have m: "unat m = unat (hsize h b) - unat n"
    unfolding m_def using ok by (intro unat_sub_u32) (auto simp: align_ok_def)
  have sz: "unat (hsize h b) = unat n + unat m" "24 \<le> unat n" "24 \<le> unat m" "unat reqd + 24 \<le> unat m"
    using n m ok by (auto simp: align_ok_def)
  have "b \<in> set bs" using wf b by (auto simp: heap_wf_def)
  then obtain xs ys where bs: "bs = xs @ b # ys" by (meson split_list)
  note c = wf_cut [OF wf [unfolded bs] b sz(1-3) h3_def]
  let ?bs = "xs @ b # (b + n) # ys" and ?hs = "remove1 b hs"
  have al: "(b, n) \<in> allocated h3 ?bs ?hs" "(b + n, m) \<in> allocated h3 ?bs ?hs" using c(4) by auto
  have in_bs: "b \<in> set ?bs" "b \<notin> set ?hs" "b + n \<in> set ?bs" "b + n \<notin> set ?hs"
    using allocatedD [OF al(1)] allocatedD [OF al(2)] by simp_all
  obtain h4 h' bs' hs' where r: "heap_free_nolock (heap_addr b) h3 = Some h4"
    "heap_add_hole (b + n) h4 = Some h'" "heap_wf h' bs' hs'" "b + n \<in> set hs'"
    "hsize h' (b + n) = hsize h3 (b + n)" "same_cfg h3 h'"
    "allocated h' bs' hs' = allocated h3 ?bs ?hs - {(b, hsize h3 b), (b + n, hsize h3 (b + n))}"
    using free_then_hole [OF c(1) in_bs c(2)] by metis
  have "\<not> n \<le> KHEAP_OVHD" "\<not> m < reqd + KHEAP_OVHD"
    using n ok sz req_unat [OF rq] by (auto simp: word_le_nat_alt word_less_nat_alt align_ok_def)
  then have "heap_align b reqd h = Some (Some (b + n), h')"
    using r(1,2) n(2) unfolding heap_align_def align_point_def [symmetric] Let_def n_def [symmetric]
    by (simp add: m_def [symmetric] h3_def)
  moreover have "allocated h' bs' hs' = allocated h bs hs"
    using r(7) c(4-6) allocatedD [OF al(1)] allocatedD [OF al(2)] bs by auto
  moreover have "hsize h' (b + n) = m" using r(5) allocatedD [OF al(2)] by simp
  moreover have "same_cfg h h'" using same_cfg_trans [OF c(7) r(6)] .
  ultimately show ?thesis using r(3,4) sz(4) n(2) by metis
qed

lemma heap_align_refuses:
  assumes rq: "req_ok reqd" and safe: "align_safe h b" and no: "\<not> align_ok h b reqd"
  shows "heap_align b reqd h = Some (None, h)"
proof -
  let ?n = "align_point b - b"
  have n: "unat ?n = unat (align_point b) - unat b" using safe by (simp add: align_safe_def unat_sub_u32)
  then have m: "unat (hsize h b - ?n) = unat (hsize h b) - unat ?n"
    using safe by (intro unat_sub_u32) (auto simp: align_safe_def)
  have "?n \<le> KHEAP_OVHD \<or> hsize h b - ?n < reqd + KHEAP_OVHD"
    using n m no safe req_unat [OF rq]
    by (auto simp: align_ok_def align_safe_def word_le_nat_alt word_less_nat_alt)
  then show ?thesis unfolding heap_align_def align_point_def [symmetric] Let_def by auto
qed

text \<open>A hole that \<^verbatim>\<open>heap_locate\<close> takes for a request.\<close>

definition takes :: "heap \<Rightarrow> u32 \<Rightarrow> bool \<Rightarrow> u32 \<Rightarrow> bool" where
  "takes h reqd align b \<longleftrightarrow> unat reqd + 24 \<le> unat (hsize h b)
     \<and> (align \<longrightarrow> PAGE_ALIGNED (b + sizeof_header) \<or> align_ok h b reqd)"

lemma heap_trim_takes:
  assumes wf: "heap_wf h bs hs" and b: "b \<in> set hs" and rq: "req_ok reqd" and t: "takes h reqd align b"
  shows "\<exists>a h' bs' hs'. heap_trim b reqd align h = Some (Some a, h') \<and> heap_wf h' bs' hs'
    \<and> a \<in> set hs' \<and> unat reqd + 24 \<le> unat (hsize h' a) \<and> unat (hsize h' a) \<le> unat reqd + 48
    \<and> same_cfg h h' \<and> allocated h' bs' hs' = allocated h bs hs
    \<and> (align \<longrightarrow> PAGE_ALIGNED (heap_addr a)) \<and> (\<not> align \<longrightarrow> a = b)"
proof -
  have fit: "unat reqd + 24 \<le> unat (hsize h b)" using t by (simp add: takes_def)
  consider (whole) "hsize h b \<le> reqd + KHEAP_OVHD * 2 \<and> \<not> align"
    | (cut) "\<not> (hsize h b \<le> reqd + KHEAP_OVHD * 2 \<and> \<not> align)"
        "\<not> align \<or> PAGE_ALIGNED (b + sizeof_header)"
    | (split) "align" "\<not> PAGE_ALIGNED (b + sizeof_header)" "align_ok h b reqd"
    using t by (auto simp: takes_def)
  then show ?thesis
  proof cases
    case whole
    then have "heap_trim b reqd align h = Some (Some b, h)" by (simp add: heap_trim_def)
    then show ?thesis using wf b fit whole req_unat [OF rq] by (auto simp: word_le_nat_alt)
  next
    case cut
    then have eq: "heap_trim b reqd align h = Option.bind (heap_cut b reqd h) (\<lambda>h2. Some (Some b, h2))"
      by (auto simp: heap_trim_def)
    show ?thesis using heap_cut_ok [OF wf b rq fit] cut(2)
      unfolding eq heap_addr_def by (metis bind.bind_lunit less_imp_le)
  next
    case split
    obtain h1 bs1 hs1 where r: "heap_align b reqd h = Some (Some (align_point b), h1)"
      "heap_wf h1 bs1 hs1" "align_point b \<in> set hs1" "unat reqd + 24 \<le> unat (hsize h1 (align_point b))"
      "same_cfg h h1" "allocated h1 bs1 hs1 = allocated h bs hs"
      using heap_align_ok [OF wf b rq split(3)] by blast
    have eq: "heap_trim b reqd align h
      = Option.bind (heap_cut (align_point b) reqd h1) (\<lambda>h2. Some (Some (align_point b), h2))"
      using split r(1) by (simp add: heap_trim_def)
    have "PAGE_ALIGNED (heap_addr (align_point b))"
      using page_aligned_next by (simp add: heap_addr_def align_point_def)
    then show ?thesis using heap_cut_ok [OF r(2,3) rq r(4)] r(5,6) split(1) same_cfg_trans
      unfolding eq by (metis bind.bind_lunit less_imp_le)
  qed
qed

lemma heap_trim_refuses:
  assumes "req_ok reqd" "unat reqd + 24 \<le> unat (hsize h b)" "\<not> takes h reqd align b" "align_safe h b"
  shows "heap_trim b reqd align h = Some (None, h)"
  using assms heap_align_refuses [of reqd h b] by (auto simp: takes_def heap_trim_def)

end
