(* ===== verification/KheapSpec.thy ===== *)
theory KheapSpec
  imports KheapAlloc
begin

text \<open>
  The best-fit search, the growth of the heap, and the contract of the allocator: every block it
  returns is new, large enough, disjoint from all the others, and comes back when it is freed.
\<close>

subsection \<open>Searching the hole list\<close>

text \<open>The holes for which the alignment arithmetic stays inside the hole, where it is used.\<close>

definition holes_safe :: "heap \<Rightarrow> u32 \<Rightarrow> bool \<Rightarrow> u32 list \<Rightarrow> bool" where
  "holes_safe h reqd align hs \<longleftrightarrow>
     align \<longrightarrow> (\<forall>b \<in> set hs. PAGE_ALIGNED (b + sizeof_header) \<or> align_safe h b)"

lemma wf_hole_next:
  assumes "heap_wf h bs (xs @ y # ys)"
  shows "lnext (hlinks h) (Hdr y) = hd (map Hdr ys @ [Holes])"
  using dll_mid(2) [of "hlinks h" Holes "map Hdr xs" "Hdr y" "map Hdr ys"] assms
  by (simp add: heap_wf_def)

lemma heap_locate_item:
  assumes wf: "heap_wf h bs hs" and y: "y \<in> set hs"
  shows "heap_locate_from reqd align (Hdr y) h =
     (if reqd + KHEAP_OVHD \<le> hsize h y then
        Option.bind (heap_trim y reqd align h) (\<lambda>(r, h1). case r of
            None \<Rightarrow> heap_locate_from reqd align (lnext (hlinks h1) (Hdr y)) h1
          | Some temp \<Rightarrow> Some (Some temp, h1))
      else heap_locate_from reqd align (lnext (hlinks h) (Hdr y)) h)"
proof -
  have "block_ok h y" using wf y wf_block_ok [of h bs hs y] wf_distinct [OF wf] by auto
  then show ?thesis
    by (subst heap_locate_from.simps) (simp add: block_ok_def)
qed

lemma heap_locate_skip:
  assumes wf: "heap_wf h bs (xs @ y # ys)" and rq: "req_ok reqd" and no: "\<not> takes h reqd align y"
    and safe: "align \<longrightarrow> PAGE_ALIGNED (y + sizeof_header) \<or> align_safe h y"
  shows "heap_locate_from reqd align (Hdr y) h = heap_locate_from reqd align (hd (map Hdr ys @ [Holes])) h"
proof (cases "unat reqd + 24 \<le> unat (hsize h y)")
  case True
  then have "align_safe h y" using no safe by (auto simp: takes_def)
  then have "heap_trim y reqd align h = Some (None, h)" using heap_trim_refuses [OF rq True no] by simp
  then show ?thesis using True req_unat(1) [OF rq] wf_hole_next [OF wf]
    by (simp add: heap_locate_item [OF wf] word_le_nat_alt)
next
  case False
  then show ?thesis using req_unat(1) [OF rq] wf_hole_next [OF wf]
    by (simp add: heap_locate_item [OF wf] word_le_nat_alt)
qed

lemma heap_locate_search:
  assumes "heap_wf h bs (xs @ ys)" "req_ok reqd" "holes_safe h reqd align ys"
  shows "heap_locate_from reqd align (hd (map Hdr ys @ [Holes])) h =
     (case List.find (takes h reqd align) ys of
        None \<Rightarrow> heap_locate_from reqd align Holes h
      | Some y \<Rightarrow> heap_trim y reqd align h)"
  using assms
proof (induction ys arbitrary: xs)
  case (Cons y ys)
  show ?case
  proof (cases "takes h reqd align y")
    case True
    then obtain a h' where t: "heap_trim y reqd align h = Some (Some a, h')"
      using heap_trim_takes [OF Cons.prems(1) _ Cons.prems(2) True] by auto
    have "reqd + KHEAP_OVHD \<le> hsize h y"
      using True req_unat(1) [OF Cons.prems(2)] by (simp add: takes_def word_le_nat_alt)
    then show ?thesis using True t by (simp add: heap_locate_item [OF Cons.prems(1)])
  next
    case False
    have "heap_wf h bs ((xs @ [y]) @ ys)" "holes_safe h reqd align ys"
      using Cons.prems(1,3) by (simp_all add: holes_safe_def)
    then have "heap_locate_from reqd align (hd (map Hdr ys @ [Holes])) h =
     (case List.find (takes h reqd align) ys of
        None \<Rightarrow> heap_locate_from reqd align Holes h
      | Some y \<Rightarrow> heap_trim y reqd align h)"
      using Cons.IH Cons.prems(2) by blast
    moreover have "heap_locate_from reqd align (Hdr y) h
        = heap_locate_from reqd align (hd (map Hdr ys @ [Holes])) h"
      using heap_locate_skip [OF Cons.prems(1,2) False] Cons.prems(3) by (simp add: holes_safe_def)
    ultimately show ?thesis using False by simp
  qed
qed simp

lemma heap_locate_eq:
  assumes "heap_wf h bs hs" "req_ok reqd" "holes_safe h reqd align hs"
  shows "heap_locate reqd align h =
     (case List.find (takes h reqd align) hs of
        None \<Rightarrow> heap_locate_from reqd align Holes h
      | Some y \<Rightarrow> heap_trim y reqd align h)"
proof -
  have "lnext (hlinks h) Holes = hd (map Hdr hs @ [Holes])"
    using assms(1) dll_first by (auto simp: heap_wf_def)
  then show ?thesis using heap_locate_search [of h bs "[]" hs reqd align] assms
    by (simp add: heap_locate_def)
qed

lemma find_sorted_least:
  assumes "sorted_wrt (\<lambda>a b. f a \<le> f b) xs" "List.find P xs = Some y" "z \<in> set xs" "P z"
  shows "f y \<le> (f z :: 'b :: order)"
  using assms by (induction xs) (auto split: if_splits)

subsection \<open>Growing\<close>

lemma heap_map_pages_frame:
  "heap_map_pages n p h = Some h1 \<Longrightarrow> \<exists>kp s. h1 = h\<lparr>kpage := kp, kpmm := s\<rparr>"
proof (induction n arbitrary: p h)
  case 0
  then have "h1 = h\<lparr>kpage := kpage h, kpmm := kpmm h\<rparr>" by simp
  then show ?case by blast
next
  case (Suc n)
  then obtain kp s where "heap_map_pages n (p + 1) (h\<lparr>kpage := kp, kpmm := s\<rparr>) = Some h1"
    by (auto simp: Let_def bind_eq_Some_iff split: option.splits)
  from Suc.IH [OF this] show ?case by auto
qed

text \<open>What \<^verbatim>\<open>heap_expand\<close> needs so that it can grow the heap by \<open>a\<close> bytes.\<close>

definition can_grow :: "u32 \<Rightarrow> heap \<Rightarrow> bool" where
  "can_grow a h \<longleftrightarrow> 24 \<le> unat a \<and> unat (memend h) + unat a < 2 ^ 32
     \<and> \<not> Option.is_none (heap_map_pages (unat (a div PAGE_SIZE)) 0 h)"

lemma heap_wf_grow:
  assumes wf: "heap_wf h bs hs" and a: "24 \<le> unat a" "unat (memend h) + unat a < 2 ^ 32"
    and h1: "h1 = h\<lparr>kpage := kp, kpmm := s\<rparr>"
    and h3: "h3 = (head_init (memend h) a h1)\<lparr>memend := memend h + a\<rparr>"
  shows "heap_wf h3 (bs @ [memend h]) hs" and "memend h \<notin> set bs"
    and "allocated h3 (bs @ [memend h]) hs = insert (memend h, a) (allocated h bs hs)"
    and "(memend h, a) \<notin> allocated h bs hs"
    and "heap_is_last h3 (memend h)"
proof -
  let ?m = "memend h" and ?h2 = "head_init (memend h) a h1"
  have u: "unat (?m + a) = unat ?m + unat a" using a by (intro unat_add_u32) simp
  show m: "?m \<notin> set bs"
    using tiles_addr [OF wf_tiles [OF wf], of ?m] wf_block_ok [OF wf, of ?m] by (auto simp: block_ok_def)
  have mh: "?m \<notin> set hs" using m wf by (auto simp: heap_wf_def)
  have "tiles h1 bs (unat (memstart h)) (unat ?m)"
    using wf_tiles [OF wf] same_words_tiles [of h h1] by (simp add: h1 same_words_def)
  then have "tiles ?h2 (bs @ ?m # []) (unat (memstart h)) (unat ?m + unat a)"
    using a by (intro tiles_replace) auto
  then have t: "tiles h3 (bs @ [?m]) (unat (memstart h3)) (unat (memend h3))"
    using same_words_tiles [of ?h2 h3] u by (simp add: h3 h1 same_words_def del: tiles.simps)
  have l: "hlinks h3 = INIT_LIST (Hdr ?m) (hlinks h)" by (simp add: h3 h1)
  have d: "dll (hlinks h3) Holes (map Hdr hs)"
    unfolding l using wf mh by (intro INIT_LIST_frame) (auto simp: heap_wf_def)
  have un: "unlinked (hlinks h3) (Hdr b)" if "b \<in> set (bs @ [?m]) - set hs" for b
    unfolding l using that wf_unlinked [OF wf, of b] unlinked_INIT unlinked_INIT_LIST by (cases "b = ?m") auto
  have "sorted_holes h3 hs"
    using wf mh unfolding heap_wf_def sorted_holes_def
    by (auto simp: h3 h1 elim!: sorted_wrt_mono_rel [rotated])
  then show "heap_wf h3 (bs @ [?m]) hs" using t d un wf by (auto simp: heap_wf_def)
  have "(\<lambda>b. (b, hsize h3 b)) ` (set bs - set hs) = (\<lambda>b. (b, hsize h b)) ` (set bs - set hs)"
    by (rule image_cong) (use m in \<open>auto simp: h3 h1\<close>)
  moreover have "set (bs @ [?m]) - set hs = insert ?m (set bs - set hs)" using mh by auto
  ultimately show "allocated h3 (bs @ [?m]) hs = insert (?m, a) (allocated h bs hs)"
    unfolding allocated_def by (simp add: h3)
  show "(?m, a) \<notin> allocated h bs hs" using m by (auto simp: allocated_def)
  show "heap_is_last h3 ?m" by (simp add: heap_is_last_def h3)
qed

lemma heap_expand_ok:
  assumes wf: "heap_wf h bs hs" and nf: "memmax h \<noteq> memend h"
    and a: "a = expand_amount amt h" and g: "can_grow a h"
  shows "\<exists>h' bs' hs'. heap_expand amt h = Some (Some (memend h), h') \<and> heap_wf h' bs' hs'
    \<and> hlock h' = hlock h \<and> hsize h' (memend h) = a \<and> memend h' = memend h + a
    \<and> allocated h' bs' hs' = allocated h bs hs
    \<and> (\<exists>c \<in> set hs'. unat c \<le> unat (memend h) \<and> unat (memend h) + unat a \<le> unat c + unat (hsize h' c))"
proof -
  let ?m = "memend h"
  obtain h1 kp s where h1: "heap_map_pages (unat (a div PAGE_SIZE)) 0 h = Some h1"
    "h1 = h\<lparr>kpage := kp, kpmm := s\<rparr>"
    using g heap_map_pages_frame unfolding can_grow_def Option.is_none_def by blast
  define h3 where "h3 = (head_init ?m a h1)\<lparr>memend := ?m + a\<rparr>"
  note w = heap_wf_grow [OF wf _ _ h1(2) h3_def]
  have w': "heap_wf h3 (bs @ [?m]) hs" "?m \<notin> set bs"
    "allocated h3 (bs @ [?m]) hs = insert (?m, a) (allocated h bs hs)"
    "(?m, a) \<notin> allocated h bs hs" "heap_is_last h3 ?m"
    using w g by (simp_all add: can_grow_def)
  have s: "hsize h3 ?m = a" "hlock h3 = hlock h" "memend h3 = ?m + a" by (simp_all add: h3_def h1(2))
  have "?m \<notin> set hs" using w'(2) wf by (auto simp: heap_wf_def)
  then obtain h' bs' hs' where r: "heap_free_nolock (heap_addr ?m) h3 = Some h'" "heap_wf h' bs' hs'"
    "same_cfg h3 h'" "allocated h' bs' hs' = allocated h3 (bs @ [?m]) hs - {(?m, hsize h3 ?m)}"
    "\<exists>c \<in> set hs'. covers h' c h3 ?m" "hsize h' ?m = hsize h3 ?m"
    using heap_free_nolock_ok [OF w'(1), of ?m] w'(5) by auto
  have "heap_expand amt h = Some (Some ?m, h')"
    using nf h1 r(1) by (simp add: heap_expand_def Let_def a [symmetric] h3_def)
  moreover have "allocated h' bs' hs' = allocated h bs hs" using r(4) w'(3,4) s(1) by auto
  ultimately show ?thesis using r s by (auto simp: same_cfg_def covers_def)
qed

subsection \<open>Allocating\<close>

lemma wf_unlink:
  assumes wf: "heap_wf h bs hs" and a: "a \<in> set hs"
  shows "heap_wf (unlink_header a h) bs (remove1 a hs)"
    and "allocated (unlink_header a h) bs (remove1 a hs) = insert (a, hsize h a) (allocated h bs hs)"
    and "(a, n) \<notin> allocated h bs hs"
proof -
  let ?h = "unlink_header a h"
  have d: "distinct hs" "set hs \<subseteq> set bs" using wf_distinct [OF wf] by auto
  have "tiles ?h bs (unat (memstart h)) (unat (memend h))"
    using wf_tiles [OF wf] same_words_tiles [of h ?h] by (simp add: same_words_def)
  moreover have "sorted_holes ?h (remove1 a hs)"
    using wf sorted_wrt_remove1 unfolding heap_wf_def sorted_holes_def by fastforce
  moreover have "unlinked (hlinks ?h) (Hdr b)" if "b \<in> set bs - set (remove1 a hs)" for b
    using wf_unlink_links(2) [OF wf a, of b] that d(1) by auto
  ultimately show "heap_wf ?h bs (remove1 a hs)"
    using wf_unlink_links(1) [OF wf a] d by (auto simp: heap_wf_def set_remove1_eq)
  have "set bs - set (remove1 a hs) = insert a (set bs - set hs)" using a d by (auto simp: set_remove1_eq)
  then show "allocated ?h bs (remove1 a hs) = insert (a, hsize h a) (allocated h bs hs)"
    by (auto simp: allocated_def)
  show "(a, n) \<notin> allocated h bs hs" using a by (auto simp: allocated_def)
qed

lemma heap_alloc_hole:
  assumes wf: "heap_wf h bs hs" and lock: "hlock h = 0" and rq: "req_ok reqd"
    and safe: "holes_safe h reqd align hs" and t: "List.find (takes h reqd align) hs = Some y"
  shows "\<exists>a h' bs' hs' sz. heap_alloc reqd align h = Some (Some (heap_addr a), h') \<and> heap_wf h' bs' hs'
    \<and> hlock h' = 0 \<and> allocated h' bs' hs' = insert (a, sz) (allocated h bs hs)
    \<and> (\<forall>n. (a, n) \<notin> allocated h bs hs) \<and> unat reqd + 24 \<le> unat sz \<and> unat sz \<le> unat reqd + 48
    \<and> (align \<longrightarrow> PAGE_ALIGNED (heap_addr a)) \<and> (\<not> align \<longrightarrow> a = y)"
proof -
  let ?h = "h\<lparr>hlock := 1\<rparr>"
  have tk: "takes ?h = takes h" "holes_safe ?h = holes_safe h"
    by (intro ext, simp add: takes_def align_ok_def holes_safe_def align_safe_def)+
  have y: "y \<in> set hs" "takes ?h reqd align y" using t tk by (auto simp: find_Some_iff)
  have wf1: "heap_wf ?h bs hs" using wf by simp
  obtain a h1 bs1 hs1 where r: "heap_trim y reqd align ?h = Some (Some a, h1)" "heap_wf h1 bs1 hs1"
    "a \<in> set hs1" "unat reqd + 24 \<le> unat (hsize h1 a)" "unat (hsize h1 a) \<le> unat reqd + 48"
    "same_cfg ?h h1" "allocated h1 bs1 hs1 = allocated ?h bs hs"
    "align \<longrightarrow> PAGE_ALIGNED (heap_addr a)" "\<not> align \<longrightarrow> a = y"
    using heap_trim_takes [OF wf1 y(1) rq y(2)] by blast
  have "heap_locate reqd align ?h = Some (Some a, h1)"
    using heap_locate_eq [OF wf1 rq] safe t tk r(1) by simp
  then have "heap_alloc reqd align h = Some (Some (heap_addr a), (unlink_header a h1)\<lparr>hlock := 0\<rparr>)"
    using lock by (simp add: heap_alloc_def Let_def)
  moreover have "heap_wf ((unlink_header a h1)\<lparr>hlock := 0\<rparr>) bs1 (remove1 a hs1)"
    using wf_unlink(1) [OF r(2,3)] by simp
  moreover have "allocated ((unlink_header a h1)\<lparr>hlock := 0\<rparr>) bs1 (remove1 a hs1)
      = insert (a, hsize h1 a) (allocated h bs hs)"
    using wf_unlink(2) [OF r(2,3)] r(7) by simp
  moreover have "\<forall>n. (a, n) \<notin> allocated h bs hs" using wf_unlink(3) [OF r(2,3)] r(7) by simp
  moreover have "hlock ((unlink_header a h1)\<lparr>hlock := 0\<rparr>) = 0" by simp
  ultimately show ?thesis using r(4,5,8,9) by blast
qed

text \<open>The outcome of an allocation without alignment, whatever the holes are.\<close>

definition alloc_outcome ::
  "u32 \<Rightarrow> heap \<Rightarrow> u32 list \<Rightarrow> u32 list \<Rightarrow> u32 option \<Rightarrow> heap \<Rightarrow> bool" where
  "alloc_outcome reqd h bs hs r h' \<longleftrightarrow> (\<exists>bs' hs'. heap_wf h' bs' hs' \<and>
     (case r of
        Some p \<Rightarrow> hlock h' = 0 \<and> (\<exists>a sz. p = heap_addr a
          \<and> allocated h' bs' hs' = insert (a, sz) (allocated h bs hs)
          \<and> (\<forall>n. (a, n) \<notin> allocated h bs hs) \<and> unat reqd + 24 \<le> unat sz \<and> unat sz \<le> unat reqd + 48)
      | None \<Rightarrow> hlock h' = 1 \<and> allocated h' bs' hs' = allocated h bs hs
          \<and> (\<forall>b \<in> set hs. unat (hsize h b) < unat reqd + 24)))"

lemma alloc_outcome_Some:
  assumes "heap_wf h' bs' hs'" "hlock h' = 0"
    and "allocated h' bs' hs' = insert (a, sz) (allocated h bs hs)" "\<forall>n. (a, n) \<notin> allocated h bs hs"
    and "unat reqd + 24 \<le> unat sz" "unat sz \<le> unat reqd + 48"
  shows "alloc_outcome reqd h bs hs (Some (heap_addr a)) h'"
  unfolding alloc_outcome_def option.case using assms by blast

lemma find_takes_None:
  "List.find (takes h reqd False) hs = None \<longleftrightarrow> (\<forall>b \<in> set hs. unat (hsize h b) < unat reqd + 24)"
  by (auto simp: find_None_iff takes_def not_le)

lemma heap_alloc_lock:
  assumes "hlock h = 0"
  shows "heap_alloc reqd align h = Option.bind (heap_locate reqd align (h\<lparr>hlock := 1\<rparr>)) (\<lambda>(r, h1).
     case r of None \<Rightarrow> Some (None, h1)
     | Some a \<Rightarrow> Some (Some (heap_addr a), (unlink_header a h1)\<lparr>hlock := 0\<rparr>))"
  using assms by (simp add: heap_alloc_def Let_def cong: option.case_cong)

lemma can_grow_lock: "can_grow a (h\<lparr>hlock := l\<rparr>) = can_grow a h"
proof -
  have sw: "h\<lparr>hlock := l, kpage := k, kpmm := s\<rparr> = h\<lparr>kpage := k, kpmm := s, hlock := l\<rparr>" for h k s
    by (cases h) simp
  have "heap_map_pages n p (h\<lparr>hlock := l\<rparr>) = None \<longleftrightarrow> heap_map_pages n p h = None" for n p
  proof (induction n arbitrary: p h)
    case (Suc n)
    show ?case
      by (auto simp: Let_def sw Suc.IH split: option.splits Option.bind_splits)
  qed simp
  then show ?thesis by (simp add: can_grow_def Option.is_none_def)
qed

lemma heap_alloc_grown:
  assumes wf: "heap_wf h bs hs" and lock: "hlock h = 0" and rq: "req_ok reqd"
    and none: "List.find (takes h reqd False) hs = None" and nf: "memmax h \<noteq> memend h"
    and g: "can_grow (expand_amount (reqd + KHEAP_OVHD) h) h"
  shows "\<exists>r h'. heap_alloc reqd False h = Some (r, h') \<and> alloc_outcome reqd h bs hs r h'"
proof -
  let ?h = "h\<lparr>hlock := 1\<rparr>" and ?a = "expand_amount (reqd + KHEAP_OVHD) h"
  have tk: "takes ?h = takes h" by (intro ext) (simp add: takes_def align_ok_def)
  have wf1: "heap_wf ?h bs hs" and nf1: "memmax ?h \<noteq> memend ?h" using wf nf by simp_all
  have a1: "?a = expand_amount (reqd + KHEAP_OVHD) ?h" by (simp add: expand_amount_def Let_def)
  have g1: "can_grow ?a ?h" using g by (simp add: can_grow_lock)
  obtain h1 bs1 hs1 c where e: "heap_expand (reqd + KHEAP_OVHD) ?h = Some (Some (memend h), h1)"
    "heap_wf h1 bs1 hs1" "hlock h1 = 1" "hsize h1 (memend h) = ?a"
    "allocated h1 bs1 hs1 = allocated h bs hs" "c \<in> set hs1"
    "unat c \<le> unat (memend h)" "unat (memend h) + unat ?a \<le> unat c + unat (hsize h1 c)"
    using heap_expand_ok [OF wf1 nf1 a1 g1] by auto
  have loc: "heap_locate reqd False ?h =
      (if ?a < reqd + KHEAP_OVHD then Some (None, h1) else heap_locate reqd False h1)"
    using heap_locate_eq [OF wf1 rq, of False] none tk e(1,4)
    by (simp add: holes_safe_def heap_locate_from.simps [of _ _ Holes] heap_locate_def)
  show ?thesis
  proof (cases "?a < reqd + KHEAP_OVHD")
    case True
    then have "heap_alloc reqd False h = Some (None, h1)" using loc lock by (simp add: heap_alloc_lock)
    moreover have "alloc_outcome reqd h bs hs None h1"
      using e(2,3,5) none [unfolded find_takes_None] by (auto simp: alloc_outcome_def)
    ultimately show ?thesis by blast
  next
    case False
    then have "unat reqd + 24 \<le> unat ?a" using req_unat(1) [OF rq] by (simp add: word_less_nat_alt)
    then have "takes h1 reqd False c" using e(7,8) by (simp add: takes_def)
    then obtain y where y: "List.find (takes h1 reqd False) hs1 = Some y"
      using e(6) by (metis find_None_iff not_None_eq)
    define h0 where "h0 = h1\<lparr>hlock := 0\<rparr>"
    have h0: "heap_wf h0 bs1 hs1" "hlock h0 = 0" "takes h0 = takes h1" "allocated h0 = allocated h1"
      "h0\<lparr>hlock := 1\<rparr> = h1"
      using e(2,3) by (auto simp: h0_def takes_def align_ok_def allocated_def intro!: ext)
    obtain b h' bs' hs' sz where r: "heap_alloc reqd False h0 = Some (Some (heap_addr b), h')"
      "heap_wf h' bs' hs'" "hlock h' = 0" "allocated h' bs' hs' = insert (b, sz) (allocated h0 bs1 hs1)"
      "\<forall>n. (b, n) \<notin> allocated h0 bs1 hs1" "unat reqd + 24 \<le> unat sz" "unat sz \<le> unat reqd + 48"
      using heap_alloc_hole [OF h0(1,2) rq, of False y] y h0(3) by (auto simp: holes_safe_def)
    have "heap_alloc reqd False h = heap_alloc reqd False h0"
      using loc False lock h0(2,5) by (simp add: heap_alloc_lock)
    moreover have "alloc_outcome reqd h bs hs (Some (heap_addr b)) h'"
      using r h0(4) e(5) by (intro alloc_outcome_Some) auto
    ultimately show ?thesis using r(1) by metis
  qed
qed

lemma heap_alloc_full:
  assumes wf: "heap_wf h bs hs" and lock: "hlock h = 0" and rq: "req_ok reqd"
    and none: "List.find (takes h reqd False) hs = None" and full: "memmax h = memend h"
  shows "heap_alloc reqd False h = Some (None, h\<lparr>hlock := 1\<rparr>)"
proof -
  let ?h = "h\<lparr>hlock := 1\<rparr>"
  have tk: "takes ?h = takes h" by (intro ext) (simp add: takes_def align_ok_def)
  have "heap_locate reqd False ?h = Some (None, ?h)"
    using heap_locate_eq [of ?h bs hs reqd False] wf rq none tk full
    by (simp add: holes_safe_def heap_locate_from.simps [of _ _ Holes] heap_expand_def)
  then show ?thesis using lock by (simp add: heap_alloc_lock)
qed

lemma heap_alloc_ok:
  assumes wf: "heap_wf h bs hs" and lock: "hlock h = 0" and rq: "req_ok reqd"
    and g: "(\<exists>b \<in> set hs. unat reqd + 24 \<le> unat (hsize h b)) \<or> memmax h = memend h
      \<or> can_grow (expand_amount (reqd + KHEAP_OVHD) h) h"
  shows "\<exists>r h'. heap_alloc reqd False h = Some (r, h') \<and> alloc_outcome reqd h bs hs r h'"
proof (cases "List.find (takes h reqd False) hs")
  case None
  show ?thesis
  proof (cases "memmax h = memend h")
    case True
    have "alloc_outcome reqd h bs hs None (h\<lparr>hlock := 1\<rparr>)"
      using wf None [unfolded find_takes_None] unfolding alloc_outcome_def by fastforce
    then show ?thesis using heap_alloc_full [OF wf lock rq None True] by blast
  next
    case False
    then show ?thesis using heap_alloc_grown [OF wf lock rq None] g None [unfolded find_takes_None]
      by (meson not_le)
  qed
next
  case (Some y)
  have "holes_safe h reqd False hs" by (simp add: holes_safe_def)
  from heap_alloc_hole [OF wf lock rq this Some] show ?thesis
    using alloc_outcome_Some by metis
qed

subsection \<open>The live blocks of a heap\<close>

lemma tiles_unique: "tiles h bs s e \<Longrightarrow> tiles h bs' s e \<Longrightarrow> bs = bs'"
proof (induction bs arbitrary: s bs')
  case Nil
  then show ?case by (cases bs') (auto simp: block_ok_def dest: tiles_bounds)
next
  case (Cons b bs)
  show ?case
  proof (cases bs')
    case Nil
    then show ?thesis using Cons.prems tiles_bounds [of h bs] by (auto simp: block_ok_def)
  next
    case (Cons c cs)
    then have "c = b" using Cons.prems word_eq_unat by auto
    then show ?thesis using Cons Cons.prems Cons.IH by auto
  qed
qed

lemma wf_unique:
  assumes "heap_wf h bs hs" "heap_wf h bs' hs'"
  shows "bs = bs'" "hs = hs'"
proof -
  show "bs = bs'" using tiles_unique [OF wf_tiles [OF assms(1)] wf_tiles [OF assms(2)]] .
  have "map Hdr hs = map Hdr hs'" using assms dll_unique by (auto simp: heap_wf_def)
  then show "hs = hs'" using inj_map_eq_map [of Hdr] by (auto simp: inj_def)
qed

definition heap_inv :: "heap \<Rightarrow> bool" where
  "heap_inv h \<longleftrightarrow> hlock h = 0 \<and> (\<exists>bs hs. heap_wf h bs hs)"

text \<open>The pointers the clients hold, each with the size of its block.\<close>

definition live :: "heap \<Rightarrow> (u32 \<times> u32) set" where
  "live h = {(heap_addr b, sz) |b sz. \<exists>bs hs. heap_wf h bs hs \<and> (b, sz) \<in> allocated h bs hs}"

lemma live_eq: "heap_wf h bs hs \<Longrightarrow> live h = (\<lambda>(b, sz). (heap_addr b, sz)) ` allocated h bs hs"
  using wf_unique unfolding live_def by fast

lemma heap_addr_inj: "heap_addr a = heap_addr b \<longleftrightarrow> a = b"
  by (simp add: heap_addr_def)

text \<open>The bytes of a block that its owner may use: between header and footer.\<close>

definition payload :: "u32 \<times> u32 \<Rightarrow> nat set" where
  "payload = (\<lambda>(p, sz). {unat p ..< unat p + unat sz - 24})"

definition holds :: "u32 \<Rightarrow> u32 \<times> u32 \<Rightarrow> bool" where
  "holds reqd = (\<lambda>(p, sz). unat reqd + 24 \<le> unat sz)"

text \<open>An allocation returns: a hole is big enough, or the heap can grow, or it is at its limit.\<close>

definition heap_ready :: "u32 \<Rightarrow> heap \<Rightarrow> bool" where
  "heap_ready reqd h \<longleftrightarrow> req_ok reqd \<and>
     ((\<exists>bs hs. heap_wf h bs hs \<and> (\<exists>b \<in> set hs. unat reqd + 24 \<le> unat (hsize h b)))
      \<or> memmax h = memend h \<or> can_grow (expand_amount (reqd + KHEAP_OVHD) h) h)"

lemma tiles_apart:
  assumes "tiles h bs s e" "a \<in> set bs" "b \<in> set bs" "a \<noteq> b"
  shows "unat a + unat (hsize h a) \<le> unat b \<or> unat b + unat (hsize h b) \<le> unat a"
  using assms
proof (induction bs arbitrary: s)
  case (Cons c bs)
  then show ?case
    using tiles_addr [of h bs "s + unat (hsize h c)" e] by fastforce
qed simp

lemma live_payload_disjoint:
  assumes inv: "heap_inv h" and x: "x \<in> live h" and y: "y \<in> live h" and "fst x \<noteq> fst y"
  shows "payload x \<inter> payload y = {}"
proof -
  obtain bs hs where wf: "heap_wf h bs hs" using inv by (auto simp: heap_inv_def)
  obtain a b where a: "x = (heap_addr a, hsize h a)" "a \<in> set bs" and b: "y = (heap_addr b, hsize h b)" "b \<in> set bs"
    using x y live_eq [OF wf] by (auto simp: allocated_def)
  have "a \<noteq> b" using assms(4) a b by auto
  then have "unat a + unat (hsize h a) \<le> unat b \<or> unat b + unat (hsize h b) \<le> unat a"
    using tiles_apart [OF wf_tiles [OF wf] a(2) b(2)] by simp
  then show ?thesis using a b heap_addr_bounds(4) [OF wf] by (auto simp: payload_def)
qed

lemma heap_alloc_live:
  assumes inv: "heap_inv h" and rd: "heap_ready reqd h"
    and al: "heap_alloc reqd False h = Some (Some p, h')"
  shows "heap_inv h' \<and> (\<exists>sz. live h' = insert (p, sz) (live h) \<and> (\<forall>n. (p, n) \<notin> live h) \<and> holds reqd (p, sz))"
proof -
  obtain bs hs where wf: "heap_wf h bs hs" and l: "hlock h = 0" using inv by (auto simp: heap_inv_def)
  have "(\<exists>b \<in> set hs. unat reqd + 24 \<le> unat (hsize h b)) \<or> memmax h = memend h
      \<or> can_grow (expand_amount (reqd + KHEAP_OVHD) h) h" "req_ok reqd"
    using rd wf_unique [OF wf] unfolding heap_ready_def by blast+
  then have "alloc_outcome reqd h bs hs (Some p) h'" using heap_alloc_ok [OF wf l, of reqd] al by auto
  then obtain bs' hs' a sz where o: "heap_wf h' bs' hs'" "hlock h' = 0" "p = heap_addr a"
    "allocated h' bs' hs' = insert (a, sz) (allocated h bs hs)" "\<forall>n. (a, n) \<notin> allocated h bs hs"
    "unat reqd + 24 \<le> unat sz"
    by (auto simp: alloc_outcome_def)
  have "live h' = insert (p, sz) (live h)" using live_eq [OF wf] live_eq [OF o(1)] o(3,4) by simp
  moreover have "\<forall>n. (p, n) \<notin> live h" using live_eq [OF wf] o(3,5) by (auto simp: heap_addr_inj)
  ultimately show ?thesis using o by (auto simp: heap_inv_def holds_def)
qed

text \<open>
  A request with alignment is served from the holes: one of them can be split at a page boundary, and
  in every hole the boundary after the header lies inside the hole.
\<close>

definition heap_serves :: "u32 \<times> bool \<Rightarrow> heap \<Rightarrow> bool" where
  "heap_serves = (\<lambda>(reqd, align) h. if align then req_ok reqd \<and>
     (\<exists>bs hs. heap_wf h bs hs \<and> holes_safe h reqd True hs \<and> (\<exists>z \<in> set hs. takes h reqd True z))
     else heap_ready reqd h)"

lemma heap_alloc_aligned_live:
  assumes inv: "heap_inv h" and rd: "heap_serves (reqd, True) h"
    and al: "heap_alloc reqd True h = Some (Some p, h')"
  shows "heap_inv h' \<and> (\<exists>sz. live h' = insert (p, sz) (live h) \<and> (\<forall>n. (p, n) \<notin> live h) \<and> holds reqd (p, sz))"
proof -
  obtain bs hs z where wf: "heap_wf h bs hs" "req_ok reqd" "holes_safe h reqd True hs" "z \<in> set hs" "takes h reqd True z"
    using rd by (auto simp: heap_serves_def)
  then obtain y where y: "List.find (takes h reqd True) hs = Some y" by (metis find_None_iff not_None_eq)
  have l: "hlock h = 0" using inv by (simp add: heap_inv_def)
  obtain a bs' hs' sz where o: "p = heap_addr a" "heap_wf h' bs' hs'" "hlock h' = 0"
    "allocated h' bs' hs' = insert (a, sz) (allocated h bs hs)" "\<forall>n. (a, n) \<notin> allocated h bs hs" "unat reqd + 24 \<le> unat sz"
    using heap_alloc_hole [OF wf(1) l wf(2,3) y] al by auto
  have "live h' = insert (p, sz) (live h)" using live_eq [OF wf(1)] live_eq [OF o(2)] o(1,4) by simp
  moreover have "\<forall>n. (p, n) \<notin> live h" using live_eq [OF wf(1)] o(1,5) by (auto simp: heap_addr_inj)
  ultimately show ?thesis using o by (auto simp: heap_inv_def holds_def)
qed

lemma heap_serves_live:
  assumes "heap_inv h" "heap_serves r h" "(case r of (n, align) \<Rightarrow> heap_alloc n align) h = Some (Some p, h')"
  shows "heap_inv h' \<and> (\<exists>sz. live h' = insert (p, sz) (live h) \<and> (\<forall>n. (p, n) \<notin> live h) \<and> holds (fst r) (p, sz))"
  using assms heap_alloc_aligned_live [of h "fst r" p h'] heap_alloc_live [of h "fst r" p h']
  by (cases r; cases "snd r") (auto simp: heap_serves_def)

lemma heap_free_live:
  assumes inv: "heap_inv h" and x: "(p, sz) \<in> live h"
  shows "\<exists>h'. heap_free p h = Some h' \<and> heap_inv h' \<and> live h' = live h - {(p, sz)}"
proof -
  obtain bs hs where wf: "heap_wf h bs hs" and l: "hlock h = 0" using inv by (auto simp: heap_inv_def)
  then obtain b where b: "p = heap_addr b" "(b, sz) \<in> allocated h bs hs"
    using x live_eq [OF wf] by auto
  note d = allocatedD [OF b(2)]
  obtain h' bs' hs' where r: "heap_free p h = Some h'" "heap_wf h' bs' hs'" "same_cfg h h'"
    "allocated h' bs' hs' = allocated h bs hs - {(b, sz)}"
    using heap_free_ok [OF wf _ _ l, of b] d b(1) by blast
  have "inj_on (\<lambda>(b, sz). (heap_addr b, sz)) A" for A by (auto simp: inj_on_def heap_addr_inj)
  then have "live h' = live h - {(p, sz)}"
    unfolding live_eq [OF wf] live_eq [OF r(2)] r(4) b(1) by (auto simp: heap_addr_inj)
  then show ?thesis using r l by (auto simp: heap_inv_def same_cfg_def)
qed

subsection \<open>The interface of the heap\<close>

text \<open>
  What every caller of \<^verbatim>\<open>kmalloc\<close> and \<^verbatim>\<open>kfree\<close> relies on: the memory it gets is its own until it
  gives it back.
\<close>

locale block_allocator =
  fixes inv :: "'s \<Rightarrow> bool"
    and blocks :: "'s \<Rightarrow> (u32 \<times> u32) set"
    and need :: "'r \<Rightarrow> u32"
    and ready :: "'r \<Rightarrow> 's \<Rightarrow> bool"
    and alloc :: "'r \<Rightarrow> 's \<Rightarrow> (u32 option \<times> 's) option"
    and release :: "u32 \<Rightarrow> 's \<Rightarrow> 's option"
  assumes blocks_disjoint: "inv s \<Longrightarrow> x \<in> blocks s \<Longrightarrow> y \<in> blocks s \<Longrightarrow> fst x \<noteq> fst y \<Longrightarrow>
      payload x \<inter> payload y = {}"
    and alloc_new: "inv s \<Longrightarrow> ready n s \<Longrightarrow> alloc n s = Some (Some p, s') \<Longrightarrow>
      inv s' \<and> (\<exists>sz. blocks s' = insert (p, sz) (blocks s) \<and> (\<forall>k. (p, k) \<notin> blocks s) \<and> holds (need n) (p, sz))"
    and release_live: "inv s \<Longrightarrow> (p, sz) \<in> blocks s \<Longrightarrow>
      \<exists>s'. release p s = Some s' \<and> inv s' \<and> blocks s' = blocks s - {(p, sz)}"
begin

text \<open>States reached by allocating and by freeing what was allocated.\<close>

inductive reach :: "'s \<Rightarrow> 's \<Rightarrow> bool" where
  start: "reach s s"
| get: "reach s t \<Longrightarrow> ready n t \<Longrightarrow> alloc n t = Some (Some p, t') \<Longrightarrow> reach s t'"
| put: "reach s t \<Longrightarrow> (p, sz) \<in> blocks t \<Longrightarrow> release p t = Some t' \<Longrightarrow> reach s t'"

lemma reach_inv: "reach s t \<Longrightarrow> inv s \<Longrightarrow> inv t"
proof (induction rule: reach.induct)
  case (get s t n p t')
  then show ?case using alloc_new by blast
next
  case (put s t p sz t')
  then show ?case using release_live [of t p sz] by auto
qed

lemma reach_disjoint:
  "reach s t \<Longrightarrow> inv s \<Longrightarrow> x \<in> blocks t \<Longrightarrow> y \<in> blocks t \<Longrightarrow> fst x \<noteq> fst y \<Longrightarrow> payload x \<inter> payload y = {}"
  using reach_inv blocks_disjoint by blast

lemma alloc_then_release:
  assumes "inv s" "ready n s" "alloc n s = Some (Some p, s1)"
  shows "\<exists>s2. release p s1 = Some s2 \<and> inv s2 \<and> blocks s2 = blocks s"
proof -
  obtain sz where "inv s1" "blocks s1 = insert (p, sz) (blocks s)" "\<forall>k. (p, k) \<notin> blocks s"
    using alloc_new [OF assms] by blast
  then show ?thesis using release_live [of s1 p sz] by auto
qed

end

interpretation hb: block_allocator heap_inv live fst heap_serves "\<lambda>(n, align). heap_alloc n align" heap_free
  by unfold_locales (fact live_payload_disjoint heap_serves_live heap_free_live)+

subsection \<open>A concrete heap\<close>

definition no_page :: page where
  "no_page = \<lparr>present = False, rw = False, user = False, accessed = False, dirty = False,
     unused = 0, frame = 0\<rparr>"

text \<open>One free page at \<^verbatim>\<open>0x1000\<close>, in a heap that may grow up to \<^verbatim>\<open>0x9000\<close>.\<close>

definition demo_heap :: heap where
  "demo_heap = \<lparr>memstart = 0x1000, memend = 0x2000, memmax = 0x9000,
     hlinks = \<lparr>lprev = id(Holes := Hdr 0x1000, Hdr 0x1000 := Holes),
               lnext = id(Holes := Hdr 0x1000, Hdr 0x1000 := Holes)\<rparr>,
     hmagic = (\<lambda>_. 0)(0x1000 := KHEAP_MAGIC), hsize = (\<lambda>_. 0)(0x1000 := 0x1000),
     fmagic = (\<lambda>_. 0)(0x1FF8 := KHEAP_MAGIC), fheader = (\<lambda>_. 0)(0x1FF8 := 0x1000),
     hlock = 0, kpage = (\<lambda>_. Some no_page),
     kpmm = \<lparr>physical_frame = [0], physical_frame_count = 32\<rparr>\<rparr>"

lemma demo_heap_wf: "heap_wf demo_heap [0x1000] [0x1000]"
  by (simp add: heap_wf_def demo_heap_def block_ok_def heap_foot_def dll_def sorted_holes_def)

lemma demo_heap_inv: "heap_inv demo_heap" "hlock demo_heap = 0" "hsize demo_heap 0x1000 = 0x1000"
  using demo_heap_wf by (auto simp: heap_inv_def demo_heap_def)

subsection \<open>Properties\<close>



text \<open>
  C6: \<^verbatim>\<open>heap_free\<close> of an allocated block returns, removes exactly that block from the allocated ones,
  keeps the heap well formed and unlocked, and some hole then contains the freed memory.
\<close>

theorem heap_free_correct:
  assumes "heap_wf h bs hs" "b \<in> set bs" "b \<notin> set hs" "hlock h = 0"
  shows "\<exists>h' bs' hs'. heap_free (heap_addr b) h = Some h' \<and> heap_wf h' bs' hs' \<and> same_cfg h h'
    \<and> allocated h' bs' hs' = allocated h bs hs - {(b, hsize h b)} \<and> (\<exists>c \<in> set hs'. covers h' c h b)"
  using assms by (rule heap_free_ok)

theorem heap_free_correct_witness:
  "let h = unlink_header 0x1000 demo_heap in
   \<exists>h' bs' hs'. heap_free 0x1010 h = Some h' \<and> heap_wf h' bs' hs' \<and> same_cfg h h'
    \<and> allocated h' bs' hs' = allocated h [0x1000] [] - {(0x1000, 0x1000)} \<and> (\<exists>c \<in> set hs'. covers h' c h 0x1000)"
  using heap_free_correct [of "unlink_header 0x1000 demo_heap" "[0x1000]" "[]" "0x1000"]
    wf_unlink(1) [OF demo_heap_wf] demo_heap_inv
  by (simp add: heap_addr_def)


text \<open>The heap after one request on \<open>demo_heap\<close>.\<close>

definition demo_heap1 :: heap where
  "demo_heap1 = snd (the (heap_alloc 100 False demo_heap))"

lemma demo_alloc1: "heap_alloc 100 False demo_heap = Some (Some 0x1010, demo_heap1)"
proof -
  have "map_option fst (heap_alloc 100 False demo_heap) = Some (Some 0x1010)" by code_simp
  then show ?thesis unfolding demo_heap1_def by (cases "heap_alloc 100 False demo_heap") auto
qed

lemma demo_ready: "heap_ready 100 demo_heap" "heap_ready 200 demo_heap1"
proof -
  have "expand_amount (100 + KHEAP_OVHD) demo_heap = 0x1000" "memend demo_heap = 0x2000"
    "\<not> Option.is_none (heap_map_pages 1 0 demo_heap)"
    "expand_amount (200 + KHEAP_OVHD) demo_heap1 = 0x1000" "memend demo_heap1 = 0x2000"
    "\<not> Option.is_none (heap_map_pages 1 0 demo_heap1)"
    by code_simp+
  then show "heap_ready 100 demo_heap" "heap_ready 200 demo_heap1"
    by (simp_all add: heap_ready_def can_grow_def PAGE_SIZE_def req_ok_def)
qed


text \<open>
  Best fit. When some hole is big enough, \<^verbatim>\<open>heap_alloc\<close> takes the smallest one that is.
\<close>

theorem heap_alloc_best_fit:
  assumes "heap_wf h bs hs" "hlock h = 0" "req_ok reqd" "z \<in> set hs" "unat reqd + 24 \<le> unat (hsize h z)"
  shows "\<exists>y h'. heap_alloc reqd False h = Some (Some (heap_addr y), h') \<and> y \<in> set hs
    \<and> unat reqd + 24 \<le> unat (hsize h y) \<and> hsize h y \<le> hsize h z"
proof -
  have z: "takes h reqd False z" using assms(5) by (simp add: takes_def)
  then obtain y where y: "List.find (takes h reqd False) hs = Some y"
    using assms(4) by (metis find_None_iff not_None_eq)
  then have "y \<in> set hs" "takes h reqd False y" by (auto simp: find_Some_iff)
  moreover have "hsize h y \<le> hsize h z"
    using find_sorted_least [OF _ y assms(4) z, of "hsize h"] assms(1) by (simp add: heap_wf_def sorted_holes_def)
  moreover have "\<exists>h'. heap_alloc reqd False h = Some (Some (heap_addr y), h')"
    using heap_alloc_hole [OF assms(1-3) _ y] by (auto simp: holes_safe_def)
  ultimately show ?thesis by (auto simp: takes_def)
qed

theorem heap_alloc_best_fit_witness:
  "\<exists>y h'. heap_alloc 100 False demo_heap = Some (Some (heap_addr y), h') \<and> y \<in> set [0x1000]
    \<and> unat (100 :: u32) + 24 \<le> unat (hsize demo_heap y) \<and> hsize demo_heap y \<le> hsize demo_heap 0x1000"
  by (rule heap_alloc_best_fit [OF demo_heap_wf demo_heap_inv(2)])
    (simp_all add: req_ok_def demo_heap_inv(3))

text \<open>
  C8: An allocation with alignment returns a pointer at the start of a page, provided that some
  hole can be split so, and that the page boundary after each hole's header lies inside the hole.
\<close>

theorem heap_alloc_aligned:
  assumes "heap_wf h bs hs" "hlock h = 0" "req_ok reqd" "holes_safe h reqd True hs"
    and "z \<in> set hs" "takes h reqd True z"
  shows "\<exists>p h' bs' hs' sz. heap_alloc reqd True h = Some (Some p, h') \<and> PAGE_ALIGNED p
    \<and> heap_wf h' bs' hs' \<and> hlock h' = 0 \<and> unat reqd + 24 \<le> unat sz
    \<and> allocated h' bs' hs' = insert (heap_head p, sz) (allocated h bs hs)"
proof -
  obtain y where y: "List.find (takes h reqd True) hs = Some y"
    using assms(5,6) by (metis find_None_iff not_None_eq)
  have "heap_head (heap_addr a) = a" for a by (simp add: heap_head_def heap_addr_def)
  then show ?thesis using heap_alloc_hole [OF assms(1-4) y] by metis
qed

text \<open>A free area that starts in the middle of one page and reaches into the next ones.\<close>

definition demo_area :: heap where
  "demo_area = demo_heap\<lparr>memstart := 0x1800, memend := 0x5800,
     hlinks := \<lparr>lprev = id(Holes := Hdr 0x1800, Hdr 0x1800 := Holes),
               lnext = id(Holes := Hdr 0x1800, Hdr 0x1800 := Holes)\<rparr>,
     hmagic := (\<lambda>_. 0)(0x1800 := KHEAP_MAGIC), hsize := (\<lambda>_. 0)(0x1800 := 0x4000),
     fmagic := (\<lambda>_. 0)(0x57F8 := KHEAP_MAGIC), fheader := (\<lambda>_. 0)(0x57F8 := 0x1800)\<rparr>"

theorem heap_alloc_aligned_witness:
  "\<exists>p h' bs' hs' sz. heap_alloc 0x1000 True demo_area = Some (Some p, h') \<and> PAGE_ALIGNED p
    \<and> heap_wf h' bs' hs' \<and> hlock h' = 0 \<and> unat (0x1000 :: u32) + 24 \<le> unat sz
    \<and> allocated h' bs' hs' = insert (heap_head p, sz) (allocated demo_area [0x1800] [0x1800])"
proof (rule heap_alloc_aligned)
  show "heap_wf demo_area [0x1800] [0x1800]"
    by (simp add: heap_wf_def demo_area_def demo_heap_def block_ok_def heap_foot_def dll_def sorted_holes_def)
  show "hlock demo_area = 0" by (simp add: demo_area_def demo_heap_def)
  have "align_point 0x1800 = 0x1FF0" "hsize demo_area 0x1800 = 0x4000" by code_simp+
  then show "req_ok 0x1000" "holes_safe demo_area 0x1000 True [0x1800]" "takes demo_area 0x1000 True 0x1800"
    by (simp_all add: req_ok_def holes_safe_def align_safe_def takes_def align_ok_def)
qed simp

text \<open>
  \<^verbatim>\<open>heap_init\<close> on fresh page tables gives a well-formed heap with one hole, nothing allocated,
  and the lock free.
\<close>

theorem heap_init_correct:
  assumes "unat start + 0x1000 \<le> unat stop"
    and "kpage h (drop_bit 12 start) = Some pg" "\<not> present pg"
    and "pmm_inv (kpmm h)" "free_idx (physical_frame (kpmm h)) f"
  shows "\<exists>h' bs' hs'. heap_init start stop h = Some h' \<and> heap_wf h' bs' hs' \<and> hlock h' = 0
    \<and> allocated h' bs' hs' = {} \<and> memend h' = start + 0x1000
    \<and> (\<exists>c \<in> set hs'. unat start + 0x1000 \<le> unat c + unat (hsize h' c))"
proof -
  define h2 where "h2 = h\<lparr>memstart := start, memend := start, memmax := stop, hlock := 0,
    hlinks := INIT_LIST Holes (hlinks h)\<rparr>"
  have wf: "heap_wf h2 [] []" by (simp add: heap_wf_def h2_def dll_INIT_LIST sorted_holes_def)
  have u: "unat (start + 0x1000) = unat start + 0x1000"
    using unat_add_le [of start "0x1000" stop] assms(1) by simp
  have "PAGE_OFFSET 1 = 1" "PAGE_ALIGN 1 = 0" by code_simp+
  then have a: "0x1000 = expand_amount 1 h2"
    using u assms(1) by (simp add: expand_amount_def h2_def word_less_nat_alt)
  obtain pg' s' where "alloc_frame pg False True (kpmm h) = Some (pg', s')"
    using alloc_frame_spec [OF assms(4,3), of False True] assms(5) by blast
  then have "\<not> Option.is_none (heap_map_pages 1 0 h2)" using assms(2) by (simp add: h2_def)
  then have g: "can_grow 0x1000 h2"
    using assms(1) unat_lt_u32 [of stop] by (simp add: can_grow_def h2_def PAGE_SIZE_def del: unat_lt_u32)
  have "memmax h2 \<noteq> memend h2" using assms(1) by (auto simp: h2_def)
  from heap_expand_ok [OF wf this a g]
  obtain h' bs' hs' where r: "heap_expand 1 h2 = Some (Some start, h')" "heap_wf h' bs' hs'" "hlock h' = 0"
    "memend h' = start + 0x1000" "allocated h' bs' hs' = allocated h2 [] []"
    "\<exists>c \<in> set hs'. unat start + 0x1000 \<le> unat c + unat (hsize h' c)"
    by (auto simp: h2_def)
  have "heap_init start stop h = Some h'"
    using r(1) by (simp add: heap_init_def h2_def)
  then show ?thesis using r by (auto simp: allocated_def)
qed

theorem heap_init_correct_witness:
  "\<exists>h' bs' hs'. heap_init 0xD0000000 0xF0000000 demo_heap = Some h' \<and> heap_wf h' bs' hs' \<and> hlock h' = 0
    \<and> allocated h' bs' hs' = {} \<and> memend h' = 0xD0000000 + 0x1000
    \<and> (\<exists>c \<in> set hs'. unat (0xD0000000 :: u32) + 0x1000 \<le> unat c + unat (hsize h' c))"
  by (rule heap_init_correct [where pg = no_page and f = 1])
    (simp_all add: demo_heap_def no_page_def pmm_inv_def free_idx_iff)

text \<open>
  When the heap cannot grow and no hole is big enough, \<^verbatim>\<open>heap_alloc\<close> returns \<^verbatim>\<open>NULL\<close> with the heap
  lock still taken: every later allocation or release spins for ever.
\<close>

theorem heap_alloc_oom_deadlock:
  assumes "heap_wf h bs hs" "hlock h = 0" "req_ok reqd" "memmax h = memend h"
    and "\<forall>b \<in> set hs. unat (hsize h b) < unat reqd + 24"
  shows "\<exists>h'. heap_alloc reqd False h = Some (None, h')
    \<and> (\<forall>n a. heap_alloc n a h' = None) \<and> (\<forall>p. heap_free p h' = None)"
proof -
  have "heap_alloc reqd False h = Some (None, h\<lparr>hlock := 1\<rparr>)"
    using heap_alloc_full [OF assms(1-3) _ assms(4)] assms(5) by (simp add: find_takes_None)
  then show ?thesis by (auto simp: heap_alloc_def heap_free_def spin_lock_held)
qed

theorem heap_alloc_oom_deadlock_witness:
  "let h = demo_heap\<lparr>memmax := 0x2000\<rparr> in
   \<exists>h'. heap_alloc 0x1000 False h = Some (None, h')
    \<and> (\<forall>n a. heap_alloc n a h' = None) \<and> (\<forall>p. heap_free p h' = None)"
proof -
  let ?h = "demo_heap\<lparr>memmax := 0x2000\<rparr>"
  have "heap_wf ?h [0x1000] [0x1000]"
    by (simp add: heap_wf_def demo_heap_def block_ok_def heap_foot_def dll_def sorted_holes_def)
  then show ?thesis using heap_alloc_oom_deadlock [of ?h "[0x1000]" "[0x1000]" "0x1000"]
    by (simp add: demo_heap_def req_ok_def)
qed

text \<open>
  The size computation is not checked for wrap-around: a request of \<^verbatim>\<open>0xFFFFFFF0\<close> bytes succeeds
  with a block whose header says 8 bytes, less than a header.
\<close>

theorem heap_alloc_wraps:
  "map_option (\<lambda>(r, h). (r, hsize h 0x1000)) (heap_alloc 0xFFFFFFF0 False demo_heap) = Some (Some 0x1010, 8)"
  by code_simp

text \<open>
  \<^verbatim>\<open>memmax\<close> is not a bound. \<^verbatim>\<open>heap_expand\<close> compares the new size with the distance from
  \<^verbatim>\<open>memstart\<close>, not from \<^verbatim>\<open>memend\<close>: a request for \<^verbatim>\<open>0x7000\<close> bytes makes a heap that may end at
  \<^verbatim>\<open>0x9000\<close> end at \<^verbatim>\<open>0xA000\<close>.
\<close>

theorem heap_expand_past_memmax:
  "map_option (\<lambda>(r, h). (r, memend h, memmax h)) (heap_alloc 0x7000 False demo_heap)
     = Some (Some 0x1010, 0xA000, 0x9000)"
  by code_simp

end
