(* ===== verification/Task.thy ===== *)
theory Task
  imports LinkedList Spinlock
begin

text \<open>
  Tasks and signals: \<^verbatim>\<open>kernel/include/stewieos/task.h\<close>, \<^verbatim>\<open>ksignal.h\<close>, \<^verbatim>\<open>kernel/src/signal.c\<close> and the
  parts of \<^verbatim>\<open>kernel/src/task.c\<close> that do not switch tasks; the scheduler is in the theory \<open>Sched\<close>.

  A task structure is identified by a number (its address). All lists of the kernel's task data
  live in one pointer memory \<open>klinks\<close>; a node is named after the structure and field that embeds
  it. The C globals are the record \<open>kern\<close>. \<open>current\<close> is \<open>None\<close> for a null pointer.

  Calls into other components (the file table of a task, page directories, the memory allocator)
  are recorded in the list \<open>calls\<close>, newest first; those components are modelled by their own
  theories. A result \<open>None\<close> means that the code does not return.
\<close>

subsection \<open>Flags\<close>

definition TF_RUNNING :: u32 where "TF_RUNNING = 0x001"
definition TF_RESCHED :: u32 where "TF_RESCHED = 0x002"
definition TF_WAITTASK :: u32 where "TF_WAITTASK = 0x004"
definition TF_WAITSIG :: u32 where "TF_WAITSIG = 0x008"
definition TF_EXIT :: u32 where "TF_EXIT = 0x010"
definition TF_ZOMBIE :: u32 where "TF_ZOMBIE = 0x020"
definition TF_EXECVE :: u32 where "TF_EXECVE = 0x040"
definition TF_WAITIO :: u32 where "TF_WAITIO = 0x080"
definition TF_WAITMESG :: u32 where "TF_WAITMESG = 0x100"
definition TF_SIGNAL :: u32 where "TF_SIGNAL = 0x200"
definition TF_STOPPED :: u32 where "TF_STOPPED = 0x400"

definition TF_WAITMASK :: u32 where
  "TF_WAITMASK = TF_WAITIO OR TF_WAITSIG OR TF_WAITTASK OR TF_WAITMESG OR TF_STOPPED"

lemmas TF_defs =
  TF_RUNNING_def TF_RESCHED_def TF_WAITTASK_def TF_WAITSIG_def TF_EXIT_def TF_ZOMBIE_def
  TF_EXECVE_def TF_WAITIO_def TF_WAITMESG_def TF_SIGNAL_def TF_STOPPED_def TF_WAITMASK_def

subsection \<open>Data\<close>

text \<open>The part of the processor state that a task switch saves.\<close>

record cctx =
  c_eip :: u32
  c_esp :: u32
  c_ebp :: u32
  c_eflags :: u32

datatype sighandler = SIG_DFL | SIG_IGN | Handler u32

text \<open>
  Signal numbers are those of the C library the kernel is built with (newlib); \<open>NSIG\<close> is the number
  of signals.
\<close>

definition NSIG :: nat where "NSIG = 32"

record signal_state =
  bitmap :: "u32 list"
  nraised :: int
  handler :: "sighandler list"
  handler_return :: u32
  s_fpu :: "u8 list"
  s_ctx :: cctx

record task =
  t_pid :: int
  t_gid :: int
  t_sid :: int
  t_uid :: u32
  t_flags :: u32
  t_ctx :: cctx
  t_waitfor :: int
  t_ticks_left :: u32
  t_timeout :: u32
  t_status :: int
  t_umask :: u32
  t_dataend :: u32
  t_fpu :: "u8 list"
  t_dir :: nat
  t_mesgq_lock :: u32
  t_signal :: signal_state
  t_parent :: "nat option"

record message =
  m_from :: int
  m_id :: u32
  m_length :: u32
  m_data :: "u8 list"

record sleep_data =
  sd_task :: nat
  sd_wakeup :: u32

datatype knode =
    ReadyTasks | GlobList | SleepList
  | TQueue nat | TGlob nat | TSibling nat | TChildren nat | TTtyWait nat | TSem nat
  | MesgQueue nat | Mesg nat | SleepLink nat | SemTasks nat

datatype kcall =
    Call_free_task_vfs nat | Call_init_task_vfs nat | Call_copy_task_vfs nat nat
  | Call_free_page_dir nat | Call_strip_page_dir nat | Call_kfree_task nat
  | Call_kfree_mesg nat | Call_kfree_sleep nat | Call_kfree_sem nat
  | Call_alloc_page nat u32 | Call_alloc_frame nat u32 | Call_timer_callback u32
  | Call_signal_frame nat u32 u32

record kern =
  tasks :: "nat \<Rightarrow> task"
  mesgs :: "nat \<Rightarrow> message"
  sleeps :: "nat \<Rightarrow> sleep_data"
  klinks :: "knode links"
  current :: "nat option"
  curdir :: nat
  next_pid :: int
  foreground_pid :: int
  task_sleeplock :: u32
  g_fpu_state :: "u8 list"
  fpu_regs :: "u8 list"
  ticks :: u32
  calls :: "kcall list"

abbreviation upd_task :: "nat \<Rightarrow> (task \<Rightarrow> task) \<Rightarrow> kern \<Rightarrow> kern" where
  "upd_task t f k \<equiv> k\<lparr>tasks := (tasks k)(t := f (tasks k t))\<rparr>"

abbreviation upd_links :: "(knode links \<Rightarrow> knode links) \<Rightarrow> kern \<Rightarrow> kern" where
  "upd_links f k \<equiv> k\<lparr>klinks := f (klinks k)\<rparr>"

abbreviation log_call :: "kcall \<Rightarrow> kern \<Rightarrow> kern" where
  "log_call c k \<equiv> k\<lparr>calls := c # calls k\<rparr>"

text \<open>The value with which a timer callback says that it is not to be called again.\<close>

definition TIMER_CANCEL :: u32 where "TIMER_CANCEL = 0xFFFFFFFF"

text \<open>\<^verbatim>\<open>list_entry\<close>: the structure that embeds a node. The kernel applies it to items only.\<close>

fun owner :: "knode \<Rightarrow> nat" where
  "owner (TQueue t) = t"
| "owner (TGlob t) = t"
| "owner (TSibling t) = t"
| "owner (TChildren t) = t"
| "owner (TTtyWait t) = t"
| "owner (TSem t) = t"
| "owner (MesgQueue t) = t"
| "owner (Mesg m) = m"
| "owner (SleepLink s) = s"
| "owner (SemTasks s) = s"
| "owner _ = 0"

definition T_ISZOMBIE :: "task \<Rightarrow> bool" where
  "T_ISZOMBIE t \<longleftrightarrow> t_flags t AND TF_ZOMBIE \<noteq> 0"

definition T_RUNNING :: "task \<Rightarrow> bool" where
  "T_RUNNING t \<longleftrightarrow> t_flags t AND TF_RUNNING \<noteq> 0"

definition T_EXECVE :: "task \<Rightarrow> bool" where
  "T_EXECVE t \<longleftrightarrow> t_flags t AND TF_EXECVE \<noteq> 0"

definition T_WAITING :: "task \<Rightarrow> bool" where
  "T_WAITING t \<longleftrightarrow> t_flags t AND TF_WAITMASK \<noteq> 0"

definition T_EXITING :: "task \<Rightarrow> bool" where
  "T_EXITING t \<longleftrightarrow> t_flags t AND TF_EXIT \<noteq> 0"

subsection \<open>Looking up, waking, blocking\<close>

definition task_lookup :: "int \<Rightarrow> kern \<Rightarrow> nat option option" where
  "task_lookup pid k =
     map_option (map_option owner)
       (list_find (klinks k) GlobList (\<lambda>n. t_pid (tasks k (owner n)) = pid)
         (lnext (klinks k) GlobList))"

definition sys_getpid :: "kern \<Rightarrow> int" where
  "sys_getpid k = t_pid (tasks k (the (current k)))"

definition task_getfg :: "kern \<Rightarrow> int" where
  "task_getfg k = foreground_pid k"

definition task_setfg :: "int \<Rightarrow> kern \<Rightarrow> kern option" where
  "task_setfg pid k =
     Option.bind (task_lookup pid k) (\<lambda>r.
       case r of None \<Rightarrow> Some k | Some t \<Rightarrow> Some (k\<lparr>foreground_pid := pid\<rparr>))"

text \<open>The part of \<^verbatim>\<open>task_wait\<close> before it calls the scheduler.\<close>

definition task_block :: "nat \<Rightarrow> u32 \<Rightarrow> kern \<Rightarrow> kern" where
  "task_block t wait_flag k =
     upd_task t (\<lambda>x. x\<lparr>t_flags := t_flags x OR (wait_flag OR TF_RESCHED)\<rparr>)
       (upd_links (list_rem (TQueue t)) k)"

definition task_wakeup :: "nat \<Rightarrow> kern \<Rightarrow> kern" where
  "task_wakeup t k =
     (if t_flags (tasks k t) AND TF_WAITMASK = 0 then k
      else
        let k1 = (if list_inserted (klinks k) (TQueue t)
                  then upd_links (list_rem (TQueue t)) k else k);
            k2 = upd_links (list_add (TQueue t) ReadyTasks) k1;
            k3 = upd_task t (\<lambda>x. x\<lparr>t_flags := t_flags x AND NOT (TF_WAITMASK OR TF_RESCHED)\<rparr>) k2
        in upd_task t (\<lambda>x. x\<lparr>t_flags := t_flags x OR TF_RUNNING\<rparr>) k3)"

definition task_detach :: "int \<Rightarrow> kern \<Rightarrow> kern option" where
  "task_detach pid k =
     Option.bind (task_lookup pid k) (\<lambda>r. case r of
       None \<Rightarrow> Some k
     | Some t \<Rightarrow>
         let detach = (\<lambda>k. Some (upd_task t (\<lambda>x. x\<lparr>t_parent := None\<rparr>) (upd_links (list_rem (TSibling t)) k)))
         in if task_getfg k = pid then
              (case t_parent (tasks k t) of
                 Some p \<Rightarrow> Option.bind (task_setfg (t_pid (tasks k p)) k) detach
               | None \<Rightarrow> task_setfg 0 k)
            else detach k)"

definition task_setsid :: "kern \<Rightarrow> int \<times> kern" where
  "task_setsid k =
     (let c = the (current k); x = tasks k c in
      if t_gid x = t_pid x then (- 1, k)
      else (t_pid x, upd_task c (\<lambda>x. x\<lparr>t_sid := t_pid x, t_gid := t_pid x\<rparr>) k))"

text \<open>
  \<^verbatim>\<open>task_kill\<close> up to the point where it calls the scheduler; the flag says whether it does. It
  does so for the current task, and that call never comes back to it.
\<close>

definition task_kill :: "nat \<Rightarrow> int \<Rightarrow> kern \<Rightarrow> bool \<times> kern" where
  "task_kill t status k =
     (let k1 = upd_task t (\<lambda>x. x\<lparr>t_status := status, t_flags := TF_EXIT\<rparr>) k in
      if Some t = current k1 then (True, upd_task t (\<lambda>x. x\<lparr>t_ticks_left := 0\<rparr>) k1)
      else (False, k1))"

text \<open>
  \<^verbatim>\<open>sys_sbrk\<close>: allocate every page from the one that holds the old break up to the new break. The
  address may wrap around, and then the loop does not end.
\<close>

partial_function (option) sbrk_loop :: "nat \<Rightarrow> u32 \<Rightarrow> u32 \<Rightarrow> kern \<Rightarrow> (u32 \<times> kern) option" where
  "sbrk_loop dir addr stop k =
     (if addr < stop then sbrk_loop dir (addr + 0x1000) stop (log_call (Call_alloc_page dir addr) k)
      else Some (addr, k))"

declare sbrk_loop.simps [code]

definition sys_sbrk :: "u32 \<Rightarrow> kern \<Rightarrow> (u32 \<times> kern) option" where
  "sys_sbrk incr k =
     (let c = the (current k); result = t_dataend (tasks k c) in
      Option.bind (sbrk_loop (t_dir (tasks k c)) (result AND 0xFFFFF000) (result + incr) k)
        (\<lambda>(addr, k1). Some (result, upd_task c (\<lambda>x. x\<lparr>t_dataend := addr\<rparr>) k1)))"

subsection \<open>Signals\<close>

definition sig_index :: "nat \<Rightarrow> nat" where
  "sig_index sig = sig div 32"

definition SIGNAL_RAISED :: "signal_state \<Rightarrow> nat \<Rightarrow> bool" where
  "SIGNAL_RAISED s sig \<longleftrightarrow> (bitmap s ! sig_index sig) AND push_bit (sig mod 32) 1 \<noteq> 0"

definition RAISE_SIGNAL :: "nat \<Rightarrow> signal_state \<Rightarrow> signal_state" where
  "RAISE_SIGNAL sig s =
     s\<lparr>bitmap := (bitmap s)[sig_index sig := bitmap s ! sig_index sig OR push_bit (sig mod 32) 1],
       nraised := nraised s + 1\<rparr>"

definition LOWER_SIGNAL :: "nat \<Rightarrow> signal_state \<Rightarrow> signal_state" where
  "LOWER_SIGNAL sig s =
     s\<lparr>bitmap := (bitmap s)[sig_index sig := bitmap s ! sig_index sig AND NOT (push_bit (sig mod 32) 1)],
       nraised := nraised s - 1\<rparr>"

abbreviation upd_signal :: "nat \<Rightarrow> (signal_state \<Rightarrow> signal_state) \<Rightarrow> kern \<Rightarrow> kern" where
  "upd_signal t f k \<equiv> upd_task t (\<lambda>x. x\<lparr>t_signal := f (t_signal x)\<rparr>) k"

definition signal_init_state :: "signal_state \<Rightarrow> signal_state" where
  "signal_init_state s =
     (fold (\<lambda>i s. (LOWER_SIGNAL i s)\<lparr>handler := (handler s)[i := SIG_DFL]\<rparr>) [0..<NSIG] s)\<lparr>nraised := 0\<rparr>"

definition signal_init :: "nat \<Rightarrow> kern \<Rightarrow> kern" where
  "signal_init t k = upd_signal t signal_init_state k"

text \<open>\<^verbatim>\<open>signal_copy\<close> copies the destination onto itself.\<close>

definition signal_copy :: "nat \<Rightarrow> nat \<Rightarrow> kern \<Rightarrow> kern" where
  "signal_copy dst src k = upd_task dst (\<lambda>x. x\<lparr>t_signal := t_signal (tasks k dst)\<rparr>) k"

definition signal_save :: "nat \<Rightarrow> kern \<Rightarrow> kern" where
  "signal_save t k =
     (if t_flags (tasks k t) AND TF_SIGNAL \<noteq> 0 then k
      else upd_task t (\<lambda>x. x\<lparr>t_signal := (t_signal x)\<lparr>s_ctx := t_ctx x, s_fpu := t_fpu x\<rparr>\<rparr>) k)"

definition signal_set_return :: "nat \<Rightarrow> u32 \<Rightarrow> kern \<Rightarrow> kern" where
  "signal_set_return t userfunc k = upd_signal t (\<lambda>s. s\<lparr>handler_return := userfunc\<rparr>) k"

definition SIGKILL :: nat where "SIGKILL = 9"
definition SIGSTOP :: nat where "SIGSTOP = 17"

definition signal_signal :: "nat \<Rightarrow> int \<Rightarrow> sighandler \<Rightarrow> kern \<Rightarrow> sighandler result \<times> kern" where
  "signal_signal t sig h k =
     (if sig < 0 \<or> int NSIG \<le> sig then (Inl EINVAL, k)
      else if nat sig = SIGKILL \<or> nat sig = SIGSTOP then (Inl EINVAL, k)
      else (Inr (handler (t_signal (tasks k t)) ! nat sig),
            upd_signal t (\<lambda>s. s\<lparr>handler := (handler s)[nat sig := h]\<rparr>) k))"

datatype sig_action = Term | Core | Cont | Stop | Ignore

text \<open>The table \<^verbatim>\<open>signal_default\<close>; entries that the initialiser does not name are null pointers.\<close>

definition signal_default :: "nat \<Rightarrow> sig_action option" where
  "signal_default = map_of
     [(1, Term), (2, Term), (3, Core), (4, Core), (6, Core), (8, Core), (SIGKILL, Term),
      (13, Term), (14, Term), (15, Term), (30, Term), (31, Term), (20, Ignore), (19, Cont),
      (SIGSTOP, Stop)]"

definition find_raised :: "signal_state \<Rightarrow> nat option" where
  "find_raised s = List.find (SIGNAL_RAISED s) [0..<NSIG]"

text \<open>
  \<^verbatim>\<open>signal_check\<close>. A default action that kills or stops the current task calls the scheduler from
  inside; that is the result \<open>SigSched\<close>. \<open>None\<close> is the call through a null entry of the table.
\<close>

datatype 'k sig_result = SigDone int 'k | SigSched 'k

definition signal_dispatch :: "nat \<Rightarrow> nat \<Rightarrow> u32 \<Rightarrow> kern \<Rightarrow> kern" where
  "signal_dispatch t sig h k =
     log_call (Call_signal_frame t (word_of_nat sig) (handler_return (t_signal (tasks k t))))
       (upd_task t (\<lambda>x. x\<lparr>t_ctx := \<lparr>c_eip = h, c_esp = 0xC0000000 - 8, c_ebp = 0, c_eflags = 0x200200\<rparr>,
                         t_flags := t_flags x OR TF_SIGNAL\<rparr>) k)"

definition run_default :: "nat \<Rightarrow> sig_action \<Rightarrow> kern \<Rightarrow> bool \<times> kern" where
  "run_default t a k =
     (case a of
        Term \<Rightarrow> task_kill t (- int SIGKILL) k
      | Core \<Rightarrow> task_kill t (- int SIGKILL) k
      | Cont \<Rightarrow> (False, task_wakeup t k)
      | Stop \<Rightarrow> (True, task_block t TF_STOPPED k)
      | Ignore \<Rightarrow> (False, k))"

partial_function (option) signal_check :: "nat \<Rightarrow> kern \<Rightarrow> kern sig_result option" where
  "signal_check t k =
     (let s = t_signal (tasks k t) in
      if nraised s = 0 then Some (SigDone 0 k)
      else case find_raised s of
        None \<Rightarrow> Some (SigDone 0 (upd_signal t (\<lambda>s. s\<lparr>nraised := 0\<rparr>) k))
      | Some sig \<Rightarrow>
          let k1 = signal_save t k;
              k2 = upd_signal t (LOWER_SIGNAL sig) k1
          in case handler (t_signal (tasks k2 t)) ! sig of
               SIG_DFL \<Rightarrow>
                 (case signal_default sig of
                    None \<Rightarrow> None
                  | Some a \<Rightarrow>
                      (let (sched, k3) = run_default t a k2 in
                       if sched then Some (SigSched k3)
                       else Option.bind (signal_check t k3) (\<lambda>r. case r of
                              SigDone v k4 \<Rightarrow> Some (SigDone 0 k4)
                            | SigSched k4 \<Rightarrow> Some (SigSched k4))))
             | SIG_IGN \<Rightarrow> Some (SigDone 0 k2)
             | Handler h \<Rightarrow> Some (SigDone 1 (signal_dispatch t sig h k2)))"

declare signal_check.simps [code]

end
