(* ===== verification/Sched.thy ===== *)
theory Sched
  imports Task
begin

text \<open>
  The scheduler and the life of a task, from \<^verbatim>\<open>kernel/src/task.c\<close>: switching, forking, exiting,
  waiting for a child, sleeping, and the signal calls that reschedule.

  A task switch does not return to its caller at once. The definitions give the state at the
  moment of the switch: the next \<open>current\<close> and all lists. Where code follows the call that
  gives up the processor, it is a definition of its own (\<open>sys_waitpid_resume\<close>). The processor
  context that the code reads from the registers is an argument; a switch inside the signal
  code takes the next one of the sequence \<open>ctxs\<close>.
\<close>

subsection \<open>Freeing a dead task\<close>

partial_function (option) orphan_children :: "nat \<Rightarrow> kern \<Rightarrow> kern option" where
  "orphan_children dead k =
     (if list_empty (klinks k) (TChildren dead) then Some k
      else
        let child = owner (list_first (klinks k) (TChildren dead));
            k1 = upd_task child (\<lambda>x. x\<lparr>t_parent := None\<rparr>) k
        in orphan_children dead (upd_links (list_rem (TSibling child)) k1))"

partial_function (option) drop_messages :: "nat \<Rightarrow> kern \<Rightarrow> kern option" where
  "drop_messages dead k =
     (if list_empty (klinks k) (MesgQueue dead) then Some k
      else
        let cont = owner (list_first (klinks k) (MesgQueue dead))
        in drop_messages dead (log_call (Call_kfree_mesg cont) (upd_links (list_rem (Mesg cont)) k)))"

declare orphan_children.simps [code] drop_messages.simps [code]

text \<open>The test of \<^verbatim>\<open>task_free\<close> whether the parent waits for this task.\<close>

definition waits_for :: "task \<Rightarrow> task \<Rightarrow> bool" where
  "waits_for p d \<longleftrightarrow> t_flags p AND TF_WAITTASK = TF_WAITTASK \<and>
     (t_waitfor p = - 1 \<or> (t_waitfor p = 0 \<and> t_gid d = t_pid p)
      \<or> (t_waitfor p < - 1 \<and> t_gid d = - t_waitfor p)
      \<or> (t_waitfor p > 0 \<and> t_waitfor p = t_pid d))"

definition notify_parent :: "nat \<Rightarrow> kern \<Rightarrow> kern" where
  "notify_parent dead k =
     (case t_parent (tasks k dead) of
        None \<Rightarrow> k
      | Some p \<Rightarrow>
          if waits_for (tasks k p) (tasks k dead)
          then task_wakeup p
                 (upd_task p (\<lambda>x. x\<lparr>t_waitfor := t_pid (tasks k dead), t_status := t_status (tasks k dead)\<rparr>) k)
          else k)"

definition task_free :: "nat \<Rightarrow> kern \<Rightarrow> kern option" where
  "task_free dead k =
     (if current k = Some dead then Some k
      else if t_pid (tasks k dead) = 0 then Some (upd_task dead (\<lambda>x. x\<lparr>t_flags := TF_RUNNING\<rparr>) k)
      else
        let k1 = log_call (Call_free_task_vfs dead) k;
            k2 = upd_links (list_rem (TTtyWait dead)) (upd_links (list_rem (TQueue dead)) k1);
            k3 = upd_task dead (\<lambda>x. x\<lparr>t_flags := TF_ZOMBIE\<rparr>) k2
        in Option.bind (orphan_children dead k3) (\<lambda>k4.
           Option.bind (drop_messages dead k4) (\<lambda>k5.
             Some (notify_parent dead (log_call (Call_free_page_dir (t_dir (tasks k5 dead))) k5)))))"

subsection \<open>Choosing the next task\<close>

definition next_ready :: "knode \<Rightarrow> kern \<Rightarrow> nat option" where
  "next_ready n k = map_option owner (list_next (klinks k) n ReadyTasks)"

partial_function (option) pick_task :: "kern \<Rightarrow> (nat \<times> kern) option" where
  "pick_task k =
     (case current k of
        None \<Rightarrow> pick_task (k\<lparr>current := next_ready ReadyTasks k\<rparr>)
      | Some c \<Rightarrow>
          if \<not> T_EXITING (tasks k c) \<and> \<not> T_WAITING (tasks k c) then Some (c, k)
          else if T_WAITING (tasks k c) then pick_task (k\<lparr>current := next_ready ReadyTasks k\<rparr>)
          else if t_dir (tasks k c) \<noteq> curdir k then
            Option.bind (task_free c (k\<lparr>current := next_ready (TQueue c) k\<rparr>)) pick_task
          else pick_task (k\<lparr>current := next_ready (TQueue c) k\<rparr>))"

declare pick_task.simps [code]

text \<open>Where the search starts; \<^verbatim>\<open>list_entry\<close> of the head of an empty list is no task.\<close>

definition pick_start :: "nat \<Rightarrow> kern \<Rightarrow> kern option" where
  "pick_start c k =
     (if T_RUNNING (tasks k c) then Some (k\<lparr>current := next_ready (TQueue c) k\<rparr>)
      else if list_empty (klinks k) ReadyTasks then None
      else Some (k\<lparr>current := Some (owner (list_first (klinks k) ReadyTasks))\<rparr>))"

text \<open>
  \<open>fpu_regs\<close> are the registers of the floating point unit, as \<^verbatim>\<open>fxsave\<close> stores and \<^verbatim>\<open>fxrstor\<close> loads them.
\<close>

definition task_save :: "nat \<Rightarrow> cctx \<Rightarrow> kern \<Rightarrow> kern" where
  "task_save c ctx k =
     upd_task c (\<lambda>x. x\<lparr>t_ctx := ctx, t_flags := t_flags x AND NOT TF_RESCHED, t_fpu := fpu_regs k\<rparr>) (k\<lparr>g_fpu_state := fpu_regs k\<rparr>)"

definition task_switch :: "nat \<Rightarrow> kern \<Rightarrow> kern" where
  "task_switch t k =
     (let k1 = k\<lparr>current := Some t\<rparr>;
          k2 = k1\<lparr>curdir := t_dir (tasks k1 t)\<rparr>;
          k3 = upd_task t (\<lambda>x. x\<lparr>t_ticks_left := 15\<rparr>) k2
      in k3\<lparr>g_fpu_state := t_fpu (tasks k3 t), fpu_regs := t_fpu (tasks k3 t)\<rparr>)"

text \<open>What a task does when it comes back in \<^verbatim>\<open>task_preempt\<close> (the registers are loaded by \<^verbatim>\<open>execve\<close>).\<close>

definition task_resumed :: "kern \<Rightarrow> kern" where
  "task_resumed k =
     (let c = the (current k) in
      if T_EXECVE (tasks k c) then upd_task c (\<lambda>x. x\<lparr>t_flags := t_flags x AND NOT TF_EXECVE\<rparr>) k else k)"

partial_function (option) task_preempt :: "(nat \<Rightarrow> cctx) \<Rightarrow> kern \<Rightarrow> kern option" where
  "task_preempt ctxs k =
     (case current k of
        None \<Rightarrow> Some k
      | Some c \<Rightarrow>
          if list_is_lonely (klinks k) (TQueue c) ReadyTasks then Some k
          else if t_ticks_left (tasks k c) \<noteq> 0 \<and> t_flags (tasks k c) AND TF_RUNNING \<noteq> 0
                  \<and> t_flags (tasks k c) AND TF_RESCHED = 0
          then Some (upd_task c (\<lambda>x. x\<lparr>t_ticks_left := t_ticks_left x - 1\<rparr>) k)
          else
            Option.bind (pick_start c (task_save c (ctxs 0) k)) (\<lambda>k1.
            Option.bind (pick_task k1) (\<lambda>(t, k2).
            Option.bind (signal_check t k2) (\<lambda>r. case r of
              SigDone v k3 \<Rightarrow> Some (task_switch t k3)
            | SigSched k3 \<Rightarrow>
                if list_is_lonely (klinks k3) (TQueue t) ReadyTasks then None
                else task_preempt (\<lambda>n. ctxs (Suc n)) k3))))"

declare task_preempt.simps [code]

definition task_wait :: "nat \<Rightarrow> u32 \<Rightarrow> (nat \<Rightarrow> cctx) \<Rightarrow> kern \<Rightarrow> kern option" where
  "task_wait t wait_flag ctxs k =
     (if wait_flag AND TF_WAITMASK = 0 then Some k else task_preempt ctxs (task_block t wait_flag k))"

definition task_waitio :: "nat \<Rightarrow> (nat \<Rightarrow> cctx) \<Rightarrow> kern \<Rightarrow> kern option" where
  "task_waitio t ctxs k = task_wait t TF_WAITIO ctxs k"

subsection \<open>Creating tasks\<close>

definition zero_ctx :: cctx where
  "zero_ctx = \<lparr>c_eip = 0, c_esp = 0, c_ebp = 0, c_eflags = 0\<rparr>"

definition zero_signal :: signal_state where
  "zero_signal = \<lparr>bitmap = replicate (NSIG div 32 + 1) 0, nraised = 0, handler = replicate NSIG SIG_DFL,
     handler_return = 0, s_fpu = replicate 512 0, s_ctx = zero_ctx\<rparr>"

definition zero_task :: task where
  "zero_task = \<lparr>t_pid = 0, t_gid = 0, t_sid = 0, t_uid = 0, t_flags = 0, t_ctx = zero_ctx, t_waitfor = 0,
     t_ticks_left = 0, t_timeout = 0, t_status = 0, t_umask = 0, t_dataend = 0,
     t_fpu = replicate 512 0, t_dir = 0, t_mesgq_lock = 0, t_signal = zero_signal, t_parent = None\<rparr>"

text \<open>
  \<^verbatim>\<open>task_init\<close>. It copies the boot stack to the stack of the first task and corrects every word from the
  stack pointer upwards that looks like an address inside the old stack. \<open>stack\<close> holds the words of the
  boot stack at address \<open>base\<close>, and \<open>esp\<close>, \<open>ebp\<close> are the registers; the result has the new words and
  registers. \<open>a\<close> is the address \<^verbatim>\<open>kmalloc\<close> returns, \<open>dir\<close> the copy of the page directory.
\<close>

definition move_addr :: "u32 \<Rightarrow> u32 \<Rightarrow> u32" where
  "move_addr base w = w - base + TASK_KSTACK_ADDR"

definition fix_stack :: "u32 \<Rightarrow> u32 \<Rightarrow> u32 list \<Rightarrow> u32 list" where
  "fix_stack base esp stack =
     (let i = unat (esp - base) div 4 in
      take i stack @ map (\<lambda>w. if base \<le> w \<and> w < base + TASK_KSTACK_SIZE then move_addr base w else w) (drop i stack))"

definition task_init ::
  "nat option \<Rightarrow> nat \<Rightarrow> u32 \<Rightarrow> u32 \<Rightarrow> u32 \<Rightarrow> u32 list \<Rightarrow> kern \<Rightarrow> (u32 list \<times> u32 \<times> u32) option \<times> kern" where
  "task_init a dir base esp ebp stack k =
     (let k1 = upd_links (INIT_LIST GlobList \<circ> INIT_LIST ReadyTasks) k in
      case a of
        None \<Rightarrow> (None, k1)
      | Some t \<Rightarrow>
          let k2 = k1\<lparr>next_pid := next_pid k1 + 1,
                tasks := (tasks k1)(t := zero_task\<lparr>t_pid := next_pid k1, t_flags := TF_RUNNING, t_dir := dir,
                                         t_parent := Some t\<rparr>)\<rparr>;
              k3 = upd_links (fold INIT_LIST [TSibling t, TQueue t, TChildren t, TGlob t, TTtyWait t, MesgQueue t, TSem t]) k2;
              k4 = log_call (Call_init_task_vfs t) (k3\<lparr>curdir := dir\<rparr>);
              k5 = signal_init t k4;
              k6 = log_call (Call_alloc_frame dir (TASK_KSTACK_ADDR + 0x1000)) (log_call (Call_alloc_frame dir TASK_KSTACK_ADDR) k5);
              k7 = upd_links (list_add (TQueue t) ReadyTasks) k6;
              k8 = upd_links (list_add (TGlob t) GlobList) k7;
              k9 = upd_links (INIT_LIST SleepList) (k8\<lparr>current := Some t\<rparr>)
          in (Some (fix_stack base esp stack, move_addr base esp, move_addr base ebp), k9\<lparr>task_sleeplock := spin_init (task_sleeplock k9)\<rparr>))"

text \<open>The seven \<^verbatim>\<open>INIT_LIST\<close> calls on a new task, in the order of \<^verbatim>\<open>sys_fork\<close>.\<close>

definition init_task_links :: "nat \<Rightarrow> knode links \<Rightarrow> knode links" where
  "init_task_links t l =
     fold INIT_LIST [TChildren t, TSibling t, TQueue t, TGlob t, TTtyWait t, MesgQueue t, TSem t] l"

text \<open>
  A new pid. \<^verbatim>\<open>pid_t\<close> is a signed integer of 32 bits; \<open>None\<close> is the overflow of \<^verbatim>\<open>next_pid++\<close>.
\<close>

definition take_pid :: "kern \<Rightarrow> (int \<times> kern) option" where
  "take_pid k = (if next_pid k < 2 ^ 31 - 1 then Some (next_pid k, k\<lparr>next_pid := next_pid k + 1\<rparr>) else None)"

text \<open>
  \<^verbatim>\<open>sys_fork\<close>: \<open>a\<close> is the address of the new structure, which is cleared without a test for a null
  pointer (\<open>None\<close>, as the fault), \<open>dir\<close> what \<^verbatim>\<open>copy_page_dir\<close> returns.
  The result is what the parent returns, with the state after it has called the scheduler.
\<close>

definition sys_fork :: "nat option \<Rightarrow> nat option \<Rightarrow> cctx \<Rightarrow> (nat \<Rightarrow> cctx) \<Rightarrow> kern \<Rightarrow> (int \<times> kern) option" where
  "sys_fork a' dir ctx ctxs k =
     Option.bind a' (\<lambda>a. Option.bind (take_pid k) (\<lambda>(pid, k0).
      let c = the (current k);
          k1 = k0\<lparr>tasks := (tasks k)(a := zero_task\<lparr>t_pid := pid, t_parent := Some c,
                   t_ctx := zero_ctx\<lparr>c_esp := c_esp ctx, c_ebp := c_ebp ctx\<rparr>\<rparr>),
                 klinks := init_task_links a (klinks k)\<rparr>
      in case dir of
           None \<Rightarrow> Some (- 1, log_call (Call_kfree_task a) k1)
         | Some d \<Rightarrow>
             let k2 = log_call (Call_copy_task_vfs a c) (upd_task a (\<lambda>x. x\<lparr>t_dir := d\<rparr>) k1);
                 k3 = signal_copy a c k2;
                 k4 = upd_links (list_add (TQueue a) ReadyTasks) k3;
                 k5 = upd_links (list_add (TSibling a) (TChildren c)) k4;
                 k6 = upd_links (list_add (TGlob a) GlobList) k5;
                 k7 = upd_task a (\<lambda>x. x\<lparr>t_ctx := (t_ctx x)\<lparr>c_eip := c_eip ctx,
                                           c_eflags := c_eflags ctx AND NOT 0x100\<rparr>,
                                         t_flags := t_flags (tasks k6 c)\<rparr>) k6
             in Option.bind (task_setfg pid k7) (\<lambda>k8.
                Option.bind (task_preempt ctxs k8) (\<lambda>k9. Some (pid, k9)))))"

text \<open>
  \<^verbatim>\<open>task_spawn\<close>; \<open>isk\<close> is its argument \<^verbatim>\<open>kern\<close>. For a kernel task it passes the new directory to
  \<^verbatim>\<open>strip_page_dir\<close> before it tests whether there is one.
\<close>

definition task_spawn ::
  "bool \<Rightarrow> nat option \<Rightarrow> nat option \<Rightarrow> cctx \<Rightarrow> (nat \<Rightarrow> cctx) \<Rightarrow> kern \<Rightarrow> (int \<times> kern) option" where
  "task_spawn isk a' dir ctx ctxs k =
     Option.bind a' (\<lambda>a. Option.bind (take_pid k) (\<lambda>(pid, k0).
      let c = the (current k);
          k1 = k0\<lparr>tasks := (tasks k)(a := zero_task\<lparr>t_pid := pid, t_parent := Some c,
                   t_ctx := zero_ctx\<lparr>c_esp := c_esp ctx, c_ebp := c_ebp ctx\<rparr>\<rparr>),
                 klinks := init_task_links a (klinks k)\<rparr>;
          k2 = log_call (if isk then Call_init_task_vfs a else Call_copy_task_vfs a c) k1;
          k3 = (case dir of
                  None \<Rightarrow> k2
                | Some d \<Rightarrow> let k' = upd_task a (\<lambda>x. x\<lparr>t_dir := d\<rparr>) k2
                            in if isk then log_call (Call_strip_page_dir d) k' else k');
          k4 = signal_init a k3
      in if isk \<and> dir = None then None
         else if dir = None then Some (- 1, log_call (Call_kfree_task a) k4)
         else
           let k5 = upd_task a (\<lambda>x. x\<lparr>t_ctx := (t_ctx x)\<lparr>c_eip := c_eip ctx\<rparr>\<rparr>) k4;
               k6 = upd_links (list_add (TQueue a) ReadyTasks) k5;
               k7 = (if isk then k6 else upd_links (list_add (TSibling a) (TChildren c)) k6);
               k8 = upd_links (list_add (TGlob a) GlobList) k7;
               k9 = upd_task a (\<lambda>x. x\<lparr>t_ctx := (t_ctx x)\<lparr>c_eflags := c_eflags ctx AND NOT 0x100\<rparr>,
                                       t_flags := TF_RUNNING\<rparr>) k8
           in Option.bind (if isk then Some k9 else task_setfg pid k9) (\<lambda>k10.
              Option.bind (task_preempt ctxs k10) (\<lambda>k11. Some (pid, k11)))))"

text \<open>
  \<^verbatim>\<open>worker_spawn\<close> for the caller: a kernel task. The code after the test of the pid is never reached.
  What the new task does is \<open>worker_run\<close> below.
\<close>

definition worker_spawn :: "nat option \<Rightarrow> nat option \<Rightarrow> cctx \<Rightarrow> (nat \<Rightarrow> cctx) \<Rightarrow> kern \<Rightarrow> (int \<times> kern) option" where
  "worker_spawn a dir ctx ctxs k = task_spawn True a dir ctx ctxs k"

subsection \<open>Exiting and waiting for a child\<close>

text \<open>
  \<^verbatim>\<open>sys_exit\<close> starts with \<^verbatim>\<open>task_kill(current, result)\<close>, which does not return; a schedule that
  returns at once is followed by an endless loop. The rest of the function is never reached.
\<close>

definition sys_exit :: "int \<Rightarrow> (nat \<Rightarrow> cctx) \<Rightarrow> kern \<Rightarrow> kern option" where
  "sys_exit status ctxs k =
     (let c = the (current k); (sched, k1) = task_kill c status k in
      if list_is_lonely (klinks k1) (TQueue c) ReadyTasks then None else task_preempt ctxs k1)"

definition worker_run :: "(kern \<Rightarrow> kern option) \<Rightarrow> (nat \<Rightarrow> cctx) \<Rightarrow> kern \<Rightarrow> kern option" where
  "worker_run thread ctxs k = Option.bind (thread k) (sys_exit 0 ctxs)"

definition waitpid_reap :: "int \<Rightarrow> kern \<Rightarrow> (int \<times> kern) option" where
  "waitpid_reap pid k =
     Option.bind (task_lookup pid k) (\<lambda>r. case r of
       None \<Rightarrow> Some (pid, k)
     | Some t \<Rightarrow>
         let k1 = (if t_parent (tasks k t) \<noteq> None then upd_links (list_rem (TSibling t)) k else k);
             k2 = upd_links (list_rem (TGlob t)) k1
         in Some (pid, log_call (Call_kfree_task t) k2))"

text \<open>The body of the loop over the children, for a child \<open>t\<close>; the state is (pid, status, found).\<close>

definition waitpid_visit :: "kern \<Rightarrow> nat \<Rightarrow> int \<times> int option \<times> bool \<Rightarrow> int \<times> int option \<times> bool" where
  "waitpid_visit k t = (\<lambda>(pid, st, found).
     let x = tasks k t; c = tasks k (the (current k)) in
     if T_ISZOMBIE x \<and> (pid = - 1 \<or> (pid = 0 \<and> t_gid x = t_gid c) \<or> (pid < - 1 \<and> t_pid x = - pid))
     then (t_pid x, Some (t_status x), True)
     else (pid, st, found))"

text \<open>
  The result of \<^verbatim>\<open>sys_waitpid\<close>: it returns a value and a status (if it stores one), or it blocks
  in \<^verbatim>\<open>task_wait\<close>. \<open>hang\<close> is the absence of \<^verbatim>\<open>WNOHANG\<close>, given with the other options as a word.
\<close>

datatype 'k wait_result = WaitRet "int result" "int option" 'k | WaitBlock 'k

definition WNOHANG :: u32 where "WNOHANG = 1"

definition sys_waitpid ::
  "int \<Rightarrow> u32 \<Rightarrow> (nat \<Rightarrow> cctx) \<Rightarrow> kern \<Rightarrow> kern wait_result option" where
  "sys_waitpid pid options ctxs k =
     (let c = the (current k);
          finish = (\<lambda>pid st. Option.bind (waitpid_reap pid k) (\<lambda>(r, k'). Some (WaitRet (Inr r) st k')));
          wait = (if options AND WNOHANG \<noteq> 0 then Some (WaitRet (Inr 0) None k)
                  else Option.bind (task_wait c TF_WAITTASK ctxs (upd_task c (\<lambda>x. x\<lparr>t_waitfor := pid\<rparr>) k))
                         (\<lambda>k'. Some (WaitBlock k')))
      in if options \<noteq> 0 \<and> options \<noteq> WNOHANG then Some (WaitRet (Inl EINVAL) None k)
         else if pid > 0 then
           Option.bind (task_lookup pid k) (\<lambda>r. case r of
             None \<Rightarrow> Some (WaitRet (Inl ECHILD) None k)
           | Some t \<Rightarrow>
               if t_parent (tasks k t) \<noteq> current k then Some (WaitRet (Inl ECHILD) None k)
               else if T_ISZOMBIE (tasks k t) then finish (t_pid (tasks k t)) (Some (t_status (tasks k t)))
               else wait)
         else
           Option.bind (list_items (klinks k) (TChildren c) (lnext (klinks k) (TChildren c))) (\<lambda>items.
             let (pid', st, found) = fold (waitpid_visit k) (map owner items) (pid, None, False)
             in if found then finish pid' st else wait))"

text \<open>
  The rest of \<^verbatim>\<open>sys_waitpid\<close>, when the task runs again. It stores the status without the test for a
  null pointer that the other paths have; \<open>has_status\<close> says whether the caller passed one.
\<close>

definition sys_waitpid_resume :: "bool \<Rightarrow> kern \<Rightarrow> (int \<times> int \<times> kern) option" where
  "sys_waitpid_resume has_status k =
     (let x = tasks k (the (current k)) in
      if \<not> has_status then None
      else Option.bind (waitpid_reap (t_waitfor x) k) (\<lambda>(r, k'). Some (r, t_status x, k')))"

subsection \<open>Sleeping\<close>

definition task_sleep_compare :: "kern \<Rightarrow> knode \<Rightarrow> knode \<Rightarrow> int" where
  "task_sleep_compare k a b =
     (if sd_wakeup (sleeps k (owner a)) < sd_wakeup (sleeps k (owner b)) then - 1
      else if sd_wakeup (sleeps k (owner b)) < sd_wakeup (sleeps k (owner a)) then 1
      else 0)"

text \<open>\<open>d\<close> is the address that \<^verbatim>\<open>kmalloc\<close> returns for the \<^verbatim>\<open>sleep_data_t\<close>.\<close>

definition task_sleep :: "nat \<Rightarrow> u32 \<Rightarrow> nat option \<Rightarrow> (nat \<Rightarrow> cctx) \<Rightarrow> kern \<Rightarrow> (int \<times> kern) option" where
  "task_sleep t milli d ctxs k =
     (case d of
        None \<Rightarrow> Some (- 1, k)
      | Some s \<Rightarrow>
          let k1 = k\<lparr>sleeps := (sleeps k)(s := \<lparr>sd_task = t, sd_wakeup = ticks k + milli\<rparr>),
                     klinks := INIT_LIST (SleepLink s) (klinks k)\<rparr>
          in Option.bind (spin_lock (task_sleeplock k1)) (\<lambda>l.
             Option.bind (list_add_ordered (SleepLink s) SleepList (task_sleep_compare k1) (klinks k1)) (\<lambda>ls.
               let k2 = k1\<lparr>klinks := ls\<rparr>;
                   k3 = (if list_is_lonely ls (SleepLink s) SleepList
                         then log_call (Call_timer_callback (sd_wakeup (sleeps k2 s))) k2 else k2);
                   k4 = k3\<lparr>task_sleeplock := spin_unlock l\<rparr>
               in Option.bind (task_wait (sd_task (sleeps k4 s)) TF_WAITIO ctxs k4) (\<lambda>k5. Some (0, k5)))))"

text \<open>\<^verbatim>\<open>task_sleep_monitor\<close>, the timer callback.\<close>

definition task_sleep_monitor :: "kern \<Rightarrow> (u32 \<times> kern) option" where
  "task_sleep_monitor k =
     Option.bind (spin_lock (task_sleeplock k)) (\<lambda>l.
       let s = owner (list_first (klinks k) SleepList);
           k1 = task_wakeup (sd_task (sleeps k s)) (k\<lparr>task_sleeplock := l\<rparr>);
           k2 = log_call (Call_kfree_sleep s) (upd_links (list_rem (SleepLink s)) k1);
           k3 = k2\<lparr>task_sleeplock := spin_unlock l\<rparr>
       in if list_empty (klinks k3) SleepList then Some (TIMER_CANCEL, k3)
          else Some (sd_wakeup (sleeps k3 (owner (list_first (klinks k3) SleepList))), k3))"

subsection \<open>Signals that reschedule\<close>

definition signal_kill :: "nat \<Rightarrow> int \<Rightarrow> (nat \<Rightarrow> cctx) \<Rightarrow> kern \<Rightarrow> (unit result \<times> kern) option" where
  "signal_kill t sig ctxs k =
     (if sig < 0 \<or> int NSIG \<le> sig then Some (Inl EINVAL, k)
      else
        let k1 = upd_signal t (RAISE_SIGNAL (nat sig)) k in
        if current k1 = Some t
        then Option.bind (task_preempt ctxs (upd_task t (\<lambda>x. x\<lparr>t_ticks_left := 0\<rparr>) k1))
               (\<lambda>k2. Some (Inr (), k2))
        else Some (Inr (), k1))"

definition signal_return :: "nat \<Rightarrow> (nat \<Rightarrow> cctx) \<Rightarrow> kern \<Rightarrow> kern option" where
  "signal_return t ctxs k =
     (if t_flags (tasks k t) AND TF_SIGNAL = 0 then Some k
      else
        Option.bind (signal_check t k) (\<lambda>r. case r of
          SigSched k1 \<Rightarrow> task_preempt ctxs k1
        | SigDone v k1 \<Rightarrow>
            let k2 = (if v = 0
                      then upd_task t (\<lambda>x. x\<lparr>t_ctx := s_ctx (t_signal x), t_fpu := s_fpu (t_signal x),
                                            t_flags := t_flags x AND NOT TF_SIGNAL\<rparr>) k1
                      else k1)
            in Some (if current k2 = Some t then task_switch t k2 else k2)))"

end
