(* ===== verification/SchedInv.thy ===== *)
theory SchedInv
  imports Sched
begin

text \<open>
  Well-formed task lists and what the scheduler does to them. \<open>sched_wf k rs gs\<close>: the ready list
  holds the tasks \<open>rs\<close> and the global list the tasks \<open>gs\<close>, a task that is not ready is linked in no
  queue, and no ready task waits. \<open>kern_wf\<close> adds the children and the message queue of each task.
\<close>

subsection \<open>Flags\<close>

lemma word_or_eq_0: "a OR b = 0 \<longleftrightarrow> a = 0 \<and> b = (0 :: u32)"
  by (auto simp: bit_eq_iff bit_simps)

lemma wake_flags: "((f AND NOT TF_WAITMASK AND NOT TF_RESCHED) OR TF_RUNNING) AND TF_WAITMASK = 0"
  by (simp add: TF_defs bit.conj_disj_distrib2 and.assoc)

lemma wake_running: "(f OR TF_RUNNING) AND TF_RUNNING \<noteq> 0"
  by (simp add: TF_defs bit.conj_disj_distrib2 word_or_eq_0)

lemma block_flags: "w AND TF_WAITMASK \<noteq> 0 \<Longrightarrow> (f OR (w OR TF_RESCHED)) AND TF_WAITMASK \<noteq> 0"
  by (simp add: bit.conj_disj_distrib2 word_or_eq_0)

lemma save_waiting: "(f AND NOT TF_RESCHED) AND TF_WAITMASK = f AND TF_WAITMASK"
  by (simp add: TF_defs and.assoc)

lemma save_exiting: "(f AND NOT TF_RESCHED) AND TF_EXIT = f AND TF_EXIT"
  by (simp add: TF_defs and.assoc)

lemma save_running: "(f AND NOT TF_RESCHED) AND TF_RUNNING = f AND TF_RUNNING"
  by (simp add: TF_defs and.assoc)

lemma exit_flags: "TF_EXIT AND TF_WAITMASK = 0" "TF_ZOMBIE AND TF_WAITMASK = 0" "TF_EXIT AND TF_RUNNING = 0"
  "TF_EXIT AND TF_EXIT \<noteq> 0" "TF_ZOMBIE AND TF_ZOMBIE \<noteq> 0" "TF_WAITTASK AND TF_WAITMASK \<noteq> 0"
  "TF_WAITIO AND TF_WAITMASK \<noteq> 0"
  by (simp_all add: TF_defs)

subsection \<open>The ready list\<close>

definition sched_wf :: "kern \<Rightarrow> nat list \<Rightarrow> nat list \<Rightarrow> bool" where
  "sched_wf k rs gs \<longleftrightarrow> dll (klinks k) ReadyTasks (map TQueue rs) \<and> dll (klinks k) GlobList (map TGlob gs)
     \<and> set rs \<subseteq> set gs \<and> (\<forall>t \<in> set gs - set rs. unlinked (klinks k) (TQueue t))
     \<and> (\<forall>t \<in> set rs. \<not> T_WAITING (tasks k t))"

lemma sched_wf_distinct: "sched_wf k rs gs \<Longrightarrow> distinct rs \<and> distinct gs"
  by (auto simp: sched_wf_def dll_def distinct_map)

lemma sched_inserted:
  assumes "sched_wf k rs gs" "t \<in> set gs"
  shows "list_inserted (klinks k) (TQueue t) \<longleftrightarrow> t \<in> set rs"
  using assms dll_inserted [of "klinks k" ReadyTasks "map TQueue rs" "TQueue t"]
  by (auto simp: sched_wf_def unlinked_inserted)

lemma sched_wf_remove:
  assumes wf: "sched_wf k rs gs" and t: "t \<in> set gs"
  shows "sched_wf (upd_links (list_rem (TQueue t)) k) (remove1 t rs) gs"
    and "unlinked (list_rem (TQueue t) (klinks k)) (TQueue t)"
proof -
  show u: "unlinked (list_rem (TQueue t) (klinks k)) (TQueue t)" by (rule unlinked_list_rem)
  note d = sched_wf_distinct [OF wf]
  show "sched_wf (upd_links (list_rem (TQueue t)) k) (remove1 t rs) gs"
  proof (cases "t \<in> set rs")
    case True
    have r: "dll (klinks k) ReadyTasks (map TQueue rs)" "dll (klinks k) GlobList (map TGlob gs)"
      using wf by (auto simp: sched_wf_def)
    have "dll (list_rem (TQueue t) (klinks k)) ReadyTasks (map TQueue (remove1 t rs))"
      using dll_list_rem [OF r(1), of "TQueue t"] True by (simp add: map_remove1_inj inj_on_def)
    moreover have "dll (list_rem (TQueue t) (klinks k)) GlobList (map TGlob gs)"
      using list_rem_frame [OF r(2) _ r(1), of "TQueue t"] True by auto
    moreover have "unlinked (list_rem (TQueue t) (klinks k)) (TQueue s)" if "s \<in> set gs" "s \<notin> set rs" for s
      using list_rem_other [OF r(1), of "TQueue t" "TQueue s"] that True wf
      by (auto simp: sched_wf_def unlinked_def)
    ultimately show ?thesis using wf u d True by (auto simp: sched_wf_def set_remove1_eq)
  next
    case False
    then have "list_rem (TQueue t) (klinks k) = klinks k"
      using wf t by (intro list_rem_unlinked) (auto simp: sched_wf_def)
    then show ?thesis using wf False by (simp add: remove1_idem)
  qed
qed

lemma sched_wf_push:
  assumes wf: "sched_wf k rs gs" and t: "t \<in> set gs" "t \<notin> set rs" and nw: "\<not> T_WAITING (tasks k t)"
  shows "sched_wf (upd_links (list_add (TQueue t) ReadyTasks) k) (t # rs) gs"
proof -
  have r: "dll (klinks k) ReadyTasks (map TQueue rs)" "dll (klinks k) GlobList (map TGlob gs)"
    using wf by (auto simp: sched_wf_def)
  have "dll (list_add (TQueue t) ReadyTasks (klinks k)) ReadyTasks (map TQueue (t # rs))"
    using dll_list_add [OF r(1), of "TQueue t"] t by auto
  moreover have "dll (list_add (TQueue t) ReadyTasks (klinks k)) GlobList (map TGlob gs)"
    using list_add_frame(1) [OF r(2) _ r(1), of "TQueue t" ReadyTasks] by auto
  moreover have "unlinked (list_add (TQueue t) ReadyTasks (klinks k)) (TQueue s)"
    if "s \<in> set gs" "s \<notin> set (t # rs)" for s
    using list_add_other [OF r(1), of ReadyTasks "TQueue s" "TQueue t"] that wf
    by (auto simp: sched_wf_def unlinked_def)
  ultimately show ?thesis using wf t nw by (auto simp: sched_wf_def)
qed

lemma sched_wf_upd_task:
  "sched_wf k rs gs \<Longrightarrow> t \<in> set rs \<longrightarrow> \<not> T_WAITING (f (tasks k t)) \<Longrightarrow> sched_wf (upd_task t f k) rs gs"
  by (auto simp: sched_wf_def)

lemma task_block_wf:
  assumes wf: "sched_wf k rs gs" and t: "t \<in> set gs" and w: "w AND TF_WAITMASK \<noteq> 0"
  shows "sched_wf (task_block t w k) (remove1 t rs) gs"
    and "T_WAITING (tasks (task_block t w k) t)"
    and "unlinked (klinks (task_block t w k)) (TQueue t)"
proof -
  have "t \<notin> set (remove1 t rs)" using sched_wf_distinct [OF wf] by simp
  then show "sched_wf (task_block t w k) (remove1 t rs) gs"
    unfolding task_block_def by (intro sched_wf_upd_task sched_wf_remove(1) [OF wf t]) simp
  show "T_WAITING (tasks (task_block t w k) t)"
    using block_flags [OF w] by (simp add: task_block_def T_WAITING_def)
  show "unlinked (klinks (task_block t w k)) (TQueue t)" by (simp add: task_block_def unlinked_list_rem)
qed

lemma task_wakeup_eq:
  assumes wf: "sched_wf k rs gs" and t: "t \<in> set gs" "t \<notin> set rs" and w: "T_WAITING (tasks k t)"
  shows "task_wakeup t k = upd_links (list_add (TQueue t) ReadyTasks)
    (upd_task t (\<lambda>x. x\<lparr>t_flags := (t_flags x AND NOT TF_WAITMASK AND NOT TF_RESCHED) OR TF_RUNNING\<rparr>) k)"
  using sched_inserted [OF wf t(1)] t(2) w by (simp add: task_wakeup_def T_WAITING_def Let_def)

lemma task_wakeup_wf:
  assumes wf: "sched_wf k rs gs" and t: "t \<in> set gs" "t \<notin> set rs" and w: "T_WAITING (tasks k t)"
  shows "sched_wf (task_wakeup t k) (t # rs) gs"
    and "\<not> T_WAITING (tasks (task_wakeup t k) t)" and "T_RUNNING (tasks (task_wakeup t k) t)"
proof -
  let ?f = "\<lambda>x. x\<lparr>t_flags := (t_flags x AND NOT TF_WAITMASK AND NOT TF_RESCHED) OR TF_RUNNING\<rparr>"
  have nw: "\<not> T_WAITING (?f (tasks k t))" by (simp add: T_WAITING_def wake_flags)
  have "sched_wf (upd_task t ?f k) rs gs" by (rule sched_wf_upd_task [OF wf]) (use t in simp)
  then show "sched_wf (task_wakeup t k) (t # rs) gs"
    unfolding task_wakeup_eq [OF assms] using nw t by (intro sched_wf_push) auto
  show "\<not> T_WAITING (tasks (task_wakeup t k) t)" "T_RUNNING (tasks (task_wakeup t k) t)"
    unfolding task_wakeup_eq [OF assms] using nw by (simp_all add: T_RUNNING_def TF_RUNNING_def)
qed

lemma task_wakeup_awake: "\<not> T_WAITING (tasks k t) \<Longrightarrow> task_wakeup t k = k"
  by (simp add: task_wakeup_def T_WAITING_def)

subsection \<open>Choosing a task\<close>

lemma sched_next:
  assumes wf: "sched_wf k (xs @ c # ys) gs"
  shows "next_ready (TQueue c) k = (if ys = [] then None else Some (hd ys))"
proof -
  have "lnext (klinks k) (TQueue c) = hd (map TQueue ys @ [ReadyTasks])"
    using dll_mid(2) [of "klinks k" ReadyTasks "map TQueue xs" "TQueue c" "map TQueue ys"] wf
    by (simp add: sched_wf_def)
  then show ?thesis by (cases ys) (auto simp: next_ready_def list_next_def)
qed

lemma sched_first:
  assumes wf: "sched_wf k rs gs"
  shows "next_ready ReadyTasks k = (if rs = [] then None else Some (hd rs))"
proof -
  have "lnext (klinks k) ReadyTasks = hd (map TQueue rs @ [ReadyTasks])"
    using dll_first [of "klinks k" ReadyTasks "map TQueue rs"] wf by (simp add: sched_wf_def)
  then show ?thesis by (cases rs) (auto simp: next_ready_def list_next_def)
qed

lemma sched_lonely:
  assumes wf: "sched_wf k (xs @ c # ys) gs"
  shows "list_is_lonely (klinks k) (TQueue c) ReadyTasks \<longleftrightarrow> xs = [] \<and> ys = []"
proof -
  have "lnext (klinks k) (TQueue c) = hd (map TQueue ys @ [ReadyTasks])"
    "lprev (klinks k) (TQueue c) = last (ReadyTasks # map TQueue xs)"
    using dll_mid [of "klinks k" ReadyTasks "map TQueue xs" "TQueue c" "map TQueue ys"] wf
    by (simp_all add: sched_wf_def)
  then show ?thesis
    by (cases ys; cases xs rule: rev_cases) (auto simp: list_is_lonely_def)
qed

lemma pick_task_ready:
  "current k = Some c \<Longrightarrow> \<not> T_EXITING (tasks k c) \<Longrightarrow> \<not> T_WAITING (tasks k c) \<Longrightarrow> pick_task k = Some (c, k)"
  by (simp add: pick_task.simps)

lemma pick_task_None: "current k = None \<Longrightarrow> pick_task k = pick_task (k\<lparr>current := next_ready ReadyTasks k\<rparr>)"
  by (subst pick_task.simps) simp

lemma pick_task_waiting:
  "current k = Some c \<Longrightarrow> T_WAITING (tasks k c) \<Longrightarrow>
   pick_task k = pick_task (k\<lparr>current := next_ready ReadyTasks k\<rparr>)"
  by (subst pick_task.simps) simp

text \<open>When nothing is ready the search goes round for ever.\<close>

lemma pick_task_idle:
  "pick_task k = Some r \<Longrightarrow>
   list_empty (klinks k) ReadyTasks \<Longrightarrow> (case current k of None \<Rightarrow> True | Some c \<Rightarrow> T_WAITING (tasks k c)) \<Longrightarrow> False"
proof (induction arbitrary: rule: pick_task.raw_induct [rotated 1, consumes 1])
  case (1 pick k r)
  then have "next_ready ReadyTasks k = None"
    by (simp add: next_ready_def list_next_def list_empty_def)
  then have "pick (k\<lparr>current := None\<rparr>) = Some r" using 1(2,4) by (auto split: option.splits if_splits)
  then show ?case using 1(1) [of "k\<lparr>current := None\<rparr>" r] 1(3) by simp
qed

subsection \<open>Switching\<close>

text \<open>Tasks that can run: none is exiting and none has a signal pending.\<close>

definition calm :: "kern \<Rightarrow> nat list \<Rightarrow> bool" where
  "calm k rs \<longleftrightarrow> (\<forall>t \<in> set rs. \<not> T_EXITING (tasks k t) \<and> nraised (t_signal (tasks k t)) = 0)"

lemma signal_check_none: "nraised (t_signal (tasks k t)) = 0 \<Longrightarrow> signal_check t k = Some (SigDone 0 k)"
  by (subst signal_check.simps) simp

lemma sched_wf_cong:
  "sched_wf k rs gs \<Longrightarrow> klinks k' = klinks k \<Longrightarrow> (\<And>t. t \<in> set rs \<Longrightarrow> T_WAITING (tasks k' t) = T_WAITING (tasks k t))
   \<Longrightarrow> sched_wf k' rs gs"
  by (simp add: sched_wf_def)

text \<open>The state after the running task \<open>c\<close> has handed over to \<open>t\<close>.\<close>

definition handed_over :: "nat \<Rightarrow> nat \<Rightarrow> cctx \<Rightarrow> kern \<Rightarrow> kern" where
  "handed_over c t ctx k = task_switch t ((task_save c ctx k)\<lparr>current := Some t\<rparr>)"

lemma handed_over_wf: "sched_wf k rs gs \<Longrightarrow> sched_wf (handed_over c t ctx k) rs gs"
  by (rule sched_wf_cong)
    (auto simp: handed_over_def task_switch_def task_save_def T_WAITING_def Let_def save_waiting)

lemma handed_over_calm: "calm k rs \<Longrightarrow> calm (handed_over c t ctx k) rs"
  by (auto simp: calm_def handed_over_def task_switch_def task_save_def T_EXITING_def Let_def save_exiting)

lemma handed_over_sel:
  "current (handed_over c t ctx k) = Some t" "curdir (handed_over c t ctx k) = t_dir (tasks k t)"
  "t_ticks_left (tasks (handed_over c t ctx k) t) = 15"
  "t_ctx (tasks (handed_over c t ctx k) c) = ctx"
  "T_RUNNING (tasks (handed_over c t ctx k) x) = T_RUNNING (tasks k x)"
  by (auto simp: handed_over_def task_switch_def task_save_def Let_def T_RUNNING_def save_running)

lemma calm_ready: "calm k rs \<Longrightarrow> sched_wf k rs gs \<Longrightarrow> t \<in> set rs \<Longrightarrow>
   \<not> T_EXITING (tasks k t) \<and> \<not> T_WAITING (tasks k t) \<and> nraised (t_signal (tasks k t)) = 0"
  by (simp add: calm_def sched_wf_def)

lemma task_save_props:
  "T_EXITING (tasks (task_save c ctx k) t) = T_EXITING (tasks k t)"
  "T_WAITING (tasks (task_save c ctx k) t) = T_WAITING (tasks k t)"
  "T_RUNNING (tasks (task_save c ctx k) t) = T_RUNNING (tasks k t)"
  "t_signal (tasks (task_save c ctx k) t) = t_signal (tasks k t)"
  "klinks (task_save c ctx k) = klinks k"
  by (auto simp: task_save_def T_EXITING_def T_WAITING_def T_RUNNING_def save_exiting save_waiting save_running)

text \<open>A search that arrives at a ready task switches to it.\<close>

lemma preempt_to:
  assumes c: "current k = Some c" and nl: "\<not> list_is_lonely (klinks k) (TQueue c) ReadyTasks"
    and tk: "t_ticks_left (tasks k c) = 0 \<or> t_flags (tasks k c) AND TF_RESCHED \<noteq> 0"
    and st: "pick_start c (task_save c (ctxs 0) k) = Some k1"
    and pk: "pick_task k1 = Some (t, (task_save c (ctxs 0) k)\<lparr>current := Some t\<rparr>)"
    and sg: "nraised (t_signal (tasks k t)) = 0"
  shows "task_preempt ctxs k = Some (handed_over c t (ctxs 0) k)"
proof -
  have "signal_check t ((task_save c (ctxs 0) k)\<lparr>current := Some t\<rparr>)
      = Some (SigDone 0 ((task_save c (ctxs 0) k)\<lparr>current := Some t\<rparr>))"
    by (rule signal_check_none) (simp add: task_save_props sg)
  then show ?thesis using c nl tk st pk
    by (subst task_preempt.simps) (auto simp: handed_over_def)
qed

text \<open>Round robin: a task whose time is up hands over to its successor in the ready list.\<close>

lemma preempt_next:
  assumes wf: "sched_wf k (xs @ c # ys) gs" and cm: "calm k (xs @ c # ys)" and c: "current k = Some c"
    and run: "T_RUNNING (tasks k c)" and two: "xs \<noteq> [] \<or> ys \<noteq> []"
    and tk: "t_ticks_left (tasks k c) = 0 \<or> t_flags (tasks k c) AND TF_RESCHED \<noteq> 0"
  shows "task_preempt ctxs k = Some (handed_over c (hd (ys @ xs)) (ctxs 0) k)"
proof -
  let ?s = "task_save c (ctxs 0) k" and ?t = "hd (ys @ xs)"
  have wfs: "sched_wf ?s (xs @ c # ys) gs" by (rule sched_wf_cong [OF wf]) (simp_all add: task_save_props)
  have t: "?t \<in> set (xs @ c # ys)" using two by (cases ys; cases xs) auto
  note ok = calm_ready [OF cm wf t]
  have nl: "\<not> list_is_lonely (klinks k) (TQueue c) ReadyTasks" using sched_lonely [OF wf] two by simp
  have st: "pick_start c ?s = Some (?s\<lparr>current := (if ys = [] then None else Some (hd ys))\<rparr>)"
    using run sched_next [OF wfs] by (simp add: pick_start_def task_save_props)
  have go: "pick_task (?s\<lparr>current := Some ?t\<rparr>) = Some (?t, ?s\<lparr>current := Some ?t\<rparr>)"
    by (rule pick_task_ready) (use ok in \<open>simp_all add: task_save_props\<close>)
  have "pick_task (?s\<lparr>current := (if ys = [] then None else Some (hd ys))\<rparr>) = Some (?t, ?s\<lparr>current := Some ?t\<rparr>)"
  proof (cases "ys = []")
    case True
    have "sched_wf (?s\<lparr>current := None\<rparr>) (xs @ c # ys) gs" by (rule sched_wf_cong [OF wfs]) simp_all
    from sched_first [OF this] have "next_ready ReadyTasks (?s\<lparr>current := None\<rparr>) = Some ?t"
      using True two by (cases xs) auto
    then show ?thesis using True go by (simp add: pick_task_None)
  next
    case False
    then show ?thesis using go by simp
  qed
  then show ?thesis using preempt_to [where ctxs = ctxs, OF c nl tk st] ok by simp
qed

text \<open>A task that blocks hands over to the first ready task.\<close>

lemma wait_switch:
  assumes wf: "sched_wf k rs gs" and cm: "calm k rs" and c: "current k = Some c" "c \<in> set gs"
    and run: "T_RUNNING (tasks k c)" and w: "w AND TF_WAITMASK \<noteq> 0" and more: "remove1 c rs \<noteq> []"
  shows "task_wait c w ctxs k = Some (handed_over c (hd (remove1 c rs)) (ctxs 0) (task_block c w k))"
proof -
  let ?b = "task_block c w k" and ?rs = "remove1 c rs"
  let ?s = "task_save c (ctxs 0) ?b" and ?t = "hd ?rs"
  note b = task_block_wf [OF wf c(2) w]
  have wfs: "sched_wf ?s ?rs gs" by (rule sched_wf_cong [OF b(1)]) (simp_all add: task_save_props)
  have t: "?t \<in> set ?rs" using more by simp
  have ne: "?t \<noteq> c" using t sched_wf_distinct [OF wf] by auto
  have trs: "?t \<in> set rs" using t set_remove1_subset by fast
  have ok: "\<not> T_EXITING (tasks ?b ?t) \<and> \<not> T_WAITING (tasks ?b ?t) \<and> nraised (t_signal (tasks ?b ?t)) = 0"
    using calm_ready [OF cm wf trs] ne by (simp add: task_block_def)
  have l: "lnext (klinks ?b) (TQueue c) = TQueue c" using b(3) by (simp add: unlinked_def)
  have nl: "\<not> list_is_lonely (klinks ?b) (TQueue c) ReadyTasks" using l by (simp add: list_is_lonely_def)
  have tk: "t_flags (tasks ?b c) AND TF_RESCHED \<noteq> 0"
    by (simp add: task_block_def TF_RESCHED_def bit.conj_disj_distrib2 word_or_eq_0)
  have "T_RUNNING (tasks ?b c)"
    using run by (simp add: T_RUNNING_def task_block_def bit.conj_disj_distrib2 word_or_eq_0)
  then have st: "pick_start c ?s = Some (?s\<lparr>current := Some c\<rparr>)"
    using l by (simp add: pick_start_def task_save_props next_ready_def list_next_def)
  have "sched_wf (?s\<lparr>current := Some c\<rparr>) ?rs gs" by (rule sched_wf_cong [OF wfs]) simp_all
  from sched_first [OF this] have "next_ready ReadyTasks (?s\<lparr>current := Some c\<rparr>) = Some ?t" using more by simp
  moreover have "T_WAITING (tasks (?s\<lparr>current := Some c\<rparr>) c)" using b(2) by (simp add: task_save_props)
  moreover have "pick_task (?s\<lparr>current := Some ?t\<rparr>) = Some (?t, ?s\<lparr>current := Some ?t\<rparr>)"
    by (rule pick_task_ready) (use ok in \<open>simp_all add: task_save_props\<close>)
  ultimately have pk: "pick_task (?s\<lparr>current := Some c\<rparr>) = Some (?t, ?s\<lparr>current := Some ?t\<rparr>)"
    by (simp add: pick_task_waiting)
  have cb: "current ?b = Some c" using c(1) by (simp add: task_block_def)
  show ?thesis using preempt_to [where ctxs = ctxs, OF cb nl _ st pk] tk ok w by (simp add: task_wait_def)
qed

text \<open>If it is the only ready task, the scheduler never returns.\<close>

lemma wait_alone:
  assumes wf: "sched_wf k [c] gs" and c: "current k = Some c" "c \<in> set gs"
    and run: "T_RUNNING (tasks k c)" and w: "w AND TF_WAITMASK \<noteq> 0"
  shows "task_wait c w ctxs k = None"
proof -
  let ?b = "task_block c w k"
  let ?s = "task_save c (ctxs 0) ?b"
  note b = task_block_wf [OF wf c(2) w]
  have e: "list_empty (klinks ?b) ReadyTasks"
    using b(1) dll_empty_iff [of "klinks ?b" ReadyTasks "[]"] by (simp add: sched_wf_def)
  have l: "lnext (klinks ?b) (TQueue c) = TQueue c" using b(3) by (simp add: unlinked_def)
  have nl: "\<not> list_is_lonely (klinks ?b) (TQueue c) ReadyTasks" using l by (simp add: list_is_lonely_def)
  have tk: "t_flags (tasks ?b c) AND TF_RESCHED \<noteq> 0"
    by (simp add: task_block_def TF_RESCHED_def bit.conj_disj_distrib2 word_or_eq_0)
  have "T_RUNNING (tasks ?b c)"
    using run by (simp add: T_RUNNING_def task_block_def bit.conj_disj_distrib2 word_or_eq_0)
  then have st: "pick_start c ?s = Some (?s\<lparr>current := Some c\<rparr>)"
    using l by (simp add: pick_start_def task_save_props next_ready_def list_next_def)
  have "pick_task (?s\<lparr>current := Some c\<rparr>) = None"
    using pick_task_idle [of "?s\<lparr>current := Some c\<rparr>"] e b(2)
    by (cases "pick_task (?s\<lparr>current := Some c\<rparr>)") (auto simp: task_save_props)
  moreover have cb: "current ?b = Some c" using c(1) by (simp add: task_block_def)
  ultimately have "task_preempt ctxs ?b = None" using nl tk st by (subst task_preempt.simps) simp
  then show ?thesis using w by (simp add: task_wait_def)
qed

subsection \<open>Time slices\<close>

text \<open>The timer interrupt calls \<^verbatim>\<open>task_preempt\<close> once for each clock tick.\<close>

primrec preempts :: "(nat \<Rightarrow> cctx) \<Rightarrow> nat \<Rightarrow> kern \<Rightarrow> kern option" where
  "preempts ctxs 0 k = Some k"
| "preempts ctxs (Suc n) k = Option.bind (preempts ctxs n k) (task_preempt ctxs)"

lemma preempts_add: "preempts ctxs (m + n) k = Option.bind (preempts ctxs m k) (preempts ctxs n)"
  by (induction n) (simp_all add: Option.bind_assoc)

text \<open>The ready tasks all run, task number \<open>j\<close> of the list is the current one and has a full slice.\<close>

definition slice :: "kern \<Rightarrow> nat list \<Rightarrow> nat list \<Rightarrow> nat \<Rightarrow> bool" where
  "slice k rs gs j \<longleftrightarrow> sched_wf k rs gs \<and> calm k rs \<and> j < length rs \<and> current k = Some (rs ! j)
     \<and> t_ticks_left (tasks k (rs ! j)) = 15
     \<and> (\<forall>t \<in> set rs. T_RUNNING (tasks k t) \<and> t_flags (tasks k t) AND TF_RESCHED = 0)"

lemma tick_down:
  assumes wf: "sched_wf k (xs @ c # ys) gs" and c: "current k = Some c" and two: "xs \<noteq> [] \<or> ys \<noteq> []"
    and run: "T_RUNNING (tasks k c)" "t_flags (tasks k c) AND TF_RESCHED = 0" and tk: "t_ticks_left (tasks k c) \<noteq> 0"
  shows "task_preempt ctxs k = Some (upd_task c (\<lambda>x. x\<lparr>t_ticks_left := t_ticks_left x - 1\<rparr>) k)"
  using sched_lonely [OF wf] two c run tk by (subst task_preempt.simps) (auto simp: T_RUNNING_def)

abbreviation set_ticks :: "nat \<Rightarrow> u32 \<Rightarrow> kern \<Rightarrow> kern" where
  "set_ticks c n k \<equiv> upd_task c (\<lambda>x. x\<lparr>t_ticks_left := n\<rparr>) k"

lemma set_ticks_wf: "sched_wf k rs gs \<Longrightarrow> sched_wf (set_ticks c n k) rs gs"
  by (rule sched_wf_cong) (auto simp: T_WAITING_def)

lemma ticks_down:
  assumes wf: "sched_wf k (xs @ c # ys) gs" and c: "current k = Some c" and two: "xs \<noteq> [] \<or> ys \<noteq> []"
    and run: "T_RUNNING (tasks k c)" "t_flags (tasks k c) AND TF_RESCHED = 0" and tk: "t_ticks_left (tasks k c) = 15"
  shows "n \<le> 15 \<Longrightarrow> preempts ctxs n k = Some (set_ticks c (15 - word_of_nat n) k)"
proof (induction n)
  case 0
  have "(tasks k c)\<lparr>t_ticks_left := 15\<rparr> = tasks k c" using tk by (cases "tasks k c") simp
  then have "(tasks k)(c := (tasks k c)\<lparr>t_ticks_left := 15\<rparr>) = tasks k" by (simp add: fun_upd_idem)
  then show ?case by simp
next
  case (Suc n)
  let ?k = "set_ticks c (15 - word_of_nat n) k"
  have "(15 - word_of_nat n :: u32) \<noteq> 0"
  proof
    assume "(15 - word_of_nat n :: u32) = 0"
    then have "(word_of_nat n :: u32) = 15" by simp
    then have "unat (word_of_nat n :: u32) = 15" by simp
    then show False using Suc.prems by (simp add: unat_of_nat)
  qed
  then have "task_preempt ctxs ?k = Some (set_ticks c (15 - word_of_nat (Suc n)) k)"
    using tick_down [OF set_ticks_wf [OF wf], of c "15 - word_of_nat n" ctxs] c two run
    by (simp add: T_RUNNING_def diff_diff_add)
  then show ?case using Suc by (simp del: fun_upd_apply)
qed

lemma nth_succ:
  assumes "rs = xs @ c # ys" "length xs = j" "xs \<noteq> [] \<or> ys \<noteq> []"
  shows "hd (ys @ xs) = rs ! (Suc j mod length rs)"
proof (cases ys)
  case Nil
  then have "Suc j mod length rs = 0" using assms by simp
  then show ?thesis using Nil assms by (cases xs) auto
next
  case (Cons y zs)
  then have "Suc j mod length rs = Suc j" using assms by simp
  then show ?thesis using Cons assms by (simp add: nth_append)
qed

lemma slice_step:
  assumes s: "slice k rs gs j" and two: "2 \<le> length rs"
  shows "\<exists>k'. preempts ctxs 16 k = Some k' \<and> slice k' rs gs (Suc j mod length rs)"
proof -
  have jl: "j < length rs" using s by (simp add: slice_def)
  obtain xs c ys where rs: "rs = xs @ c # ys" and j: "length xs = j" and c: "c = rs ! j"
    using id_take_nth_drop [OF jl] jl by (metis length_take min.absorb4)
  have ne: "xs \<noteq> [] \<or> ys \<noteq> []" using two unfolding rs by (cases xs; cases ys) auto
  have wf: "sched_wf k (xs @ c # ys) gs" "calm k (xs @ c # ys)" "current k = Some c"
    and run: "T_RUNNING (tasks k c)" "t_flags (tasks k c) AND TF_RESCHED = 0" "t_ticks_left (tasks k c) = 15"
    using s jl nth_mem [OF jl] unfolding slice_def rs [symmetric] c [symmetric] by blast+
  let ?k = "set_ticks c 0 k" and ?t = "hd (ys @ xs)"
  have a: "preempts ctxs 15 k = Some ?k" using ticks_down [OF wf(1,3) ne run, of 15 ctxs] by simp
  have cm: "calm ?k (xs @ c # ys)" using wf(2) by (auto simp: calm_def T_EXITING_def)
  have b: "task_preempt ctxs ?k = Some (handed_over c ?t (ctxs 0) ?k)"
    using preempt_next [OF set_ticks_wf [OF wf(1)] cm] wf(3) run ne by (simp add: T_RUNNING_def)
  let ?h = "handed_over c ?t (ctxs 0) ?k"
  have t: "?t = rs ! (Suc j mod length rs)" by (rule nth_succ [OF rs j ne])
  have m: "(Suc j mod length rs) < length rs" using jl by (intro mod_less_divisor) linarith
  have "T_RUNNING (tasks ?h x) \<and> t_flags (tasks ?h x) AND TF_RESCHED = 0" if "x \<in> set rs" for x
  proof -
    have "T_RUNNING (tasks k x) \<and> t_flags (tasks k x) AND TF_RESCHED = 0" using s that by (simp add: slice_def)
    then have "T_RUNNING (tasks ?k x)" "t_flags (tasks ?h x) AND TF_RESCHED = 0"
      by (auto simp: T_RUNNING_def handed_over_def task_switch_def task_save_def Let_def and.assoc)
    then show ?thesis by (simp only: handed_over_sel)
  qed
  then have "slice ?h rs gs (Suc j mod length rs)"
    unfolding slice_def t [symmetric]
    using handed_over_wf [OF set_ticks_wf [OF wf(1)]] handed_over_calm [OF cm] m
    by (simp add: handed_over_sel rs)
  moreover have "preempts ctxs 16 k = Some ?h"
    using preempts.simps(2) [of ctxs 15 k] a b by (simp del: preempts.simps)
  ultimately show ?thesis by blast
qed

lemma slices:
  assumes "slice k rs gs j" "2 \<le> length rs"
  shows "\<exists>k'. preempts ctxs (16 * n) k = Some k' \<and> slice k' rs gs ((j + n) mod length rs)"
proof (induction n)
  case 0
  have "j mod length rs = j" using assms(1) by (simp add: slice_def)
  then show ?case using assms(1) by simp
next
  case (Suc n)
  then obtain k1 where k1: "preempts ctxs (16 * n) k = Some k1" "slice k1 rs gs ((j + n) mod length rs)" by blast
  obtain k2 where k2: "preempts ctxs 16 k1 = Some k2"
    "slice k2 rs gs (Suc ((j + n) mod length rs) mod length rs)"
    using slice_step [OF k1(2) assms(2)] by blast
  have "preempts ctxs (16 * Suc n) k = Some k2"
    using preempts_add [of ctxs "16 * n" 16 k] k1(1) k2(1) by (simp add: add.commute)
  moreover have "Suc ((j + n) mod length rs) mod length rs = (j + Suc n) mod length rs"
    by (simp add: mod_Suc_eq)
  ultimately show ?case using k2(2) by auto
qed

end
