(* ===== verification/Life.thy ===== *)
theory Life
  imports SchedInv
begin

text \<open>
  The life of a task after it has been created: what \<^verbatim>\<open>task_free\<close> does to the task's children,
  messages and waiting parent, and that the parent's \<^verbatim>\<open>sys_waitpid\<close> then gets the exit status.
\<close>

subsection \<open>The lists of a task\<close>

definition kern_wf :: "kern \<Rightarrow> nat list \<Rightarrow> nat list \<Rightarrow> (nat \<Rightarrow> nat list) \<Rightarrow> (nat \<Rightarrow> nat list) \<Rightarrow> bool" where
  "kern_wf k rs gs ch mq \<longleftrightarrow> sched_wf k rs gs
     \<and> (\<forall>t \<in> set gs. dll (klinks k) (TChildren t) (map TSibling (ch t)) \<and> unlinked (klinks k) (TTtyWait t)
          \<and> dll (klinks k) (MesgQueue t) (map Mesg (mq t)))
     \<and> (\<forall>t \<in> set gs. \<forall>u \<in> set gs. t \<noteq> u \<longrightarrow> set (ch t) \<inter> set (ch u) = {} \<and> set (mq t) \<inter> set (mq u) = {})
     \<and> (\<forall>t \<in> set gs. \<forall>c \<in> set (ch t). c \<in> set gs \<and> t_parent (tasks k c) = Some t)
     \<and> (\<forall>t \<in> set gs. \<forall>u \<in> set gs. t_pid (tasks k t) = t_pid (tasks k u) \<longrightarrow> t = u)"

lemma kern_wf_sched: "kern_wf k rs gs ch mq \<Longrightarrow> sched_wf k rs gs"
  by (simp add: kern_wf_def)

text \<open>Changes of a task that the invariant does not see.\<close>

lemma kern_wf_same:
  assumes "kern_wf k rs gs ch mq" "klinks k' = klinks k"
    "\<And>t. T_WAITING (tasks k' t) = T_WAITING (tasks k t)" "\<And>t. t_parent (tasks k' t) = t_parent (tasks k t)"
    "\<And>t. t_pid (tasks k' t) = t_pid (tasks k t)"
  shows "kern_wf k' rs gs ch mq"
  using assms(1) unfolding kern_wf_def sched_wf_def assms(2-) .

lemma orphan_children_eq:
  assumes "dll (klinks k) (TChildren d) (map TSibling cs)"
  shows "orphan_children d k = Some (k\<lparr>klinks := fold list_rem (map TSibling cs) (klinks k),
     tasks := (\<lambda>t. if t \<in> set cs then (tasks k t)\<lparr>t_parent := None\<rparr> else tasks k t)\<rparr>)"
  using assms
proof (induction cs arbitrary: k)
  case Nil
  then show ?case using dll_empty_iff [OF Nil] by (subst orphan_children.simps) simp
next
  case (Cons c cs)
  let ?k = "upd_links (list_rem (TSibling c)) (upd_task c (\<lambda>x. x\<lparr>t_parent := None\<rparr>) k)"
  have "dll (klinks ?k) (TChildren d) (map TSibling cs)"
    using dll_list_rem [OF Cons.prems, of "TSibling c"] by simp
  note IH = Cons.IH [OF this]
  have c: "c \<notin> set cs" using Cons.prems by (auto simp: dll_def)
  have "\<not> list_empty (klinks k) (TChildren d)" using dll_empty_iff [OF Cons.prems] by simp
  moreover have "owner (list_first (klinks k) (TChildren d)) = c"
    using dll_first [OF Cons.prems] by (simp add: list_first_def)
  ultimately have "orphan_children d k = orphan_children d ?k"
    by (subst orphan_children.simps) (simp add: Let_def)
  also have "\<dots> = Some (k\<lparr>klinks := fold list_rem (map TSibling (c # cs)) (klinks k),
     tasks := (\<lambda>t. if t \<in> set (c # cs) then (tasks k t)\<lparr>t_parent := None\<rparr> else tasks k t)\<rparr>)"
    unfolding IH using c by (auto simp: fun_eq_iff)
  finally show ?case .
qed

lemma drop_messages_eq:
  assumes "dll (klinks k) (MesgQueue d) (map Mesg ms)"
  shows "drop_messages d k = Some (k\<lparr>klinks := fold list_rem (map Mesg ms) (klinks k),
     calls := rev (map Call_kfree_mesg ms) @ calls k\<rparr>)"
  using assms
proof (induction ms arbitrary: k)
  case Nil
  then show ?case using dll_empty_iff [OF Nil] by (subst drop_messages.simps) simp
next
  case (Cons c cs)
  let ?k = "log_call (Call_kfree_mesg c) (upd_links (list_rem (Mesg c)) k)"
  have "dll (klinks ?k) (MesgQueue d) (map Mesg cs)"
    using dll_list_rem [OF Cons.prems, of "Mesg c"] by simp
  note IH = Cons.IH [OF this]
  have "\<not> list_empty (klinks k) (MesgQueue d)" using dll_empty_iff [OF Cons.prems] by simp
  moreover have "owner (list_first (klinks k) (MesgQueue d)) = c"
    using dll_first [OF Cons.prems] by (simp add: list_first_def)
  ultimately have "drop_messages d k = drop_messages d ?k"
    by (subst drop_messages.simps) (simp add: Let_def)
  then show ?case using IH by simp
qed

subsection \<open>Freeing\<close>

text \<open>The state in which \<^verbatim>\<open>task_free\<close> notifies the parent.\<close>

definition freed :: "nat \<Rightarrow> nat list \<Rightarrow> nat list \<Rightarrow> kern \<Rightarrow> kern" where
  "freed d cs ms k =
     (let ts = (tasks k)(d := (tasks k d)\<lparr>t_flags := TF_ZOMBIE\<rparr>) in
      k\<lparr>tasks := (\<lambda>t. if t \<in> set cs then (ts t)\<lparr>t_parent := None\<rparr> else ts t),
        klinks := fold list_rem (map Mesg ms) (fold list_rem (map TSibling cs) (list_rem (TQueue d) (klinks k))),
        calls := Call_free_page_dir (t_dir (tasks k d)) # rev (map Call_kfree_mesg ms)
          @ Call_free_task_vfs d # calls k\<rparr>)"

lemma sched_wf_fold_rem:
  assumes wf: "sched_wf k rs gs" and d: "dll (klinks k) e xs"
    and e: "set (e # xs) \<inter> (insert ReadyTasks (insert GlobList (range TQueue \<union> range TGlob))) = {}"
  shows "sched_wf (k\<lparr>klinks := fold list_rem xs (klinks k)\<rparr>) rs gs"
proof -
  have r: "dll (klinks k) ReadyTasks (map TQueue rs)" "dll (klinks k) GlobList (map TGlob gs)"
    using wf by (auto simp: sched_wf_def)
  have "dll (fold list_rem xs (klinks k)) ReadyTasks (map TQueue rs)"
    by (rule fold_list_rem(2) [OF d r(1)]) (use e in auto)
  moreover have "dll (fold list_rem xs (klinks k)) GlobList (map TGlob gs)"
    by (rule fold_list_rem(2) [OF d r(2)]) (use e in auto)
  moreover have "unlinked (fold list_rem xs (klinks k)) (TQueue t)" if "t \<in> set gs - set rs" for t
  proof -
    have "TQueue t \<notin> set (e # xs)" using e by auto
    then show ?thesis using fold_list_rem(3) [OF d, of "TQueue t"] wf that by (simp add: sched_wf_def unlinked_def)
  qed
  ultimately show ?thesis using wf by (simp add: sched_wf_def)
qed

text \<open>Taking a task off the ready list leaves every other list alone.\<close>

lemma dll_rem_queue:
  assumes wf: "sched_wf k rs gs" and t: "t \<in> set gs" and d: "dll (klinks k) e ys"
    and e: "set (e # ys) \<inter> insert ReadyTasks (range TQueue) = {}"
  shows "dll (list_rem (TQueue t) (klinks k)) e ys"
proof (cases "t \<in> set rs")
  case True
  have "dll (klinks k) ReadyTasks (map TQueue rs)" using wf by (simp add: sched_wf_def)
  from list_rem_frame [OF d _ this, of "TQueue t"] show ?thesis using True e by auto
next
  case False
  then have "list_rem (TQueue t) (klinks k) = klinks k"
    using wf t by (intro list_rem_unlinked) (auto simp: sched_wf_def)
  then show ?thesis using d by simp
qed

lemma unlinked_rem_queue:
  assumes wf: "sched_wf k rs gs" and t: "t \<in> set gs" and u: "unlinked (klinks k) n"
    and n: "n \<notin> insert ReadyTasks (range TQueue)"
  shows "unlinked (list_rem (TQueue t) (klinks k)) n"
proof (cases "t \<in> set rs")
  case True
  have "dll (klinks k) ReadyTasks (map TQueue rs)" using wf by (simp add: sched_wf_def)
  from list_rem_other [OF this, of "TQueue t" n] show ?thesis using True n u by (auto simp: unlinked_def)
next
  case False
  then have "list_rem (TQueue t) (klinks k) = klinks k"
    using wf t by (intro list_rem_unlinked) (auto simp: sched_wf_def)
  then show ?thesis using u by simp
qed

lemma task_free_eq:
  assumes wf: "kern_wf k rs gs ch mq" and d: "d \<in> set gs" and nc: "current k \<noteq> Some d"
    and np: "t_pid (tasks k d) \<noteq> 0" and nself: "d \<notin> set (ch d)"
  shows "task_free d k = Some (notify_parent d (freed d (ch d) (mq d) k))"
    and "sched_wf (freed d (ch d) (mq d) k) (remove1 d rs) gs"
proof -
  have sw: "sched_wf k rs gs" using kern_wf_sched [OF wf] .
  have c: "dll (klinks k) (TChildren d) (map TSibling (ch d))" "unlinked (klinks k) (TTtyWait d)"
    "dll (klinks k) (MesgQueue d) (map Mesg (mq d))"
    using wf d by (auto simp: kern_wf_def)
  let ?l1 = "list_rem (TQueue d) (klinks k)"
  have c1: "dll ?l1 (TChildren d) (map TSibling (ch d))" by (rule dll_rem_queue [OF sw d c(1)]) auto
  have m1: "dll ?l1 (MesgQueue d) (map Mesg (mq d))" by (rule dll_rem_queue [OF sw d c(3)]) auto
  have "unlinked ?l1 (TTtyWait d)" by (rule unlinked_rem_queue [OF sw d c(2)]) auto
  then have tty: "list_rem (TTtyWait d) ?l1 = ?l1" by (rule list_rem_unlinked)
  let ?l2 = "fold list_rem (map TSibling (ch d)) ?l1"
  have m2: "dll ?l2 (MesgQueue d) (map Mesg (mq d))" by (rule fold_list_rem(2) [OF c1 m1]) auto
  show "task_free d k = Some (notify_parent d (freed d (ch d) (mq d) k))"
    using nc np nself c1 m2
    by (simp add: task_free_def Let_def tty orphan_children_eq drop_messages_eq freed_def cong: if_cong)
  have "sched_wf (upd_links (list_rem (TQueue d)) k) (remove1 d rs) gs" by (rule sched_wf_remove(1) [OF sw d])
  then have "sched_wf (k\<lparr>klinks := ?l2\<rparr>) (remove1 d rs) gs"
    using sched_wf_fold_rem [of "upd_links (list_rem (TQueue d)) k" "remove1 d rs" gs "TChildren d"
        "map TSibling (ch d)"] c1 by auto
  then have "sched_wf (k\<lparr>klinks := fold list_rem (map Mesg (mq d)) ?l2\<rparr>) (remove1 d rs) gs"
    using sched_wf_fold_rem [of "k\<lparr>klinks := ?l2\<rparr>" "remove1 d rs" gs "MesgQueue d" "map Mesg (mq d)"] m2 by auto
  then show "sched_wf (freed d (ch d) (mq d) k) (remove1 d rs) gs"
    by (rule sched_wf_cong)
      (use sched_wf_distinct [OF sw] in \<open>auto simp: freed_def Let_def T_WAITING_def\<close>)
qed

text \<open>What freeing a task does to the task itself and to its children.\<close>

lemma freed_sel:
  assumes "d \<notin> set cs"
  shows "tasks (freed d cs ms k) d = (tasks k d)\<lparr>t_flags := TF_ZOMBIE\<rparr>"
    and "c \<in> set cs \<Longrightarrow> tasks (freed d cs ms k) c = (tasks k c)\<lparr>t_parent := None\<rparr>"
    and "c \<notin> set cs \<Longrightarrow> c \<noteq> d \<Longrightarrow> tasks (freed d cs ms k) c = tasks k c"
  using assms by (auto simp: freed_def Let_def)

lemma freed_pid: "t_pid (tasks (freed d cs ms k) t) = t_pid (tasks k t)"
  by (simp add: freed_def Let_def)

lemma wakeup_pid: "t_pid (tasks (task_wakeup p k) t) = t_pid (tasks k t)"
  by (simp add: task_wakeup_def Let_def)

lemma notify_pid: "t_pid (tasks (notify_parent d k) t) = t_pid (tasks k t)"
  by (auto simp: notify_parent_def wakeup_pid split: option.splits)

lemma waits_for_waiting: "waits_for p d \<Longrightarrow> T_WAITING p"
proof -
  have "f AND TF_WAITTASK = TF_WAITTASK \<Longrightarrow> f AND TF_WAITMASK \<noteq> 0" for f :: u32
  proof
    assume a: "f AND TF_WAITTASK = TF_WAITTASK" "f AND TF_WAITMASK = 0"
    have "f AND TF_WAITTASK = (f AND TF_WAITMASK) AND TF_WAITTASK"
      by (simp add: TF_defs and.assoc)
    then show False using a by (simp add: TF_defs)
  qed
  then show "waits_for p d \<Longrightarrow> T_WAITING p" by (simp add: waits_for_def T_WAITING_def)
qed

lemma notify_parent_wakes:
  assumes wf: "sched_wf k rs gs" and p: "t_parent (tasks k d) = Some p" "p \<in> set gs" "p \<noteq> d"
    and w: "waits_for (tasks k p) (tasks k d)"
  shows "sched_wf (notify_parent d k) (p # rs) gs"
    and "\<not> T_WAITING (tasks (notify_parent d k) p)" and "T_RUNNING (tasks (notify_parent d k) p)"
    and "t_waitfor (tasks (notify_parent d k) p) = t_pid (tasks k d)"
    and "t_status (tasks (notify_parent d k) p) = t_status (tasks k d)"
    and "t \<noteq> p \<Longrightarrow> tasks (notify_parent d k) t = tasks k t"
proof -
  let ?k = "upd_task p (\<lambda>x. x\<lparr>t_waitfor := t_pid (tasks k d), t_status := t_status (tasks k d)\<rparr>) k"
  have wp: "T_WAITING (tasks k p)" using waits_for_waiting [OF w] .
  have np: "p \<notin> set rs" using wf wp by (auto simp: sched_wf_def)
  have wf': "sched_wf ?k rs gs" by (rule sched_wf_upd_task [OF wf]) (use np in simp)
  have wp': "T_WAITING (tasks ?k p)" using wp by (simp add: T_WAITING_def)
  have e: "notify_parent d k = task_wakeup p ?k" using p(1) w by (simp add: notify_parent_def)
  note g = task_wakeup_wf [OF wf' p(2) np wp']
  show "sched_wf (notify_parent d k) (p # rs) gs" "\<not> T_WAITING (tasks (notify_parent d k) p)"
    "T_RUNNING (tasks (notify_parent d k) p)"
    unfolding e using g by simp_all
  show "t_waitfor (tasks (notify_parent d k) p) = t_pid (tasks k d)"
    "t_status (tasks (notify_parent d k) p) = t_status (tasks k d)"
    "t \<noteq> p \<Longrightarrow> tasks (notify_parent d k) t = tasks k t"
    unfolding e task_wakeup_eq [OF wf' p(2) np wp'] by simp_all
qed

lemma zombie_flag: "T_ISZOMBIE (x\<lparr>t_flags := TF_ZOMBIE\<rparr>)"
  by (simp add: T_ISZOMBIE_def TF_defs)

subsection \<open>Collecting\<close>

lemma find_unique:
  assumes "x \<in> set xs" "\<And>y. y \<in> set xs \<Longrightarrow> P y \<longleftrightarrow> y = x"
  shows "List.find P xs = Some x"
  using assms by (induction xs) auto

lemma task_lookup_unique:
  assumes "sched_wf k rs gs" "d \<in> set gs" "\<And>t. t \<in> set gs \<Longrightarrow> t_pid (tasks k t) = t_pid (tasks k d) \<Longrightarrow> t = d"
  shows "task_lookup (t_pid (tasks k d)) k = Some (Some d)"
proof -
  have "List.find (\<lambda>n. t_pid (tasks k (owner n)) = t_pid (tasks k d)) (map TGlob gs) = Some (TGlob d)"
    by (rule find_unique) (use assms in auto)
  then show ?thesis using assms(1) list_find_dll by (fastforce simp: task_lookup_def sched_wf_def)
qed

lemma task_lookup_absent:
  assumes "sched_wf k rs gs" "\<And>t. t \<in> set gs \<Longrightarrow> t_pid (tasks k t) \<noteq> pid"
  shows "task_lookup pid k = Some None"
proof -
  have "List.find (\<lambda>n. t_pid (tasks k (owner n)) = pid) (map TGlob gs) = None"
    using assms(2) by (auto simp: find_None_iff)
  then show ?thesis using assms(1) list_find_dll by (fastforce simp: task_lookup_def sched_wf_def)
qed

lemma sched_wf_unglob:
  assumes wf: "sched_wf k rs gs" and d: "d \<in> set gs" "d \<notin> set rs"
  shows "sched_wf (upd_links (list_rem (TGlob d)) k) rs (remove1 d gs)"
proof -
  have r: "dll (klinks k) ReadyTasks (map TQueue rs)" "dll (klinks k) GlobList (map TGlob gs)"
    using wf by (auto simp: sched_wf_def)
  have "dll (list_rem (TGlob d) (klinks k)) GlobList (map TGlob (remove1 d gs))"
    using dll_list_rem [OF r(2), of "TGlob d"] d by (simp add: map_remove1_inj inj_on_def)
  moreover have "dll (list_rem (TGlob d) (klinks k)) ReadyTasks (map TQueue rs)"
    using list_rem_frame [OF r(1) _ r(2), of "TGlob d"] d by auto
  moreover have "unlinked (list_rem (TGlob d) (klinks k)) (TQueue t)" if "t \<in> set gs" "t \<notin> set rs" for t
    using list_rem_other [OF r(2), of "TGlob d" "TQueue t"] that d wf by (auto simp: sched_wf_def unlinked_def)
  ultimately show ?thesis using wf d sched_wf_distinct [OF wf] by (auto simp: sched_wf_def set_remove1_eq)
qed

lemma sched_wf_unsibling:
  assumes wf: "sched_wf k rs gs" and c: "dll (klinks k) (TChildren p) (map TSibling cs)" and d: "d \<in> set cs"
  shows "sched_wf (upd_links (list_rem (TSibling d)) k) rs gs"
proof -
  have r: "dll (klinks k) ReadyTasks (map TQueue rs)" "dll (klinks k) GlobList (map TGlob gs)"
    using wf by (auto simp: sched_wf_def)
  have "dll (list_rem (TSibling d) (klinks k)) ReadyTasks (map TQueue rs)"
    using list_rem_frame [OF r(1) _ c, of "TSibling d"] d by auto
  moreover have "dll (list_rem (TSibling d) (klinks k)) GlobList (map TGlob gs)"
    using list_rem_frame [OF r(2) _ c, of "TSibling d"] d by auto
  moreover have "unlinked (list_rem (TSibling d) (klinks k)) (TQueue t)" if "t \<in> set gs" "t \<notin> set rs" for t
    using list_rem_other [OF c, of "TSibling d" "TQueue t"] that d wf by (auto simp: sched_wf_def unlinked_def)
  ultimately show ?thesis using wf by (auto simp: sched_wf_def)
qed

subsection \<open>The lists after a task has been freed\<close>

text \<open>The nodes that no list of \<open>kern_wf\<close> other than the ready list uses.\<close>

definition untouched :: "nat list \<Rightarrow> (nat \<Rightarrow> nat list) \<Rightarrow> (nat \<Rightarrow> nat list) \<Rightarrow> nat \<Rightarrow> kern \<Rightarrow> kern \<Rightarrow> bool" where
  "untouched gs ch mq d k k' \<longleftrightarrow> (\<forall>t \<in> set gs. t \<noteq> d \<longrightarrow>
     dll (klinks k') (TChildren t) (map TSibling (ch t)) \<and> dll (klinks k') (MesgQueue t) (map Mesg (mq t)))"

lemma freed_other_lists:
  assumes wf: "kern_wf k rs gs ch mq" and d: "d \<in> set gs"
  shows "untouched gs ch mq d k (freed d (ch d) (mq d) k)"
proof -
  note sw = kern_wf_sched [OF wf]
  let ?l1 = "list_rem (TQueue d) (klinks k)" and ?l2 = "fold list_rem (map TSibling (ch d)) (list_rem (TQueue d) (klinks k))"
  have cd: "dll (klinks k) (TChildren t) (map TSibling (ch t))" "dll (klinks k) (MesgQueue t) (map Mesg (mq t))"
    if "t \<in> set gs" for t
    using wf that by (auto simp: kern_wf_def)
  have dis: "set (ch t) \<inter> set (ch d) = {}" "set (mq t) \<inter> set (mq d) = {}" if "t \<in> set gs" "t \<noteq> d" for t
    using wf that d by (auto simp: kern_wf_def)
  have c1: "dll ?l1 (TChildren t) (map TSibling (ch t))" if "t \<in> set gs" for t
    by (rule dll_rem_queue [OF sw d cd(1) [OF that]]) auto
  have m1: "dll ?l1 (MesgQueue t) (map Mesg (mq t))" if "t \<in> set gs" for t
    by (rule dll_rem_queue [OF sw d cd(2) [OF that]]) auto
  have c2: "dll ?l2 (TChildren t) (map TSibling (ch t))" if "t \<in> set gs" "t \<noteq> d" for t
    by (rule fold_list_rem(2) [OF c1 [OF d] c1 [OF that(1)]]) (use dis [OF that] that in auto)
  have m2: "dll ?l2 (MesgQueue t) (map Mesg (mq t))" if "t \<in> set gs" for t
    by (rule fold_list_rem(2) [OF c1 [OF d] m1 [OF that]]) auto
  have "dll (fold list_rem (map Mesg (mq d)) ?l2) (TChildren t) (map TSibling (ch t))"
    if "t \<in> set gs" "t \<noteq> d" for t
    by (rule fold_list_rem(2) [OF m2 [OF d] c2 [OF that]]) auto
  moreover have "dll (fold list_rem (map Mesg (mq d)) ?l2) (MesgQueue t) (map Mesg (mq t))"
    if "t \<in> set gs" "t \<noteq> d" for t
    by (rule fold_list_rem(2) [OF m2 [OF d] m2 [OF that(1)]]) (use dis [OF that] that in auto)
  ultimately show ?thesis by (simp add: untouched_def freed_def Let_def)
qed

lemma wakeup_other_lists:
  assumes wf: "sched_wf k rs gs" and t: "t \<in> set gs" and d: "dll (klinks k) e ys"
    and e: "set (e # ys) \<inter> insert ReadyTasks (range TQueue) = {}"
  shows "dll (klinks (task_wakeup t k)) e ys"
proof (cases "T_WAITING (tasks k t)")
  case True
  then have nt: "t \<notin> set rs" using wf by (auto simp: sched_wf_def)
  have r: "dll (klinks k) ReadyTasks (map TQueue rs)" using wf by (simp add: sched_wf_def)
  show ?thesis unfolding task_wakeup_eq [OF wf t nt True]
    using list_add_frame(1) [OF d _ r, of "TQueue t" ReadyTasks] e by auto
next
  case False
  then show ?thesis using d by (simp add: task_wakeup_awake)
qed

lemma notify_other_lists:
  assumes wf: "sched_wf k rs gs" and p: "t_parent (tasks k d) = Some p" "p \<in> set gs"
    and w: "waits_for (tasks k p) (tasks k d)" and d: "dll (klinks k) e ys"
    and e: "set (e # ys) \<inter> insert ReadyTasks (range TQueue) = {}"
  shows "dll (klinks (notify_parent d k)) e ys"
proof -
  let ?k = "upd_task p (\<lambda>x. x\<lparr>t_waitfor := t_pid (tasks k d), t_status := t_status (tasks k d)\<rparr>) k"
  have "sched_wf ?k rs gs"
    by (rule sched_wf_upd_task [OF wf]) (use wf in \<open>auto simp: sched_wf_def T_WAITING_def\<close>)
  from wakeup_other_lists [OF this p(2) _ e] d show ?thesis using p(1) w by (simp add: notify_parent_def)
qed

text \<open>
  What \<^verbatim>\<open>waitpid_reap\<close> needs: the lists of the parent, and that the child is the only task with its
  pid.
\<close>

lemma reap_child:
  assumes sw: "sched_wf k rs gs" and c: "dll (klinks k) (TChildren p) (map TSibling cs)"
    and d: "d \<in> set cs" "d \<in> set gs" "d \<notin> set rs" and par: "t_parent (tasks k d) = Some p"
    and u: "\<And>t. t \<in> set gs \<Longrightarrow> t_pid (tasks k t) = t_pid (tasks k d) \<Longrightarrow> t = d"
  shows "\<exists>k'. waitpid_reap (t_pid (tasks k d)) k = Some (t_pid (tasks k d), k')
     \<and> sched_wf k' rs (remove1 d gs) \<and> dll (klinks k') (TChildren p) (map TSibling (remove1 d cs))
     \<and> calls k' = Call_kfree_task d # calls k \<and> tasks k' = tasks k"
proof -
  have lk: "task_lookup (t_pid (tasks k d)) k = Some (Some d)" by (rule task_lookup_unique [OF sw d(2) u])
  let ?k1 = "upd_links (list_rem (TSibling d)) k"
  have s1: "sched_wf ?k1 rs gs" by (rule sched_wf_unsibling [OF sw c d(1)])
  have c1: "dll (klinks ?k1) (TChildren p) (map TSibling (remove1 d cs))"
    using dll_list_rem [OF c, of "TSibling d"] d by (simp add: map_remove1_inj inj_on_def)
  let ?k2 = "upd_links (list_rem (TGlob d)) ?k1"
  have s2: "sched_wf ?k2 rs (remove1 d gs)" by (rule sched_wf_unglob [OF s1 d(2,3)])
  have "dll (klinks ?k1) GlobList (map TGlob gs)" using s1 by (simp add: sched_wf_def)
  from list_rem_frame [OF c1 _ this, of "TGlob d"]
  have c2: "dll (klinks ?k2) (TChildren p) (map TSibling (remove1 d cs))" using d by auto
  have "sched_wf (log_call (Call_kfree_task d) ?k2) rs (remove1 d gs)" by (rule sched_wf_cong [OF s2]) simp_all
  then show ?thesis using c2 lk par by (simp add: waitpid_reap_def)
qed

end
