(* ===== verification/Fork.thy ===== *)
theory Fork
  imports Life
begin

text \<open>
  Creating a task: \<^verbatim>\<open>sys_fork\<close> builds a well formed task, links it into the ready list, the global
  list and the children of the caller, and keeps the invariant of the lists of all tasks.
\<close>

subsection \<open>The list nodes of a new task\<close>

definition task_nodes :: "nat \<Rightarrow> knode set" where
  "task_nodes a = {TChildren a, TSibling a, TQueue a, TGlob a, TTtyWait a, MesgQueue a, TSem a}"

lemma init_task_links_sel:
  "lnext (init_task_links a l) n = (if n \<in> task_nodes a then n else lnext l n)"
  "lprev (init_task_links a l) n = (if n \<in> task_nodes a then n else lprev l n)"
  by (auto simp: init_task_links_def task_nodes_def INIT_LIST_def)

lemma init_task_links_dll:
  "set (d # xs) \<inter> task_nodes a = {} \<Longrightarrow> dll (init_task_links a l) d xs = dll l d xs"
  by (rule dll_cong) (auto simp: init_task_links_sel)

lemma init_task_links_unlinked: "n \<in> task_nodes a \<Longrightarrow> unlinked (init_task_links a l) n"
  by (simp add: unlinked_def init_task_links_sel)

lemma unlinked_dll: "unlinked l d \<Longrightarrow> dll l d []"
  by (simp add: unlinked_def dll_def)

lemma unlinked_init: "unlinked l n \<Longrightarrow> unlinked (init_task_links a l) n"
  by (simp add: unlinked_def init_task_links_sel)

text \<open>Adding a node at the head of one list does not change an unlinked node outside it.\<close>

lemma unlinked_list_add:
  assumes "unlinked l n" "dll l d xs" "n \<notin> set (x # d # xs)"
  shows "unlinked (list_add x d l) n"
  using list_add_other [OF assms(2) _ assms(3), of d] assms(1) by (auto simp: unlinked_def)

text \<open>A kernel state with the lists of \<open>kern_wf\<close>, without the conditions on the tasks.\<close>

definition lists_wf :: "knode links \<Rightarrow> nat list \<Rightarrow> nat list \<Rightarrow> (nat \<Rightarrow> nat list) \<Rightarrow> (nat \<Rightarrow> nat list) \<Rightarrow> bool" where
  "lists_wf l rs gs ch mq \<longleftrightarrow> dll l ReadyTasks (map TQueue rs) \<and> dll l GlobList (map TGlob gs)
     \<and> (\<forall>t \<in> set gs - set rs. unlinked l (TQueue t))
     \<and> (\<forall>t \<in> set gs. dll l (TChildren t) (map TSibling (ch t)) \<and> unlinked l (TTtyWait t)
          \<and> dll l (MesgQueue t) (map Mesg (mq t)))"

lemma kern_wf_lists: "kern_wf k rs gs ch mq \<Longrightarrow> lists_wf (klinks k) rs gs ch mq"
  by (auto simp: kern_wf_def sched_wf_def lists_wf_def)

lemma lists_wf_init:
  assumes l: "lists_wf l rs gs ch mq" and a: "a \<notin> set gs" and rs: "set rs \<subseteq> set gs"
    and ch: "\<forall>t \<in> set gs. set (ch t) \<subseteq> set gs"
  shows "lists_wf (init_task_links a l) rs gs ch mq"
proof -
  have "dll (init_task_links a l) (TChildren t) (map TSibling (ch t))" if "t \<in> set gs" for t
    using l that a ch by (subst init_task_links_dll) (auto simp: lists_wf_def task_nodes_def)
  moreover have "dll (init_task_links a l) (MesgQueue t) (map Mesg (mq t))" if "t \<in> set gs" for t
    using l that a by (subst init_task_links_dll) (auto simp: lists_wf_def task_nodes_def)
  moreover have "dll (init_task_links a l) ReadyTasks (map TQueue rs)"
    using l a rs by (subst init_task_links_dll) (auto simp: lists_wf_def task_nodes_def)
  moreover have "dll (init_task_links a l) GlobList (map TGlob gs)"
    using l a by (subst init_task_links_dll) (auto simp: lists_wf_def task_nodes_def)
  ultimately show ?thesis using l by (auto simp: lists_wf_def unlinked_init)
qed

definition fork_links :: "nat \<Rightarrow> nat \<Rightarrow> knode links \<Rightarrow> knode links" where
  "fork_links a c l = list_add (TGlob a) GlobList (list_add (TSibling a) (TChildren c)
     (list_add (TQueue a) ReadyTasks (init_task_links a l)))"

lemma lists_wf_ready:
  assumes l: "lists_wf l rs gs ch mq" and a: "a \<notin> set gs" and rs: "set rs \<subseteq> set gs"
  shows "lists_wf (list_add (TQueue a) ReadyTasks l) (a # rs) gs ch mq"
proof -
  let ?l = "list_add (TQueue a) ReadyTasks l"
  have r: "dll l ReadyTasks (map TQueue rs)" using l by (simp add: lists_wf_def)
  have hd: "dll ?l ReadyTasks (map TQueue (a # rs))"
    using dll_list_add [OF r, of "TQueue a"] a rs by auto
  have f: "dll ?l e ys" if "dll l e ys" "set (e # ys) \<inter> insert ReadyTasks (range TQueue) = {}" for e ys
    using list_add_frame(1) [OF that(1) _ r, of "TQueue a" ReadyTasks] that(2) by auto
  have u: "unlinked ?l n" if "unlinked l n" "n \<notin> set (TQueue a # ReadyTasks # map TQueue rs)" for n
    by (rule unlinked_list_add [OF that(1) r that(2)])
  have "dll ?l GlobList (map TGlob gs)" by (rule f) (use l in \<open>auto simp: lists_wf_def\<close>)
  moreover have "dll ?l (TChildren t) (map TSibling (ch t))" if "t \<in> set gs" for t
    by (rule f) (use l that in \<open>auto simp: lists_wf_def\<close>)
  moreover have "dll ?l (MesgQueue t) (map Mesg (mq t))" if "t \<in> set gs" for t
    by (rule f) (use l that in \<open>auto simp: lists_wf_def\<close>)
  moreover have "unlinked ?l (TTtyWait t)" if "t \<in> set gs" for t
    by (rule u) (use l that in \<open>auto simp: lists_wf_def\<close>)
  moreover have "unlinked ?l (TQueue t)" if "t \<in> set gs - set (a # rs)" for t
    by (rule u) (use l that in \<open>auto simp: lists_wf_def\<close>)
  ultimately show ?thesis using hd unfolding lists_wf_def by blast
qed

lemma lists_wf_sibling:
  assumes l: "lists_wf l rs gs ch mq" and c: "c \<in> set gs" and a: "a \<notin> set gs"
    and ch: "\<forall>t \<in> set gs. set (ch t) \<subseteq> set gs"
    and dis: "\<forall>t \<in> set gs. t \<noteq> c \<longrightarrow> set (ch t) \<inter> set (ch c) = {}"
  shows "lists_wf (list_add (TSibling a) (TChildren c) l) rs gs (ch(c := a # ch c)) mq"
proof -
  let ?l = "list_add (TSibling a) (TChildren c) l"
  have r: "dll l (TChildren c) (map TSibling (ch c))" using l c by (simp add: lists_wf_def)
  have "TSibling a \<notin> set (TChildren c # map TSibling (ch c))" using a ch c by auto
  then have hd: "dll ?l (TChildren c) (map TSibling (a # ch c))"
    using dll_list_add [OF r, of "TSibling a"] by simp
  have f: "dll ?l e ys"
    if "dll l e ys" "set (e # ys) \<inter> set (TSibling a # TChildren c # map TSibling (ch c)) = {}" for e ys
    using list_add_frame(1) [OF that(1) _ r, of "TSibling a" "TChildren c"] that(2) by auto
  have u: "unlinked ?l n" if "unlinked l n" "n \<notin> set (TSibling a # TChildren c # map TSibling (ch c))" for n
    by (rule unlinked_list_add [OF that(1) r that(2)])
  have "dll ?l (TChildren t) (map TSibling (ch t))" if t: "t \<in> set gs" "t \<noteq> c" for t
  proof (rule f)
    show "dll l (TChildren t) (map TSibling (ch t))" using l t by (simp add: lists_wf_def)
    have "a \<notin> set (ch t)" "set (ch t) \<inter> set (ch c) = {}" using a ch dis t by auto
    then show "set (TChildren t # map TSibling (ch t)) \<inter> set (TSibling a # TChildren c # map TSibling (ch c)) = {}"
      using t by auto
  qed
  then have "dll ?l (TChildren t) (map TSibling ((ch(c := a # ch c)) t))" if "t \<in> set gs" for t
    using hd that by auto
  moreover have "dll ?l ReadyTasks (map TQueue rs)" by (rule f) (use l in \<open>auto simp: lists_wf_def\<close>)
  moreover have "dll ?l GlobList (map TGlob gs)" by (rule f) (use l in \<open>auto simp: lists_wf_def\<close>)
  moreover have "dll ?l (MesgQueue t) (map Mesg (mq t))" if "t \<in> set gs" for t
    by (rule f) (use l that in \<open>auto simp: lists_wf_def\<close>)
  moreover have "unlinked ?l (TTtyWait t)" if "t \<in> set gs" for t
    by (rule u) (use l that in \<open>auto simp: lists_wf_def\<close>)
  moreover have "unlinked ?l (TQueue t)" if "t \<in> set gs - set rs" for t
    by (rule u) (use l that in \<open>auto simp: lists_wf_def\<close>)
  ultimately show ?thesis unfolding lists_wf_def by blast
qed

lemma lists_wf_glob:
  assumes l: "lists_wf l rs gs ch mq" and a: "a \<notin> set gs" "a \<in> set rs"
    and new: "unlinked l (TChildren a)" "unlinked l (TTtyWait a)" "unlinked l (MesgQueue a)"
  shows "lists_wf (list_add (TGlob a) GlobList l) rs (a # gs) (ch(a := [])) (mq(a := []))"
proof -
  let ?l = "list_add (TGlob a) GlobList l"
  have r: "dll l GlobList (map TGlob gs)" using l by (simp add: lists_wf_def)
  have hd: "dll ?l GlobList (map TGlob (a # gs))" using dll_list_add [OF r, of "TGlob a"] a by auto
  have f: "dll ?l e ys" if "dll l e ys" "set (e # ys) \<inter> insert GlobList (range TGlob) = {}" for e ys
    using list_add_frame(1) [OF that(1) _ r, of "TGlob a" GlobList] that(2) by auto
  have u: "unlinked ?l n" if "unlinked l n" "n \<notin> set (TGlob a # GlobList # map TGlob gs)" for n
    by (rule unlinked_list_add [OF that(1) r that(2)])
  have "dll ?l ReadyTasks (map TQueue rs)" by (rule f) (use l in \<open>auto simp: lists_wf_def\<close>)
  moreover have "dll ?l (TChildren t) (map TSibling ((ch(a := [])) t))" if "t \<in> set (a # gs)" for t
    by (rule f) (use l new that in \<open>auto simp: lists_wf_def unlinked_dll\<close>)
  moreover have "dll ?l (MesgQueue t) (map Mesg ((mq(a := [])) t))" if "t \<in> set (a # gs)" for t
    by (rule f) (use l new that in \<open>auto simp: lists_wf_def unlinked_dll\<close>)
  moreover have "unlinked ?l (TTtyWait t)" if "t \<in> set (a # gs)" for t
    by (rule u) (use l new that in \<open>auto simp: lists_wf_def\<close>)
  moreover have "unlinked ?l (TQueue t)" if "t \<in> set (a # gs) - set rs" for t
    by (rule u) (use l a that in \<open>auto simp: lists_wf_def\<close>)
  ultimately show ?thesis using hd unfolding lists_wf_def by blast
qed

lemma lists_wf_fork:
  assumes wf: "kern_wf k rs gs ch mq" and a: "a \<notin> set gs" and c: "c \<in> set gs"
  shows "lists_wf (fork_links a c (klinks k)) (a # rs) (a # gs) (ch(c := a # ch c, a := [])) (mq(a := []))"
proof -
  note l = kern_wf_lists [OF wf]
  have rs: "set rs \<subseteq> set gs" and ch: "\<forall>t \<in> set gs. set (ch t) \<subseteq> set gs"
    and dis: "\<forall>t \<in> set gs. t \<noteq> c \<longrightarrow> set (ch t) \<inter> set (ch c) = {}"
    using wf c by (auto simp: kern_wf_def sched_wf_def)
  let ?l0 = "init_task_links a (klinks k)"
  let ?l1 = "list_add (TQueue a) ReadyTasks ?l0"
  let ?l2 = "list_add (TSibling a) (TChildren c) ?l1"
  note l0 = lists_wf_init [OF l a rs ch]
  note l1 = lists_wf_ready [OF l0 a rs]
  note l2 = lists_wf_sibling [OF l1 c a ch dis]
  have r0: "dll ?l0 ReadyTasks (map TQueue rs)" and r1: "dll ?l1 (TChildren c) (map TSibling (ch c))"
    using l0 l1 c by (simp_all add: lists_wf_def)
  have u1: "unlinked ?l1 n" if "n \<in> {TChildren a, TTtyWait a, MesgQueue a}" for n
    by (rule unlinked_list_add [OF init_task_links_unlinked r0]) (use that in \<open>auto simp: task_nodes_def\<close>)
  have "unlinked ?l2 n" if "n \<in> {TChildren a, TTtyWait a, MesgQueue a}" for n
    by (rule unlinked_list_add [OF u1 [OF that] r1]) (use that a c in auto)
  from lists_wf_glob [OF l2 a _ this this this] show ?thesis by (simp add: fork_links_def)
qed

subsection \<open>The new task\<close>

definition fork_task :: "nat \<Rightarrow> nat \<Rightarrow> cctx \<Rightarrow> kern \<Rightarrow> task" where
  "fork_task c dir ctx k = zero_task\<lparr>t_pid := next_pid k, t_parent := Some c, t_dir := dir,
     t_ctx := ctx\<lparr>c_eflags := c_eflags ctx AND NOT 0x100\<rparr>, t_flags := t_flags (tasks k c)\<rparr>"

definition forked :: "nat \<Rightarrow> nat \<Rightarrow> nat \<Rightarrow> cctx \<Rightarrow> kern \<Rightarrow> kern" where
  "forked a c dir ctx k = k\<lparr>next_pid := next_pid k + 1, calls := Call_copy_task_vfs a c # calls k,
     klinks := fork_links a c (klinks k), tasks := (tasks k)(a := fork_task c dir ctx k)\<rparr>"

lemma sys_fork_eq:
  assumes "current k = Some c" "a \<noteq> c" "next_pid k < 2 ^ 31 - 1"
  shows "sys_fork (Some a) (Some dir) ctx ctxs k = Option.bind (task_setfg (next_pid k) (forked a c dir ctx k))
     (\<lambda>k8. Option.bind (task_preempt ctxs k8) (\<lambda>k9. Some (next_pid k, k9)))"
  using assms
  by (cases ctx) (simp add: sys_fork_def take_pid_def Let_def signal_copy_def forked_def fork_task_def fork_links_def
      zero_task_def zero_ctx_def)

lemma kern_wf_intro:
  assumes "lists_wf (klinks k) rs gs ch mq" "set rs \<subseteq> set gs" "\<forall>t \<in> set rs. \<not> T_WAITING (tasks k t)"
    "\<forall>t \<in> set gs. \<forall>u \<in> set gs. t \<noteq> u \<longrightarrow> set (ch t) \<inter> set (ch u) = {} \<and> set (mq t) \<inter> set (mq u) = {}"
    "\<forall>t \<in> set gs. \<forall>c \<in> set (ch t). c \<in> set gs \<and> t_parent (tasks k c) = Some t"
    "\<forall>t \<in> set gs. \<forall>u \<in> set gs. t_pid (tasks k t) = t_pid (tasks k u) \<longrightarrow> t = u"
  shows "kern_wf k rs gs ch mq"
  using assms by (simp add: kern_wf_def sched_wf_def lists_wf_def)

lemma forked_wf:
  assumes wf: "kern_wf k rs gs ch mq" and a: "a \<notin> set gs" and c: "c \<in> set rs"
    and pids: "\<forall>t \<in> set gs. t_pid (tasks k t) < next_pid k"
  shows "kern_wf (forked a c dir ctx k) (a # rs) (a # gs) (ch(c := a # ch c, a := [])) (mq(a := []))"
proof (rule kern_wf_intro)
  have sub: "set rs \<subseteq> set gs" and nw: "\<forall>t \<in> set rs. \<not> T_WAITING (tasks k t)"
    and ch: "\<forall>t \<in> set gs. \<forall>x \<in> set (ch t). x \<in> set gs \<and> t_parent (tasks k x) = Some t"
    and dis: "\<forall>t \<in> set gs. \<forall>u \<in> set gs. t \<noteq> u \<longrightarrow> set (ch t) \<inter> set (ch u) = {} \<and> set (mq t) \<inter> set (mq u) = {}"
    and inj: "\<forall>t \<in> set gs. \<forall>u \<in> set gs. t_pid (tasks k t) = t_pid (tasks k u) \<longrightarrow> t = u"
    using wf unfolding kern_wf_def sched_wf_def by blast+
  have cg: "c \<in> set gs" using sub c by blast
  have ac: "a \<noteq> c" using a cg by blast
  show "lists_wf (klinks (forked a c dir ctx k)) (a # rs) (a # gs) (ch(c := a # ch c, a := [])) (mq(a := []))"
    using lists_wf_fork [OF wf a cg] by (simp add: forked_def)
  show "set (a # rs) \<subseteq> set (a # gs)" using sub by auto
  show "\<forall>t \<in> set (a # rs). \<not> T_WAITING (tasks (forked a c dir ctx k) t)"
    using nw c by (simp add: forked_def fork_task_def T_WAITING_def)
  have na: "a \<notin> set (ch t)" if "t \<in> set gs" for t using ch a that by blast
  show "\<forall>t \<in> set (a # gs). \<forall>x \<in> set ((ch(c := a # ch c, a := [])) t).
      x \<in> set (a # gs) \<and> t_parent (tasks (forked a c dir ctx k) x) = Some t"
    using ch na cg by (auto simp: forked_def fork_task_def)
  show "\<forall>t \<in> set (a # gs). \<forall>u \<in> set (a # gs). t \<noteq> u \<longrightarrow>
      set ((ch(c := a # ch c, a := [])) t) \<inter> set ((ch(c := a # ch c, a := [])) u) = {}
      \<and> set ((mq(a := [])) t) \<inter> set ((mq(a := [])) u) = {}"
    using dis na cg by auto
  show "\<forall>t \<in> set (a # gs). \<forall>u \<in> set (a # gs). t_pid (tasks (forked a c dir ctx k) t)
      = t_pid (tasks (forked a c dir ctx k) u) \<longrightarrow> t = u"
  proof (intro ballI impI)
    have e: "t_pid (tasks (forked a c dir ctx k) t) = (if t = a then next_pid k else t_pid (tasks k t))" for t
      by (simp add: forked_def fork_task_def)
    fix t u
    assume t: "t \<in> set (a # gs)" and u: "u \<in> set (a # gs)"
      and eq: "t_pid (tasks (forked a c dir ctx k) t) = t_pid (tasks (forked a c dir ctx k) u)"
    consider "t = a" "u = a" | "t = a" "u \<noteq> a" "u \<in> set gs" | "t \<noteq> a" "u = a" "t \<in> set gs"
      | "t \<noteq> a" "u \<noteq> a" "t \<in> set gs" "u \<in> set gs" using t u by fastforce
    then show "t = u"
    proof cases
      case 2
      then show ?thesis using eq pids by (auto simp: e)
    next
      case 3
      then show ?thesis using eq pids by (auto simp: e)
    next
      case 4
      then have "t_pid (tasks k t) = t_pid (tasks k u)" using eq by (simp add: e)
      then show ?thesis using inj 4 by blast
    qed simp
  qed
qed

text \<open>The caller goes on: its time slice is not used up.\<close>

lemma sys_fork_ok:
  assumes wf: "kern_wf k rs gs ch mq" and a: "a \<notin> set gs" and c: "current k = Some c" "c \<in> set rs"
    and pids: "\<forall>t \<in> set gs. t_pid (tasks k t) < next_pid k"
    and run: "T_RUNNING (tasks k c)" "t_flags (tasks k c) AND TF_RESCHED = 0" "t_ticks_left (tasks k c) \<noteq> 0"
    and np: "next_pid k < 2 ^ 31 - 1"
  shows "sys_fork (Some a) (Some dir) ctx ctxs k = Some (next_pid k,
    upd_task c (\<lambda>x. x\<lparr>t_ticks_left := t_ticks_left x - 1\<rparr>) ((forked a c dir ctx k)\<lparr>foreground_pid := next_pid k\<rparr>))"
proof -
  let ?k = "forked a c dir ctx k" and ?f = "(forked a c dir ctx k)\<lparr>foreground_pid := next_pid k\<rparr>"
  have ac: "a \<noteq> c" using wf a c by (auto simp: kern_wf_def sched_wf_def)
  note kw = forked_wf [OF wf a c(2) pids, of dir ctx]
  have sw: "sched_wf ?k (a # rs) (a # gs)" by (rule kern_wf_sched [OF kw])
  have ta: "t_pid (tasks ?k a) = next_pid k" by (simp add: forked_def fork_task_def)
  have "task_lookup (t_pid (tasks ?k a)) ?k = Some (Some a)"
    by (rule task_lookup_unique [OF sw]) (use kw in \<open>auto simp: kern_wf_def\<close>)
  then have "task_lookup (next_pid k) ?k = Some (Some a)" using ta by simp
  then have fg: "task_setfg (next_pid k) ?k = Some ?f" by (simp add: task_setfg_def)
  obtain xs ys where rs: "rs = xs @ c # ys" using split_list [OF c(2)] by blast
  have sf: "sched_wf ?f ((a # xs) @ c # ys) (a # gs)" by (rule sched_wf_cong [OF sw [unfolded rs append_Cons [symmetric]]]) simp_all
  have "tasks ?f c = tasks k c" using ac by (simp add: forked_def)
  then have "task_preempt ctxs ?f = Some (upd_task c (\<lambda>x. x\<lparr>t_ticks_left := t_ticks_left x - 1\<rparr>) ?f)"
    using tick_down [OF sf, of ctxs] run c(1) by (simp add: forked_def)
  then show ?thesis using sys_fork_eq [OF c(1) ac np] fg by simp
qed

end
