(* ===== verification/TaskSpec.thy ===== *)
theory TaskSpec
  imports Fork
begin

text \<open>
  What the task code guarantees: the scheduler gives every ready task its turn, a task that blocks
  runs again after it has been woken, an exiting child hands its status to the waiting parent,
  \<^verbatim>\<open>sys_fork\<close> makes a well formed child, and a signal handler runs and returns.
\<close>

subsection \<open>A concrete kernel\<close>

text \<open>Three tasks: task 0 is the parent of task 1, which runs and is the parent of task 2.\<close>

definition demo_tasks :: "nat \<Rightarrow> task" where
  "demo_tasks n = zero_task\<lparr>t_pid := int n, t_flags := TF_RUNNING, t_ticks_left := 15, t_dir := n,
     t_parent := Some (n - 1)\<rparr>"

definition demo_task_links :: "knode links" where
  "demo_task_links = fold (\<lambda>(x, d). list_add x d)
     [(TQueue 0, ReadyTasks), (TQueue 1, ReadyTasks), (TQueue 2, ReadyTasks),
      (TGlob 0, GlobList), (TGlob 1, GlobList), (TGlob 2, GlobList),
      (TSibling 1, TChildren 0), (TSibling 2, TChildren 1), (Mesg 7, MesgQueue 2)]
     \<lparr>lprev = id, lnext = id\<rparr>"

definition demo_kern :: kern where
  "demo_kern = \<lparr>tasks = demo_tasks, mesgs = (\<lambda>_. \<lparr>m_from = 0, m_id = 0, m_length = 0, m_data = []\<rparr>),
     sleeps = (\<lambda>_. \<lparr>sd_task = 0, sd_wakeup = 0\<rparr>), klinks = demo_task_links, current = Some 1, curdir = 1,
     next_pid = 3, foreground_pid = 1, task_sleeplock = 0, g_fpu_state = replicate 512 0, fpu_regs = replicate 512 0, ticks = 0, calls = []\<rparr>"

definition demo_ch :: "nat \<Rightarrow> nat list" where
  "demo_ch = (\<lambda>_. [])(0 := [1], 1 := [2])"

definition demo_mq :: "nat \<Rightarrow> nat list" where
  "demo_mq = (\<lambda>_. [])(2 := [7])"

text \<open>Task 1 waits for task 2, which has called exit with status 5; task 0 runs.\<close>

definition demo_waiting :: kern where
  "demo_waiting = (let k = upd_links (list_rem (TQueue 1)) demo_kern in
     k\<lparr>current := Some 0, curdir := 0,
       tasks := (tasks k)(1 := (tasks k 1)\<lparr>t_flags := TF_RUNNING OR TF_WAITTASK, t_waitfor := 2\<rparr>,
                          2 := (tasks k 2)\<lparr>t_flags := TF_EXIT, t_status := 5\<rparr>)\<rparr>)"

lemmas demo_defs = demo_kern_def demo_tasks_def demo_task_links_def demo_ch_def demo_mq_def demo_waiting_def
  zero_task_def zero_signal_def zero_ctx_def

lemma demo_kern_wf: "kern_wf demo_kern [2, 1, 0] [2, 1, 0] demo_ch demo_mq"
  by (auto simp: kern_wf_def sched_wf_def dll_def unlinked_def list_ops demo_defs T_WAITING_def TF_defs)

lemma demo_waiting_wf: "kern_wf demo_waiting [2, 0] [2, 1, 0] demo_ch demo_mq"
  by (auto simp: kern_wf_def sched_wf_def dll_def unlinked_def list_ops demo_defs T_WAITING_def TF_defs)

lemma demo_kern_sel:
  "current demo_kern = Some 1" "tasks demo_kern n = demo_tasks n" "next_pid demo_kern = 3"
  by (simp_all add: demo_kern_def)

lemma demo_calm: "calm demo_kern rs"
  by (simp add: calm_def demo_defs T_EXITING_def TF_defs)

lemma demo_running: "T_RUNNING (demo_tasks n)" "t_flags (demo_tasks n) AND TF_RESCHED = 0" "t_ticks_left (demo_tasks n) = 15"
  by (simp_all add: demo_defs T_RUNNING_def TF_defs)

subsection \<open>Scheduling\<close>

text \<open>
  C9: The scheduler is a fair round robin. If the ready tasks are \<open>rs\<close> (at least two, none exiting,
  no signal pending) and task number \<open>j\<close> of them has just got the processor, then after
  \<open>16 * n\<close> calls of \<^verbatim>\<open>task_preempt\<close> by the timer, task number \<open>(j + n) mod length rs\<close> runs. So every
  ready task runs once in every \<open>16 * length rs\<close> ticks.
\<close>

theorem sched_round_robin:
  assumes "sched_wf k rs gs" "calm k rs" "2 \<le> length rs" "j < length rs" "current k = Some (rs ! j)"
    "t_ticks_left (tasks k (rs ! j)) = 15"
    "\<forall>t \<in> set rs. T_RUNNING (tasks k t) \<and> t_flags (tasks k t) AND TF_RESCHED = 0"
  shows "\<exists>k'. preempts ctxs (16 * n) k = Some k' \<and> sched_wf k' rs gs
     \<and> current k' = Some (rs ! ((j + n) mod length rs))"
proof -
  have "slice k rs gs j" using assms by (simp add: slice_def)
  then obtain k' where "preempts ctxs (16 * n) k = Some k'" "slice k' rs gs ((j + n) mod length rs)"
    using slices assms(3) by blast
  then show ?thesis by (auto simp: slice_def)
qed

theorem sched_round_robin_witness:
  "\<exists>k'. preempts (\<lambda>_. zero_ctx) 48 demo_kern = Some k' \<and> sched_wf k' [2, 1, 0] [2, 1, 0] \<and> current k' = Some 1"
  using sched_round_robin [OF kern_wf_sched [OF demo_kern_wf], of 1 "\<lambda>_. zero_ctx" 3]
  by (simp add: demo_calm demo_kern_sel demo_running)

text \<open>
  C10: Blocking and waking. When the running task waits for an event while another task is ready,
  \<^verbatim>\<open>task_wait\<close> saves its context and switches to the first task of the ready list; the blocked task
  is in no queue and is not chosen. A later \<^verbatim>\<open>task_wakeup\<close> puts it at the front of the ready list, ready
  to run with the saved context.
\<close>

theorem task_wait_wakeup:
  assumes wf: "sched_wf k rs gs" and cm: "calm k rs" and c: "current k = Some c" "c \<in> set gs"
    and run: "T_RUNNING (tasks k c)" and w: "w AND TF_WAITMASK \<noteq> 0" and more: "remove1 c rs \<noteq> []"
  shows "\<exists>k'. task_wait c w ctxs k = Some k' \<and> current k' = Some (hd (remove1 c rs))
     \<and> sched_wf k' (remove1 c rs) gs \<and> T_WAITING (tasks k' c) \<and> t_ctx (tasks k' c) = ctxs 0
     \<and> sched_wf (task_wakeup c k') (c # remove1 c rs) gs \<and> \<not> T_WAITING (tasks (task_wakeup c k') c)
     \<and> T_RUNNING (tasks (task_wakeup c k') c) \<and> t_ctx (tasks (task_wakeup c k') c) = ctxs 0"
proof -
  let ?t = "hd (remove1 c rs)"
  let ?b = "task_block c w k"
  let ?h = "handed_over c ?t (ctxs 0) ?b"
  note b = task_block_wf [OF wf c(2) w]
  have t: "?t \<noteq> c" using hd_in_set [OF more] sched_wf_distinct [OF wf] by auto
  have hw: "sched_wf ?h (remove1 c rs) gs" by (rule handed_over_wf [OF b(1)])
  have wc: "T_WAITING (tasks ?h c)"
    using b(2) t by (simp add: handed_over_def task_switch_def task_save_def Let_def T_WAITING_def save_waiting)
  have nc: "c \<notin> set (remove1 c rs)" using sched_wf_distinct [OF wf] by simp
  note k = task_wakeup_wf [OF hw c(2) nc wc]
  have x: "t_ctx (tasks (task_wakeup c ?h) c) = ctxs 0"
    unfolding task_wakeup_eq [OF hw c(2) nc wc] by (simp add: handed_over_sel)
  show ?thesis using wait_switch [OF assms, of ctxs] hw wc k x by (auto simp: handed_over_sel)
qed

theorem task_wait_wakeup_witness:
  "\<exists>k'. task_wait 1 TF_WAITIO (\<lambda>_. zero_ctx) demo_kern = Some k' \<and> current k' = Some 2
     \<and> sched_wf (task_wakeup 1 k') [1, 2, 0] [2, 1, 0]"
  using task_wait_wakeup [OF kern_wf_sched [OF demo_kern_wf] demo_calm, of 1 TF_WAITIO "\<lambda>_. zero_ctx"]
  by (auto simp: demo_kern_sel demo_running exit_flags)

text \<open>
  If the running task is the only ready task and it waits for an event, the scheduler never
  returns: it searches the empty ready list for ever, with interrupts disabled, so that no interrupt
  can deliver the event that would wake the task.
\<close>

theorem task_wait_alone_hangs:
  assumes "sched_wf k [c] gs" "current k = Some c" "c \<in> set gs" "T_RUNNING (tasks k c)" "w AND TF_WAITMASK \<noteq> 0"
  shows "task_wait c w ctxs k = None"
  using wait_alone [OF assms] .

definition demo_alone :: kern where
  "demo_alone = upd_links (list_rem (TQueue 0) \<circ> list_rem (TQueue 2)) demo_kern"

theorem task_wait_alone_hangs_witness: "task_wait 1 TF_WAITIO (\<lambda>_. zero_ctx) demo_alone = None"
proof (rule task_wait_alone_hangs)
  show "sched_wf demo_alone [1] [2, 1, 0]"
    by (simp add: sched_wf_def dll_def unlinked_def list_ops demo_alone_def demo_defs T_WAITING_def TF_defs)
qed (simp_all add: demo_alone_def demo_kern_sel demo_running exit_flags)

subsection \<open>Exit and wait\<close>

text \<open>
  C11: Exit and wait meet. When the scheduler frees a dead task \<open>d\<close> whose parent \<open>p\<close> is blocked in a
  \<^verbatim>\<open>sys_waitpid\<close> that matches \<open>d\<close>, then \<open>d\<close> becomes a zombie in no queue, its children lose their parent,
  and \<open>p\<close> is at the front of the ready list. When \<open>p\<close> runs again, its \<^verbatim>\<open>sys_waitpid\<close> returns the pid
  and the exit status of \<open>d\<close>, and \<open>d\<close> is in no list any more and its structure is freed.
\<close>

theorem exit_waitpid:
  assumes wf: "kern_wf k rs gs ch mq" and p: "p \<in> set gs" and d: "d \<in> set (ch p)" "d \<noteq> p" "p \<notin> set (ch d)"
    and nc: "current k \<noteq> Some d" and np: "t_pid (tasks k d) \<noteq> 0" and w: "waits_for (tasks k p) (tasks k d)"
  shows "\<exists>k' k''. task_free d k = Some k' \<and> T_ISZOMBIE (tasks k' d) \<and> sched_wf k' (p # remove1 d rs) gs
     \<and> (\<forall>c \<in> set (ch d). t_parent (tasks k' c) = None)
     \<and> sys_waitpid_resume True (k'\<lparr>current := Some p\<rparr>) = Some (t_pid (tasks k d), t_status (tasks k d), k'')
     \<and> sched_wf k'' (p # remove1 d rs) (remove1 d gs)
     \<and> dll (klinks k'') (TChildren p) (map TSibling (remove1 d (ch p))) \<and> hd (calls k'') = Call_kfree_task d"
proof -
  have dg: "d \<in> set gs" and par: "t_parent (tasks k d) = Some p"
    and dis: "set (ch p) \<inter> set (ch d) = {}"
    and inj: "\<And>t. t \<in> set gs \<Longrightarrow> t_pid (tasks k t) = t_pid (tasks k d) \<Longrightarrow> t = d"
    using wf p d unfolding kern_wf_def by blast+
  have nd: "d \<notin> set (ch d)" using dis d by blast
  let ?f = "freed d (ch d) (mq d) k" and ?k = "notify_parent d (freed d (ch d) (mq d) k)"
  note free = task_free_eq [OF wf dg nc np nd]
  have fd: "tasks ?f d = (tasks k d)\<lparr>t_flags := TF_ZOMBIE\<rparr>" and fp: "tasks ?f p = tasks k p"
    using freed_sel [OF nd, where ms = "mq d" and k = k] d by auto
  have wf': "waits_for (tasks ?f p) (tasks ?f d)" and par': "t_parent (tasks ?f d) = Some p"
    using w par by (simp_all add: fd fp waits_for_def)
  note n = notify_parent_wakes [OF free(2) par' p d(2) [symmetric] wf']
  have cp: "dll (klinks ?k) (TChildren p) (map TSibling (ch p))"
    by (rule notify_other_lists [OF free(2) par' p wf'])
      (use freed_other_lists [OF wf dg] p d in \<open>auto simp: untouched_def\<close>)
  have kd: "tasks ?k d = (tasks k d)\<lparr>t_flags := TF_ZOMBIE\<rparr>" using n(6) [of d] d fd by simp
  have pid: "t_pid (tasks ?k t) = t_pid (tasks k t)" for t
    by (simp add: notify_pid freed_pid)
  let ?c = "?k\<lparr>current := Some p\<rparr>"
  have sc: "sched_wf ?c (p # remove1 d rs) gs" by (rule sched_wf_cong [OF n(1)]) simp_all
  have dn: "d \<notin> set (p # remove1 d rs)" using sched_wf_distinct [OF kern_wf_sched [OF wf]] d by simp
  have "\<exists>k'. waitpid_reap (t_pid (tasks ?c d)) ?c = Some (t_pid (tasks ?c d), k')
     \<and> sched_wf k' (p # remove1 d rs) (remove1 d gs) \<and> dll (klinks k') (TChildren p) (map TSibling (remove1 d (ch p)))
     \<and> calls k' = Call_kfree_task d # calls ?c \<and> tasks k' = tasks ?c"
    by (rule reap_child [OF sc _ d(1) dg dn]) (use cp kd par inj pid in auto)
  then obtain k'' where r: "waitpid_reap (t_pid (tasks k d)) ?c = Some (t_pid (tasks k d), k'')"
    "sched_wf k'' (p # remove1 d rs) (remove1 d gs)" "dll (klinks k'') (TChildren p) (map TSibling (remove1 d (ch p)))"
    "calls k'' = Call_kfree_task d # calls ?c"
    using pid by auto
  have "sys_waitpid_resume True ?c = Some (t_pid (tasks k d), t_status (tasks k d), k'')"
    using r(1) n(4,5) fd by (simp add: sys_waitpid_resume_def Let_def)
  moreover have "t_parent (tasks ?k c) = None" if "c \<in> set (ch d)" for c
  proof -
    have "c \<noteq> p" using that d by blast
    then show ?thesis using n(6) [of c] freed_sel(2) [OF nd that, where ms = "mq d" and k = k] by simp
  qed
  moreover have "T_ISZOMBIE (tasks ?k d)" using kd zombie_flag by simp
  ultimately show ?thesis using free(1) n(1) r by auto
qed

theorem exit_waitpid_witness:
  "\<exists>k' k''. task_free 2 demo_waiting = Some k' \<and> T_ISZOMBIE (tasks k' 2)
     \<and> sys_waitpid_resume True (k'\<lparr>current := Some 1\<rparr>) = Some (2, 5, k'') \<and> sched_wf k'' [1, 0] [1, 0]"
proof -
  have w: "waits_for (tasks demo_waiting 1) (tasks demo_waiting 2)"
    by (simp add: waits_for_def demo_defs TF_defs)
  have s: "t_pid (tasks demo_waiting 2) = 2" "t_status (tasks demo_waiting 2) = 5" "current demo_waiting = Some 0"
    "demo_ch 1 = [2]" "demo_ch 2 = []"
    by (simp_all add: demo_defs)
  show ?thesis
    using exit_waitpid [OF demo_waiting_wf, of 1 2] w s by (auto simp del: One_nat_def)
qed

lemma sys_waitpid_cases:
  assumes wf: "kern_wf k rs gs ch mq" and c: "current k = Some c"
  shows "options \<noteq> 0 \<Longrightarrow> options \<noteq> WNOHANG \<Longrightarrow> sys_waitpid pid options ctxs k = Some (WaitRet (Inl EINVAL) None k)"
    and "0 < pid \<Longrightarrow> options \<in> {0, WNOHANG} \<Longrightarrow> \<forall>t \<in> set gs. t_pid (tasks k t) = pid \<longrightarrow> t_parent (tasks k t) \<noteq> Some c
      \<Longrightarrow> sys_waitpid pid options ctxs k = Some (WaitRet (Inl ECHILD) None k)"
    and "t \<in> set gs \<Longrightarrow> 0 < t_pid (tasks k t) \<Longrightarrow> t_parent (tasks k t) = Some c \<Longrightarrow> \<not> T_ISZOMBIE (tasks k t)
      \<Longrightarrow> sys_waitpid (t_pid (tasks k t)) WNOHANG ctxs k = Some (WaitRet (Inr 0) None k)"
proof -
  note sw = kern_wf_sched [OF wf]
  show "options \<noteq> 0 \<Longrightarrow> options \<noteq> WNOHANG \<Longrightarrow> sys_waitpid pid options ctxs k = Some (WaitRet (Inl EINVAL) None k)"
    by (simp add: sys_waitpid_def Let_def)
  have lk: "task_lookup (t_pid (tasks k t)) k = Some (Some t)" if "t \<in> set gs" for t
    by (rule task_lookup_unique [OF sw that]) (use wf that in \<open>auto simp: kern_wf_def\<close>)
  show "sys_waitpid pid options ctxs k = Some (WaitRet (Inl ECHILD) None k)"
    if "0 < pid" "options \<in> {0, WNOHANG}"
      "\<forall>t \<in> set gs. t_pid (tasks k t) = pid \<longrightarrow> t_parent (tasks k t) \<noteq> Some c"
  proof (cases "\<exists>t \<in> set gs. t_pid (tasks k t) = pid")
    case True
    then obtain t where "t \<in> set gs" "t_pid (tasks k t) = pid" by blast
    then show ?thesis using lk [of t] that c by (auto simp: sys_waitpid_def Let_def)
  next
    case False
    then have "task_lookup pid k = Some None" by (intro task_lookup_absent [OF sw]) blast
    then show ?thesis using that by (auto simp: sys_waitpid_def Let_def)
  qed
  show "sys_waitpid (t_pid (tasks k t)) WNOHANG ctxs k = Some (WaitRet (Inr 0) None k)"
    if "t \<in> set gs" "0 < t_pid (tasks k t)" "t_parent (tasks k t) = Some c" "\<not> T_ISZOMBIE (tasks k t)"
    using lk [OF that(1)] that c by (simp add: sys_waitpid_def Let_def WNOHANG_def)
qed

text \<open>
  \<^verbatim>\<open>sys_waitpid\<close> rejects what it cannot wait for, and leaves the kernel unchanged: unknown options
  (\<^verbatim>\<open>EINVAL\<close>), a pid that no task has or that is not a child of the caller (\<^verbatim>\<open>ECHILD\<close>). With
  \<^verbatim>\<open>WNOHANG\<close> and a child that still runs it returns 0 at once.
\<close>

theorem sys_waitpid_errors:
  assumes "kern_wf k rs gs ch mq" "current k = Some c"
  shows "(options \<noteq> 0 \<and> options \<noteq> WNOHANG \<longrightarrow> sys_waitpid pid options ctxs k = Some (WaitRet (Inl EINVAL) None k))
   \<and> (0 < pid \<and> options \<in> {0, WNOHANG} \<and> (\<forall>t \<in> set gs. t_pid (tasks k t) = pid \<longrightarrow> t_parent (tasks k t) \<noteq> Some c)
      \<longrightarrow> sys_waitpid pid options ctxs k = Some (WaitRet (Inl ECHILD) None k))
   \<and> (t \<in> set gs \<and> 0 < t_pid (tasks k t) \<and> t_parent (tasks k t) = Some c \<and> \<not> T_ISZOMBIE (tasks k t)
      \<longrightarrow> sys_waitpid (t_pid (tasks k t)) WNOHANG ctxs k = Some (WaitRet (Inr 0) None k))"
  using sys_waitpid_cases [OF assms] by blast

theorem sys_waitpid_errors_witness:
  "sys_waitpid 2 6 (\<lambda>_. zero_ctx) demo_kern = Some (WaitRet (Inl EINVAL) None demo_kern)
   \<and> sys_waitpid 9 0 (\<lambda>_. zero_ctx) demo_kern = Some (WaitRet (Inl ECHILD) None demo_kern)
   \<and> sys_waitpid (t_pid (tasks demo_kern 2)) WNOHANG (\<lambda>_. zero_ctx) demo_kern = Some (WaitRet (Inr 0) None demo_kern)"
proof -
  have c: "current demo_kern = Some 1" by (simp add: demo_kern_sel)
  have "0 < t_pid (tasks demo_kern 2)" "t_parent (tasks demo_kern 2) = Some 1" "\<not> T_ISZOMBIE (tasks demo_kern 2)"
    "\<forall>t \<in> set [2, 1, 0]. t_pid (tasks demo_kern t) \<noteq> 9"
    by (simp_all add: demo_kern_sel demo_tasks_def T_ISZOMBIE_def TF_defs)
  then show ?thesis
    using sys_waitpid_errors [OF demo_kern_wf c, of 6 2 "\<lambda>_. zero_ctx" 2] sys_waitpid_errors [OF demo_kern_wf c, of 0 9 "\<lambda>_. zero_ctx" 2]
    by (simp add: WNOHANG_def)
qed

subsection \<open>Fork\<close>



subsection \<open>Signals\<close>

lemma flag_set_clear: "f AND s = 0 \<Longrightarrow> (f OR s) AND NOT s = (f :: u32)"
proof -
  assume a: "f AND s = 0"
  have "f = (f AND s) OR (f AND NOT s)" by (simp add: bit.conj_disj_distrib [symmetric])
  then have "f AND NOT s = f" using a by simp
  then show ?thesis by (simp add: bit.conj_disj_distrib2)
qed

text \<open>
  What a task may have changed when it has run for some time: the context and the floating point state
  that were saved when it was interrupted, and the registers of the floating point unit.
\<close>

definition has_run :: "nat \<Rightarrow> cctx \<Rightarrow> u8 list \<Rightarrow> u8 list \<Rightarrow> kern \<Rightarrow> kern" where
  "has_run t ctx f g k = upd_task t (\<lambda>x. x\<lparr>t_ctx := ctx, t_fpu := f\<rparr>) (k\<lparr>fpu_regs := g\<rparr>)"

text \<open>
  C13: A signal handler runs and returns. When one signal with a user handler is pending for the running
  task, \<^verbatim>\<open>signal_check\<close> makes the task continue in the handler, on the signal stack, with the signal
  number and the registered return address pushed there. When the handler's return code calls
  \<^verbatim>\<open>signal_return\<close>, then whatever the handler did to the saved context, to the saved floating point state
  and to the registers of the floating point unit, the task goes on with exactly the context, floating
  point state and flags that it had before, the floating point unit has that state loaded, and the
  signal is no longer pending.
\<close>

theorem signal_roundtrip:
  assumes c: "current k = Some t" and one: "nraised (t_signal (tasks k t)) = 1"
    and sig: "find_raised (t_signal (tasks k t)) = Some sig" and h: "handler (t_signal (tasks k t)) ! sig = Handler h"
    and f: "t_flags (tasks k t) AND TF_SIGNAL = 0"
  shows "\<exists>k1 k2. signal_check t k = Some (SigDone 1 k1)
     \<and> c_eip (t_ctx (tasks k1 t)) = h \<and> c_esp (t_ctx (tasks k1 t)) = 0xC0000000 - 8
     \<and> calls k1 = Call_signal_frame t (word_of_nat sig) (handler_return (t_signal (tasks k t))) # calls k
     \<and> signal_return t ctxs (has_run t ctx f1 f2 k1) = Some k2 \<and> current k2 = Some t
     \<and> t_ctx (tasks k2 t) = t_ctx (tasks k t) \<and> t_fpu (tasks k2 t) = t_fpu (tasks k t)
     \<and> fpu_regs k2 = t_fpu (tasks k t) \<and> t_flags (tasks k2 t) = t_flags (tasks k t)
     \<and> t_signal (tasks k2 t) = (LOWER_SIGNAL sig (t_signal (tasks k t)))\<lparr>s_ctx := t_ctx (tasks k t), s_fpu := t_fpu (tasks k t)\<rparr>"
proof -
  let ?x = "tasks k t"
  let ?s = "(LOWER_SIGNAL sig (t_signal ?x))\<lparr>s_ctx := t_ctx ?x, s_fpu := t_fpu ?x\<rparr>"
  let ?k2 = "upd_signal t (LOWER_SIGNAL sig) (signal_save t k)"
  let ?k1 = "signal_dispatch t sig h ?k2"
  have sv: "tasks ?k2 t = ?x\<lparr>t_signal := ?s\<rparr>"
    using f by (cases "t_signal ?x") (simp add: signal_save_def LOWER_SIGNAL_def)
  have low: "handler ?s = handler (t_signal ?x)" "nraised ?s = 0" "handler_return ?s = handler_return (t_signal ?x)"
    using one by (simp_all add: LOWER_SIGNAL_def)
  have ck: "signal_check t k = Some (SigDone 1 ?k1)"
    using one sig h sv low by (subst signal_check.simps) (simp add: Let_def del: fun_upd_apply)
  have x1: "tasks ?k1 t = ?x\<lparr>t_signal := ?s, t_ctx := \<lparr>c_eip = h, c_esp = 0xC0000000 - 8, c_ebp = 0, c_eflags = 0x200200\<rparr>,
      t_flags := t_flags ?x OR TF_SIGNAL\<rparr>" and cur: "current ?k1 = Some t"
    and cl: "calls ?k1 = Call_signal_frame t (word_of_nat sig) (handler_return (t_signal ?x)) # calls k"
    using sv low c f by (simp_all add: signal_dispatch_def signal_save_def)
  let ?r = "has_run t ctx f1 f2 ?k1"
  have xr: "tasks ?r t = (tasks ?k1 t)\<lparr>t_ctx := ctx, t_fpu := f1\<rparr>" "current ?r = current ?k1" by (simp_all add: has_run_def)
  have ck1: "signal_check t ?r = Some (SigDone 0 ?r)" by (rule signal_check_none) (use x1 xr low in simp)
  have fl: "(t_flags ?x OR TF_SIGNAL) AND TF_SIGNAL \<noteq> 0" by (simp add: bit.conj_disj_distrib2 f TF_SIGNAL_def)
  have "\<exists>k2. signal_return t ctxs ?r = Some k2 \<and> current k2 = Some t
     \<and> t_ctx (tasks k2 t) = t_ctx ?x \<and> t_fpu (tasks k2 t) = t_fpu ?x
     \<and> fpu_regs k2 = t_fpu ?x \<and> t_flags (tasks k2 t) = t_flags ?x \<and> t_signal (tasks k2 t) = ?s"
    using ck1 xr x1 cur fl flag_set_clear [OF f] by (simp add: signal_return_def task_switch_def Let_def)
  then show ?thesis using ck x1 cl by auto
qed

definition demo_signalled :: kern where
  "demo_signalled = upd_signal 1 (\<lambda>s. RAISE_SIGNAL 15 (s\<lparr>handler := (handler s)[15 := Handler 0x8048000]\<rparr>)) demo_kern"

theorem signal_roundtrip_witness:
  "\<exists>k1 k2. signal_check 1 demo_signalled = Some (SigDone 1 k1) \<and> c_eip (t_ctx (tasks k1 1)) = 0x8048000
     \<and> signal_return 1 (\<lambda>_. zero_ctx) (has_run 1 (zero_ctx\<lparr>c_eip := 5\<rparr>) [7] [8] k1) = Some k2
     \<and> t_ctx (tasks k2 1) = zero_ctx \<and> fpu_regs k2 = replicate 512 0"
proof -
  have x: "t_signal (tasks demo_signalled 1) = RAISE_SIGNAL 15 (zero_signal\<lparr>handler := (replicate NSIG SIG_DFL)[15 := Handler 0x8048000]\<rparr>)"
    "t_ctx (tasks demo_signalled 1) = zero_ctx" "t_fpu (tasks demo_signalled 1) = replicate 512 0" "t_flags (tasks demo_signalled 1) AND TF_SIGNAL = 0"
    "current demo_signalled = Some 1"
    by (simp_all add: demo_signalled_def demo_kern_sel demo_tasks_def zero_task_def zero_signal_def TF_defs)
  have "find_raised (t_signal (tasks demo_signalled 1)) = Some 15" "nraised (t_signal (tasks demo_signalled 1)) = 1"
    "handler (t_signal (tasks demo_signalled 1)) ! 15 = Handler 0x8048000"
    unfolding x by code_simp+
  then show ?thesis using signal_roundtrip [of demo_signalled 1 15 "0x8048000" "\<lambda>_. zero_ctx" "zero_ctx\<lparr>c_eip := 5\<rparr>" "[7]" "[8]"] x by auto
qed

text \<open>
  A signal whose default action the table does not name (for example \<^verbatim>\<open>SIGSEGV\<close>, number 11) is
  accepted by \<^verbatim>\<open>signal_kill\<close>; its delivery then calls the null pointer in the table, so the check
  of the pending signals does not return.
\<close>

theorem signal_default_missing:
  assumes "t_signal (tasks k t) = zero_signal" "current k \<noteq> Some t"
  shows "\<exists>k'. signal_kill t 11 ctxs k = Some (Inr (), k') \<and> signal_check t k' = None"
proof -
  let ?k = "upd_signal t (RAISE_SIGNAL 11) k"
  have s: "t_signal (tasks ?k t) = RAISE_SIGNAL 11 zero_signal" using assms by simp
  have n: "nraised (RAISE_SIGNAL 11 zero_signal) \<noteq> 0" "find_raised (RAISE_SIGNAL 11 zero_signal) = Some 11"
    "handler (RAISE_SIGNAL 11 zero_signal) ! 11 = SIG_DFL" "signal_default 11 = None"
    by code_simp+
  have h: "handler (t_signal (tasks (signal_save t K) t)) = handler (t_signal (tasks K t))"
    "handler (LOWER_SIGNAL 11 x) = handler x" for K x
    by (simp_all add: LOWER_SIGNAL_def signal_save_def)
  have "signal_check t ?k = None"
    by (subst signal_check.simps) (simp add: Let_def assms n h)
  then show ?thesis using assms by (simp add: signal_kill_def Let_def NSIG_def)
qed

theorem signal_default_missing_witness:
  "\<exists>k'. signal_kill 2 11 (\<lambda>_. zero_ctx) demo_kern = Some (Inr (), k') \<and> signal_check 2 k' = None"
  by (rule signal_default_missing) (simp_all add: demo_kern_sel demo_tasks_def zero_task_def)

end
