(* ===== verification/Sem.thy ===== *)
theory Sem
  imports TaskSpec
begin

text \<open>
  Counting semaphores and mutexes: \<^verbatim>\<open>kernel/src/sem.c\<close> and \<^verbatim>\<open>sem.h\<close>.

  A semaphore is named by a number (its address); its structure is the record \<open>sem\<close>, passed along
  with the kernel state, and its list of waiting tasks is the list with the head \<open>SemTasks s\<close> in the
  kernel's link memory. \<^verbatim>\<open>sem_wait\<close> either returns or blocks; what it returns when the task runs again
  is \<open>sem_wait_resume\<close>. The log message of \<^verbatim>\<open>sem_wait\<close> is not modelled.
\<close>

record sem =
  units :: int
  s_lock :: u32
  earliest_timeout :: u32

definition SEM_FOREVER :: u32 where "SEM_FOREVER = 0xFFFFFFFF"
definition SEM_NOWAIT :: u32 where "SEM_NOWAIT = 0"

subsection \<open>Operations\<close>

text \<open>\<open>a\<close> is the address \<^verbatim>\<open>kmalloc\<close> returns.\<close>

definition sem_alloc :: "int \<Rightarrow> nat option \<Rightarrow> kern \<Rightarrow> (nat \<times> sem) option \<times> kern" where
  "sem_alloc max_units a k =
     (case a of
        None \<Rightarrow> (None, k)
      | Some s \<Rightarrow> (Some (s, \<lparr>units = max_units, s_lock = spin_init 0, earliest_timeout = 0xFFFFFFFF\<rparr>),
                   upd_links (INIT_LIST (SemTasks s)) k))"

definition sem_free :: "nat \<Rightarrow> sem \<Rightarrow> kern \<Rightarrow> (unit result \<times> sem \<times> kern) option" where
  "sem_free s sem k =
     Option.bind (spin_lock (s_lock sem)) (\<lambda>l.
       if \<not> list_empty (klinks k) (SemTasks s) then Some (Inl EBUSY, sem\<lparr>s_lock := spin_unlock l\<rparr>, k)
       else Some (Inr (), sem\<lparr>s_lock := l\<rparr>, log_call (Call_kfree_sem s) k))"

partial_function (option) sem_timeout_loop :: "nat \<Rightarrow> u32 \<Rightarrow> knode \<Rightarrow> u32 \<Rightarrow> kern \<Rightarrow> (u32 \<times> kern) option" where
  "sem_timeout_loop s now iter earliest k =
     (if iter = SemTasks s then Some (earliest, k)
      else
        let t = owner iter in
        if t_timeout (tasks k t) \<le> now then
          let k1 = upd_task t (\<lambda>x. x\<lparr>t_timeout := 0\<rparr>) k;
              temp = lprev (klinks k1) iter;
              k2 = upd_links (list_rem (TSem t)) k1;
              k3 = task_wakeup t k2
          in sem_timeout_loop s now (lnext (klinks k3) temp) earliest k3
        else
          sem_timeout_loop s now (lnext (klinks k) iter)
            (if earliest > t_timeout (tasks k t) then t_timeout (tasks k t) else earliest) k)"

declare sem_timeout_loop.simps [code]

definition sem_timeout :: "nat \<Rightarrow> u32 \<Rightarrow> sem \<Rightarrow> kern \<Rightarrow> (u32 \<times> sem \<times> kern) option" where
  "sem_timeout s now sem k =
     Option.bind (spin_lock (s_lock sem)) (\<lambda>l.
     Option.bind (sem_timeout_loop s now (lnext (klinks k) (SemTasks s)) 0xFFFFFFFF k) (\<lambda>(earliest, k').
       Some (if earliest = 0xFFFFFFFF then TIMER_CANCEL else earliest, sem\<lparr>s_lock := spin_unlock l\<rparr>, k')))"

datatype sem_outcome = SemRet "unit result" | SemBlocked

definition sem_wait ::
  "nat \<Rightarrow> u32 \<Rightarrow> (nat \<Rightarrow> cctx) \<Rightarrow> sem \<Rightarrow> kern \<Rightarrow> (sem_outcome \<times> sem \<times> kern) option" where
  "sem_wait s timeout ctxs sem k =
     Option.bind (spin_lock (s_lock sem)) (\<lambda>l.
       if units sem = 0 then
         if timeout = 0 then Some (SemRet (Inl ETIMEDOUT), sem\<lparr>s_lock := l\<rparr>, k)
         else
           let c = the (current k);
               k1 = upd_links (list_add_before (TSem c) (SemTasks s)) k;
               k2 = upd_task c (\<lambda>x. x\<lparr>t_timeout := ticks k + timeout\<rparr>) k1;
               soon = earliest_timeout sem > t_timeout (tasks k2 c);
               sem1 = (if soon then sem\<lparr>earliest_timeout := t_timeout (tasks k2 c)\<rparr> else sem);
               k3 = (if soon then log_call (Call_timer_callback (earliest_timeout sem1)) k2 else k2)
           in Option.bind (task_waitio c ctxs k3) (\<lambda>k4. Some (SemBlocked, sem1\<lparr>s_lock := spin_unlock l\<rparr>, k4))
       else Some (SemRet (Inr ()), sem\<lparr>units := units sem - 1, s_lock := spin_unlock l\<rparr>, k))"

definition sem_wait_resume :: "kern \<Rightarrow> unit result" where
  "sem_wait_resume k = (if t_timeout (tasks k (the (current k))) = 1 then Inr () else Inl ETIMEDOUT)"

definition sem_signal :: "nat \<Rightarrow> sem \<Rightarrow> kern \<Rightarrow> (sem \<times> kern) option" where
  "sem_signal s sem k =
     Option.bind (spin_lock (s_lock sem)) (\<lambda>l.
       if list_empty (klinks k) (SemTasks s)
       then Some (sem\<lparr>units := units sem + 1, s_lock := spin_unlock l\<rparr>, k)
       else
         let t = owner (list_first (klinks k) (SemTasks s));
             k1 = upd_task t (\<lambda>x. x\<lparr>t_timeout := 1\<rparr>) k;
             k2 = upd_links (list_rem (TSem t)) k1;
             k3 = task_wakeup t k2
         in Some (sem\<lparr>s_lock := spin_unlock l\<rparr>, k3))"

definition mutex_alloc :: "nat option \<Rightarrow> kern \<Rightarrow> (nat \<times> sem) option \<times> kern" where
  "mutex_alloc = sem_alloc 1"

definition mutex_free :: "nat \<Rightarrow> sem \<Rightarrow> kern \<Rightarrow> (unit result \<times> sem \<times> kern) option" where
  "mutex_free = sem_free"

definition mutex_lock ::
  "nat \<Rightarrow> u32 \<Rightarrow> (nat \<Rightarrow> cctx) \<Rightarrow> sem \<Rightarrow> kern \<Rightarrow> (sem_outcome \<times> sem \<times> kern) option" where
  "mutex_lock = sem_wait"

definition mutex_unlock :: "nat \<Rightarrow> sem \<Rightarrow> kern \<Rightarrow> (sem \<times> kern) option" where
  "mutex_unlock = sem_signal"

subsection \<open>Waiting tasks\<close>

definition sem_wf :: "nat \<Rightarrow> kern \<Rightarrow> nat list \<Rightarrow> nat list \<Rightarrow> nat list \<Rightarrow> bool" where
  "sem_wf s k rs gs ws \<longleftrightarrow> sched_wf k rs gs \<and> dll (klinks k) (SemTasks s) (map TSem ws) \<and> set ws \<subseteq> set gs
     \<and> (\<forall>t \<in> set ws. T_WAITING (tasks k t))"

text \<open>Taking a task off the list and waking it, with the value that tells it why.\<close>

definition sem_wake :: "u32 \<Rightarrow> nat \<Rightarrow> kern \<Rightarrow> kern" where
  "sem_wake v t k = task_wakeup t (upd_links (list_rem (TSem t)) (upd_task t (\<lambda>x. x\<lparr>t_timeout := v\<rparr>) k))"

lemma sem_wf_rem:
  assumes wf: "sem_wf s k rs gs (xs @ t # ys)"
  shows "sched_wf (upd_links (list_rem (TSem t)) k) rs gs"
    and "dll (list_rem (TSem t) (klinks k)) (SemTasks s) (map TSem (xs @ ys))"
proof -
  have d: "dll (klinks k) (SemTasks s) (map TSem (xs @ t # ys))"
    and r: "dll (klinks k) ReadyTasks (map TQueue rs)" "dll (klinks k) GlobList (map TGlob gs)"
    using wf by (simp_all add: sem_wf_def sched_wf_def)
  show "dll (list_rem (TSem t) (klinks k)) (SemTasks s) (map TSem (xs @ ys))"
    using dll_list_rem_mid [of "klinks k" "SemTasks s" "map TSem xs" "TSem t" "map TSem ys"] d by simp
  have "dll (list_rem (TSem t) (klinks k)) ReadyTasks (map TQueue rs)"
    using list_rem_frame [OF r(1) _ d, of "TSem t"] by auto
  moreover have "dll (list_rem (TSem t) (klinks k)) GlobList (map TGlob gs)"
    using list_rem_frame [OF r(2) _ d, of "TSem t"] by auto
  moreover have "unlinked (list_rem (TSem t) (klinks k)) (TQueue u)" if "u \<in> set gs" "u \<notin> set rs" for u
    using list_rem_other [OF d, of "TSem t" "TQueue u"] that wf by (auto simp: sem_wf_def sched_wf_def unlinked_def)
  ultimately show "sched_wf (upd_links (list_rem (TSem t)) k) rs gs"
    using wf by (auto simp: sem_wf_def sched_wf_def)
qed

lemma sem_wake_wf:
  assumes wf: "sem_wf s k rs gs (xs @ t # ys)"
  shows "sem_wf s (sem_wake v t k) (t # rs) gs (xs @ ys)"
    and "t_timeout (tasks (sem_wake v t k) t) = v"
    and "u \<noteq> t \<Longrightarrow> tasks (sem_wake v t k) u = tasks k u"
proof -
  let ?k = "upd_links (list_rem (TSem t)) (upd_task t (\<lambda>x. x\<lparr>t_timeout := v\<rparr>) k)"
  have t: "t \<in> set gs" "T_WAITING (tasks k t)" and sw: "sched_wf k rs gs" using wf by (auto simp: sem_wf_def)
  have dis: "distinct (xs @ t # ys)" using wf by (auto simp: sem_wf_def dll_def distinct_map)
  have nr: "t \<notin> set rs" using sw t by (auto simp: sched_wf_def)
  have s1: "sched_wf (upd_links (list_rem (TSem t)) k) rs gs" by (rule sem_wf_rem(1) [OF wf])
  have sk: "sched_wf ?k rs gs" by (rule sched_wf_cong [OF s1]) (simp_all add: T_WAITING_def)
  have w: "T_WAITING (tasks ?k t)" using t by (simp add: T_WAITING_def)
  note g = task_wakeup_wf [OF sk t(1) nr w]
  have d: "dll (klinks (task_wakeup t ?k)) (SemTasks s) (map TSem (xs @ ys))"
    by (rule wakeup_other_lists [OF sk t(1)]) (use sem_wf_rem(2) [OF wf] in auto)
  show o: "u \<noteq> t \<Longrightarrow> tasks (sem_wake v t k) u = tasks k u" for u
    unfolding sem_wake_def task_wakeup_eq [OF sk t(1) nr w] by simp
  show "t_timeout (tasks (sem_wake v t k) t) = v"
    unfolding sem_wake_def task_wakeup_eq [OF sk t(1) nr w] by simp
  have "T_WAITING (tasks (sem_wake v t k) u)" if "u \<in> set (xs @ ys)" for u
  proof -
    have "u \<noteq> t" using that dis by auto
    then show ?thesis using o [of u] wf that by (auto simp: sem_wf_def)
  qed
  then show "sem_wf s (sem_wake v t k) (t # rs) gs (xs @ ys)"
    using g(1) d wf by (auto simp: sem_wf_def sem_wake_def)
qed

lemma sem_signal_waiting:
  assumes wf: "sem_wf s k rs gs (t # ws)" and l: "s_lock sem = 0"
  shows "sem_signal s sem k = Some (sem, sem_wake 1 t k)"
proof -
  have d: "dll (klinks k) (SemTasks s) (map TSem (t # ws))" using wf by (simp add: sem_wf_def)
  have "\<not> list_empty (klinks k) (SemTasks s)" using dll_empty_iff [OF d] by simp
  moreover have "owner (list_first (klinks k) (SemTasks s)) = t" using dll_first [OF d] by (simp add: list_first_def)
  moreover have "sem\<lparr>s_lock := 0\<rparr> = sem" using l by (cases sem) simp
  ultimately show ?thesis using l by (simp add: sem_signal_def Let_def sem_wake_def)
qed

lemma sem_signal_free:
  assumes wf: "sem_wf s k rs gs []" and l: "s_lock sem = 0"
  shows "sem_signal s sem k = Some (sem\<lparr>units := units sem + 1\<rparr>, k)"
proof -
  have "list_empty (klinks k) (SemTasks s)"
    using wf dll_empty_iff [of "klinks k" "SemTasks s" "[]"] by (simp add: sem_wf_def)
  then show ?thesis using l by (cases sem) (simp add: sem_signal_def)
qed

subsection \<open>Blocking\<close>

lemma sem_wf_enqueue:
  assumes wf: "sem_wf s k rs gs ws" and c: "c \<in> set gs" "c \<notin> set ws"
  shows "sched_wf (upd_links (list_add_before (TSem c) (SemTasks s)) k) rs gs"
    and "dll (list_add_before (TSem c) (SemTasks s) (klinks k)) (SemTasks s) (map TSem (ws @ [c]))"
proof -
  have d: "dll (klinks k) (SemTasks s) (map TSem ws)"
    and r: "dll (klinks k) ReadyTasks (map TQueue rs)" "dll (klinks k) GlobList (map TGlob gs)"
    using wf by (simp_all add: sem_wf_def sched_wf_def)
  show "dll (list_add_before (TSem c) (SemTasks s) (klinks k)) (SemTasks s) (map TSem (ws @ [c]))"
    using dll_list_add_before [OF d, of "TSem c"] c by auto
  have "dll (list_add_before (TSem c) (SemTasks s) (klinks k)) ReadyTasks (map TQueue rs)"
    using list_add_frame(2) [OF r(1) _ d, of "TSem c" "SemTasks s"] by auto
  moreover have "dll (list_add_before (TSem c) (SemTasks s) (klinks k)) GlobList (map TGlob gs)"
    using list_add_frame(2) [OF r(2) _ d, of "TSem c" "SemTasks s"] by auto
  moreover have "unlinked (list_add_before (TSem c) (SemTasks s) (klinks k)) (TQueue u)"
    if "u \<in> set gs" "u \<notin> set rs" for u
    using list_add_before_other [OF d, of "SemTasks s" "TQueue u" "TSem c"] that wf
    by (auto simp: sem_wf_def sched_wf_def unlinked_def)
  ultimately show "sched_wf (upd_links (list_add_before (TSem c) (SemTasks s)) k) rs gs"
    using wf by (auto simp: sem_wf_def sched_wf_def)
qed

text \<open>Blocking and handing over leave the lists other than the ready list alone.\<close>

lemma handed_over_links: "klinks (handed_over c t ctx k) = klinks k"
  by (simp add: handed_over_def task_switch_def task_save_def Let_def)

lemma handed_over_waiting: "T_WAITING (tasks (handed_over c t ctx k) u) = T_WAITING (tasks k u)"
  by (simp add: handed_over_def task_switch_def task_save_def Let_def T_WAITING_def save_waiting)

lemma sem_wait_blocks:
  assumes wf: "sem_wf s k rs gs ws" and cm: "calm k rs" and c: "current k = Some c" "c \<in> set rs"
    and run: "T_RUNNING (tasks k c)" and more: "remove1 c rs \<noteq> []"
    and z: "units sem = 0" "s_lock sem = 0" and t: "timeout \<noteq> 0"
  shows "\<exists>sem' k'. sem_wait s timeout ctxs sem k = Some (SemBlocked, sem', k') \<and> units sem' = 0 \<and> s_lock sem' = 0
     \<and> sem_wf s k' (remove1 c rs) gs (ws @ [c]) \<and> current k' = Some (hd (remove1 c rs))
     \<and> t_timeout (tasks k' c) = ticks k + timeout \<and> calm k' (remove1 c rs)
     \<and> (\<forall>t. t \<noteq> c \<longrightarrow> T_RUNNING (tasks k' t) = T_RUNNING (tasks k t))"
proof -
  have sw: "sched_wf k rs gs" using wf by (simp add: sem_wf_def)
  have cg: "c \<in> set gs" and cw: "c \<notin> set ws" using wf c sw by (auto simp: sem_wf_def sched_wf_def)
  let ?k2 = "upd_task c (\<lambda>x. x\<lparr>t_timeout := ticks k + timeout\<rparr>) (upd_links (list_add_before (TSem c) (SemTasks s)) k)"
  note e = sem_wf_enqueue [OF wf cg cw]
  define k3 where "k3 = (if earliest_timeout sem > ticks k + timeout
    then log_call (Call_timer_callback (ticks k + timeout)) ?k2 else ?k2)"
  have k3: "klinks k3 = list_add_before (TSem c) (SemTasks s) (klinks k)" "current k3 = Some c"
    "tasks k3 = (tasks k)(c := (tasks k c)\<lparr>t_timeout := ticks k + timeout\<rparr>)"
    using c by (simp_all add: k3_def)
  have s3: "sched_wf k3 rs gs" by (rule sched_wf_cong [OF e(1)]) (simp_all add: k3 T_WAITING_def)
  have cm3: "calm k3 rs" and run3: "T_RUNNING (tasks k3 c)"
    using cm run by (auto simp: calm_def k3 T_EXITING_def T_RUNNING_def)
  let ?b = "task_block c TF_WAITIO k3" and ?t = "hd (remove1 c rs)"
  let ?h = "handed_over c ?t (ctxs 0) ?b"
  have h: "task_waitio c ctxs k3 = Some ?h"
    unfolding task_waitio_def by (rule wait_switch [OF s3 cm3 k3(2) cg run3 _ more]) (simp add: exit_flags)
  note b = task_block_wf [OF s3 cg, of TF_WAITIO]
  have "dll (klinks k3) (SemTasks s) (map TSem (ws @ [c]))" using e(2) k3(1) by simp
  from dll_rem_queue [OF s3 cg this]
  have db: "dll (klinks ?b) (SemTasks s) (map TSem (ws @ [c]))" by (auto simp: task_block_def)
  have "T_WAITING (tasks ?b u)" if "u \<in> set (ws @ [c])" for u
    using that b(2) wf cw by (auto simp: task_block_def k3 sem_wf_def exit_flags)
  then have sf: "sem_wf s ?h (remove1 c rs) gs (ws @ [c])"
    using handed_over_wf [OF b(1)] db wf cg
    by (simp add: sem_wf_def handed_over_links handed_over_waiting exit_flags)
  have to: "t_timeout (tasks ?h c) = ticks k + timeout"
    by (simp add: handed_over_def task_switch_def task_save_def task_block_def k3 Let_def)
  have "calm ?b (remove1 c rs)"
    using cm3 notin_set_remove1 [of _ rs c] sw by (auto simp: calm_def task_block_def T_EXITING_def sched_wf_def dll_def distinct_map)
  then have ch: "calm ?h (remove1 c rs)" by (rule handed_over_calm)
  have rh: "\<forall>t. t \<noteq> c \<longrightarrow> T_RUNNING (tasks ?h t) = T_RUNNING (tasks k t)" by (simp add: handed_over_sel task_block_def k3)
  show ?thesis using h sf to ch rh z t c
    by (auto simp: sem_wait_def Let_def k3_def handed_over_sel split: if_splits)
qed

subsection \<open>Timeouts\<close>

text \<open>The tasks whose time has come, in the order in which they wait, and the rest.\<close>

definition expired :: "u32 \<Rightarrow> kern \<Rightarrow> nat \<Rightarrow> bool" where
  "expired now k t \<longleftrightarrow> t_timeout (tasks k t) \<le> now"

text \<open>What waking one task does to the rest of the list.\<close>

lemma sem_wake_expired:
  assumes w: "sem_wf s k rs gs (ds @ t # ts)"
  shows "filter (expired now (sem_wake 0 t k)) ts = filter (expired now k) ts"
    and "filter (\<lambda>u. \<not> expired now (sem_wake 0 t k) u) ts = filter (\<lambda>u. \<not> expired now k u) ts"
    and "fold (\<lambda>u. min (t_timeout (tasks (sem_wake 0 t k) u))) (filter P ts) e
       = fold (\<lambda>u. min (t_timeout (tasks k u))) (filter P ts) e"
proof -
  have nt: "t \<notin> set ts" using w by (auto simp: sem_wf_def dll_def)
  have u: "u \<in> set ts \<Longrightarrow> tasks (sem_wake 0 t k) u = tasks k u" for u
    using sem_wake_wf(3) [OF w, of u 0] nt by blast
  show "filter (expired now (sem_wake 0 t k)) ts = filter (expired now k) ts"
    "filter (\<lambda>u. \<not> expired now (sem_wake 0 t k) u) ts = filter (\<lambda>u. \<not> expired now k u) ts"
    by (auto simp: expired_def u intro: filter_cong)
  show "fold (\<lambda>u. min (t_timeout (tasks (sem_wake 0 t k) u))) (filter P ts) e
      = fold (\<lambda>u. min (t_timeout (tasks k u))) (filter P ts) e"
    by (rule fold_cong) (auto simp: u)
qed

lemma sem_timeout_loop_correct:
  "sem_wf s k rs gs (ds @ ts) \<Longrightarrow>
   sem_timeout_loop s now (hd (map TSem ts @ [SemTasks s])) e k
     = Some (fold (\<lambda>t. min (t_timeout (tasks k t))) (filter (\<lambda>t. \<not> expired now k t) ts) e,
             fold (sem_wake 0) (filter (expired now k) ts) k)
   \<and> sem_wf s (fold (sem_wake 0) (filter (expired now k) ts) k) (rev (filter (expired now k) ts) @ rs) gs
     (ds @ filter (\<lambda>t. \<not> expired now k t) ts)"
proof (induction ts arbitrary: ds k rs e)
  case Nil
  then show ?case by (subst sem_timeout_loop.simps) simp
next
  case (Cons t ts)
  note wf = Cons.prems
  have nx: "lnext (klinks k) (TSem t) = hd (map TSem ts @ [SemTasks s])"
    "lprev (klinks k) (TSem t) = last (SemTasks s # map TSem ds)"
    using wf dll_mid [of "klinks k" "SemTasks s" "map TSem ds" "TSem t" "map TSem ts"] by (simp_all add: sem_wf_def)
  show ?case
  proof (cases "expired now k t")
    case True
    let ?k = "sem_wake 0 t k"
    note w1 = sem_wake_wf(1) [OF wf, of 0]
    have "dll (klinks ?k) (SemTasks s) (map TSem (ds @ ts))" using w1 by (simp add: sem_wf_def)
    then have "lnext (klinks ?k) (last (SemTasks s # map TSem ds)) = hd (map TSem ts @ [SemTasks s])"
      using dll_last_next [of "klinks ?k" "SemTasks s" "map TSem ds" "map TSem ts"] by simp
    then have "sem_timeout_loop s now (TSem t) e k = sem_timeout_loop s now (hd (map TSem ts @ [SemTasks s])) e ?k"
      using True nx(2)
      by (subst sem_timeout_loop.simps) (simp add: expired_def sem_wake_def Let_def del: fun_upd_apply)
    then show ?thesis
      using True Cons.IH [OF w1, of e] sem_wake_expired [OF wf] by simp
  next
    case False
    have "sem_timeout_loop s now (TSem t) e k
        = sem_timeout_loop s now (hd (map TSem ts @ [SemTasks s])) (min (t_timeout (tasks k t)) e) k"
      using False nx(1)
      by (subst sem_timeout_loop.simps) (simp add: expired_def Let_def min_def, auto)
    then show ?thesis using False Cons.IH [of k rs "ds @ [t]"] wf by simp
  qed
qed

lemma fold_min_le: "fold (\<lambda>t. min (f t)) ts e \<le> (e :: 'a :: linorder)"
proof (induction ts arbitrary: e)
  case (Cons u ts)
  have "fold (\<lambda>t. min (f t)) ts (min (f u) e) \<le> min (f u) e" by (rule Cons.IH)
  then show ?case by simp
qed simp

lemma fold_min_least:
  fixes e :: "'a :: linorder"
  shows "t \<in> set ts \<Longrightarrow> fold (\<lambda>t. min (f t)) ts e \<le> f t"
proof (induction ts arbitrary: e)
  case (Cons u ts)
  show ?case
  proof (cases "t = u")
    case True
    have "fold (\<lambda>t. min (f t)) ts (min (f u) e) \<le> min (f u) e" by (rule fold_min_le)
    then show ?thesis using True by simp
  next
    case False
    then show ?thesis using Cons by simp
  qed
qed simp

lemma fold_min_in: "fold (\<lambda>t. min (f t)) ts e \<in> insert (e :: 'a :: linorder) (f ` set ts)"
proof (induction ts arbitrary: e)
  case (Cons u ts)
  have "fold (\<lambda>t. min (f t)) ts (min (f u) e) \<in> insert (min (f u) e) (f ` set ts)" by (rule Cons.IH)
  moreover have "min (f u) e = f u \<or> min (f u) e = e" by (simp add: min_def)
  ultimately show ?case by auto
qed simp

text \<open>Waking several waiting tasks, whatever their positions in the list.\<close>

lemma sem_wake_member:
  assumes "sem_wf s k rs gs ws" "x \<in> set ws" "set xs \<subseteq> set ws" "x \<notin> set xs"
  obtains ws' where "sem_wf s (sem_wake v x k) (x # rs) gs ws'" "set xs \<subseteq> set ws'"
    "t_timeout (tasks (sem_wake v x k) x) = v" "\<And>u. u \<noteq> x \<Longrightarrow> tasks (sem_wake v x k) u = tasks k u"
proof -
  obtain as bs where ws: "ws = as @ x # bs" using split_list [OF assms(2)] by blast
  have "set xs \<subseteq> set (as @ bs)" using assms(3,4) ws by auto
  then show ?thesis using that sem_wake_wf [OF assms(1) [unfolded ws], where v = v] by blast
qed

lemma fold_sem_wake_other:
  assumes "sem_wf s k rs gs ws" "distinct xs" "set xs \<subseteq> set ws" "u \<notin> set xs"
  shows "tasks (fold (sem_wake v) xs k) u = tasks k u"
  using assms
proof (induction xs arbitrary: k rs ws)
  case (Cons x xs)
  obtain ws' where w: "sem_wf s (sem_wake v x k) (x # rs) gs ws'" "set xs \<subseteq> set ws'"
    "\<And>u. u \<noteq> x \<Longrightarrow> tasks (sem_wake v x k) u = tasks k u"
    by (rule sem_wake_member [OF Cons.prems(1), of x xs v]) (use Cons.prems in auto)
  then show ?case using Cons.IH [OF w(1)] Cons.prems by simp
qed simp

lemma fold_sem_wake_timeout:
  assumes "sem_wf s k rs gs ws" "distinct xs" "set xs \<subseteq> set ws" "t \<in> set xs"
  shows "t_timeout (tasks (fold (sem_wake v) xs k) t) = v"
  using assms
proof (induction xs arbitrary: k rs ws)
  case (Cons x xs)
  obtain ws' where w: "sem_wf s (sem_wake v x k) (x # rs) gs ws'" "set xs \<subseteq> set ws'"
    "t_timeout (tasks (sem_wake v x k) x) = v"
    by (rule sem_wake_member [OF Cons.prems(1), of x xs v]) (use Cons.prems in auto)
  show ?case
  proof (cases "t = x")
    case True
    then show ?thesis using fold_sem_wake_other [OF w(1) _ w(2), of x v] w(3) Cons.prems by simp
  next
    case False
    then show ?thesis using Cons.IH [OF w(1) _ w(2)] Cons.prems by simp
  qed
qed simp

subsection \<open>Guarantees\<close>

primrec sem_signals :: "nat \<Rightarrow> nat \<Rightarrow> sem \<Rightarrow> kern \<Rightarrow> (sem \<times> kern) option" where
  "sem_signals s 0 sem k = Some (sem, k)"
| "sem_signals s (Suc n) sem k = Option.bind (sem_signal s sem k) (\<lambda>(sem', k'). sem_signals s n sem' k')"

lemma sem_signals_waiting:
  "sem_wf s k rs gs (xs @ ys) \<Longrightarrow> s_lock sem = 0 \<Longrightarrow>
   sem_signals s (length xs) sem k = Some (sem, fold (sem_wake 1) xs k)
   \<and> sem_wf s (fold (sem_wake 1) xs k) (rev xs @ rs) gs ys"
proof (induction xs arbitrary: k rs)
  case (Cons x xs)
  have "sem_wf s (sem_wake 1 x k) (x # rs) gs (xs @ ys)"
    using sem_wake_wf(1) [of s k rs gs "[]" x "xs @ ys"] Cons.prems by simp
  then show ?case using Cons.IH [of "sem_wake 1 x k" "x # rs"] sem_signal_waiting [of s k rs gs x "xs @ ys" sem] Cons.prems
    by simp
qed simp

text \<open>Three tasks; tasks 2 and 0 wait for semaphore 4, up to the ticks 10 and 20.\<close>

definition demo_sem_kern :: kern where
  "demo_sem_kern = (let k = upd_links (list_add_before (TSem 0) (SemTasks 4) \<circ> list_add_before (TSem 2) (SemTasks 4)
       \<circ> list_rem (TQueue 0) \<circ> list_rem (TQueue 2)) demo_kern in
     k\<lparr>tasks := (tasks k)(0 := (tasks k 0)\<lparr>t_flags := TF_RUNNING OR TF_WAITIO, t_timeout := 20\<rparr>,
                          2 := (tasks k 2)\<lparr>t_flags := TF_RUNNING OR TF_WAITIO, t_timeout := 10\<rparr>)\<rparr>)"

definition demo_sem :: sem where
  "demo_sem = \<lparr>units = 0, s_lock = 0, earliest_timeout = 10\<rparr>"

lemma demo_sem_wf: "sem_wf 4 demo_sem_kern [1] [2, 1, 0] [2, 0]"
  by (auto simp: sem_wf_def sched_wf_def dll_def unlinked_def list_ops demo_sem_kern_def demo_defs T_WAITING_def TF_defs)

text \<open>
  Signals hand the unit to the tasks at the front of the list; their \<^verbatim>\<open>sem_wait\<close> returns success.
\<close>

lemma sem_signals_front:
  assumes "sem_wf s k rs gs (xs @ ys)" "s_lock sem = 0"
  shows "\<exists>k'. sem_signals s (length xs) sem k = Some (sem, k') \<and> sem_wf s k' (rev xs @ rs) gs ys
     \<and> (\<forall>t \<in> set xs. sem_wait_resume (k'\<lparr>current := Some t\<rparr>) = Inr ())"
proof -
  have "distinct xs" using assms(1) by (auto simp: sem_wf_def dll_def distinct_map)
  then have "t_timeout (tasks (fold (sem_wake 1) xs k) t) = 1" if "t \<in> set xs" for t
    using fold_sem_wake_timeout [OF assms(1) _ _ that] by simp
  then show ?thesis using sem_signals_waiting [OF assms] by (simp add: sem_wait_resume_def)
qed

text \<open>
  The running task calls \<^verbatim>\<open>sem_wait\<close> and blocks, then the task that runs next does the same, and so on
  for \<open>n\<close> calls.
\<close>

primrec sem_waits :: "nat \<Rightarrow> u32 \<Rightarrow> (nat \<Rightarrow> cctx) \<Rightarrow> nat \<Rightarrow> sem \<Rightarrow> kern \<Rightarrow> (sem \<times> kern) option" where
  "sem_waits s timeout ctxs 0 sem k = Some (sem, k)"
| "sem_waits s timeout ctxs (Suc n) sem k =
     Option.bind (sem_wait s timeout ctxs sem k) (\<lambda>(r, sem', k').
       if r = SemBlocked then sem_waits s timeout ctxs n sem' k' else None)"

lemma sem_waits_enqueue:
  "sem_wf s k (xs @ r # zs) gs ws \<Longrightarrow> calm k (xs @ r # zs) \<Longrightarrow> current k = Some (hd (xs @ [r])) \<Longrightarrow>
   \<forall>t \<in> set xs. T_RUNNING (tasks k t) \<Longrightarrow> units sem = 0 \<Longrightarrow> s_lock sem = 0 \<Longrightarrow> timeout \<noteq> 0 \<Longrightarrow>
   \<exists>sem' k'. sem_waits s timeout ctxs (length xs) sem k = Some (sem', k') \<and> s_lock sem' = 0
     \<and> sem_wf s k' (r # zs) gs (ws @ xs) \<and> current k' = Some r"
proof (induction xs arbitrary: k ws sem)
  case (Cons x xs)
  have d: "x \<notin> set (xs @ r # zs)" using Cons.prems(1) by (auto simp: sem_wf_def sched_wf_def dll_def distinct_map)
  obtain sem1 k1 where w: "sem_wait s timeout ctxs sem k = Some (SemBlocked, sem1, k1)" "units sem1 = 0" "s_lock sem1 = 0"
      "sem_wf s k1 (xs @ r # zs) gs (ws @ [x])" "current k1 = Some (hd (xs @ [r]))" "calm k1 (xs @ r # zs)"
      "\<forall>t. t \<noteq> x \<longrightarrow> T_RUNNING (tasks k1 t) = T_RUNNING (tasks k t)"
    using sem_wait_blocks [OF Cons.prems(1-2), of x sem timeout ctxs] Cons.prems(3-7) by (cases xs) auto
  have "\<forall>t \<in> set xs. T_RUNNING (tasks k1 t)" using w(7) d Cons.prems(4) by auto
  then show ?case using Cons.IH [OF w(4,6,5) _ w(2,3) Cons.prems(7)] w(1) by simp
qed simp

text \<open>
  C14: Semaphores are fair. The tasks \<open>xs\<close> call \<^verbatim>\<open>sem_wait\<close> one after the other on a semaphore that has no
  units left and on which the tasks \<open>ws\<close> wait already; each blocks. Then each \<^verbatim>\<open>sem_signal\<close> hands the unit
  directly to the task that has waited longest: after \<open>n\<close> signals exactly the first \<open>n\<close> tasks, in the
  order of their calls, are ready again and their \<^verbatim>\<open>sem_wait\<close> returns success, and the others still wait
  in the same order.
\<close>

theorem sem_signal_fifo:
  assumes "sem_wf s k (xs @ r # zs) gs ws" "calm k (xs @ r # zs)" "current k = Some (hd (xs @ [r]))"
    "\<forall>t \<in> set xs. T_RUNNING (tasks k t)" "units sem = 0" "s_lock sem = 0" "timeout \<noteq> 0" "n \<le> length (ws @ xs)"
  shows "\<exists>sem' k1 k2. sem_waits s timeout ctxs (length xs) sem k = Some (sem', k1)
     \<and> sem_signals s n sem' k1 = Some (sem', k2)
     \<and> sem_wf s k2 (rev (take n (ws @ xs)) @ r # zs) gs (drop n (ws @ xs))
     \<and> (\<forall>t \<in> set (take n (ws @ xs)). sem_wait_resume (k2\<lparr>current := Some t\<rparr>) = Inr ())"
proof -
  obtain sem' k1 where w: "sem_waits s timeout ctxs (length xs) sem k = Some (sem', k1)" "s_lock sem' = 0"
      "sem_wf s k1 (r # zs) gs (take n (ws @ xs) @ drop n (ws @ xs))"
    using sem_waits_enqueue [OF assms(1-7), of ctxs] by (metis append_take_drop_id)
  have "length (take n (ws @ xs)) = n" using assms(8) by simp
  then show ?thesis using sem_signals_front [OF w(3,2)] w(1) by metis
qed

text \<open>All three tasks are ready; task 2 runs, and nobody waits for semaphore 4.\<close>

definition demo_free_kern :: kern where
  "demo_free_kern = (upd_links (INIT_LIST (SemTasks 4)) demo_kern)\<lparr>current := Some 2\<rparr>"

lemma demo_free_wf: "sem_wf 4 demo_free_kern [2, 1, 0] [2, 1, 0] []" "calm demo_free_kern [2, 1, 0]"
  "\<forall>t \<in> {2, 1}. T_RUNNING (tasks demo_free_kern t)"
  by (auto simp: sem_wf_def sched_wf_def dll_def unlinked_def list_ops demo_free_kern_def demo_defs calm_def zero_task_def
      zero_signal_def T_WAITING_def T_EXITING_def T_RUNNING_def TF_defs)

theorem sem_signal_fifo_witness:
  "\<exists>sem' k1 k2. sem_waits 4 9 (\<lambda>_. zero_ctx) 2 demo_sem demo_free_kern = Some (sem', k1)
     \<and> sem_signals 4 1 sem' k1 = Some (sem', k2) \<and> sem_wf 4 k2 [2, 0] [2, 1, 0] [1]
     \<and> sem_wait_resume (k2\<lparr>current := Some 2\<rparr>) = Inr ()"
  using sem_signal_fifo [of 4 demo_free_kern "[2, 1]" 0 "[]" "[2, 1, 0]" "[]" demo_sem 9 1 "\<lambda>_. zero_ctx"] demo_free_wf
  by (auto simp: demo_sem_def demo_free_kern_def numeral_2_eq_2 [symmetric] simp del: sem_waits.simps sem_signals.simps)

text \<open>
  C15: \<^verbatim>\<open>sem_timeout\<close>, the timer callback, wakes exactly the waiting tasks whose time limit has passed, and
  their \<^verbatim>\<open>sem_wait\<close> returns \<^verbatim>\<open>-ETIMEDOUT\<close>; the others stay in the list in their order. It asks to be called
  again at the earliest of the remaining limits, and not at all if no task is left.
\<close>

theorem sem_timeout_correct:
  assumes wf: "sem_wf s k rs gs ws" and l: "s_lock sem = 0"
  shows "\<exists>r k'. sem_timeout s now sem k = Some (r, sem, k')
     \<and> sem_wf s k' (rev (filter (\<lambda>t. t_timeout (tasks k t) \<le> now) ws) @ rs) gs (filter (\<lambda>t. \<not> t_timeout (tasks k t) \<le> now) ws)
     \<and> (\<forall>t \<in> set ws. t_timeout (tasks k t) \<le> now \<longrightarrow> sem_wait_resume (k'\<lparr>current := Some t\<rparr>) = Inl ETIMEDOUT)
     \<and> (\<forall>t \<in> set ws. now < t_timeout (tasks k t) \<longrightarrow> r \<le> t_timeout (tasks k t))
     \<and> (r = TIMER_CANCEL \<or> (\<exists>t \<in> set ws. now < t_timeout (tasks k t) \<and> r = t_timeout (tasks k t)))"
proof -
  let ?ex = "filter (expired now k) ws" and ?re = "filter (\<lambda>t. \<not> expired now k t) ws"
  let ?r = "fold (\<lambda>t. min (t_timeout (tasks k t))) ?re 0xFFFFFFFF" and ?k = "fold (sem_wake 0) ?ex k"
  have d: "dll (klinks k) (SemTasks s) (map TSem ws)" using wf by (simp add: sem_wf_def)
  note lp = sem_timeout_loop_correct [where ds = "[]" and ts = ws and now = now and e = "0xFFFFFFFF", simplified, OF wf]
  have "lnext (klinks k) (SemTasks s) = hd (map TSem ws @ [SemTasks s])" using dll_first [OF d] .
  then have r: "sem_timeout s now sem k = Some (?r, sem, ?k)"
    using lp l by (cases sem) (simp add: sem_timeout_def TIMER_CANCEL_def)
  have "distinct ws" using wf by (auto simp: sem_wf_def dll_def distinct_map)
  then have "t_timeout (tasks ?k t) = 0" if "t \<in> set ws" "expired now k t" for t
    using fold_sem_wake_timeout [OF wf, of ?ex t 0] that by auto
  then have "sem_wait_resume (?k\<lparr>current := Some t\<rparr>) = Inl ETIMEDOUT" if "t \<in> set ws" "t_timeout (tasks k t) \<le> now" for t
    using that by (simp add: sem_wait_resume_def expired_def)
  moreover have "?r \<le> t_timeout (tasks k t)" if "t \<in> set ws" "now < t_timeout (tasks k t)" for t
    by (rule fold_min_least) (use that in \<open>simp add: expired_def\<close>)
  moreover have "?r = TIMER_CANCEL \<or> (\<exists>t \<in> set ws. now < t_timeout (tasks k t) \<and> ?r = t_timeout (tasks k t))"
    using fold_min_in [of "\<lambda>t. t_timeout (tasks k t)" ?re "0xFFFFFFFF"]
    by (auto simp: TIMER_CANCEL_def expired_def not_le)
  moreover have "sem_wf s ?k (rev (filter (\<lambda>t. t_timeout (tasks k t) \<le> now) ws) @ rs) gs (filter (\<lambda>t. \<not> t_timeout (tasks k t) \<le> now) ws)"
  proof -
    have "expired now k = (\<lambda>t. t_timeout (tasks k t) \<le> now)" by (simp add: fun_eq_iff expired_def)
    then show ?thesis using lp by simp
  qed
  ultimately show ?thesis using r by blast
qed

theorem sem_timeout_correct_witness:
  "\<exists>r k'. sem_timeout 4 15 demo_sem demo_sem_kern = Some (r, demo_sem, k') \<and> sem_wf 4 k' [2, 1] [2, 1, 0] [0]
     \<and> sem_wait_resume (k'\<lparr>current := Some 2\<rparr>) = Inl ETIMEDOUT \<and> r \<le> 20"
proof -
  have t: "t_timeout (tasks demo_sem_kern 2) = 10" "t_timeout (tasks demo_sem_kern 0) = 20"
    by (simp_all add: demo_sem_kern_def demo_kern_sel demo_tasks_def)
  show ?thesis
    using sem_timeout_correct [OF demo_sem_wf, of demo_sem 15] t by (auto simp: demo_sem_def)
qed

text \<open>
  \<^verbatim>\<open>sem_wait\<close>. With a unit left it takes it and returns; with none left it puts the caller at the end
  of the list of waiting tasks and gives the processor to the first ready task. The lock of the
  semaphore is free again in both cases.
\<close>

theorem sem_wait_correct:
  assumes wf: "sem_wf s k rs gs ws" and cm: "calm k rs" and c: "current k = Some c" "c \<in> set rs"
    and run: "T_RUNNING (tasks k c)" and more: "remove1 c rs \<noteq> []" and l: "s_lock sem = 0" and t: "timeout \<noteq> 0"
  shows "if units sem = 0
     then \<exists>sem' k'. sem_wait s timeout ctxs sem k = Some (SemBlocked, sem', k') \<and> units sem' = 0 \<and> s_lock sem' = 0
       \<and> sem_wf s k' (remove1 c rs) gs (ws @ [c]) \<and> current k' = Some (hd (remove1 c rs))
       \<and> t_timeout (tasks k' c) = ticks k + timeout
     else sem_wait s timeout ctxs sem k = Some (SemRet (Inr ()), sem\<lparr>units := units sem - 1\<rparr>, k)"
proof (cases "units sem = 0")
  case True
  then show ?thesis using sem_wait_blocks [OF wf cm c run more True l t, of ctxs] by auto
next
  case False
  then show ?thesis using l by (cases sem) (simp add: sem_wait_def)
qed

theorem sem_wait_correct_witness:
  "\<exists>sem' k'. sem_wait 4 50 (\<lambda>_. zero_ctx) demo_sem demo_kern = Some (SemBlocked, sem', k')
     \<and> sem_wf 4 k' [2, 0] [2, 1, 0] [1] \<and> current k' = Some 2"
proof -
  have "dll demo_task_links (SemTasks 4) []"
    by (simp add: dll_def list_ops demo_task_links_def)
  then have "sem_wf 4 demo_kern [2, 1, 0] [2, 1, 0] []"
    using kern_wf_sched [OF demo_kern_wf] by (simp add: sem_wf_def demo_kern_def)
  from sem_wait_correct [OF this demo_calm, of 1 demo_sem 50 "\<lambda>_. zero_ctx"] show ?thesis
    by (auto simp: demo_kern_sel demo_running demo_sem_def)
qed

text \<open>
  With \<^verbatim>\<open>SEM_NOWAIT\<close> and no unit left, \<^verbatim>\<open>sem_wait\<close> returns \<^verbatim>\<open>-ETIMEDOUT\<close> but keeps the lock of the
  semaphore: every later \<^verbatim>\<open>sem_wait\<close>, \<^verbatim>\<open>sem_signal\<close>, \<^verbatim>\<open>sem_timeout\<close> and \<^verbatim>\<open>sem_free\<close> on it spins for ever.
\<close>

theorem sem_nowait_deadlock:
  assumes "units sem = 0" "s_lock sem = 0"
  shows "\<exists>sem'. sem_wait s SEM_NOWAIT ctxs sem k = Some (SemRet (Inl ETIMEDOUT), sem', k)
     \<and> sem_wait s timeout ctxs sem' k' = None \<and> sem_signal s sem' k' = None
     \<and> sem_timeout s now sem' k' = None \<and> sem_free s sem' k' = None"
  using assms by (simp add: sem_wait_def sem_signal_def sem_timeout_def sem_free_def SEM_NOWAIT_def spin_lock_held)

theorem sem_nowait_deadlock_witness:
  "\<exists>sem'. sem_wait 4 SEM_NOWAIT (\<lambda>_. zero_ctx) demo_sem demo_kern = Some (SemRet (Inl ETIMEDOUT), sem', demo_kern)
     \<and> sem_signal 4 sem' demo_kern = None"
  using sem_nowait_deadlock [of demo_sem 4 "\<lambda>_. zero_ctx" demo_kern 0 demo_kern 0] by (auto simp: demo_sem_def)

end
