(* ===== verification/Message.thy ===== *)
theory Message
  imports TaskSpec
begin

text \<open>
  Messages between tasks: \<^verbatim>\<open>kernel/src/message.c\<close>.

  Each task has a queue of message containers; the containers are the entries of \<open>mesgs\<close> and the
  queue of task \<open>t\<close> is the list with the head \<open>MesgQueue t\<close>. The constants of \<^verbatim>\<open>sys/message.h\<close>, a
  header of the C library, are the parameters \<open>mesg_consts\<close>. When the queue is empty and the caller asks
  to wait, \<^verbatim>\<open>sys_message_pop\<close> blocks; \<open>sys_message_pop_resume\<close> is the rest of it, when the task runs again.
\<close>

record mesg_consts =
  MESG_MAX_LENGTH :: u32
  MESG_POP_WAIT :: u32
  MESG_POP_LEAVE :: u32
  MESG_ANY :: u32

subsection \<open>Operations\<close>

text \<open>\<open>a\<close> is the address \<^verbatim>\<open>kmalloc\<close> returns for the container, \<open>what\<close> the memory the caller passes.\<close>

definition sys_message_send ::
  "mesg_consts \<Rightarrow> int \<Rightarrow> u32 \<Rightarrow> u8 list \<Rightarrow> u32 \<Rightarrow> nat option \<Rightarrow> kern \<Rightarrow> (unit result \<times> kern) option" where
  "sys_message_send M pid type what len a k =
     (if len > MESG_MAX_LENGTH M then Some (Inl E2BIG, k)
      else
        Option.bind (task_lookup pid k) (\<lambda>r. case r of
          None \<Rightarrow> Some (Inl ENOENT, k)
        | Some who \<Rightarrow>
            (case a of
               None \<Rightarrow> Some (Inl ENOMEM, k)
             | Some m \<Rightarrow>
                 let k1 = k\<lparr>klinks := INIT_LIST (Mesg m) (klinks k),
                       mesgs := (mesgs k)(m := \<lparr>m_from = t_pid (tasks k (the (current k))), m_id = type,
                                              m_length = len, m_data = take (unat len) what\<rparr>)\<rparr>
                 in Option.bind (spin_lock (t_mesgq_lock (tasks k1 who))) (\<lambda>l.
                      let k2 = upd_links (list_add_before (Mesg m) (MesgQueue who)) k1;
                          k3 = upd_task who (\<lambda>x. x\<lparr>t_mesgq_lock := spin_unlock l\<rparr>) k2
                      in Some (Inr (), if t_flags (tasks k3 who) AND TF_WAITMESG \<noteq> 0 then task_wakeup who k3 else k3)))))"

datatype 'k pop_outcome = PopRet "int result" "message option" 'k | PopBlocked 'k

text \<open>The search through the queue, with the lock held in the state \<open>l\<close>.\<close>

definition pop_scan :: "mesg_consts \<Rightarrow> u32 \<Rightarrow> u32 \<Rightarrow> u32 \<Rightarrow> kern \<Rightarrow> kern pop_outcome option" where
  "pop_scan M mid flags l k =
     (let c = the (current k);
          unlock = upd_task c (\<lambda>x. x\<lparr>t_mesgq_lock := spin_unlock l\<rparr>)
      in Option.bind (list_find (klinks k) (MesgQueue c) (\<lambda>n. m_id (mesgs k (owner n)) = mid \<or> mid = MESG_ANY M)
                        (lnext (klinks k) (MesgQueue c))) (\<lambda>r. case r of
           None \<Rightarrow> Some (PopRet (Inl ENOENT) None (unlock k))
         | Some n \<Rightarrow>
             let m = owner n;
                 k1 = (if flags AND MESG_POP_LEAVE M = 0
                       then log_call (Call_kfree_mesg m) (upd_links (list_rem (Mesg m)) k) else k)
             in Some (PopRet (Inr 1) (Some (mesgs k m)) (unlock k1))))"

definition sys_message_pop ::
  "mesg_consts \<Rightarrow> u32 \<Rightarrow> u32 \<Rightarrow> (nat \<Rightarrow> cctx) \<Rightarrow> kern \<Rightarrow> kern pop_outcome option" where
  "sys_message_pop M mid flags ctxs k =
     (let c = the (current k) in
      Option.bind (spin_lock (t_mesgq_lock (tasks k c))) (\<lambda>l.
        if list_empty (klinks k) (MesgQueue c) then
          let k1 = upd_task c (\<lambda>x. x\<lparr>t_mesgq_lock := spin_unlock l\<rparr>) k in
          if flags AND MESG_POP_WAIT M \<noteq> 0
          then Option.bind (task_wait c TF_WAITMESG ctxs k1) (\<lambda>k2. Some (PopBlocked k2))
          else Some (PopRet (Inr 0) None k1)
        else pop_scan M mid flags l k))"

definition sys_message_pop_resume :: "mesg_consts \<Rightarrow> u32 \<Rightarrow> u32 \<Rightarrow> kern \<Rightarrow> kern pop_outcome option" where
  "sys_message_pop_resume M mid flags k =
     Option.bind (spin_lock (t_mesgq_lock (tasks k (the (current k))))) (\<lambda>l. pop_scan M mid flags l k)"

subsection \<open>The queue of a task\<close>

definition mesgq_wf :: "kern \<Rightarrow> nat list \<Rightarrow> nat list \<Rightarrow> nat \<Rightarrow> nat list \<Rightarrow> bool" where
  "mesgq_wf k rs gs t ms \<longleftrightarrow> sched_wf k rs gs \<and> t \<in> set gs \<and> dll (klinks k) (MesgQueue t) (map Mesg ms)
     \<and> t_mesgq_lock (tasks k t) = 0"

lemma sched_wf_links:
  assumes wf: "sched_wf k rs gs"
    and n: "\<And>n. n \<in> insert ReadyTasks (insert GlobList (range TQueue \<union> range TGlob)) \<Longrightarrow>
       lnext (f (klinks k)) n = lnext (klinks k) n \<and> lprev (f (klinks k)) n = lprev (klinks k) n"
  shows "sched_wf (upd_links f k) rs gs"
proof -
  have "dll (f (klinks k)) ReadyTasks (map TQueue rs) = dll (klinks k) ReadyTasks (map TQueue rs)"
    by (rule dll_cong) (use n in auto)
  moreover have "dll (f (klinks k)) GlobList (map TGlob gs) = dll (klinks k) GlobList (map TGlob gs)"
    by (rule dll_cong) (use n in auto)
  moreover have "unlinked (f (klinks k)) (TQueue t) = unlinked (klinks k) (TQueue t)" for t
    using n [of "TQueue t"] by (simp add: unlinked_def)
  ultimately show ?thesis using wf by (simp add: sched_wf_def)
qed

lemma INIT_LIST_other: "n \<noteq> m \<Longrightarrow> lnext (INIT_LIST m l) n = lnext l n \<and> lprev (INIT_LIST m l) n = lprev l n"
  by (simp add: INIT_LIST_def)

lemma waitmesg_waiting: "t_flags x AND TF_WAITMESG \<noteq> 0 \<Longrightarrow> T_WAITING x"
proof -
  assume a: "t_flags x AND TF_WAITMESG \<noteq> 0"
  have "TF_WAITMASK AND TF_WAITMESG = TF_WAITMESG" by (simp add: TF_defs)
  then have "t_flags x AND TF_WAITMESG = (t_flags x AND TF_WAITMASK) AND TF_WAITMESG" by (simp add: and.assoc)
  then show ?thesis using a by (auto simp: T_WAITING_def)
qed

lemma send_wf:
  assumes wf: "mesgq_wf k rs gs who ms" and m: "m \<notin> set ms"
    and pid: "task_lookup pid k = Some (Some who)" and le: "\<not> MESG_MAX_LENGTH M < len"
  obtains k' where "sys_message_send M pid type what len (Some m) k = Some (Inr (), k')"
    "mesgq_wf k' (if t_flags (tasks k who) AND TF_WAITMESG \<noteq> 0 then who # rs else rs) gs who (ms @ [m])"
    "mesgs k' = (mesgs k)(m := \<lparr>m_from = t_pid (tasks k (the (current k))), m_id = type, m_length = len,
       m_data = take (unat len) what\<rparr>)"
    "\<And>t. t_mesgq_lock (tasks k' t) = t_mesgq_lock (tasks k t)"
    "t_flags (tasks k who) AND TF_WAITMESG \<noteq> 0 \<Longrightarrow> T_RUNNING (tasks k' who) \<and> \<not> T_WAITING (tasks k' who)"
proof -
  let ?ms = "(mesgs k)(m := \<lparr>m_from = t_pid (tasks k (the (current k))), m_id = type, m_length = len,
       m_data = take (unat len) what\<rparr>)"
  let ?l1 = "INIT_LIST (Mesg m) (klinks k)"
  let ?l2 = "list_add_before (Mesg m) (MesgQueue who) ?l1"
  have sw: "sched_wf k rs gs" and who: "who \<in> set gs" and d: "dll (klinks k) (MesgQueue who) (map Mesg ms)"
    and lk: "t_mesgq_lock (tasks k who) = 0" using wf by (simp_all add: mesgq_wf_def)
  have d1: "dll ?l1 (MesgQueue who) (map Mesg ms)" by (rule INIT_LIST_frame [OF _ d]) (use m in auto)
  have d2: "dll ?l2 (MesgQueue who) (map Mesg (ms @ [m]))" using dll_list_add_before [OF d1, of "Mesg m"] m by auto
  have s2: "sched_wf (upd_links (\<lambda>l. list_add_before (Mesg m) (MesgQueue who) (INIT_LIST (Mesg m) l)) k) rs gs"
  proof (rule sched_wf_links [OF sw])
    fix n
    assume n: "n \<in> insert ReadyTasks (insert GlobList (range TQueue \<union> range TGlob))"
    have "n \<notin> set (Mesg m # MesgQueue who # map Mesg ms)" using n by auto
    then show "lnext ?l2 n = lnext (klinks k) n \<and> lprev ?l2 n = lprev (klinks k) n"
      using list_add_before_other [OF d1, of "MesgQueue who" n "Mesg m"] INIT_LIST_other [of n "Mesg m" "klinks k"] by auto
  qed
  let ?k3 = "k\<lparr>mesgs := ?ms, klinks := ?l2, tasks := (tasks k)(who := (tasks k who)\<lparr>t_mesgq_lock := 0\<rparr>)\<rparr>"
  have s3: "sched_wf ?k3 rs gs" by (rule sched_wf_cong [OF s2]) (simp_all add: T_WAITING_def)
  have q3: "mesgq_wf ?k3 rs gs who (ms @ [m])" using s3 who d2 by (simp add: mesgq_wf_def)
  let ?w = "t_flags (tasks k who) AND TF_WAITMESG \<noteq> 0"
  have send: "sys_message_send M pid type what len (Some m) k = Some (Inr (), if ?w then task_wakeup who ?k3 else ?k3)"
    using le pid lk by (simp add: sys_message_send_def Let_def)
  show ?thesis
  proof (cases ?w)
    case False
    then show ?thesis using that [OF send] q3 lk by simp
  next
    case True
    have w: "T_WAITING (tasks ?k3 who)" using waitmesg_waiting [OF True] by (simp add: T_WAITING_def)
    then have nr: "who \<notin> set rs" using s3 by (auto simp: sched_wf_def)
    note g = task_wakeup_wf [OF s3 who nr w]
    have dk: "dll (klinks (task_wakeup who ?k3)) (MesgQueue who) (map Mesg (ms @ [m]))"
      by (rule wakeup_other_lists [OF s3 who]) (use d2 in auto)
    have "mesgs (task_wakeup who ?k3) = ?ms" "t_mesgq_lock (tasks (task_wakeup who ?k3) t) = t_mesgq_lock (tasks k t)" for t
      unfolding task_wakeup_eq [OF s3 who nr w] using lk by simp_all
    then show ?thesis using that [OF send] True g dk who lk by (simp add: mesgq_wf_def)
  qed
qed

lemma pop_scan_found:
  assumes d: "dll (klinks k) (MesgQueue c) (map Mesg (xs @ m # ys))" and c: "current k = Some c"
    and m: "m_id (mesgs k m) = mid \<or> mid = MESG_ANY M"
    and xs: "\<forall>x \<in> set xs. \<not> (m_id (mesgs k x) = mid \<or> mid = MESG_ANY M)"
    and f: "flags AND MESG_POP_LEAVE M = 0"
  obtains k' where "pop_scan M mid flags l k = Some (PopRet (Inr 1) (Some (mesgs k m)) k')"
    "dll (klinks k') (MesgQueue c) (map Mesg (xs @ ys))" "t_mesgq_lock (tasks k' c) = 0"
    "calls k' = Call_kfree_mesg m # calls k" "mesgs k' = mesgs k" "current k' = Some c"
proof -
  let ?P = "\<lambda>n. m_id (mesgs k (owner n)) = mid \<or> mid = MESG_ANY M"
  have "List.find ?P (map Mesg (xs @ m # ys)) = Some (Mesg m)"
    using xs m by (induction xs) auto
  then have find: "list_find (klinks k) (MesgQueue c) ?P (lnext (klinks k) (MesgQueue c)) = Some (Some (Mesg m))"
    using list_find_dll [OF d, of ?P] by simp
  have "dll (list_rem (Mesg m) (klinks k)) (MesgQueue c) (map Mesg (xs @ ys))"
    using dll_list_rem_mid [of "klinks k" "MesgQueue c" "map Mesg xs" "Mesg m" "map Mesg ys"] d by simp
  then show ?thesis
    using that [of "upd_task c (\<lambda>x. x\<lparr>t_mesgq_lock := 0\<rparr>) (log_call (Call_kfree_mesg m) (upd_links (list_rem (Mesg m)) k))"]
      find c f by (simp add: pop_scan_def Let_def)
qed

lemma pop_found:
  assumes d: "dll (klinks k) (MesgQueue c) (map Mesg (xs @ m # ys))" and l: "t_mesgq_lock (tasks k c) = 0"
    and c: "current k = Some c" and m: "m_id (mesgs k m) = mid \<or> mid = MESG_ANY M"
    and xs: "\<forall>x \<in> set xs. \<not> (m_id (mesgs k x) = mid \<or> mid = MESG_ANY M)"
    and f: "flags AND MESG_POP_LEAVE M = 0"
  obtains k' where "sys_message_pop M mid flags ctxs k = Some (PopRet (Inr 1) (Some (mesgs k m)) k')"
    "dll (klinks k') (MesgQueue c) (map Mesg (xs @ ys))" "t_mesgq_lock (tasks k' c) = 0"
    "calls k' = Call_kfree_mesg m # calls k" "mesgs k' = mesgs k" "current k' = Some c"
proof -
  have "\<not> list_empty (klinks k) (MesgQueue c)" using dll_empty_iff [OF d] by simp
  then have "sys_message_pop M mid flags ctxs k = pop_scan M mid flags 1 k"
    using l c by (simp add: sys_message_pop_def)
  then show ?thesis using pop_scan_found [OF d c m xs f, of 1] that by metis
qed

text \<open>The messages that the running task gets with \<open>n\<close> calls of \<^verbatim>\<open>sys_message_pop\<close>.\<close>

primrec message_pops :: "mesg_consts \<Rightarrow> u32 \<Rightarrow> u32 \<Rightarrow> (nat \<Rightarrow> cctx) \<Rightarrow> nat \<Rightarrow> kern \<Rightarrow> (message list \<times> kern) option" where
  "message_pops M mid flags ctxs 0 k = Some ([], k)"
| "message_pops M mid flags ctxs (Suc n) k =
     Option.bind (sys_message_pop M mid flags ctxs k) (\<lambda>r. case r of
       PopRet (Inr _) (Some x) k1 \<Rightarrow>
         Option.bind (message_pops M mid flags ctxs n k1) (\<lambda>(xs, k2). Some (x # xs, k2))
     | _ \<Rightarrow> None)"

lemma message_pops_matching:
  fixes mf :: "nat \<Rightarrow> message" and mid :: u32
  assumes f: "flags AND MESG_POP_LEAVE M = 0"
  defines "P \<equiv> \<lambda>x. m_id (mf x) = mid \<or> mid = MESG_ANY M"
  shows "n = length (filter P ms) \<Longrightarrow> mesgs k = mf \<Longrightarrow> current k = Some c \<Longrightarrow> t_mesgq_lock (tasks k c) = 0 \<Longrightarrow>
     dll (klinks k) (MesgQueue c) (map Mesg ms) \<Longrightarrow>
     \<exists>k'. message_pops M mid flags ctxs n k = Some (map mf (filter P ms), k')
       \<and> dll (klinks k') (MesgQueue c) (map Mesg (filter (\<lambda>x. \<not> P x) ms))
       \<and> calls k' = rev (map Call_kfree_mesg (filter P ms)) @ calls k"
proof (induction n arbitrary: ms k)
  case 0
  then show ?case by (simp add: filter_empty_conv)
next
  case (Suc n)
  then obtain m rest where "filter P ms = m # rest" by (cases "filter P ms") auto
  then obtain xs ys where ms: "ms = xs @ m # ys" "\<forall>x \<in> set xs. \<not> P x" "P m" by (auto simp: filter_eq_Cons_iff)
  have e: "filter P xs = []" "filter (\<lambda>x. \<not> P x) xs = xs" using ms(2) by (simp_all add: filter_empty_conv)
  have d: "dll (klinks k) (MesgQueue c) (map Mesg (xs @ m # ys))" using Suc.prems(5) by (simp add: ms(1))
  obtain k1 where k1: "sys_message_pop M mid flags ctxs k = Some (PopRet (Inr 1) (Some (mesgs k m)) k1)"
    "dll (klinks k1) (MesgQueue c) (map Mesg (xs @ ys))" "t_mesgq_lock (tasks k1 c) = 0"
    "calls k1 = Call_kfree_mesg m # calls k" "mesgs k1 = mesgs k" "current k1 = Some c"
    by (rule pop_found [OF d Suc.prems(4,3) _ _ f, of mid ctxs]) (use ms Suc.prems(2) in \<open>auto simp: P_def\<close>)
  have "n = length (filter P (xs @ ys))" using Suc.prems(1) ms(1,3) by simp
  from Suc.IH [OF this _ k1(6,3,2)] show ?case using k1 Suc.prems(2) ms(1,3) e by auto
qed

subsection \<open>Guarantees\<close>

text \<open>
  C16: Messages arrive as they were sent, in the order of their arrival. A message of a permitted length
  is sent to an existing task, which is woken if it waits for a message. When the task then asks again
  and again for messages of that kind (or for any message) without leaving them in the queue, it gets
  first the messages of that kind that were in its queue before, in their order, and then the new one,
  with the pid of the sender, the kind and the bytes that were sent; the containers are freed, and the
  messages of other kinds stay in the queue in their order.
\<close>

theorem message_roundtrip:
  assumes wf: "mesgq_wf k rs gs who ms" and m: "m \<notin> set ms" and pid: "task_lookup pid k = Some (Some who)"
    and le: "len \<le> MESG_MAX_LENGTH M" and f: "flags AND MESG_POP_LEAVE M = 0" and mid: "mid = type \<or> mid = MESG_ANY M"
    and q: "qs = filter (\<lambda>x. m_id (mesgs k x) = mid \<or> mid = MESG_ANY M) ms"
    and o: "os = filter (\<lambda>x. \<not> (m_id (mesgs k x) = mid \<or> mid = MESG_ANY M)) ms"
  shows "\<exists>k' k''. sys_message_send M pid type what len (Some m) k = Some (Inr (), k')
     \<and> (t_flags (tasks k who) AND TF_WAITMESG \<noteq> 0 \<longrightarrow> T_RUNNING (tasks k' who) \<and> \<not> T_WAITING (tasks k' who))
     \<and> message_pops M mid flags ctxs (Suc (length qs)) (k'\<lparr>current := Some who\<rparr>) = Some (map (mesgs k) qs @
         [\<lparr>m_from = t_pid (tasks k (the (current k))), m_id = type, m_length = len, m_data = take (unat len) what\<rparr>], k'')
     \<and> dll (klinks k'') (MesgQueue who) (map Mesg os) \<and> calls k'' = rev (map Call_kfree_mesg (qs @ [m])) @ calls k'"
proof -
  obtain k' where k': "sys_message_send M pid type what len (Some m) k = Some (Inr (), k')"
    "mesgq_wf k' (if t_flags (tasks k who) AND TF_WAITMESG \<noteq> 0 then who # rs else rs) gs who (ms @ [m])"
    "mesgs k' = (mesgs k)(m := \<lparr>m_from = t_pid (tasks k (the (current k))), m_id = type, m_length = len,
       m_data = take (unat len) what\<rparr>)"
    "t_flags (tasks k who) AND TF_WAITMESG \<noteq> 0 \<Longrightarrow> T_RUNNING (tasks k' who) \<and> \<not> T_WAITING (tasks k' who)"
    by (rule send_wf [OF wf m pid, of M len type what]) (use le in auto)
  let ?c = "k'\<lparr>current := Some who\<rparr>" and ?P = "\<lambda>x. m_id (mesgs k' x) = mid \<or> mid = MESG_ANY M"
  have P: "filter ?P ms = qs" "filter (\<lambda>x. \<not> ?P x) ms = os" "?P m"
    using m mid by (auto simp: k'(3) q o intro!: filter_cong)
  have a: "map (mesgs k') qs = map (mesgs k) qs" using m by (auto simp: k'(3) q)
  have "t_mesgq_lock (tasks ?c who) = 0" "dll (klinks ?c) (MesgQueue who) (map Mesg (ms @ [m]))"
    using k'(2) by (simp_all add: mesgq_wf_def)
  from message_pops_matching [OF f, of "Suc (length qs)" "mesgs k'" mid "ms @ [m]" ?c who ctxs] this
  obtain k'' where "message_pops M mid flags ctxs (Suc (length qs)) ?c = Some (map (mesgs k') (qs @ [m]), k'')"
      "dll (klinks k'') (MesgQueue who) (map Mesg os)" "calls k'' = rev (map Call_kfree_mesg (qs @ [m])) @ calls k'"
    using P by auto
  then show ?thesis using k'(1,4) a by (auto simp: k'(3) simp del: message_pops.simps)
qed

definition demo_mesg :: mesg_consts where
  "demo_mesg = \<lparr>MESG_MAX_LENGTH = 1024, MESG_POP_WAIT = 1, MESG_POP_LEAVE = 2, MESG_ANY = 0xFFFFFFFF\<rparr>"

theorem message_roundtrip_witness:
  "\<exists>k' k''. sys_message_send demo_mesg 2 6 [10, 20, 30] 2 (Some 9) demo_kern = Some (Inr (), k')
     \<and> message_pops demo_mesg (MESG_ANY demo_mesg) 0 (\<lambda>_. zero_ctx) 2 (k'\<lparr>current := Some 2\<rparr>) = Some ([mesgs demo_kern 7,
         \<lparr>m_from = 1, m_id = 6, m_length = 2, m_data = [10, 20]\<rparr>], k'')"
proof -
  have wf: "mesgq_wf demo_kern [2, 1, 0] [2, 1, 0] 2 [7]"
    using demo_kern_wf by (simp add: mesgq_wf_def kern_wf_def demo_mq_def demo_kern_sel demo_tasks_def zero_task_def)
  have pid: "task_lookup 2 demo_kern = Some (Some 2)"
    using task_lookup_unique [OF kern_wf_sched [OF demo_kern_wf], of 2]
    by (auto simp: demo_kern_sel demo_tasks_def)
  show ?thesis
    using message_roundtrip [OF wf _ pid, of 9 2 demo_mesg 0 "MESG_ANY demo_mesg" 6 "[7]" "[]" "[10, 20, 30]" "\<lambda>_. zero_ctx"]
    by (auto simp: demo_mesg_def demo_kern_sel demo_tasks_def numeral_2_eq_2 [symmetric] simp del: message_pops.simps)
qed

end
