(* ===== verification/Ring.thy ===== *)
theory Ring
  imports Prelude
begin

text \<open>
  Ring buffers. Pipes and terminals both keep bytes in an array with a read and a write index that
  wrap at the end of the array; equal indices mean that the buffer is empty, so that one cell is
  always unused. This theory has the sequence of bytes that such a buffer holds, and the interface of
  a byte queue as a locale. \<open>Pipe\<close> and \<open>Tty\<close> interpret it with their own operations.
\<close>

subsection \<open>The bytes in the buffer\<close>

definition ring_count :: "nat \<Rightarrow> nat \<Rightarrow> nat \<Rightarrow> nat" where
  "ring_count n r w = (if r \<le> w then w - r else n - r + w)"

definition ring_bytes :: "u8 list \<Rightarrow> nat \<Rightarrow> nat \<Rightarrow> u8 list" where
  "ring_bytes buf r w = (if r \<le> w then take (w - r) (drop r buf) else drop r buf @ take w buf)"

definition ring_succ :: "nat \<Rightarrow> nat \<Rightarrow> nat" where
  "ring_succ n i = (if Suc i = n then 0 else Suc i)"

lemma ring_succ_less: "i < n \<Longrightarrow> ring_succ n i < n"
  by (simp add: ring_succ_def)

lemma length_ring_bytes:
  "r < length buf \<Longrightarrow> w < length buf \<Longrightarrow> length (ring_bytes buf r w) = ring_count (length buf) r w"
  by (simp add: ring_bytes_def ring_count_def)

lemma ring_bytes_empty: "r < length buf \<Longrightarrow> w < length buf \<Longrightarrow> ring_bytes buf r w = [] \<longleftrightarrow> r = w"
  by (auto simp: ring_bytes_def)

lemma ring_bytes_get:
  assumes "r < length buf" "w < length buf" "r \<noteq> w"
  shows "ring_bytes buf r w = buf ! r # ring_bytes buf (ring_succ (length buf) r) w"
proof -
  have d: "drop r buf = buf ! r # drop (Suc r) buf" using assms(1) by (simp add: Cons_nth_drop_Suc)
  show ?thesis
  proof (cases "r \<le> w")
    case True
    then obtain m where m: "w - r = Suc m" using assms(3) by (metis Suc_diff_Suc le_neq_implies_less)
    then have "w - Suc r = m" "Suc r \<noteq> length buf" "Suc r \<le> w" using assms True by auto
    then show ?thesis using True d m by (simp add: ring_bytes_def ring_succ_def)
  next
    case False
    then show ?thesis using d assms by (auto simp: ring_bytes_def ring_succ_def)
  qed
qed

lemma ring_bytes_put:
  assumes r: "r < length buf" and w: "w < length buf" and room: "ring_count (length buf) r w < length buf - 1"
  shows "ring_bytes (buf[w := c]) r (ring_succ (length buf) w) = ring_bytes buf r w @ [c]"
proof (cases "r \<le> w")
  case True
  have d: "drop r (buf[w := c]) = (drop r buf)[w - r := c]" using True by (simp add: drop_update_swap)
  have n: "w - r < length (drop r buf)" using w True by simp
  have t: "take (Suc (w - r)) ((drop r buf)[w - r := c]) = take (w - r) (drop r buf) @ [c]"
    using n by (simp add: take_Suc_conv_app_nth)
  show ?thesis
  proof (cases "Suc w = length buf")
    case True
    then have "r \<noteq> 0" using room \<open>r \<le> w\<close> w by (auto simp: ring_count_def)
    moreover have "(drop r buf)[w - r := c] = take (w - r) (drop r buf) @ [c]"
      using t n True \<open>r \<le> w\<close> by (metis Suc_diff_le length_drop length_list_update order_refl take_all_iff)
    ultimately show ?thesis using \<open>r \<le> w\<close> True d by (simp add: ring_bytes_def ring_succ_def)
  next
    case False
    have "Suc w - r = Suc (w - r)" using \<open>r \<le> w\<close> by simp
    then show ?thesis using \<open>r \<le> w\<close> False d t by (simp add: ring_bytes_def ring_succ_def)
  qed
next
  case False
  then have "Suc w < r" using room r by (simp add: ring_count_def)
  moreover have "take (Suc w) (buf[w := c]) = take w buf @ [c]" using w by (simp add: take_Suc_conv_app_nth)
  ultimately show ?thesis using False r by (simp add: ring_bytes_def ring_succ_def)
qed

subsection \<open>The interface of a byte queue\<close>

locale byte_queue =
  fixes inv :: "'q \<Rightarrow> bool"
    and bytes :: "'q \<Rightarrow> u8 list"
    and room :: "'q \<Rightarrow> nat"
    and put :: "u8 \<Rightarrow> 'q \<Rightarrow> 'q"
    and get :: "'q \<Rightarrow> u8 \<times> 'q"
  assumes put_inv: "inv q \<Longrightarrow> length (bytes q) < room q \<Longrightarrow> inv (put c q)"
    and put_bytes: "inv q \<Longrightarrow> length (bytes q) < room q \<Longrightarrow> bytes (put c q) = bytes q @ [c]"
    and put_room: "room (put c q) = room q"
    and get_inv: "inv q \<Longrightarrow> bytes q \<noteq> [] \<Longrightarrow> inv (snd (get q))"
    and get_bytes: "inv q \<Longrightarrow> bytes q \<noteq> [] \<Longrightarrow> bytes q = fst (get q) # bytes (snd (get q))"
begin

lemma puts:
  "inv q \<Longrightarrow> length (bytes q) + length cs \<le> room q \<Longrightarrow>
   inv (fold put cs q) \<and> bytes (fold put cs q) = bytes q @ cs \<and> room (fold put cs q) = room q"
proof (induction cs arbitrary: q)
  case (Cons c cs)
  have l: "length (bytes q) < room q" using Cons.prems by simp
  have "inv (put c q)" "bytes (put c q) = bytes q @ [c]" "room (put c q) = room q"
    using put_inv [OF Cons.prems(1) l] put_bytes [OF Cons.prems(1) l] put_room by auto
  then show ?case using Cons.IH [of "put c q"] Cons.prems by simp
qed simp

primrec gets :: "nat \<Rightarrow> 'q \<Rightarrow> u8 list \<times> 'q" where
  "gets 0 q = ([], q)"
| "gets (Suc n) q = (let (c, q1) = get q; (cs, q2) = gets n q1 in (c # cs, q2))"

lemma gets_bytes:
  "inv q \<Longrightarrow> n \<le> length (bytes q) \<Longrightarrow>
   fst (gets n q) = take n (bytes q) \<and> bytes (snd (gets n q)) = drop n (bytes q) \<and> inv (snd (gets n q))"
proof (induction n arbitrary: q)
  case (Suc n)
  obtain c q1 where g: "get q = (c, q1)" by fastforce
  have ne: "bytes q \<noteq> []" using Suc.prems by auto
  have b: "bytes q = c # bytes q1" and i: "inv q1" using get_bytes [OF Suc.prems(1) ne] get_inv [OF Suc.prems(1) ne] g by auto
  have "n \<le> length (bytes q1)" using Suc.prems b by simp
  then show ?case using Suc.IH [OF i] g b by (auto simp: case_prod_beta Let_def)
qed simp

text \<open>What goes in comes out, in order.\<close>

lemma puts_gets:
  assumes "inv q" "length (bytes q) + length cs \<le> room q"
  shows "fst (gets (length (bytes q) + length cs) (fold put cs q)) = bytes q @ cs"
proof -
  have p: "inv (fold put cs q)" "bytes (fold put cs q) = bytes q @ cs" using puts [OF assms] by simp_all
  have "length (bytes q) + length cs = length (bytes (fold put cs q))" using p(2) by simp
  then show ?thesis using gets_bytes [OF p(1)] p(2) by simp
qed

end

end
