(* ===== verification/Pipe.thy ===== *)
theory Pipe
  imports Ring TaskSpec
begin

text \<open>
  Pipes: \<^verbatim>\<open>kernel/src/pipe.c\<close> and \<^verbatim>\<open>pipe.h\<close>.

  A pipe is the record \<open>pipe\<close>; its buffer is a list of bytes and the two pointers into it are indices.
  The list of open pipes is a pointer level list: \<open>None\<close> is the head \<^verbatim>\<open>pipe_list\<close>, \<open>Some p\<close> the link of
  pipe \<open>p\<close>. A reader that finds the pipe empty blocks with the bytes it has so far; the rest of its
  \<^verbatim>\<open>pipe_read\<close> is \<open>pipe_read_resume\<close>.
\<close>

definition KERNEL_PIPE_LENGTH :: nat where "KERNEL_PIPE_LENGTH = 1024"

text \<open>The file access modes of the C library.\<close>

definition O_RDONLY :: u32 where "O_RDONLY = 0"
definition O_WRONLY :: u32 where "O_WRONLY = 1"
definition O_RDWR :: u32 where "O_RDWR = 2"

record pipe =
  p_buffer :: "u8 list"
  p_length :: nat
  p_read :: nat
  p_write :: nat
  nreaders :: u32
  nwriters :: u32
  wrlock :: u32
  rdlock :: u32
  p_inode :: nat
  p_reader :: "nat option"

record pipes =
  pipe_at :: "nat \<Rightarrow> pipe"
  pipe_links :: "nat option links"
  pipe_kfreed :: "nat list"

subsection \<open>Opening and closing\<close>

definition find_open_pipe :: "nat \<Rightarrow> pipes \<Rightarrow> nat option option" where
  "find_open_pipe inode ps =
     map_option (map_option the)
       (list_find (pipe_links ps) None (\<lambda>n. p_inode (pipe_at ps (the n)) = inode) (lnext (pipe_links ps) None))"

definition new_pipe :: "u8 list \<Rightarrow> nat \<Rightarrow> pipe" where
  "new_pipe mem inode = \<lparr>p_buffer = mem, p_length = KERNEL_PIPE_LENGTH, p_read = 0, p_write = 0,
     nreaders = 0, nwriters = 0, wrlock = spin_init 0, rdlock = spin_init 0, p_inode = inode, p_reader = None\<rparr>"

definition pipe_modes :: "u32 \<Rightarrow> (u32 \<Rightarrow> u32) \<Rightarrow> pipe \<Rightarrow> pipe" where
  "pipe_modes mode f p =
     (let p1 = (if mode AND O_RDONLY \<noteq> 0 \<or> mode AND O_RDWR \<noteq> 0 then p\<lparr>nreaders := f (nreaders p)\<rparr> else p)
      in if mode AND O_WRONLY \<noteq> 0 \<or> mode AND O_RDWR \<noteq> 0 then p1\<lparr>nwriters := f (nwriters p1)\<rparr> else p1)"

text \<open>
  \<open>a\<close> is the address \<^verbatim>\<open>kmalloc\<close> returns for the structure, \<open>mem\<close> the memory it returns for the buffer.
  The result is the pipe that the file gets as its private data.
\<close>

definition pipe_open :: "nat \<Rightarrow> u32 \<Rightarrow> nat option \<Rightarrow> u8 list option \<Rightarrow> pipes \<Rightarrow> (nat result \<times> pipes) option" where
  "pipe_open inode mode a mem ps =
     Option.bind (find_open_pipe inode ps) (\<lambda>r.
       let finish = (\<lambda>p ps. (Inr p, ps\<lparr>pipe_at := (pipe_at ps)(p := pipe_modes mode (\<lambda>n. n + 1) (pipe_at ps p))\<rparr>)) in
       case r of
         Some p \<Rightarrow> Some (finish p ps)
       | None \<Rightarrow>
           (case a of
              None \<Rightarrow> Some (Inl ENOMEM, ps)
            | Some p \<Rightarrow>
                (case mem of
                   None \<Rightarrow> Some (Inl ENOMEM, ps\<lparr>pipe_kfreed := p # pipe_kfreed ps\<rparr>)
                 | Some b \<Rightarrow>
                     Some (finish p (ps\<lparr>pipe_at := (pipe_at ps)(p := new_pipe b inode),
                       pipe_links := list_add (Some p) None (INIT_LIST (Some p) (pipe_links ps))\<rparr>)))))"

definition pipe_close :: "u32 \<Rightarrow> nat \<Rightarrow> pipes \<Rightarrow> pipes" where
  "pipe_close status p ps =
     (let ps1 = ps\<lparr>pipe_at := (pipe_at ps)(p := pipe_modes status (\<lambda>n. n - 1) (pipe_at ps p))\<rparr> in
      if nwriters (pipe_at ps1 p) = 0 \<and> nreaders (pipe_at ps1 p) = 0
      then ps1\<lparr>pipe_links := list_rem (Some p) (pipe_links ps1), pipe_kfreed := p # pipe_kfreed ps1\<rparr>
      else ps1)"

subsection \<open>Reading and writing\<close>

definition pipe_get :: "pipe \<Rightarrow> u8 \<times> pipe" where
  "pipe_get p = (p_buffer p ! p_read p,
     p\<lparr>p_read := (if Suc (p_read p) = p_length p then 0 else Suc (p_read p))\<rparr>)"

definition pipe_put :: "u8 \<Rightarrow> pipe \<Rightarrow> pipe" where
  "pipe_put c p = p\<lparr>p_buffer := (p_buffer p)[p_write p := c],
     p_write := (if Suc (p_write p) = p_length p then 0 else Suc (p_write p))\<rparr>"

text \<open>The inner loop of \<^verbatim>\<open>pipe_read\<close>; \<open>acc\<close> is what has been copied to the caller's buffer.\<close>

function pipe_drain :: "nat \<Rightarrow> u8 list \<Rightarrow> pipe \<Rightarrow> u8 list \<times> pipe" where
  "pipe_drain count acc p =
     (if p_read p \<noteq> p_write p \<and> length acc < count
      then (let (c, p') = pipe_get p in pipe_drain count (acc @ [c]) p')
      else (acc, p))"
  by auto
termination
  by (relation "measure (\<lambda>(count, acc, p). count - length acc)") auto

declare pipe_drain.simps [simp del]

datatype read_outcome = ReadRet int "u8 list" | ReadBlocked "u8 list"

partial_function (option) pipe_read_loop ::
  "u32 \<Rightarrow> (nat \<Rightarrow> cctx) \<Rightarrow> u8 list \<Rightarrow> pipe \<Rightarrow> kern \<Rightarrow> (read_outcome \<times> pipe \<times> kern) option" where
  "pipe_read_loop count ctxs acc p k =
     (if int (length acc) < sint count then
        if nwriters p = 0 \<and> p_read p = p_write p then
          Some (ReadRet (if acc = [] then - 1 else int (length acc)) acc, p\<lparr>rdlock := spin_unlock (rdlock p)\<rparr>, k)
        else if p_read p = p_write p then
          Option.bind (task_wait (the (current k)) TF_WAITIO ctxs k) (\<lambda>k'. Some (ReadBlocked acc, p, k'))
        else
          pipe_read_loop count ctxs (fst (pipe_drain (unat count) acc p)) (snd (pipe_drain (unat count) acc p)) k
      else Some (ReadRet (int (length acc)) acc, p\<lparr>p_reader := None, rdlock := spin_unlock (rdlock p)\<rparr>, k))"

declare pipe_read_loop.simps [code]

definition pipe_read :: "u32 \<Rightarrow> (nat \<Rightarrow> cctx) \<Rightarrow> pipe \<Rightarrow> kern \<Rightarrow> (read_outcome \<times> pipe \<times> kern) option" where
  "pipe_read count ctxs p k =
     Option.bind (spin_lock (rdlock p)) (\<lambda>l.
       pipe_read_loop count ctxs [] (p\<lparr>rdlock := l, p_reader := current k\<rparr>) k)"

definition pipe_read_resume ::
  "u32 \<Rightarrow> (nat \<Rightarrow> cctx) \<Rightarrow> u8 list \<Rightarrow> pipe \<Rightarrow> kern \<Rightarrow> (read_outcome \<times> pipe \<times> kern) option" where
  "pipe_read_resume count ctxs acc p k =
     (let (acc', p') = pipe_drain (unat count) acc p in pipe_read_loop count ctxs acc' p' k)"

text \<open>\<^verbatim>\<open>pipe_write\<close>; \<open>data\<close> is the memory the caller passes.\<close>

definition pipe_write :: "u8 list \<Rightarrow> u32 \<Rightarrow> pipe \<Rightarrow> kern \<Rightarrow> (int \<times> pipe \<times> kern) option" where
  "pipe_write data count p k =
     Option.bind (spin_lock (wrlock p)) (\<lambda>l.
       let p1 = fold pipe_put (take (nat (sint count)) data) (p\<lparr>wrlock := l\<rparr>);
           p2 = p1\<lparr>wrlock := spin_unlock l\<rparr>;
           k1 = (case p_reader p2 of
                   None \<Rightarrow> k
                 | Some t \<Rightarrow> if T_WAITING (tasks k t) then task_wakeup t k else k)
       in Some (max 0 (sint count), p2, k1))"

subsection \<open>The bytes in a pipe\<close>

definition pipe_wf :: "pipe \<Rightarrow> bool" where
  "pipe_wf p \<longleftrightarrow> p_length p = length (p_buffer p) \<and> p_read p < p_length p \<and> p_write p < p_length p"

definition pipe_bytes :: "pipe \<Rightarrow> u8 list" where
  "pipe_bytes p = ring_bytes (p_buffer p) (p_read p) (p_write p)"

definition pipe_room :: "pipe \<Rightarrow> nat" where
  "pipe_room p = p_length p - 1"

interpretation pq: byte_queue pipe_wf pipe_bytes pipe_room pipe_put pipe_get
proof
  show "pipe_wf q \<Longrightarrow> length (pipe_bytes q) < pipe_room q \<Longrightarrow> pipe_wf (pipe_put c q)" for q c
    by (auto simp: pipe_wf_def pipe_put_def)
  show "pipe_wf q \<Longrightarrow> length (pipe_bytes q) < pipe_room q \<Longrightarrow> pipe_bytes (pipe_put c q) = pipe_bytes q @ [c]" for q c
    using ring_bytes_put [of "p_read q" "p_buffer q" "p_write q" c] length_ring_bytes [of "p_read q" "p_buffer q" "p_write q"]
    by (simp add: pipe_wf_def pipe_put_def pipe_bytes_def pipe_room_def ring_succ_def)
  show "pipe_room (pipe_put c q) = pipe_room q" for q c by (simp add: pipe_room_def pipe_put_def)
  show "pipe_wf q \<Longrightarrow> pipe_bytes q \<noteq> [] \<Longrightarrow> pipe_wf (snd (pipe_get q))" for q
    by (auto simp: pipe_wf_def pipe_get_def)
  show "pipe_wf q \<Longrightarrow> pipe_bytes q \<noteq> [] \<Longrightarrow> pipe_bytes q = fst (pipe_get q) # pipe_bytes (snd (pipe_get q))" for q
    using ring_bytes_get [of "p_read q" "p_buffer q" "p_write q"] ring_bytes_empty [of "p_read q" "p_buffer q" "p_write q"]
    by (simp add: pipe_wf_def pipe_get_def pipe_bytes_def ring_succ_def)
qed

lemma pipe_empty: "pipe_wf p \<Longrightarrow> pipe_bytes p = [] \<longleftrightarrow> p_read p = p_write p"
  by (simp add: pipe_wf_def pipe_bytes_def ring_bytes_empty)

lemma pipe_get_sel:
  "p_reader (snd (pipe_get p)) = p_reader p" "rdlock (snd (pipe_get p)) = rdlock p" "wrlock (snd (pipe_get p)) = wrlock p"
  "nwriters (snd (pipe_get p)) = nwriters p"
  by (simp_all add: pipe_get_def)

lemma pipe_drain_correct:
  assumes "pipe_wf p" "length acc \<le> count"
  shows "fst (pipe_drain count acc p) = acc @ take (count - length acc) (pipe_bytes p)
     \<and> pipe_bytes (snd (pipe_drain count acc p)) = drop (count - length acc) (pipe_bytes p)
     \<and> pipe_wf (snd (pipe_drain count acc p)) \<and> nwriters (snd (pipe_drain count acc p)) = nwriters p
     \<and> rdlock (snd (pipe_drain count acc p)) = rdlock p \<and> wrlock (snd (pipe_drain count acc p)) = wrlock p
     \<and> p_reader (snd (pipe_drain count acc p)) = p_reader p"
  using assms
proof (induction count acc p rule: pipe_drain.induct)
  case (1 count acc p)
  show ?case
  proof (cases "p_read p \<noteq> p_write p \<and> length acc < count")
    case True
    obtain c p' where g: "pipe_get p = (c, p')" by fastforce
    have ne: "pipe_bytes p \<noteq> []" using True pipe_empty [OF 1(2)] by simp
    have b: "pipe_bytes p = c # pipe_bytes p'" and w: "pipe_wf p'"
      using pq.get_bytes [OF 1(2) ne] pq.get_inv [OF 1(2) ne] g by auto
    have s: "p_reader p' = p_reader p" "rdlock p' = rdlock p" "wrlock p' = wrlock p" "nwriters p' = nwriters p"
      using pipe_get_sel [of p] g by auto
    obtain m where m: "count - length acc = Suc m" "count - length (acc @ [c]) = m" using True by (metis Suc_diff_Suc diff_Suc_1 length_append_singleton minus_nat.diff_Suc)
    have u: "pipe_drain count acc p = pipe_drain count (acc @ [c]) p'"
      by (subst pipe_drain.simps) (simp only: True g, simp)
    have "fst (pipe_drain count (acc @ [c]) p') = (acc @ [c]) @ take m (pipe_bytes p')
       \<and> pipe_bytes (snd (pipe_drain count (acc @ [c]) p')) = drop m (pipe_bytes p')
       \<and> pipe_wf (snd (pipe_drain count (acc @ [c]) p')) \<and> nwriters (snd (pipe_drain count (acc @ [c]) p')) = nwriters p'
       \<and> rdlock (snd (pipe_drain count (acc @ [c]) p')) = rdlock p' \<and> wrlock (snd (pipe_drain count (acc @ [c]) p')) = wrlock p'
       \<and> p_reader (snd (pipe_drain count (acc @ [c]) p')) = p_reader p'"
      using 1(1) [OF True g [symmetric]] w True m(2) by simp
    then show ?thesis unfolding u m(1) b by (simp add: s)
  next
    case False
    have "pipe_bytes p = [] \<or> count - length acc = 0" using False pipe_empty [OF 1(2)] by auto
    then show ?thesis using False 1(2) by (subst (1 2 3 4 5 6 7) pipe_drain.simps) auto
  qed
qed

lemma pipe_puts_sel:
  "p_reader (fold pipe_put cs p) = p_reader p" "rdlock (fold pipe_put cs p) = rdlock p"
  "nwriters (fold pipe_put cs p) = nwriters p" "p_length (fold pipe_put cs p) = p_length p"
  "p_read (fold pipe_put cs p) = p_read p"
  by (induction cs arbitrary: p) (simp_all add: pipe_put_def)

lemma pipe_bytes_locks [simp]:
  "pipe_bytes (p\<lparr>wrlock := x\<rparr>) = pipe_bytes p" "pipe_wf (p\<lparr>wrlock := x\<rparr>) = pipe_wf p"
  "pipe_bytes (p\<lparr>rdlock := x\<rparr>) = pipe_bytes p" "pipe_wf (p\<lparr>rdlock := x\<rparr>) = pipe_wf p"
  "pipe_bytes (p\<lparr>p_reader := r\<rparr>) = pipe_bytes p" "pipe_wf (p\<lparr>p_reader := r\<rparr>) = pipe_wf p"
  "pipe_room (p\<lparr>wrlock := x\<rparr>) = pipe_room p"
  by (simp_all add: pipe_bytes_def pipe_wf_def pipe_room_def)

lemma pipe_write_correct:
  assumes wf: "pipe_wf p" and l: "wrlock p = 0" and n: "sint count = int (length data)"
    and room: "length (pipe_bytes p) + length data \<le> pipe_room p"
  obtains p' where "pipe_write data count p k = Some (int (length data), p',
      case p_reader p of None \<Rightarrow> k | Some t \<Rightarrow> if T_WAITING (tasks k t) then task_wakeup t k else k)"
    "pipe_bytes p' = pipe_bytes p @ data" "pipe_wf p'" "wrlock p' = 0" "rdlock p' = rdlock p"
    "p_reader p' = p_reader p" "nwriters p' = nwriters p"
proof -
  let ?p = "fold pipe_put data (p\<lparr>wrlock := 1\<rparr>)"
  have "pipe_wf ?p \<and> pipe_bytes ?p = pipe_bytes (p\<lparr>wrlock := 1\<rparr>) @ data \<and> pipe_room ?p = pipe_room (p\<lparr>wrlock := 1\<rparr>)"
    by (rule pq.puts) (use wf room in simp_all)
  then show ?thesis
    using that [of "?p\<lparr>wrlock := 0\<rparr>"] l n by (simp add: pipe_write_def Let_def pipe_puts_sel)
qed

text \<open>A reader that asks for no more bytes than there are gets them at once.\<close>

lemma pipe_read_loop_ready:
  assumes wf: "pipe_wf p" and m: "sint count = int m" and a: "length acc \<le> m"
    and have_them: "m - length acc \<le> length (pipe_bytes p)"
  obtains p' where "pipe_read_loop count ctxs acc p k = Some (ReadRet (int m) (acc @ take (m - length acc) (pipe_bytes p)), p', k)"
    "pipe_bytes p' = drop (m - length acc) (pipe_bytes p)" "pipe_wf p'" "rdlock p' = 0" "wrlock p' = wrlock p" "p_reader p' = None"
proof (cases "length acc = m")
  case True
  then have "pipe_read_loop count ctxs acc p k = Some (ReadRet (int m) acc, p\<lparr>p_reader := None, rdlock := 0\<rparr>, k)"
    using m by (subst pipe_read_loop.simps) simp
  then show ?thesis using that [of "p\<lparr>p_reader := None, rdlock := 0\<rparr>"] True wf by simp
next
  case False
  have uc: "unat count = m" by (rule unat_sint_u32 [OF m])
  let ?d = "pipe_drain m acc p"
  have ne: "p_read p \<noteq> p_write p" using False a have_them pipe_empty [OF wf] by auto
  note d = pipe_drain_correct [OF wf a]
  have full: "length (fst ?d) = m" using d have_them a by auto
  have "pipe_read_loop count ctxs acc p k = pipe_read_loop count ctxs (fst ?d) (snd ?d) k"
    using False a ne m uc by (subst pipe_read_loop.simps) simp
  also have "\<dots> = Some (ReadRet (int m) (fst ?d), (snd ?d)\<lparr>p_reader := None, rdlock := 0\<rparr>, k)"
    using full m by (subst pipe_read_loop.simps) simp
  finally show ?thesis using that [of "(snd ?d)\<lparr>p_reader := None, rdlock := 0\<rparr>"] d by auto
qed

subsection \<open>Guarantees\<close>

definition demo_pipe :: pipe where
  "demo_pipe = (new_pipe (replicate 4 0) 7)\<lparr>p_length := 4, p_read := 3, p_write := 3, nwriters := 1\<rparr>"

lemma demo_pipe_wf: "pipe_wf demo_pipe" "pipe_bytes demo_pipe = []" "pipe_room demo_pipe = 3" "wrlock demo_pipe = 0"
  "rdlock demo_pipe = 0" "p_reader demo_pipe = None"
  by (simp_all add: demo_pipe_def new_pipe_def pipe_wf_def pipe_bytes_def ring_bytes_def pipe_room_def)

text \<open>
  C17: A pipe is a first in, first out queue of bytes. When there is room for them, \<^verbatim>\<open>pipe_write\<close> appends the
  bytes to those in the pipe and returns their number; a \<^verbatim>\<open>pipe_read\<close> of at most as many bytes as there
  are returns the oldest bytes in order and leaves the others. Both release their locks.
\<close>

theorem pipe_fifo:
  assumes wf: "pipe_wf p" "wrlock p = 0" "rdlock p = 0" and n: "sint wcount = int (length data)"
    and room: "length (pipe_bytes p) + length data \<le> pipe_room p"
    and m: "sint rcount = int m" "m \<le> length (pipe_bytes p) + length data"
  shows "\<exists>p' p'' k'. pipe_write data wcount p k = Some (int (length data), p', k')
     \<and> pipe_bytes p' = pipe_bytes p @ data
     \<and> pipe_read rcount ctxs p' k' = Some (ReadRet (int m) (take m (pipe_bytes p @ data)), p'', k')
     \<and> pipe_bytes p'' = drop m (pipe_bytes p @ data) \<and> pipe_wf p'' \<and> wrlock p'' = 0 \<and> rdlock p'' = 0"
proof -
  let ?k = "case p_reader p of None \<Rightarrow> k | Some t \<Rightarrow> if T_WAITING (tasks k t) then task_wakeup t k else k"
  obtain p' where p': "pipe_write data wcount p k = Some (int (length data), p', ?k)"
    "pipe_bytes p' = pipe_bytes p @ data" "pipe_wf p'" "wrlock p' = 0" "rdlock p' = rdlock p"
    by (rule pipe_write_correct [OF wf(1,2) n room, of k])
  let ?q = "p'\<lparr>rdlock := 1, p_reader := current ?k\<rparr>"
  obtain p'' where p'': "pipe_read_loop rcount ctxs [] ?q ?k
      = Some (ReadRet (int m) ([] @ take (m - length ([] :: u8 list)) (pipe_bytes ?q)), p'', ?k)"
    "pipe_bytes p'' = drop (m - length ([] :: u8 list)) (pipe_bytes ?q)" "pipe_wf p''" "rdlock p'' = 0" "wrlock p'' = wrlock ?q"
    by (rule pipe_read_loop_ready [of ?q rcount m "[]" ctxs ?k]) (use p' m in simp_all)
  show ?thesis using p' p'' wf(3) by (auto simp: pipe_read_def)
qed

theorem pipe_fifo_witness:
  "\<exists>p' p'' k'. pipe_write [1, 2, 3] 3 demo_pipe demo_kern = Some (3, p', k') \<and> pipe_bytes p' = [1, 2, 3]
     \<and> pipe_read 2 (\<lambda>_. zero_ctx) p' k' = Some (ReadRet 2 [1, 2], p'', k') \<and> pipe_bytes p'' = [3]"
  using pipe_fifo [of demo_pipe 3 "[1, 2, 3]" 2 2 demo_kern "\<lambda>_. zero_ctx"]
  by (auto simp: demo_pipe_wf)



lemma pipe_puts_write:
  "p_write p < p_length p \<Longrightarrow> p_write (fold pipe_put cs p) = (p_write p + length cs) mod p_length p"
proof (induction cs arbitrary: p)
  case (Cons c cs)
  have w: "p_write (pipe_put c p) = Suc (p_write p) mod p_length p" "p_length (pipe_put c p) = p_length p"
    using Cons.prems by (auto simp: pipe_put_def)
  have "p_write (pipe_put c p) < p_length (pipe_put c p)" using Cons.prems w by (metis mod_less_divisor less_nat_zero_code not_gr_zero)
  then have "p_write (fold pipe_put cs (pipe_put c p)) = (p_write (pipe_put c p) + length cs) mod p_length p"
    using Cons.IH [of "pipe_put c p"] w by simp
  then show ?case using w by (simp add: mod_add_left_eq)
qed simp

text \<open>
  \<^verbatim>\<open>pipe_write\<close> does not look at how much room there is. Writing as many bytes as the buffer is long into
  an empty pipe reports that all of them were written and leaves a pipe that is empty for its reader.
\<close>

theorem pipe_overflow:
  assumes "pipe_wf p" "wrlock p = 0" "pipe_bytes p = []" "length data = p_length p" "sint count = int (length data)"
  shows "\<exists>p' k'. pipe_write data count p k = Some (int (length data), p', k') \<and> p_read p' = p_write p'"
proof -
  have rw: "p_read p = p_write p" using pipe_empty [OF assms(1)] assms(3) by simp
  have "p_write p < p_length p" using assms(1) by (simp add: pipe_wf_def)
  then have "p_write (fold pipe_put data (p\<lparr>wrlock := 1\<rparr>)) = p_write p"
    using pipe_puts_write [of "p\<lparr>wrlock := 1\<rparr>" data] assms(4) by simp
  then show ?thesis using assms(2,5) rw by (simp add: pipe_write_def Let_def pipe_puts_sel)
qed

theorem pipe_overflow_witness:
  "\<exists>p' k'. pipe_write [1, 2, 3, 4] 4 demo_pipe demo_kern = Some (4, p', k') \<and> p_read p' = p_write p'"
  using pipe_overflow [OF demo_pipe_wf(1,4,2), of "[1, 2, 3, 4]" 4 demo_kern] by (simp add: demo_pipe_def new_pipe_def)

end
