(* ===== verification/Chrdev.thy ===== *)
theory Chrdev
  imports Prelude
begin

text \<open>
  Character devices: \<^verbatim>\<open>kernel/src/chrdev.c\<close>. The table of 256 pointers is a partial function; the file
  operations that a driver registers are values of a type parameter.
\<close>

record 'f chrdev =
  chr_name :: string
  chr_fops :: 'f

type_synonym 'f chrdevs = "nat \<Rightarrow> 'f chrdev option"

text \<open>\<open>ok\<close> says whether \<^verbatim>\<open>kmalloc\<close> returns memory. At most 63 characters of the name are kept.\<close>

definition register_chrdev :: "nat \<Rightarrow> string \<Rightarrow> 'f \<Rightarrow> bool \<Rightarrow> 'f chrdevs \<Rightarrow> unit result \<times> 'f chrdevs" where
  "register_chrdev major name fops ok devs =
     (if 256 \<le> major then (Inl EEXIST, devs)
      else if devs major \<noteq> None then (Inl EEXIST, devs)
      else if \<not> ok then (Inl ENOMEM, devs)
      else (Inr (), devs(major \<mapsto> \<lparr>chr_name = take 63 name, chr_fops = fops\<rparr>)))"

definition unregister_chrdev :: "nat \<Rightarrow> 'f chrdevs \<Rightarrow> unit result \<times> 'f chrdevs" where
  "unregister_chrdev major devs =
     (if 256 \<le> major then (Inl EEXIST, devs)
      else if devs major = None then (Inr (), devs)
      else (Inr (), devs(major := None)))"

definition get_chrdev_fops :: "nat \<Rightarrow> 'f chrdevs \<Rightarrow> 'f option" where
  "get_chrdev_fops major devs = (if 256 \<le> major then None else map_option chr_fops (devs major))"

lemma register_get:
  assumes "major < 256" "devs major = None"
  shows "fst (register_chrdev major name fops True devs) = Inr ()"
    and "get_chrdev_fops m (snd (register_chrdev major name fops True devs))
       = (if m = major then Some fops else get_chrdev_fops m devs)"
  using assms by (auto simp: register_chrdev_def get_chrdev_fops_def)

lemma unregister_register:
  assumes "major < 256" "devs major = None"
  shows "unregister_chrdev major (snd (register_chrdev major name fops True devs)) = (Inr (), devs)"
  using assms by (auto simp: register_chrdev_def unregister_chrdev_def)

end
