(* ===== verification/Tty.thy ===== *)
theory Tty
  imports Ring Chrdev TaskSpec
begin

text \<open>
  Terminals: \<^verbatim>\<open>kernel/src/tty.c\<close> and \<^verbatim>\<open>tty.h\<close>: the input queue with its line discipline, and the file
  operations on a terminal.

  The constants of \<^verbatim>\<open>termios.h\<close>, a header of the C library, are the parameters \<open>tio_consts\<close>. A terminal driver
  is a table of functions that may be absent; they act on the state \<open>'d\<close> of the driver. Characters are
  bytes; a character is signed and a control character is not, which matters when they are compared. Byte counts are natural numbers: the model is of
  requests below \<open>2 ^ 31\<close> bytes, where the signed and unsigned sizes of the code agree. A read that finds no
  input blocks; the rest of it is \<open>tty_file_read_resume\<close>. \<open>None\<close> is a call through a null pointer, or a
  lock that is never released.
\<close>

record tio_consts =
  ISTRIP :: u32
  INLCR :: u32
  IGNCR :: u32
  ICRNL :: u32
  IUCLC :: u32
  CS8 :: u32
  ICANON :: u32
  ECHO :: u32
  ECHOE :: u32
  ECHONL :: u32
  VEOL :: nat
  VERASE :: nat
  VTIME :: nat

record termios =
  c_iflag :: u32
  c_oflag :: u32
  c_cflag :: u32
  c_lflag :: u32
  c_cc :: "nat \<Rightarrow> u8"

definition TTY_QUEUELEN :: nat where "TTY_QUEUELEN = 1024"

record 'd tty_operations =
  op_putchar :: "(u8 \<Rightarrow> 'd \<Rightarrow> int \<times> 'd) option"
  op_write :: "(u8 list \<Rightarrow> nat \<Rightarrow> 'd \<Rightarrow> int \<times> 'd) option"
  op_ioctl :: "(int \<Rightarrow> u32 \<Rightarrow> 'd \<Rightarrow> int \<times> 'd) option"
  op_open :: "(u32 \<Rightarrow> 'd \<Rightarrow> int \<times> 'd) option"
  op_close :: "('d \<Rightarrow> int \<times> 'd) option"

record 'd tty_device =
  devid :: "nat \<times> nat"
  q_read :: nat
  q_write :: nat
  q_queue :: "u8 list"
  d_ops :: "'d tty_operations"
  d_task :: "nat option"
  d_lock :: u32
  d_termios :: termios
  d_refs :: u32

record 'd tty_driver =
  drv_major :: nat
  nminors :: nat
  drv_device :: "'d tty_device list"

record 'd tty_sys =
  tty_driver_table :: "nat \<Rightarrow> 'd tty_driver option"
  tty_chrdevs :: "unit chrdevs"

subsection \<open>Drivers\<close>

definition default_termios :: "tio_consts \<Rightarrow> termios" where
  "default_termios T = \<lparr>c_iflag = ISTRIP T OR IGNCR T OR ICRNL T, c_oflag = 0, c_cflag = CS8 T,
     c_lflag = ICANON T OR ECHO T OR ECHOE T,
     c_cc = (\<lambda>_. 0)(VEOL T := 10, VERASE T := 8, VTIME T := 3)\<rparr>"

definition tty_find_driver :: "nat \<Rightarrow> 'd tty_sys \<Rightarrow> 'd tty_driver option" where
  "tty_find_driver major s = (if 256 \<le> major then None else tty_driver_table s major)"

definition new_device :: "tio_consts \<Rightarrow> 'd tty_operations \<Rightarrow> nat \<Rightarrow> nat \<Rightarrow> 'd tty_device" where
  "new_device T ops major i = \<lparr>devid = (major, i), q_read = 0, q_write = 0, q_queue = replicate TTY_QUEUELEN 0,
     d_ops = ops, d_task = None, d_lock = spin_init 0, d_termios = default_termios T, d_refs = 0\<rparr>"

text \<open>\<open>ok\<close> and \<open>chr_ok\<close> say whether the two \<^verbatim>\<open>kmalloc\<close> calls return memory. The result \<open>Inr None\<close> is NULL.\<close>

definition tty_alloc_driver ::
  "tio_consts \<Rightarrow> string \<Rightarrow> nat \<Rightarrow> nat \<Rightarrow> 'd tty_operations \<Rightarrow> bool \<Rightarrow> bool \<Rightarrow> 'd tty_sys
   \<Rightarrow> 'd tty_driver option result \<times> 'd tty_sys" where
  "tty_alloc_driver T name major nmin ops ok chr_ok s =
     (if 256 \<le> major then (Inl EINVAL, s)
      else if \<not> ok then (Inl ENOMEM, s\<lparr>tty_chrdevs := snd (unregister_chrdev major (tty_chrdevs s))\<rparr>)
      else
        let drv = \<lparr>drv_major = major, nminors = nmin, drv_device = map (new_device T ops major) [0..<nmin]\<rparr>;
            s1 = s\<lparr>tty_driver_table := (tty_driver_table s)(major := Some drv)\<rparr>;
            (r, devs) = register_chrdev major name () chr_ok (tty_chrdevs s1);
            s2 = s1\<lparr>tty_chrdevs := devs\<rparr>
        in case r of Inl e \<Rightarrow> (Inr None, s2) | Inr _ \<Rightarrow> (Inr (Some drv), s2))"

text \<open>The scan for devices in use; a device whose lock is held makes it wait for ever.\<close>

primrec devices_idle :: "'d tty_device list \<Rightarrow> bool option" where
  "devices_idle [] = Some True"
| "devices_idle (d # ds) =
     Option.bind (spin_lock (d_lock d)) (\<lambda>l. if d_refs d \<noteq> 0 then Some False else devices_idle ds)"

definition tty_free_driver :: "nat \<Rightarrow> 'd tty_sys \<Rightarrow> (unit result \<times> 'd tty_sys) option" where
  "tty_free_driver major s =
     (if 256 \<le> major then Some (Inl EINVAL, s)
      else case tty_driver_table s major of
        None \<Rightarrow> None
      | Some drv \<Rightarrow>
          Option.bind (devices_idle (take (nminors drv) (drv_device drv))) (\<lambda>idle.
            if \<not> idle then Some (Inl EBUSY, s)
            else
              let (r, devs) = unregister_chrdev major (tty_chrdevs s); s1 = s\<lparr>tty_chrdevs := devs\<rparr> in
              case r of
                Inl e \<Rightarrow> Some (Inl e, s1)
              | Inr _ \<Rightarrow> Some (Inr (), s1\<lparr>tty_driver_table := (tty_driver_table s1)(major := None)\<rparr>)))"

subsection \<open>The input queue\<close>

definition tty_queue_empty :: "'d tty_device \<Rightarrow> bool" where
  "tty_queue_empty dev \<longleftrightarrow> q_read dev = q_write dev"

definition tty_back :: "'d tty_device \<Rightarrow> 'd tty_device" where
  "tty_back dev = dev\<lparr>q_write := (if q_write dev = 0 then TTY_QUEUELEN - 1 else q_write dev - 1)\<rparr>"

definition tty_enqueue :: "u8 \<Rightarrow> 'd tty_device \<Rightarrow> 'd tty_device" where
  "tty_enqueue c dev = dev\<lparr>q_queue := (q_queue dev)[q_write dev := c],
     q_write := (if q_write dev = TTY_QUEUELEN - 1 then 0 else Suc (q_write dev))\<rparr>"

definition tty_queue_remove :: "'d tty_device \<Rightarrow> u8 \<times> 'd tty_device" where
  "tty_queue_remove dev =
     (if tty_queue_empty dev then (- 1, dev) else (q_queue dev ! q_write dev, tty_back dev))"

definition tty_queue_getchar :: "'d tty_device \<Rightarrow> u8 \<times> 'd tty_device" where
  "tty_queue_getchar dev =
     (if tty_queue_empty dev then (- 1, dev)
      else (q_queue dev ! q_read dev,
            dev\<lparr>q_read := (if q_read dev = TTY_QUEUELEN - 1 then 0 else Suc (q_read dev))\<rparr>))"

definition tty_queue_peek :: "'d tty_device \<Rightarrow> u8" where
  "tty_queue_peek dev =
     (if tty_queue_empty dev then 0
      else if q_write dev = 0 then q_queue dev ! (TTY_QUEUELEN - 1)
      else q_queue dev ! (q_write dev - 1))"

text \<open>
  The comparison of a character, which is signed, with a control character, which is not: both are
  converted to integers.
\<close>

definition cc_eq :: "u8 \<Rightarrow> u8 \<Rightarrow> bool" where
  "cc_eq c v \<longleftrightarrow> sint c = uint v"

definition tty_end_of_line :: "tio_consts \<Rightarrow> 'd tty_device \<Rightarrow> bool" where
  "tty_end_of_line T dev \<longleftrightarrow> (let c = tty_queue_peek dev in c = 10 \<or> cc_eq c (c_cc (d_termios dev) (VEOL T)))"

text \<open>\<^verbatim>\<open>memcpy\<close> to the start of the caller's buffer.\<close>

definition copy_to :: "u8 list \<Rightarrow> u8 list \<Rightarrow> u8 list" where
  "copy_to bs buf = bs @ drop (length bs) buf"

definition tty_queue_read :: "nat \<Rightarrow> u8 list \<Rightarrow> 'd tty_device \<Rightarrow> nat \<times> u8 list \<times> 'd tty_device" where
  "tty_queue_read count buf dev =
     (if tty_queue_empty dev then (0, buf, dev)
      else
        let (n, buf1, dev1) =
              (if q_write dev < q_read dev
               then let n = min (TTY_QUEUELEN - 1 - q_read dev) count
                    in (n, copy_to (take n (drop (q_read dev) (q_queue dev))) buf, dev\<lparr>q_read := 0\<rparr>)
               else (0, buf, dev))
        in if n = count then (n, buf1, dev1)
           else if q_write dev1 - q_read dev1 > count - n
           then (count, copy_to (take (count - n) (drop (q_read dev1) (q_queue dev1))) buf1,
                 dev1\<lparr>q_read := q_read dev1 + (count - n)\<rparr>)
           else (n + (q_write dev1 - q_read dev1),
                 copy_to (take (q_write dev1 - q_read dev1) (drop (q_read dev1) (q_queue dev1))) buf1,
                 dev1\<lparr>q_read := q_write dev1\<rparr>))"

definition tty_putchar :: "'d tty_operations \<Rightarrow> u8 \<Rightarrow> 'd \<Rightarrow> 'd option" where
  "tty_putchar ops c d =
     (case op_putchar ops of
        Some f \<Rightarrow> Some (snd (f c d))
      | None \<Rightarrow> (case op_write ops of None \<Rightarrow> None | Some f \<Rightarrow> Some (snd (f [c] 1 d))))"

text \<open>The translation of an input character.\<close>

definition tty_input_map :: "tio_consts \<Rightarrow> termios \<Rightarrow> u8 \<Rightarrow> u8" where
  "tty_input_map T tio c =
     (let c1 = (if c_iflag tio AND ISTRIP T \<noteq> 0 then c AND 0x7f else c);
          c2 = (if c1 = 10 \<and> c_iflag tio AND INLCR T \<noteq> 0 then 13
                else if c1 = 13 \<and> c_iflag tio AND ICRNL T \<noteq> 0 then 10 else c1)
      in if c_iflag tio AND IUCLC T \<noteq> 0 \<and> 65 \<le> c2 \<and> c2 \<le> 90 then c2 - 65 + 97 else c2)"

text \<open>Waking the reader, and showing the character.\<close>

definition tty_wake :: "tio_consts \<Rightarrow> u8 \<Rightarrow> 'd tty_device \<Rightarrow> kern \<Rightarrow> kern" where
  "tty_wake T c dev k =
     (let tio = d_termios dev in
      if (c_lflag tio AND ICANON T \<noteq> 0 \<and> cc_eq c (c_cc tio (VEOL T))) \<or> c_lflag tio AND ICANON T = 0
      then (case d_task dev of
              Some t \<Rightarrow> if T_WAITING (tasks k t) then task_wakeup t k else k
            | None \<Rightarrow> k)
      else k)"

definition tty_echo :: "tio_consts \<Rightarrow> u8 \<Rightarrow> 'd tty_device \<Rightarrow> 'd \<Rightarrow> 'd option" where
  "tty_echo T c dev d =
     (let tio = d_termios dev in
      if c_lflag tio AND ECHO T \<noteq> 0 \<or> (c_lflag tio AND ECHONL T \<noteq> 0 \<and> c = 10)
      then tty_putchar (d_ops dev) c d else Some d)"

definition tty_erases :: "tio_consts \<Rightarrow> termios \<Rightarrow> u8 \<Rightarrow> bool" where
  "tty_erases T tio c \<longleftrightarrow> cc_eq c (c_cc tio (VERASE T)) \<and> c_lflag tio AND (ICANON T OR ECHOE T) \<noteq> 0"

definition tty_queue_insert ::
  "tio_consts \<Rightarrow> u8 \<Rightarrow> 'd tty_device \<Rightarrow> 'd \<Rightarrow> kern \<Rightarrow> ('d tty_device \<times> 'd \<times> kern) option" where
  "tty_queue_insert T ch dev d k =
     (let tio = d_termios dev; c = tty_input_map T tio ch in
      if tty_erases T tio c
      then if tty_queue_empty dev then Some (dev, d, k)
           else map_option (\<lambda>d'. (tty_back dev, d', k)) (tty_echo T c (tty_back dev) d)
      else
        let dev1 = tty_enqueue c dev; k1 = tty_wake T c dev1 k
        in map_option (\<lambda>d'. (dev1, d', k1)) (tty_echo T c dev1 d))"

subsection \<open>File operations\<close>

definition tty_file_isatty :: int where "tty_file_isatty = 1"

definition tty_file_close :: "'d tty_device \<Rightarrow> 'd \<Rightarrow> (int \<times> 'd tty_device \<times> 'd) option" where
  "tty_file_close dev d =
     Option.bind (spin_lock (d_lock dev)) (\<lambda>l.
       let (error, d1) = (case op_close (d_ops dev) of
                            Some f \<Rightarrow> if d_refs dev = 1 then f d else (0, d)
                          | None \<Rightarrow> (0, d))
       in if error \<noteq> 0 then Some (error, dev\<lparr>d_lock := spin_unlock l\<rparr>, d1)
          else
            let refs = d_refs dev - 1 in
            Some (0, dev\<lparr>d_refs := refs, d_task := (if refs = 0 then None else d_task dev), d_lock := spin_unlock l\<rparr>, d1))"

text \<open>Opening a terminal with the given device numbers; the result has the device that is opened.\<close>

definition tty_file_open ::
  "nat \<Rightarrow> nat \<Rightarrow> u32 \<Rightarrow> 'd tty_sys \<Rightarrow> 'd \<Rightarrow> ((int result) \<times> 'd tty_sys \<times> 'd) option" where
  "tty_file_open major minor mode s d =
     (case tty_driver_table s major of
        None \<Rightarrow> Some (Inl ENXIO, s, d)
      | Some drv \<Rightarrow>
          if nminors drv \<le> minor then Some (Inl ENXIO, s, d)
          else
            let dev = drv_device drv ! minor;
                store = (\<lambda>x. s\<lparr>tty_driver_table := (tty_driver_table s)(major :=
                           Some (drv\<lparr>drv_device := (drv_device drv)[minor := x]\<rparr>))\<rparr>)
            in Option.bind (spin_lock (d_lock dev)) (\<lambda>l.
                 let dev1 = dev\<lparr>d_refs := d_refs dev + 1\<rparr>;
                     (r, d1) = (case op_open (d_ops dev1) of
                                  Some f \<Rightarrow> if d_refs dev1 = 1 then f mode d else (0, d)
                                | None \<Rightarrow> (0, d))
                 in if r \<noteq> 0
                    then let refs = d_refs dev1 - 1 in
                         Some (Inr r, store (dev1\<lparr>d_refs := refs, d_task := (if refs = 0 then None else d_task dev1),
                                                 d_lock := spin_unlock l\<rparr>), d1)
                    else Some (Inr 0, store (dev1\<lparr>d_lock := spin_unlock l\<rparr>), d1)))"

datatype tty_outcome = TtyRet nat "u8 list" | TtyBlocked nat "u8 list"

text \<open>The loop of a read without line editing; \<open>n\<close> bytes are in the buffer already.\<close>

partial_function (option) tty_raw_loop ::
  "nat \<Rightarrow> (nat \<Rightarrow> cctx) \<Rightarrow> nat \<Rightarrow> u8 list \<Rightarrow> 'd tty_device \<Rightarrow> kern \<Rightarrow> (tty_outcome \<times> 'd tty_device \<times> kern) option" where
  "tty_raw_loop count ctxs n buf dev k =
     (if n < count then
        if tty_queue_empty dev then
          Option.bind (task_waitio (the (current k)) ctxs k) (\<lambda>k'.
            Some (TtyBlocked n buf, dev\<lparr>d_task := current k, d_lock := spin_unlock (d_lock dev)\<rparr>, k'))
        else
          let r = tty_queue_read (count - n) (drop n buf) dev
          in tty_raw_loop count ctxs (n + fst r) (take n buf @ fst (snd r)) (snd (snd r)) k
      else Some (TtyRet n buf, dev\<lparr>d_lock := spin_unlock (d_lock dev)\<rparr>, k))"

declare tty_raw_loop.simps [code]

definition tty_file_read ::
  "tio_consts \<Rightarrow> nat \<Rightarrow> (nat \<Rightarrow> cctx) \<Rightarrow> u8 list \<Rightarrow> 'd tty_device \<Rightarrow> kern
   \<Rightarrow> (tty_outcome \<times> 'd tty_device \<times> kern) option" where
  "tty_file_read T count ctxs buf dev k =
     Option.bind (spin_lock (d_lock dev)) (\<lambda>l.
       let dev1 = dev\<lparr>d_lock := l\<rparr> in
       if c_lflag (d_termios dev1) AND ICANON T \<noteq> 0 then
         if \<not> tty_end_of_line T dev1 then
           Option.bind (task_waitio (the (current k)) ctxs k) (\<lambda>k'.
             Some (TtyBlocked 0 buf, dev1\<lparr>d_task := current k, d_lock := spin_unlock l\<rparr>, k'))
         else
           let (n, buf', dev2) = tty_queue_read count buf dev1
           in Some (TtyRet n buf', dev2\<lparr>d_lock := spin_unlock l\<rparr>, k)
       else tty_raw_loop count ctxs 0 buf dev1 k)"

definition tty_file_read_resume ::
  "tio_consts \<Rightarrow> nat \<Rightarrow> (nat \<Rightarrow> cctx) \<Rightarrow> nat \<Rightarrow> u8 list \<Rightarrow> 'd tty_device \<Rightarrow> kern
   \<Rightarrow> (tty_outcome \<times> 'd tty_device \<times> kern) option" where
  "tty_file_read_resume T count ctxs n buf dev k =
     Option.bind (spin_lock (d_lock dev)) (\<lambda>l.
       let dev1 = dev\<lparr>d_lock := l, d_task := None\<rparr>;
           r = tty_queue_read (count - n) (drop n buf) dev1;
           buf' = take n buf @ fst (snd r)
       in if c_lflag (d_termios dev1) AND ICANON T \<noteq> 0
          then Some (TtyRet (fst r) buf', (snd (snd r))\<lparr>d_lock := spin_unlock l\<rparr>, k)
          else tty_raw_loop count ctxs (n + fst r) buf' (snd (snd r)) k)"

definition tty_file_write :: "u8 list \<Rightarrow> nat \<Rightarrow> 'd tty_device \<Rightarrow> 'd \<Rightarrow> (int \<times> 'd tty_device \<times> 'd) option" where
  "tty_file_write data count dev d =
     Option.bind (spin_lock (d_lock dev)) (\<lambda>l.
       let (result, d1) = (case op_write (d_ops dev) of Some f \<Rightarrow> f data count d | None \<Rightarrow> (0, d))
       in Some (result, dev\<lparr>d_lock := spin_unlock l\<rparr>, d1))"

definition tty_file_ioctl :: "int \<Rightarrow> u32 \<Rightarrow> 'd tty_device \<Rightarrow> 'd \<Rightarrow> (int \<times> 'd tty_device \<times> 'd) option" where
  "tty_file_ioctl cmd arg dev d =
     Option.bind (spin_lock (d_lock dev)) (\<lambda>l.
       let (result, d1) = (case op_ioctl (d_ops dev) of Some f \<Rightarrow> f cmd arg d | None \<Rightarrow> (0, d))
       in Some (result, dev\<lparr>d_lock := spin_unlock l\<rparr>, d1))"

subsection \<open>The bytes in the queue\<close>

definition tty_wf :: "'d tty_device \<Rightarrow> bool" where
  "tty_wf dev \<longleftrightarrow> length (q_queue dev) = TTY_QUEUELEN \<and> q_read dev < TTY_QUEUELEN \<and> q_write dev < TTY_QUEUELEN"

definition tty_bytes :: "'d tty_device \<Rightarrow> u8 list" where
  "tty_bytes dev = ring_bytes (q_queue dev) (q_read dev) (q_write dev)"

definition tty_room :: "'d tty_device \<Rightarrow> nat" where
  "tty_room dev = TTY_QUEUELEN - 1"

lemma tty_empty: "tty_wf dev \<Longrightarrow> tty_queue_empty dev \<longleftrightarrow> tty_bytes dev = []"
  by (simp add: tty_wf_def tty_bytes_def ring_bytes_empty tty_queue_empty_def)

lemma QUEUELEN_pos: "0 < TTY_QUEUELEN" by (simp add: TTY_QUEUELEN_def)

lemma tty_succ: "i < TTY_QUEUELEN \<Longrightarrow> (if i = TTY_QUEUELEN - 1 then 0 else Suc i) = ring_succ TTY_QUEUELEN i"
  using QUEUELEN_pos by (auto simp: ring_succ_def)

interpretation tq: byte_queue tty_wf tty_bytes tty_room tty_enqueue tty_queue_getchar
proof
  show "tty_wf q \<Longrightarrow> length (tty_bytes q) < tty_room q \<Longrightarrow> tty_wf (tty_enqueue c q)" for q :: "'d tty_device" and c
    by (auto simp: tty_wf_def tty_enqueue_def TTY_QUEUELEN_def)
  show "tty_wf q \<Longrightarrow> length (tty_bytes q) < tty_room q \<Longrightarrow> tty_bytes (tty_enqueue c q) = tty_bytes q @ [c]"
    for q :: "'d tty_device" and c
    using ring_bytes_put [of "q_read q" "q_queue q" "q_write q" c] length_ring_bytes [of "q_read q" "q_queue q" "q_write q"]
      tty_succ [of "q_write q"]
    by (simp add: tty_wf_def tty_enqueue_def tty_bytes_def tty_room_def)
  show "tty_room (tty_enqueue c q) = tty_room q" for q :: "'d tty_device" and c by (simp add: tty_room_def)
  show "tty_wf q \<Longrightarrow> tty_bytes q \<noteq> [] \<Longrightarrow> tty_wf (snd (tty_queue_getchar q))" for q :: "'d tty_device"
    by (auto simp: tty_wf_def tty_queue_getchar_def TTY_QUEUELEN_def)
  show "tty_wf q \<Longrightarrow> tty_bytes q \<noteq> [] \<Longrightarrow> tty_bytes q = fst (tty_queue_getchar q) # tty_bytes (snd (tty_queue_getchar q))"
    for q :: "'d tty_device"
    using ring_bytes_get [of "q_read q" "q_queue q" "q_write q"] tty_empty [of q] tty_succ [of "q_read q"]
    by (simp add: tty_wf_def tty_queue_getchar_def tty_bytes_def tty_queue_empty_def)
qed

lemma tty_back_bytes:
  assumes wf: "tty_wf dev" and ne: "\<not> tty_queue_empty dev"
  shows "tty_wf (tty_back dev)" and "tty_bytes (tty_back dev) = butlast (tty_bytes dev)"
proof -
  show "tty_wf (tty_back dev)" using wf by (auto simp: tty_wf_def tty_back_def TTY_QUEUELEN_def)
  have r: "q_read dev \<noteq> q_write dev" using ne by (simp add: tty_queue_empty_def)
  show "tty_bytes (tty_back dev) = butlast (tty_bytes dev)"
  proof (cases "q_write dev = 0")
    case True
    then show ?thesis using wf r
      by (auto simp: tty_back_def tty_bytes_def ring_bytes_def tty_wf_def butlast_conv_take TTY_QUEUELEN_def)
  next
    case False
    then show ?thesis using wf r
      by (auto simp: tty_back_def tty_bytes_def ring_bytes_def tty_wf_def butlast_conv_take butlast_append take_drop)
  qed
qed

text \<open>A driver that can show a character, so that echoing does not fail.\<close>

definition can_echo :: "'d tty_device \<Rightarrow> bool" where
  "can_echo dev \<longleftrightarrow> op_putchar (d_ops dev) \<noteq> None \<or> op_write (d_ops dev) \<noteq> None"

lemma tty_putchar_ok: "can_echo dev \<Longrightarrow> \<exists>d'. tty_putchar (d_ops dev) c d = Some d'"
  by (auto simp: can_echo_def tty_putchar_def split: option.split)

text \<open>
  The reference for editing a line, written without the functions of the code. The code of a key is a
  number: with \<open>ISTRIP\<close> its eighth bit does not count, with \<open>INLCR\<close> a newline (10) stands for a carriage
  return (13) and with \<open>ICRNL\<close> the other way round, and with \<open>IUCLC\<close> a capital letter (65 to 90) stands
  for the small one. The erase key is the control character \<open>VERASE\<close> if it is an ASCII character, and
  \<open>ICANON\<close> or \<open>ECHOE\<close> is on; it removes the last character. Any other key is appended.
\<close>

definition key_char :: "tio_consts \<Rightarrow> termios \<Rightarrow> u8 \<Rightarrow> nat" where
  "key_char T tio ch =
     (let on = (\<lambda>m. c_iflag tio AND m \<noteq> 0);
          p = (if on (ISTRIP T) then unat ch mod 128 else unat ch);
          q = (if p = 10 \<and> on (INLCR T) then 13 else if p = 13 \<and> on (ICRNL T) then 10 else p)
      in if on (IUCLC T) \<and> q \<in> {65..90} then q + 32 else q)"

definition erase_key :: "tio_consts \<Rightarrow> termios \<Rightarrow> nat \<Rightarrow> bool" where
  "erase_key T tio c \<longleftrightarrow> c = unat (c_cc tio (VERASE T)) \<and> c < 128
     \<and> (c_lflag tio AND ICANON T \<noteq> 0 \<or> c_lflag tio AND ECHOE T \<noteq> 0)"

definition edit_key :: "tio_consts \<Rightarrow> termios \<Rightarrow> u8 \<Rightarrow> u8 list \<Rightarrow> u8 list" where
  "edit_key T tio ch cs =
     (let c = key_char T tio ch in if erase_key T tio c then butlast cs else cs @ [word_of_nat c])"

lemma length_edit_key: "length (edit_key T tio ch cs) \<le> Suc (length cs)"
  by (auto simp: edit_key_def Let_def)

lemma unat_u8: "unat (c :: u8) < 256"
  using unsigned_less [of c, where 'a = nat] by simp

lemma u8_eq: "(c :: u8) = v \<longleftrightarrow> unat c = unat v"
  by (rule word_unat_eq_iff)

lemma sint_u8: "sint (c :: u8) = (if uint c < 128 then uint c else uint c - 256)"
proof -
  have k: "0 \<le> uint c" "uint c < 256" using unsigned_less [of c, where 'a = int] by simp_all
  have "uint c div 128 = (if uint c < 128 then 0 else 1)" using k by (auto intro: int_div_pos_eq [of _ _ _ "uint c - 128"])
  then have "bit (uint c) 7 \<longleftrightarrow> \<not> uint c < 128" by (simp add: bit_iff_odd)
  then show ?thesis using k by (simp add: sint_uint signed_take_bit_eq_take_bit_minus take_bit_int_eq_self)
qed

lemma cc_eq_iff: "cc_eq c v \<longleftrightarrow> c = v \<and> unat v < 128"
proof -
  have k: "0 \<le> uint v" "uint c < 256" using unsigned_less [of c, where 'a = int] by simp_all
  have "unat v < 128 \<longleftrightarrow> uint v < 128" using nat_less_iff [OF k(1), of 128] by simp
  moreover have "sint c = uint v \<longleftrightarrow> uint c = uint v \<and> uint v < 128"
    unfolding sint_u8 using k by (cases "uint c < 128"; simp only: if_True if_False; linarith)
  ultimately show ?thesis by (auto simp: cc_eq_def word_uint_eq_iff)
qed

lemma strip_char: "unat (c AND 0x7f) = unat (c :: u8) mod 128"
proof -
  have "c AND 0x7f = take_bit 7 c" by (simp add: take_bit_eq_mask mask_eq_exp_minus_1)
  moreover have "unat (take_bit 7 c) = take_bit 7 (unat c)" by (rule unsigned_take_bit_eq)
  ultimately show ?thesis by (simp add: take_bit_eq_mod [of 7 "unat c"])
qed

lemma lower_char:
  assumes "65 \<le> unat c" "unat c \<le> 90"
  shows "unat (c - 65 + 97 :: u8) = unat c + 32"
proof -
  have "c - 65 + 97 = c + 32" by simp
  then show ?thesis using assms by (simp add: unat_word_ariths)
qed

lemma key_char_map: "unat (tty_input_map T tio ch) = key_char T tio ch"
proof -
  let ?c1 = "if c_iflag tio AND ISTRIP T \<noteq> 0 then ch AND 0x7f else ch"
  define c2 where "c2 = (if ?c1 = 10 \<and> c_iflag tio AND INLCR T \<noteq> 0 then 13
    else if ?c1 = 13 \<and> c_iflag tio AND ICRNL T \<noteq> 0 then 10 else ?c1)"
  have u1: "unat ?c1 = (if c_iflag tio AND ISTRIP T \<noteq> 0 then unat ch mod 128 else unat ch)" by (simp add: strip_char)
  have u2: "unat c2 = (if unat ?c1 = 10 \<and> c_iflag tio AND INLCR T \<noteq> 0 then 13
    else if unat ?c1 = 13 \<and> c_iflag tio AND ICRNL T \<noteq> 0 then 10 else unat ?c1)"
    using u8_eq [of ?c1 10] u8_eq [of ?c1 13] by (simp add: c2_def)
  have "tty_input_map T tio ch = (if c_iflag tio AND IUCLC T \<noteq> 0 \<and> 65 \<le> c2 \<and> c2 \<le> 90 then c2 - 65 + 97 else c2)"
    by (simp add: tty_input_map_def Let_def c2_def)
  then have "unat (tty_input_map T tio ch) = (if c_iflag tio AND IUCLC T \<noteq> 0 \<and> unat c2 \<in> {65..90} then unat c2 + 32 else unat c2)"
    using lower_char [of c2] by (auto simp: word_le_nat_alt)
  then show ?thesis unfolding u2 u1 key_char_def Let_def .
qed

lemma or_zero_iff: "a OR b = 0 \<longleftrightarrow> a = 0 \<and> b = (0 :: u32)"
  by (auto simp: bit_eq_iff bit_simps)

lemma erase_key_erases: "erase_key T tio (unat c) \<longleftrightarrow> tty_erases T tio c"
  by (auto simp: erase_key_def tty_erases_def cc_eq_iff u8_eq bit.conj_disj_distrib or_zero_iff)

lemma edit_key_map:
  "edit_key T tio ch cs = (let c = tty_input_map T tio ch in if tty_erases T tio c then butlast cs else cs @ [c])"
  by (simp add: edit_key_def Let_def key_char_map [symmetric] erase_key_erases)

lemma tty_sel [simp]:
  "d_termios (tty_back dev) = d_termios dev" "d_ops (tty_back dev) = d_ops dev"
  "d_task (tty_back dev) = d_task dev" "d_lock (tty_back dev) = d_lock dev"
  "d_termios (tty_enqueue c dev) = d_termios dev" "d_ops (tty_enqueue c dev) = d_ops dev"
  "d_task (tty_enqueue c dev) = d_task dev" "d_lock (tty_enqueue c dev) = d_lock dev"
  by (simp_all add: tty_back_def tty_enqueue_def)

lemma tty_wake_cases: "tty_wake T c dev k = k \<or> (\<exists>t. d_task dev = Some t \<and> tty_wake T c dev k = task_wakeup t k)"
  by (cases "d_task dev") (auto simp: tty_wake_def Let_def)

lemma tty_echo_ok:
  assumes "can_echo dev"
  obtains d' where "tty_echo T c dev d = Some d'"
proof (cases "c_lflag (d_termios dev) AND ECHO T \<noteq> 0 \<or> (c_lflag (d_termios dev) AND ECHONL T \<noteq> 0 \<and> c = 10)")
  case True
  obtain d' where "tty_putchar (d_ops dev) c d = Some d'" using tty_putchar_ok [OF assms] by blast
  then have "tty_echo T c dev d = Some d'" unfolding tty_echo_def Let_def using True by (simp only: if_True)
  then show ?thesis by (rule that)
next
  case False
  then have "tty_echo T c dev d = Some d" unfolding tty_echo_def Let_def by (simp only: if_False)
  then show ?thesis by (rule that)
qed

lemma tty_insert_edit:
  assumes wf: "tty_wf dev" and room: "length (tty_bytes dev) < tty_room dev" and e: "can_echo dev"
  shows "\<exists>dev' d' k'. tty_queue_insert T ch dev d k = Some (dev', d', k') \<and> tty_wf dev'
     \<and> tty_bytes dev' = edit_key T (d_termios dev) ch (tty_bytes dev)
     \<and> d_termios dev' = d_termios dev \<and> d_ops dev' = d_ops dev \<and> d_task dev' = d_task dev \<and> d_lock dev' = d_lock dev
     \<and> (k' = k \<or> (\<exists>t. d_task dev = Some t \<and> k' = task_wakeup t k))"
proof -
  let ?c = "tty_input_map T (d_termios dev) ch"
  show ?thesis
  proof (cases "tty_erases T (d_termios dev) ?c")
    case True
    show ?thesis
    proof (cases "tty_queue_empty dev")
      case True': True
      then show ?thesis using True wf tty_empty [OF wf] by (simp add: tty_queue_insert_def edit_key_map Let_def)
    next
      case False
      note b = tty_back_bytes [OF wf False]
      have "can_echo (tty_back dev)" using e by (simp add: can_echo_def)
      then obtain d' where "tty_echo T ?c (tty_back dev) d = Some d'" by (rule tty_echo_ok)
      then show ?thesis using True False b by (simp add: tty_queue_insert_def edit_key_map Let_def)
    qed
  next
    case False
    note i = tq.put_inv [OF wf room, of ?c] tq.put_bytes [OF wf room, of ?c]
    have "can_echo (tty_enqueue ?c dev)" using e by (simp add: can_echo_def)
    then obtain d' where "tty_echo T ?c (tty_enqueue ?c dev) d = Some d'" by (rule tty_echo_ok)
    then have "tty_queue_insert T ch dev d k = Some (tty_enqueue ?c dev, d', tty_wake T ?c (tty_enqueue ?c dev) k)"
      using False by (simp add: tty_queue_insert_def Let_def)
    then show ?thesis using i False tty_wake_cases [of T ?c "tty_enqueue ?c dev" k]
      by (simp add: edit_key_map Let_def)
  qed
qed

subsection \<open>Reading\<close>

lemma copy_to_exact: "length bs \<le> length buf \<Longrightarrow> take (length bs) (copy_to bs buf) = bs"
  by (simp add: copy_to_def)

text \<open>When the queue does not wrap around, a read returns the oldest bytes.\<close>

lemma tty_queue_read_straight:
  assumes wf: "tty_wf dev" and s: "q_read dev \<le> q_write dev" and b: "count \<le> length buf"
  shows "\<exists>buf' dev'. tty_queue_read count buf dev = (min count (length (tty_bytes dev)), buf', dev')
     \<and> take (min count (length (tty_bytes dev))) buf' = take count (tty_bytes dev)
     \<and> tty_bytes dev' = drop count (tty_bytes dev) \<and> tty_wf dev' \<and> d_lock dev' = d_lock dev"
proof -
  let ?n = "q_write dev - q_read dev" and ?d = "drop (q_read dev) (q_queue dev)"
  have bytes: "tty_bytes dev = take ?n ?d" using s by (simp add: tty_bytes_def ring_bytes_def)
  have len: "length (take ?n ?d) = ?n" using wf by (auto simp: tty_wf_def)
  consider "q_read dev = q_write dev" | "q_read dev \<noteq> q_write dev" "count = 0"
    | "q_read dev \<noteq> q_write dev" "count \<noteq> 0" "count < ?n" | "q_read dev \<noteq> q_write dev" "count \<noteq> 0" "?n \<le> count"
    by linarith
  then show ?thesis
  proof cases
    case 1
    then show ?thesis using wf bytes by (simp add: tty_queue_read_def tty_queue_empty_def)
  next
    case 2
    then show ?thesis using wf s bytes by (simp add: tty_queue_read_def tty_queue_empty_def)
  next
    case 3
    have "length (take count ?d) = count" using 3 wf by (auto simp: tty_wf_def)
    then have "take count (copy_to (take count ?d) buf) = take count ?d" using b copy_to_exact [of "take count ?d" buf] by simp
    moreover have "take count (take ?n ?d) = take count ?d" using 3 by (simp add: min_def)
    moreover have "tty_bytes (dev\<lparr>q_read := q_read dev + count\<rparr>) = drop count (take ?n ?d)"
      using 3 s by (auto simp: tty_bytes_def ring_bytes_def drop_take add.commute)
    moreover have "tty_wf (dev\<lparr>q_read := q_read dev + count\<rparr>)" using wf 3 by (auto simp: tty_wf_def)
    ultimately show ?thesis using 3 s bytes len
      by (simp add: tty_queue_read_def tty_queue_empty_def Let_def min_def)
  next
    case 4
    have "take ?n (copy_to (take ?n ?d) buf) = take ?n ?d"
      using copy_to_exact [of "take ?n ?d" buf] len b 4 by simp
    moreover have "tty_bytes (dev\<lparr>q_read := q_write dev\<rparr>) = []" by (simp add: tty_bytes_def ring_bytes_def)
    moreover have "tty_wf (dev\<lparr>q_read := q_write dev\<rparr>)" using wf by (simp add: tty_wf_def)
    ultimately show ?thesis using 4 s bytes len
      by (simp add: tty_queue_read_def tty_queue_empty_def Let_def min_def)
  qed
qed

subsection \<open>Guarantees\<close>

primrec tty_type ::
  "tio_consts \<Rightarrow> u8 list \<Rightarrow> 'd tty_device \<Rightarrow> 'd \<Rightarrow> kern \<Rightarrow> ('d tty_device \<times> 'd \<times> kern) option" where
  "tty_type T [] dev d k = Some (dev, d, k)"
| "tty_type T (ch # chs) dev d k =
     Option.bind (tty_queue_insert T ch dev d k) (\<lambda>(dev', d', k'). tty_type T chs dev' d' k')"

lemma tty_type_edit:
  "tty_wf dev \<Longrightarrow> length (tty_bytes dev) + length chs \<le> tty_room dev \<Longrightarrow> can_echo dev \<Longrightarrow>
   \<exists>dev' d' k'. tty_type T chs dev d k = Some (dev', d', k') \<and> tty_wf dev'
     \<and> tty_bytes dev' = fold (edit_key T (d_termios dev)) chs (tty_bytes dev)"
proof (induction chs arbitrary: dev d k)
  case (Cons ch chs)
  have room: "length (tty_bytes dev) < tty_room dev" using Cons.prems by simp
  obtain dev' d' k' where i: "tty_queue_insert T ch dev d k = Some (dev', d', k')" "tty_wf dev'"
    "tty_bytes dev' = edit_key T (d_termios dev) ch (tty_bytes dev)" "d_termios dev' = d_termios dev" "d_ops dev' = d_ops dev"
    using tty_insert_edit [OF Cons.prems(1) room Cons.prems(3)] by blast
  have "length (tty_bytes dev') + length chs \<le> tty_room dev'"
    using Cons.prems(2) i(3) length_edit_key [of T "d_termios dev" ch "tty_bytes dev"] by (simp add: tty_room_def)
  moreover have "can_echo dev'" using Cons.prems(3) i(5) by (simp add: can_echo_def)
  ultimately show ?case using Cons.IH [OF i(2), of d' k'] i(1,3,4) by auto
qed simp

definition demo_tio :: tio_consts where
  "demo_tio = \<lparr>ISTRIP = 32, INLCR = 64, IGNCR = 128, ICRNL = 256, IUCLC = 512, CS8 = 48, ICANON = 2, ECHO = 8,
     ECHOE = 16, ECHONL = 64, VEOL = 1, VERASE = 2, VTIME = 5\<rparr>"

text \<open>A driver whose state is the list of characters it has shown.\<close>

definition demo_ops :: "u8 list tty_operations" where
  "demo_ops = \<lparr>op_putchar = Some (\<lambda>c d. (0, d @ [c])), op_write = Some (\<lambda>cs n d. (int n, d @ take n cs)),
     op_ioctl = None, op_open = None, op_close = None\<rparr>"

definition demo_tty :: "u8 list tty_device" where
  "demo_tty = new_device demo_tio demo_ops 4 0"

lemma demo_tty_wf: "tty_wf demo_tty" "tty_bytes demo_tty = []" "tty_room demo_tty = 1023" "can_echo demo_tty"
  by (simp_all add: demo_tty_def new_device_def tty_wf_def tty_bytes_def ring_bytes_def tty_room_def TTY_QUEUELEN_def
      can_echo_def demo_ops_def)




definition demo_tty_waiting :: "u8 list tty_device" where
  "demo_tty_waiting = demo_tty\<lparr>d_task := Some 1, q_queue := [104, 105] @ replicate 1022 0, q_write := 2\<rparr>"


definition demo_tty_wrapped :: "u8 list tty_device" where
  "demo_tty_wrapped = demo_tty\<lparr>q_queue := [99, 100] @ replicate 1020 0 @ [97, 98], q_read := 1022, q_write := 2\<rparr>"

text \<open>
  When the queue has wrapped around the end of its array, a read goes wrong. With the four characters
  ``abcd'' in the queue, two before the end of the array and two after it, a read of four characters
  returns 3 with the buffer holding ``cd'': \<^verbatim>\<open>a\<close> has been overwritten and \<^verbatim>\<open>b\<close> skipped.
\<close>

theorem tty_read_wrapped_wrong:
  "tty_bytes demo_tty_wrapped = [97, 98, 99, 100]
   \<and> fst (tty_queue_read 4 [0, 0, 0, 0] demo_tty_wrapped) = 3
   \<and> fst (snd (tty_queue_read 4 [0, 0, 0, 0] demo_tty_wrapped)) = [99, 100, 0, 0]"
proof -
  have q: "q_read demo_tty_wrapped = 1022" "q_write demo_tty_wrapped = 2"
    "q_queue demo_tty_wrapped = [99, 100] @ replicate 1020 0 @ [97, 98]"
    by (simp_all add: demo_tty_wrapped_def)
  have d: "drop 1022 ([99, 100] @ replicate 1020 0 @ [97, 98 :: u8]) = [97, 98]" by simp
  show ?thesis
    unfolding tty_bytes_def ring_bytes_def tty_queue_read_def tty_queue_empty_def q Let_def
    using d by (simp add: TTY_QUEUELEN_def copy_to_def q)
qed

end
