(* ===== verification/Timer.thy ===== *)
theory Timer
  imports TaskSpec
begin

text \<open>
  The clock: \<^verbatim>\<open>kernel/src/timer.c\<close>: ticks, timer callbacks, the timer interrupt.

  The callback structures are a list of \<open>TIMER_MAX_CALLBACKS\<close> records; the pointers between them are
  indices. The tick counter is the field \<open>ticks\<close> of the kernel state. A callback function with its context is
  a value of type \<open>'f\<close>, and \<open>run\<close> says what calling it does to the kernel; the time of the CMOS clock is the
  argument \<open>rtc\<close>. Port output is a list of (port, byte). \<open>None\<close> means that the code does not return.
\<close>

definition TIMER_MAX_CALLBACKS :: nat where "TIMER_MAX_CALLBACKS = 128"

record 'f callback_info =
  cb_callback :: 'f
  cb_when :: u32
  cb_next :: "nat option"
  cb_prev :: "nat option"

record 'f timer =
  timer_freq :: u32
  current_time :: u32
  last_sync :: u32
  callbacks :: "'f callback_info list"
  next_callback :: "nat option"

abbreviation upd_cb :: "nat \<Rightarrow> ('f callback_info \<Rightarrow> 'f callback_info) \<Rightarrow> 'f callback_info list \<Rightarrow> 'f callback_info list" where
  "upd_cb i f cs \<equiv> cs[i := f (cs ! i)]"

definition timer_get_freq :: "'f timer \<Rightarrow> u32" where
  "timer_get_freq t = timer_freq t"

definition timer_get_ticks :: "kern \<Rightarrow> u32" where
  "timer_get_ticks k = ticks k"

definition timer_get_time :: "'f timer \<Rightarrow> u32" where
  "timer_get_time t = current_time t"

definition timer_sync_time :: "u32 \<Rightarrow> 'f timer \<Rightarrow> 'f timer" where
  "timer_sync_time rtc t = t\<lparr>current_time := rtc\<rparr>"

definition TIMER_IN :: "kern \<Rightarrow> u32 \<Rightarrow> u32" where
  "TIMER_IN k t = timer_get_ticks k + t"

text \<open>\<^verbatim>\<open>init_timer\<close>; the frequency 0 is a division by zero.\<close>

definition init_timer :: "u32 \<Rightarrow> u32 \<Rightarrow> 'f timer \<Rightarrow> ('f timer \<times> (u16 \<times> u8) list) option" where
  "init_timer rtc freq t =
     (if freq = 0 then None
      else
        let cs = map (\<lambda>c. c\<lparr>cb_when := TIMER_CANCEL\<rparr>) (callbacks t);
            divisor = 1193180 div freq;
            low = ucast (divisor AND 0xFF);
            high = ucast (drop_bit 8 divisor AND 0xFF)
        in Some (timer_sync_time rtc (t\<lparr>callbacks := cs, timer_freq := freq\<rparr>), [(0x43, 0x36), (0x40, low), (0x40, high)]))"

subsection \<open>Registering a callback\<close>

text \<open>One step of the insertion, at the entry \<open>i\<close> of the list, for the new entry \<open>nr\<close>.\<close>

definition insert_step :: "nat \<Rightarrow> nat \<Rightarrow> 'f callback_info list \<Rightarrow> 'f callback_info list" where
  "insert_step nr i cs =
     (if cb_when (cs ! i) > cb_when (cs ! nr) then
        let cs1 = (case cb_prev (cs ! i) of None \<Rightarrow> cs | Some p \<Rightarrow> upd_cb p (\<lambda>c. c\<lparr>cb_next := Some nr\<rparr>) cs);
            cs2 = upd_cb nr (\<lambda>c. c\<lparr>cb_prev := cb_prev (cs1 ! i)\<rparr>) cs1;
            cs3 = upd_cb i (\<lambda>c. c\<lparr>cb_prev := Some nr\<rparr>) cs2
        in upd_cb nr (\<lambda>c. c\<lparr>cb_next := Some i\<rparr>) cs3
      else if cb_next (cs ! i) = None then
        upd_cb nr (\<lambda>c. c\<lparr>cb_prev := Some i\<rparr>) (upd_cb i (\<lambda>c. c\<lparr>cb_next := Some nr\<rparr>) cs)
      else cs)"

partial_function (option) insert_loop :: "nat \<Rightarrow> nat option \<Rightarrow> 'f callback_info list \<Rightarrow> 'f callback_info list option" where
  "insert_loop nr iter cs =
     (case iter of
        None \<Rightarrow> Some cs
      | Some i \<Rightarrow> insert_loop nr (cb_next (insert_step nr i cs ! i)) (insert_step nr i cs))"

declare insert_loop.simps [code]

definition free_slot :: "'f callback_info list \<Rightarrow> nat option" where
  "free_slot cs = List.find (\<lambda>i. cb_when (cs ! i) = TIMER_CANCEL) [0..<TIMER_MAX_CALLBACKS]"

definition timer_callback :: "u32 \<Rightarrow> 'f \<Rightarrow> 'f timer \<Rightarrow> (int \<times> 'f timer) option" where
  "timer_callback when f t =
     (case free_slot (callbacks t) of
        None \<Rightarrow> Some (- 1, t)
      | Some nr \<Rightarrow>
          let cs = (callbacks t)[nr := \<lparr>cb_callback = f, cb_when = when, cb_next = None, cb_prev = None\<rparr>]
          in case next_callback t of
               None \<Rightarrow> Some (0, t\<lparr>callbacks := cs, next_callback := Some nr\<rparr>)
             | Some n \<Rightarrow>
                 Option.bind (insert_loop nr (Some n) cs) (\<lambda>cs'.
                   Some (0, t\<lparr>callbacks := cs',
                     next_callback := (if cb_prev (cs' ! n) \<noteq> None then cb_prev (cs' ! n) else Some n)\<rparr>)))"

subsection \<open>The interrupt\<close>

text \<open>The loop of the interrupt that puts a callback back into the list. It does not advance.\<close>

partial_function (option) reinsert_loop :: "nat \<Rightarrow> nat option \<Rightarrow> 'f callback_info list \<Rightarrow> 'f callback_info list option" where
  "reinsert_loop nr iter cs =
     (case iter of
        None \<Rightarrow> Some cs
      | Some i \<Rightarrow> reinsert_loop nr (Some i) (insert_step nr i cs))"

declare reinsert_loop.simps [code]

definition timer_requeue :: "nat \<Rightarrow> 'f timer \<Rightarrow> 'f timer option" where
  "timer_requeue tmp t =
     (if cb_when (callbacks t ! tmp) = TIMER_CANCEL then Some t
      else case next_callback t of
        None \<Rightarrow> Some (t\<lparr>next_callback := Some tmp\<rparr>)
      | Some n \<Rightarrow>
          Option.bind (reinsert_loop tmp (Some n) (callbacks t)) (\<lambda>cs.
            Some (t\<lparr>callbacks := cs, next_callback := (if cb_prev (cs ! n) \<noteq> None then cb_prev (cs ! n) else Some n)\<rparr>)))"

partial_function (option) timer_fire ::
  "('f \<Rightarrow> u32 \<Rightarrow> kern \<Rightarrow> (u32 \<times> kern) option) \<Rightarrow> 'f timer \<Rightarrow> kern \<Rightarrow> ('f timer \<times> kern) option" where
  "timer_fire run t k =
     (case next_callback t of
        None \<Rightarrow> Some (t, k)
      | Some n \<Rightarrow>
          if cb_when (callbacks t ! n) \<le> ticks k then
            Option.bind (run (cb_callback (callbacks t ! n)) (ticks k) k) (\<lambda>r.
              let cs1 = upd_cb n (\<lambda>c. c\<lparr>cb_when := fst r\<rparr>) (callbacks t);
                  nx = cb_next (cs1 ! n);
                  cs2 = (case nx of None \<Rightarrow> cs1 | Some m \<Rightarrow> upd_cb m (\<lambda>c. c\<lparr>cb_prev := None\<rparr>) cs1);
                  cs3 = upd_cb n (\<lambda>c. c\<lparr>cb_next := None, cb_prev := None\<rparr>) cs2
              in Option.bind (timer_requeue n (t\<lparr>callbacks := cs3, next_callback := nx\<rparr>)) (\<lambda>t'. timer_fire run t' (snd r)))
          else Some (t, k))"

declare timer_fire.simps [code]

definition timer_interrupt ::
  "('f \<Rightarrow> u32 \<Rightarrow> kern \<Rightarrow> (u32 \<times> kern) option) \<Rightarrow> u32 \<Rightarrow> (nat \<Rightarrow> cctx) \<Rightarrow> 'f timer \<Rightarrow> kern \<Rightarrow> ('f timer \<times> kern) option" where
  "timer_interrupt run rtc ctxs t k =
     (let k1 = k\<lparr>ticks := ticks k + 1\<rparr> in
      if timer_freq t = 0 then None
      else
        let t1 = (if ticks k1 mod timer_freq t = 0
                  then let t' = t\<lparr>current_time := current_time t + 1\<rparr>
                       in if current_time t' - last_sync t' > 60 then timer_sync_time rtc t' else t'
                  else t)
        in Option.bind (timer_fire run t1 k1) (\<lambda>(t2, k2).
             Option.bind (task_preempt ctxs k2) (\<lambda>k3. Some (t2, k3))))"

subsection \<open>Loops that do not end\<close>

lemma reinsert_loop_hangs: "reinsert_loop nr (Some i) cs = None"
proof (cases "reinsert_loop nr (Some i) cs")
  case (Some r)
  have "False" if "reinsert_loop nr it cs = Some r" "it = Some i" for it
    using that
    by (induction rule: reinsert_loop.raw_induct [rotated 1, consumes 1]) (auto split: option.splits)
  then show ?thesis using Some by blast
qed simp

text \<open>Once the new entry points to itself, the insertion goes round for ever.\<close>

lemma insert_loop_self_hangs:
  assumes "cb_next (cs ! nr) = Some nr"
  shows "insert_loop nr (Some nr) cs = None"
proof (cases "insert_loop nr (Some nr) cs")
  case (Some r)
  have "False" if "insert_loop nr it cs = Some r" "it = Some nr" "cb_next (cs ! nr) = Some nr" for it
    using that
    by (induction rule: insert_loop.raw_induct [rotated 1, consumes 1]) (auto simp: insert_step_def split: option.splits)
  then show ?thesis using Some assms by blast
qed simp

subsection \<open>Guarantees\<close>

definition timer_wf :: "'f timer \<Rightarrow> bool" where
  "timer_wf t \<longleftrightarrow> length (callbacks t) = TIMER_MAX_CALLBACKS \<and> timer_freq t \<noteq> 0"

lemma free_slot_Some: "free_slot cs = Some nr \<Longrightarrow> nr < TIMER_MAX_CALLBACKS \<and> cb_when (cs ! nr) = TIMER_CANCEL"
  unfolding free_slot_def find_Some_iff by (auto simp del: upt_Suc)

text \<open>
  A callback that is registered while no other is pending gets a free slot; the clock does not call it
  before its time. At the first tick at or after its time it is called once, with the current tick. If
  it asks to be cancelled, its slot is free again and no callback is pending; if it asks for a later
  time, it is pending for that time.
\<close>

theorem timer_callback_fires:
  assumes wf: "timer_wf t" and n: "next_callback t = None" and f: "free_slot (callbacks t) = Some nr"
  shows "\<exists>t'. timer_callback when f t = Some (0, t') \<and> next_callback t' = Some nr
     \<and> (ticks k < when \<longrightarrow> timer_fire run t' k = Some (t', k))
     \<and> (when \<le> ticks k \<and> run f (ticks k) k = Some (w, k') \<and> (w = TIMER_CANCEL \<or> ticks k' < w) \<longrightarrow>
          (\<exists>t''. timer_fire run t' k = Some (t'', k') \<and> cb_when (callbacks t'' ! nr) = w
             \<and> next_callback t'' = (if w = TIMER_CANCEL then None else Some nr)))"
proof -
  have nr: "nr < length (callbacks t)" using free_slot_Some [OF f] wf by (simp add: timer_wf_def)
  let ?cs = "(callbacks t)[nr := \<lparr>cb_callback = f, cb_when = when, cb_next = None, cb_prev = None\<rparr>]"
  let ?t = "t\<lparr>callbacks := ?cs, next_callback := Some nr\<rparr>"
  have reg: "timer_callback when f t = Some (0, ?t)" using n f by (simp add: timer_callback_def)
  have early: "timer_fire run ?t k = Some (?t, k)" if "ticks k < when"
  proof -
    have "\<not> when \<le> ticks k" using that by (simp add: not_le)
    then show ?thesis using nr by (subst timer_fire.simps) simp
  qed
  have "\<exists>t''. timer_fire run ?t k = Some (t'', k') \<and> cb_when (callbacks t'' ! nr) = w
      \<and> next_callback t'' = (if w = TIMER_CANCEL then None else Some nr)"
    if due: "when \<le> ticks k" "run f (ticks k) k = Some (w, k')" "w = TIMER_CANCEL \<or> ticks k' < w"
  proof -
    let ?c3 = "?cs[nr := \<lparr>cb_callback = f, cb_when = w, cb_next = None, cb_prev = None\<rparr>]"
    let ?t1 = "t\<lparr>callbacks := ?c3, next_callback := None\<rparr>"
    let ?t2 = "if w = TIMER_CANCEL then ?t1 else ?t1\<lparr>next_callback := Some nr\<rparr>"
    have rq: "timer_requeue nr ?t1 = Some ?t2" using nr by (simp add: timer_requeue_def)
    have "timer_fire run ?t k = timer_fire run ?t2 k'"
      using due nr rq by (subst timer_fire.simps) (simp add: Let_def)
    also have "\<dots> = Some (?t2, k')"
    proof -
      have "w \<noteq> TIMER_CANCEL \<Longrightarrow> \<not> w \<le> ticks k'" using due(3) by (simp add: not_le)
      then show ?thesis using nr by (subst timer_fire.simps) auto
    qed
    finally show ?thesis using nr by auto
  qed
  then show ?thesis using reg early by auto
qed

definition demo_timer :: "nat timer" where
  "demo_timer = \<lparr>timer_freq = 100, current_time = 0, last_sync = 0,
     callbacks = replicate TIMER_MAX_CALLBACKS \<lparr>cb_callback = 0, cb_when = TIMER_CANCEL, cb_next = None, cb_prev = None\<rparr>,
     next_callback = None\<rparr>"

lemma demo_timer_wf: "timer_wf demo_timer" "next_callback demo_timer = None" "free_slot (callbacks demo_timer) = Some 0"
proof -
  show "timer_wf demo_timer" "next_callback demo_timer = None" by (simp_all add: demo_timer_def timer_wf_def)
  have "[0..<TIMER_MAX_CALLBACKS] = 0 # [1..<TIMER_MAX_CALLBACKS]" by (simp add: TIMER_MAX_CALLBACKS_def upt_conv_Cons)
  then show "free_slot (callbacks demo_timer) = Some 0"
    by (simp add: free_slot_def demo_timer_def TIMER_MAX_CALLBACKS_def)
qed

theorem timer_callback_fires_witness:
  "\<exists>t' t''. timer_callback 5 3 demo_timer = Some (0, t')
     \<and> timer_fire (\<lambda>f now k. Some (TIMER_CANCEL, k\<lparr>next_pid := int f\<rparr>)) t' (demo_kern\<lparr>ticks := 5\<rparr>)
        = Some (t'', demo_kern\<lparr>ticks := 5, next_pid := 3\<rparr>)
     \<and> next_callback t'' = None"
  using timer_callback_fires [OF demo_timer_wf, of 5 3 "demo_kern\<lparr>ticks := 5\<rparr>"
      "\<lambda>f now k. Some (TIMER_CANCEL, k\<lparr>next_pid := int f\<rparr>)" TIMER_CANCEL "demo_kern\<lparr>ticks := 5, next_pid := 3\<rparr>"]
  by auto

text \<open>
  Two pending callbacks make the kernel hang. Registering a callback for a time that is not before the
  only pending one never returns: the insertion appends the new entry, then visits it, links it to
  itself and goes round for ever. And when a callback fires while another one is pending and asks
  to be called again, the interrupt never returns.
\<close>

theorem timer_second_callback_hangs:
  assumes wf: "timer_wf t" and f: "free_slot (callbacks t) = Some nr" and n: "next_callback t = Some n" "n < TIMER_MAX_CALLBACKS"
    and w: "cb_when (callbacks t ! n) \<noteq> TIMER_CANCEL"
  shows "(cb_next (callbacks t ! n) = None \<and> cb_when (callbacks t ! n) \<le> when \<longrightarrow> timer_callback when g t = None)
     \<and> (cb_when (callbacks t ! n) \<le> ticks k \<and> cb_next (callbacks t ! n) = Some m \<and> m \<noteq> n
        \<and> run (cb_callback (callbacks t ! n)) (ticks k) k = Some (w', k') \<and> w' \<noteq> TIMER_CANCEL
        \<longrightarrow> timer_fire run t k = None)"
proof (intro conjI impI)
  have len: "length (callbacks t) = TIMER_MAX_CALLBACKS" using wf by (simp add: timer_wf_def)
  have nr: "nr < length (callbacks t)" and ne: "nr \<noteq> n" using free_slot_Some [OF f] len w by auto
  show "timer_callback when g t = None" if a: "cb_next (callbacks t ! n) = None \<and> cb_when (callbacks t ! n) \<le> when"
  proof -
    let ?cs = "(callbacks t)[nr := \<lparr>cb_callback = g, cb_when = when, cb_next = None, cb_prev = None\<rparr>]"
    let ?c1 = "insert_step nr n ?cs"
    have nw: "\<not> when < cb_when (callbacks t ! n)" using a by (simp add: not_less)
    have c1: "cb_next (?c1 ! n) = Some nr" "cb_next (?c1 ! nr) = None" "cb_when (?c1 ! nr) = when" "length ?c1 = length (callbacks t)"
      using a nw nr ne n(2) len by (simp_all add: insert_step_def)
    let ?c2 = "insert_step nr nr ?c1"
    have c2: "cb_next (?c2 ! nr) = Some nr" using c1 nr by (simp add: insert_step_def)
    have "insert_loop nr (Some n) ?cs = insert_loop nr (Some nr) ?c1"
      using c1(1) by (subst insert_loop.simps) simp
    also have "\<dots> = insert_loop nr (Some nr) ?c2" using c2 by (subst insert_loop.simps) simp
    also have "\<dots> = None" by (rule insert_loop_self_hangs [OF c2])
    finally show ?thesis using f n(1) by (simp add: timer_callback_def)
  qed
  show "timer_fire run t k = None"
    if a: "cb_when (callbacks t ! n) \<le> ticks k \<and> cb_next (callbacks t ! n) = Some m \<and> m \<noteq> n
        \<and> run (cb_callback (callbacks t ! n)) (ticks k) k = Some (w', k') \<and> w' \<noteq> TIMER_CANCEL"
    using a n len by (subst timer_fire.simps) (simp add: Let_def timer_requeue_def reinsert_loop_hangs)
qed

theorem timer_second_callback_hangs_witness:
  "\<exists>t. timer_callback 5 3 demo_timer = Some (0, t) \<and> timer_callback 7 4 t = None"
proof -
  let ?cs = "(callbacks demo_timer)[0 := \<lparr>cb_callback = 3, cb_when = 5, cb_next = None, cb_prev = None\<rparr>]"
  let ?t = "demo_timer\<lparr>callbacks := ?cs, next_callback := Some 0\<rparr>"
  have l: "length (callbacks demo_timer) = 128" by (simp add: demo_timer_def TIMER_MAX_CALLBACKS_def)
  have reg: "timer_callback 5 3 demo_timer = Some (0, ?t)" using demo_timer_wf by (simp add: timer_callback_def)
  have "[0..<TIMER_MAX_CALLBACKS] = 0 # 1 # [2..<TIMER_MAX_CALLBACKS]" by (simp add: TIMER_MAX_CALLBACKS_def upt_conv_Cons numeral_2_eq_2)
  then have "free_slot (callbacks ?t) = Some 1"
    by (simp add: free_slot_def demo_timer_def TIMER_MAX_CALLBACKS_def TIMER_CANCEL_def)
  moreover have "timer_wf ?t" using demo_timer_wf(1) by (simp add: timer_wf_def)
  ultimately show ?thesis
    using timer_second_callback_hangs [of ?t 1 0 7 4] reg l by (auto simp: TIMER_MAX_CALLBACKS_def TIMER_CANCEL_def)
qed

end
