(* ===== verification/Printf.thy ===== *)
theory Printf
  imports Prelude
begin

text \<open>
  The formatted output of \<^verbatim>\<open>kernel/src/ee_printf.c\<close>: \<^verbatim>\<open>sprintf\<close> and the routines below it.

  The characters a routine stores through its \<^verbatim>\<open>str\<close> pointer are the string it returns; a
  format is the text before its terminating NUL. The variable arguments are a list of values of
  the kinds the conversions fetch, and \<open>None\<close> stands for a fetch that the caller's arguments do
  not support (an argument missing, or of another kind), which is undefined in C.
  \<^verbatim>\<open>int\<close> and \<^verbatim>\<open>long\<close> arguments are 32-bit words; field widths and precisions are
  integers. The floating point conversions are compiled only under \<^verbatim>\<open>HAS_FLOAT\<close>, which
  nothing in the tree defines, and are not part of the program.
\<close>

subsection \<open>Numbers\<close>

definition ZEROPAD :: u32 where "ZEROPAD = 1"
definition SIGN :: u32 where "SIGN = 2"
definition PLUS :: u32 where "PLUS = 4"
definition SPACE :: u32 where "SPACE = 8"
definition LEFT :: u32 where "LEFT = 16"
definition HEX_PREP :: u32 where "HEX_PREP = 32"
definition UPPERCASE :: u32 where "UPPERCASE = 64"

lemmas fmt_flags = ZEROPAD_def SIGN_def PLUS_def SPACE_def LEFT_def HEX_PREP_def UPPERCASE_def

definition is_digit :: "char \<Rightarrow> bool" where
  "is_digit c \<longleftrightarrow> of_char c \<ge> (48 :: nat) \<and> of_char c \<le> (57 :: nat)"

definition lower_digits :: string where
  "lower_digits = ''0123456789abcdefghijklmnopqrstuvwxyz''"

definition upper_digits :: string where
  "upper_digits = ''0123456789ABCDEFGHIJKLMNOPQRSTUVWXYZ''"

fun strnlen :: "string \<Rightarrow> nat \<Rightarrow> nat" where
  "strnlen [] count = 0"
| "strnlen (c # s) count = (if count = 0 then 0 else Suc (strnlen s (count - 1)))"

text \<open>The loop \<^verbatim>\<open>while (lo < w--) *str++ = c\<close>: what it stores and the final \<^verbatim>\<open>w\<close>.\<close>

function pad_while :: "int \<Rightarrow> char \<Rightarrow> int \<Rightarrow> string \<times> int" where
  "pad_while lo c w =
    (if lo < w then let (s, w') = pad_while lo c (w - 1) in (c # s, w') else ([], w - 1))"
  by pat_completeness auto
termination by (relation "measure (\<lambda>(lo, c, w). nat (w - lo))") auto

declare pad_while.simps [simp del]

text \<open>The digits of a number, the least significant first, as the loop fills \<^verbatim>\<open>tmp\<close>.\<close>

function ee_digits :: "string \<Rightarrow> nat \<Rightarrow> nat \<Rightarrow> string" where
  "ee_digits dig base num =
    (if base < 2 \<or> num = 0 then [] else dig ! (num mod base) # ee_digits dig base (num div base))"
  by pat_completeness auto
termination by (relation "measure (\<lambda>(dig, base, num). num)") auto

declare ee_digits.simps [simp del]

definition ee_sign :: "u32 \<Rightarrow> u32 \<Rightarrow> int \<Rightarrow> string \<times> u32 \<times> int" where
  "ee_sign num type sz =
    (if type AND SIGN \<noteq> 0 then
       if sint num < 0 then (''-'', - num, sz - 1)
       else if type AND PLUS \<noteq> 0 then (''+'', num, sz - 1)
       else if type AND SPACE \<noteq> 0 then ('' '', num, sz - 1)
       else ([], num, sz)
     else ([], num, sz))"

definition ee_prefix :: "int \<Rightarrow> u32 \<Rightarrow> string" where
  "ee_prefix base type =
    (if type AND HEX_PREP \<noteq> 0 then
       if base = 8 then ''0''
       else if base = 16 then [CHR ''0'', lower_digits ! 33] else []
     else [])"

definition ee_number :: "u32 \<Rightarrow> int \<Rightarrow> int \<Rightarrow> int \<Rightarrow> u32 \<Rightarrow> string option" where
  "ee_number num base sz precision type =
    (let dig = (if type AND UPPERCASE \<noteq> 0 then upper_digits else lower_digits);
         type = (if type AND LEFT \<noteq> 0 then type AND NOT ZEROPAD else type)
     in if base < 2 \<or> base > 36 then None
     else
       let c = (if type AND ZEROPAD \<noteq> 0 then CHR ''0'' else CHR '' '');
           (sign, num, sz) = ee_sign num type sz;
           sz = (if type AND HEX_PREP \<noteq> 0
                   then if base = 16 then sz - 2 else if base = 8 then sz - 1 else sz
                   else sz);
           tmp = (if num = 0 then ''0'' else ee_digits dig (nat base) (unat num));
           i = int (length tmp);
           precision = (if i > precision then i else precision);
           sz = sz - precision;
           (out1, sz) = (if type AND (ZEROPAD OR LEFT) = 0
                           then pad_while 0 (CHR '' '') sz else ([], sz));
           (out2, sz) = (if type AND LEFT = 0 then pad_while 0 c sz else ([], sz));
           (out3, _) = pad_while i (CHR ''0'') precision;
           (out4, _) = pad_while 0 (CHR '' '') sz
       in Some (out1 @ sign @ ee_prefix base type @ out2 @ out3 @ rev tmp @ out4))"

subsection \<open>Addresses\<close>

definition ee_field :: "string \<Rightarrow> int \<Rightarrow> u32 \<Rightarrow> string" where
  "ee_field tmp sz type =
    (let len = int (length tmp);
         (out1, sz) = (if type AND LEFT = 0 then pad_while len (CHR '' '') sz else ([], sz));
         (out2, _) = pad_while len (CHR '' '') sz
     in out1 @ tmp @ out2)"

fun eaddr_bytes :: "string \<Rightarrow> u8 list \<Rightarrow> nat \<Rightarrow> string" where
  "eaddr_bytes dig [] i = []"
| "eaddr_bytes dig (a # as) i =
    (if i \<noteq> 0 then '':'' else []) @
    [dig ! unat (drop_bit 4 a), dig ! unat (a AND 0x0F)] @ eaddr_bytes dig as (i + 1)"

definition eaddr :: "u8 list \<Rightarrow> int \<Rightarrow> u32 \<Rightarrow> string option" where
  "eaddr addr sz type =
    (if length addr < 6 then None
     else
       let dig = (if type AND UPPERCASE \<noteq> 0 then upper_digits else lower_digits)
       in Some (ee_field (eaddr_bytes dig (take 6 addr) 0) sz type))"

definition iaddr_byte :: "nat \<Rightarrow> string" where
  "iaddr_byte n =
    (if n = 0 then [lower_digits ! 0]
     else if n \<ge> 100 then
       [lower_digits ! (n div 100), lower_digits ! (n mod 100 div 10),
        lower_digits ! (n mod 100 mod 10)]
     else if n \<ge> 10 then [lower_digits ! (n div 10), lower_digits ! (n mod 10)]
     else [lower_digits ! n])"

fun iaddr_bytes :: "u8 list \<Rightarrow> nat \<Rightarrow> string" where
  "iaddr_bytes [] i = []"
| "iaddr_bytes (a # as) i =
    (if i \<noteq> 0 then ''.'' else []) @ iaddr_byte (unat a) @ iaddr_bytes as (i + 1)"

definition iaddr :: "u8 list \<Rightarrow> int \<Rightarrow> u32 \<Rightarrow> string option" where
  "iaddr addr sz type =
    (if length addr < 4 then None
     else Some (ee_field (iaddr_bytes (take 4 addr) 0) sz type))"

subsection \<open>Format strings\<close>

datatype fmt_arg = Arg_int u32 | Arg_str "string option" | Arg_addr "u8 list"

fun arg_int :: "fmt_arg list \<Rightarrow> (u32 \<times> fmt_arg list) option" where
  "arg_int (Arg_int n # args) = Some (n, args)"
| "arg_int _ = None"

fun ee_flags :: "string \<Rightarrow> u32 \<Rightarrow> u32 \<times> string" where
  "ee_flags [] flags = (flags, [])"
| "ee_flags (c # fmt) flags =
    (if c = CHR ''-'' then ee_flags fmt (flags OR LEFT)
     else if c = CHR ''+'' then ee_flags fmt (flags OR PLUS)
     else if c = CHR '' '' then ee_flags fmt (flags OR SPACE)
     else if c = CHR ''#'' then ee_flags fmt (flags OR HEX_PREP)
     else if c = CHR ''0'' then ee_flags fmt (flags OR ZEROPAD)
     else (flags, c # fmt))"

fun ee_skip_atoi :: "string \<Rightarrow> int \<Rightarrow> int \<times> string" where
  "ee_skip_atoi [] i = (i, [])"
| "ee_skip_atoi (c # s) i =
    (if is_digit c then ee_skip_atoi s (i * 10 + of_char c - 48) else (i, c # s))"

definition ee_width ::
  "string \<Rightarrow> u32 \<Rightarrow> fmt_arg list \<Rightarrow> (int \<times> u32 \<times> string \<times> fmt_arg list) option" where
  "ee_width fmt flags args =
    (if fmt \<noteq> [] \<and> is_digit (hd fmt) then
       let (w, fmt) = ee_skip_atoi fmt 0 in Some (w, flags, fmt, args)
     else if fmt \<noteq> [] \<and> hd fmt = CHR ''*'' then
       (case arg_int args of
          None \<Rightarrow> None
        | Some (n, args) \<Rightarrow>
            if sint n < 0 then Some (- sint n, flags OR LEFT, tl fmt, args)
            else Some (sint n, flags, tl fmt, args))
     else Some (-1, flags, fmt, args))"

definition ee_precision ::
  "string \<Rightarrow> fmt_arg list \<Rightarrow> (int \<times> string \<times> fmt_arg list) option" where
  "ee_precision fmt args =
    (if fmt \<noteq> [] \<and> hd fmt = CHR ''.'' then
       let fmt = tl fmt
       in if fmt \<noteq> [] \<and> is_digit (hd fmt) then
            let (p, fmt) = ee_skip_atoi fmt 0 in Some (if p < 0 then 0 else p, fmt, args)
          else if fmt \<noteq> [] \<and> hd fmt = CHR ''*'' then
            (case arg_int args of
               None \<Rightarrow> None
             | Some (n, args) \<Rightarrow> Some (if sint n < 0 then 0 else sint n, tl fmt, args))
          else Some (0, fmt, args)
     else Some (-1, fmt, args))"

definition ee_qualifier :: "string \<Rightarrow> char option \<times> string" where
  "ee_qualifier fmt =
    (if fmt \<noteq> [] \<and> (hd fmt = CHR ''l'' \<or> hd fmt = CHR ''L'') then (Some (hd fmt), tl fmt)
     else (None, fmt))"

text \<open>\<^verbatim>\<open>%c\<close>: the loops \<^verbatim>\<open>while (--field_width > 0)\<close> around the character. The loop
  that decrements first runs as \<open>pad_while\<close> does from one less.\<close>

definition ee_char :: "u32 \<Rightarrow> int \<Rightarrow> u32 \<Rightarrow> string" where
  "ee_char n width flags =
    (let (out1, width) = (if flags AND LEFT = 0
                          then let (s, w) = pad_while 0 (CHR '' '') (width - 1) in (s, w + 1)
                          else ([], width));
         (out2, _) = pad_while 0 (CHR '' '') (width - 1)
     in out1 @ [char_of (unat n mod 256)] @ out2)"

text \<open>\<^verbatim>\<open>%s\<close>: a precision of -1 converts to the largest \<^verbatim>\<open>size_t\<close>.\<close>

definition ee_string :: "string option \<Rightarrow> int \<Rightarrow> int \<Rightarrow> u32 \<Rightarrow> string" where
  "ee_string s width precision flags =
    (let s = (case s of None \<Rightarrow> ''<NULL>'' | Some s \<Rightarrow> s);
         len = strnlen s (unat (word_of_int precision :: u32))
     in ee_field (take len s) width flags)"

definition ee_integer ::
  "int \<Rightarrow> int \<Rightarrow> int \<Rightarrow> u32 \<Rightarrow> string \<Rightarrow> fmt_arg list
    \<Rightarrow> (string \<times> string \<times> fmt_arg list) option" where
  "ee_integer base width precision flags fmt args =
    (case arg_int args of
       None \<Rightarrow> None
     | Some (num, args) \<Rightarrow>
         (case ee_number num base width precision flags of
            None \<Rightarrow> None
          | Some out \<Rightarrow> Some (out, fmt, args)))"

text \<open>The conversion switch: the characters stored, the format after the conversion and the
  arguments left.\<close>

definition ee_convert ::
  "string \<Rightarrow> u32 \<Rightarrow> int \<Rightarrow> int \<Rightarrow> char option \<Rightarrow> fmt_arg list
    \<Rightarrow> (string \<times> string \<times> fmt_arg list) option" where
  "ee_convert fmt flags width precision qualifier args =
    (case fmt of
       [] \<Rightarrow> Some (''%'', [], args)
     | c # fmt \<Rightarrow>
         if c = CHR ''c'' then
           (case arg_int args of
              None \<Rightarrow> None
            | Some (n, args) \<Rightarrow> Some (ee_char n width flags, fmt, args))
         else if c = CHR ''s'' then
           (case args of
              Arg_str s # args \<Rightarrow> Some (ee_string s width precision flags, fmt, args)
            | _ \<Rightarrow> None)
         else if c = CHR ''p'' then
           (if width = -1
            then ee_integer 16 8 precision (flags OR ZEROPAD) fmt args
            else ee_integer 16 width precision flags fmt args)
         else if c = CHR ''A'' \<or> c = CHR ''a'' then
           (let flags = (if c = CHR ''A'' then flags OR UPPERCASE else flags)
            in case args of
                 Arg_addr a # args \<Rightarrow>
                   (case (if qualifier = Some (CHR ''l'') then eaddr a width flags
                          else iaddr a width flags) of
                      None \<Rightarrow> None
                    | Some out \<Rightarrow> Some (out, fmt, args))
               | _ \<Rightarrow> None)
         else if c = CHR ''o'' then ee_integer 8 width precision flags fmt args
         else if c = CHR ''X'' then ee_integer 16 width precision (flags OR UPPERCASE) fmt args
         else if c = CHR ''x'' then ee_integer 16 width precision flags fmt args
         else if c = CHR ''d'' \<or> c = CHR ''i'' then
           ee_integer 10 width precision (flags OR SIGN) fmt args
         else if c = CHR ''u'' then ee_integer 10 width precision flags fmt args
         else Some ((if c \<noteq> CHR ''%'' then ''%'' else []) @ [c], fmt, args))"

definition ee_directive ::
  "string \<Rightarrow> fmt_arg list \<Rightarrow> (string \<times> string \<times> fmt_arg list) option" where
  "ee_directive fmt args =
    (let (flags, fmt) = ee_flags fmt 0
     in case ee_width fmt flags args of
          None \<Rightarrow> None
        | Some (width, flags, fmt, args) \<Rightarrow>
            (case ee_precision fmt args of
               None \<Rightarrow> None
             | Some (precision, fmt, args) \<Rightarrow>
                 (let (qualifier, fmt) = ee_qualifier fmt
                  in ee_convert fmt flags width precision qualifier args)))"

lemma ee_flags_length: "length (snd (ee_flags fmt flags)) \<le> length fmt"
  by (induction fmt flags rule: ee_flags.induct) auto

lemma ee_skip_atoi_length: "length (snd (ee_skip_atoi s i)) \<le> length s"
  by (induction s i rule: ee_skip_atoi.induct) auto

lemma ee_width_length:
  "ee_width fmt flags args = Some (w, flags', fmt', args') \<Longrightarrow> length fmt' \<le> length fmt"
  using ee_skip_atoi_length [of fmt 0]
  by (auto simp: ee_width_def split: if_splits option.splits prod.splits)

lemma ee_precision_length:
  "ee_precision fmt args = Some (p, fmt', args') \<Longrightarrow> length fmt' \<le> length fmt"
  using ee_skip_atoi_length [of "tl fmt" 0]
  by (auto simp: ee_precision_def Let_def split: if_splits option.splits prod.splits)

lemma ee_convert_length:
  "ee_convert fmt flags w p q args = Some (out, fmt', args') \<Longrightarrow> length fmt' \<le> length fmt"
  by (auto simp: ee_convert_def ee_integer_def Let_def
      split: if_splits option.splits list.splits fmt_arg.splits prod.splits)

lemma ee_directive_length:
  assumes "ee_directive fmt args = Some (out, fmt', args')"
  shows "length fmt' \<le> length fmt"
proof -
  obtain fl f1 where 1: "ee_flags fmt 0 = (fl, f1)" by fastforce
  obtain w fl2 f2 a2 where 2: "ee_width f1 fl args = Some (w, fl2, f2, a2)"
    using assms 1 by (cases "ee_width f1 fl args") (auto simp: ee_directive_def)
  obtain p f3 a3 where 3: "ee_precision f2 a2 = Some (p, f3, a3)"
    using assms 1 2 by (cases "ee_precision f2 a2") (auto simp: ee_directive_def)
  obtain q f4 where 4: "ee_qualifier f3 = (q, f4)" by fastforce
  have "length f4 \<le> length f3" using 4 by (auto simp: ee_qualifier_def split: if_splits)
  moreover have "length fmt' \<le> length f4"
    using assms 1 2 3 4 by (auto simp: ee_directive_def dest: ee_convert_length)
  ultimately show ?thesis
    using ee_flags_length [of fmt 0] 1 ee_width_length [OF 2] ee_precision_length [OF 3] by simp
qed

function ee_vsprintf :: "string \<Rightarrow> fmt_arg list \<Rightarrow> string option" where
  "ee_vsprintf [] args = Some []"
| "ee_vsprintf (c # fmt) args =
    (if c \<noteq> CHR ''%'' then map_option (Cons c) (ee_vsprintf fmt args)
     else (case ee_directive fmt args of
             None \<Rightarrow> None
           | Some (out, fmt', args') \<Rightarrow> map_option ((@) out) (ee_vsprintf fmt' args')))"
  by pat_completeness auto
termination
  by (relation "measure (\<lambda>(fmt, args). length fmt)")
    (auto dest: ee_directive_length)

text \<open>\<^verbatim>\<open>sprintf\<close> returns what it stored, without the NUL, and its length.\<close>

definition sprintf :: "string \<Rightarrow> fmt_arg list \<Rightarrow> (string \<times> int) option" where
  "sprintf fmt args = map_option (\<lambda>out. (out, int (length out))) (ee_vsprintf fmt args)"


subsection \<open>What a number conversion prints\<close>

text \<open>A reader of numerals, independent of the digit tables.\<close>

definition digit_value :: "char \<Rightarrow> nat" where
  "digit_value c =
    (let k = of_char c in if k < 58 then k - 48 else if k < 91 then k - 55 else k - 87)"

definition numeral_value :: "nat \<Rightarrow> string \<Rightarrow> nat" where
  "numeral_value base = foldl (\<lambda>a c. a * base + digit_value c) 0"

definition magnitude :: "u32 \<Rightarrow> u32 \<Rightarrow> nat" where
  "magnitude num type = (if type AND SIGN \<noteq> 0 then nat \<bar>sint num\<bar> else unat num)"

text \<open>
  The sign and the radix prefix that the flags ask for: under \<^verbatim>\<open>SIGN\<close> a minus for a negative number, else
  a plus or, failing that, a blank if asked for; under \<^verbatim>\<open>HEX_PREP\<close> the customary prefix of the base.
\<close>

definition sign_text :: "u32 \<Rightarrow> u32 \<Rightarrow> string" where
  "sign_text num type =
    (if type AND SIGN = 0 then [] else if sint num < 0 then ''-''
     else if type AND PLUS \<noteq> 0 then ''+'' else if type AND SPACE \<noteq> 0 then '' '' else [])"

definition prefix_text :: "int \<Rightarrow> u32 \<Rightarrow> string" where
  "prefix_text base type =
    (if type AND HEX_PREP = 0 then [] else if base = 16 then ''0x'' else if base = 8 then ''0'' else [])"

definition digit_chars :: "u32 \<Rightarrow> char set" where
  "digit_chars type = set ''0123456789'' \<union>
    (if type AND UPPERCASE = 0 then set ''abcdefghijklmnopqrstuvwxyz'' else set ''ABCDEFGHIJKLMNOPQRSTUVWXYZ'')"

text \<open>How a signed, prefixed numeral is laid out in a field.\<close>

definition layout :: "string \<Rightarrow> string \<Rightarrow> int \<Rightarrow> u32 \<Rightarrow> string" where
  "layout body ds sz type =
    (let fill = nat (sz - int (length body + length ds))
     in if type AND LEFT \<noteq> 0 then body @ ds @ replicate fill (CHR '' '')
        else if type AND ZEROPAD \<noteq> 0 then body @ replicate fill (CHR ''0'') @ ds
        else replicate fill (CHR '' '') @ body @ ds)"

lemma pad_while_eq: "pad_while lo c w = (replicate (nat (w - lo)) c, min lo w - 1)"
proof (induction lo c w rule: pad_while.induct)
  case (1 lo c w)
  show ?case
  proof (cases "lo < w")
    case True
    then have "nat (w - lo) = Suc (nat (w - 1 - lo))" by simp
    then show ?thesis using 1 True by (subst pad_while.simps) simp
  qed (subst pad_while.simps, simp)
qed

lemma digit_value_digit:
  assumes "k < 36"
  shows "digit_value (lower_digits ! k) = k \<and> digit_value (upper_digits ! k) = k"
proof -
  have "list_all (\<lambda>k. digit_value (lower_digits ! k) = k \<and> digit_value (upper_digits ! k) = k) [0..<36]"
    by code_simp
  then show ?thesis using assms by (auto simp: list_all_iff)
qed

lemma numeral_value_snoc:
  "numeral_value base (s @ [c]) = numeral_value base s * base + digit_value c"
  by (simp add: numeral_value_def)

lemma numeral_value_digits:
  assumes "2 \<le> base" "base \<le> 36" "dig = lower_digits \<or> dig = upper_digits"
  shows "numeral_value base (rev (ee_digits dig base n)) = n"
  using assms
proof (induction dig base n rule: ee_digits.induct)
  case (1 dig base n)
  show ?case
  proof (cases "n = 0")
    case False
    have "digit_value (dig ! (n mod base)) = n mod base"
      using 1(2-) digit_value_digit [of "n mod base"] mod_less_divisor [of base n] by fastforce
    then show ?thesis
      using 1 False by (subst ee_digits.simps) (simp add: numeral_value_snoc)
  qed (simp add: ee_digits.simps numeral_value_def)
qed

lemma numeral_value_zeros:
  "numeral_value base (replicate k (CHR ''0'') @ s) = numeral_value base s"
proof (induction k)
  case (Suc k)
  then show ?case by (simp add: numeral_value_def digit_value_def)
qed simp

lemma ee_digits_length:
  "2 \<le> base \<Longrightarrow> n < 2 ^ k \<Longrightarrow> length (ee_digits dig base n) \<le> k"
proof (induction k arbitrary: n)
  case (Suc k)
  have "n div base \<le> n div 2" using Suc(2) by (simp add: div_le_mono2)
  then have "n div base < 2 ^ k" using Suc(3) by auto
  from Suc(1) [OF Suc(2) this] show ?case by (subst ee_digits.simps) simp
qed (simp add: ee_digits.simps)

lemma ee_digits_last:
  assumes "2 \<le> base" "base \<le> 36" "dig = lower_digits \<or> dig = upper_digits" "n \<noteq> 0"
  shows "ee_digits dig base n \<noteq> [] \<and> digit_value (last (ee_digits dig base n)) \<noteq> 0"
  using assms
proof (induction dig base n rule: ee_digits.induct)
  case (1 dig base n)
  show ?case
  proof (cases "n div base = 0")
    case True
    then have "n < base" using 1(2) by (simp add: div_eq_0_iff)
    then show ?thesis
      using 1(2-) True digit_value_digit [of n]
      by (subst (1 2) ee_digits.simps) (auto simp: ee_digits.simps [of _ _ 0])
  next
    case False
    then show ?thesis using 1 by (subst (1 2) ee_digits.simps) auto
  qed
qed

lemma unat_uminus_negative:
  assumes "sint (w :: u32) < 0"
  shows "unat (- w) = nat \<bar>sint w\<bar>"
proof -
  have b: "- (2 ^ 31) \<le> sint w" using sint_ge [of w] by simp
  have "uint (- w) = uint (word_of_int (- sint w) :: u32)" by simp
  also have "\<dots> = (- sint w) mod 2 ^ 32"
    by (rule uint_word_of_int [THEN trans]) simp
  also have "\<dots> = - sint w" using assms b by (intro mod_pos_pos_trivial) auto
  finally show ?thesis using assms by (simp add: unat_eq_nat_uint)
qed

lemma ee_sign_eq:
  "ee_sign num type sz =
    (sign_text num type, word_of_nat (magnitude num type), sz - int (length (sign_text num type)))"
proof (cases "type AND SIGN \<noteq> 0 \<and> sint num < 0")
  case True
  then have "word_of_nat (magnitude num type) = - num"
    by (simp add: magnitude_def flip: unat_uminus_negative)
  then show ?thesis using True by (simp add: ee_sign_def sign_text_def)
next
  case False
  then have "word_of_nat (magnitude num type) = num"
    by (auto simp: magnitude_def)
  then show ?thesis using False by (auto simp: ee_sign_def sign_text_def)
qed

lemma and_not_zeropad [simp]:
  "(t AND NOT ZEROPAD) AND SIGN = t AND SIGN" "(t AND NOT ZEROPAD) AND PLUS = t AND PLUS"
  "(t AND NOT ZEROPAD) AND SPACE = t AND SPACE" "(t AND NOT ZEROPAD) AND LEFT = t AND LEFT"
  "(t AND NOT ZEROPAD) AND HEX_PREP = t AND HEX_PREP" "(t AND NOT ZEROPAD) AND ZEROPAD = 0"
  by (simp_all add: fmt_flags and.assoc)

lemma and_zeropad_left:
  "t AND (ZEROPAD OR LEFT) = 0 \<longleftrightarrow> t AND ZEROPAD = 0 \<and> t AND LEFT = 0"
  by (simp add: bit.conj_disj_distrib or_eq_0_iff)

text \<open>The digits with their leading zeros.\<close>

definition number_digits :: "nat \<Rightarrow> nat \<Rightarrow> int \<Rightarrow> u32 \<Rightarrow> string" where
  "number_digits n base precision type =
    (let dig = (if type AND UPPERCASE \<noteq> 0 then upper_digits else lower_digits);
         tmp = (if n = 0 then ''0'' else ee_digits dig base n)
     in replicate (nat (precision - int (length tmp))) (CHR ''0'') @ rev tmp)"

lemma magnitude_less: "magnitude num type < 2 ^ 32"
proof -
  have "\<bar>sint num\<bar> \<le> 2 ^ 31" using sint_ge [of num] sint_lt [of num] by (auto simp: abs_le_iff)
  then have "nat \<bar>sint num\<bar> < 2 ^ 32" by auto
  then show ?thesis using unsigned_less [of num] by (auto simp: magnitude_def)
qed

lemma ee_prefix_length:
  "(if type AND HEX_PREP \<noteq> 0 then if base = 16 then sz - 2 else if base = 8 then sz - 1 else sz
    else sz) = sz - int (length (ee_prefix base type))"
  by (simp add: ee_prefix_def)

lemma ee_number_eq:
  assumes "2 \<le> base" "base \<le> 36"
  shows "ee_number num base sz precision type =
    Some (layout (sign_text num type @ ee_prefix base type)
      (number_digits (magnitude num type) (nat base) precision type) sz type)"
proof -
  let ?n = "magnitude num type"
  let ?t = "if type AND LEFT \<noteq> 0 then type AND NOT ZEROPAD else type"
  have n: "unat (word_of_nat ?n :: u32) = ?n"
    using magnitude_less [of num type] by (simp add: unat_of_nat)
  then have n0: "(word_of_nat ?n :: u32) = 0 \<longleftrightarrow> ?n = 0"
    by (metis unsigned_0 unsigned_eq_0_iff)
  have s: "sign_text num ?t = sign_text num type" "magnitude num ?t = ?n"
    "ee_prefix base ?t = ee_prefix base type"
    by (simp_all add: sign_text_def ee_sign_def magnitude_def ee_prefix_def)
  show ?thesis
    using assms
    unfolding ee_number_def Let_def ee_sign_eq s prod.case n n0 ee_prefix_length pad_while_eq
      and_zeropad_left layout_def number_digits_def
    by (cases "type AND LEFT = 0"; cases "type AND ZEROPAD = 0") (auto simp: Let_def)
qed

lemma number_digits_value:
  assumes "2 \<le> base" "base \<le> 36"
  shows "numeral_value base (number_digits n base precision type) = n"
  using assms numeral_value_digits [OF assms]
  by (auto simp: number_digits_def Let_def numeral_value_zeros)
    (simp_all add: numeral_value_def digit_value_def)

lemma number_digits_length:
  assumes "2 \<le> base" "n < 2 ^ 32"
  shows "precision \<le> int (length (number_digits n base precision type))
    \<and> int (length (number_digits n base precision type)) \<le> max precision 32"
  using ee_digits_length [OF assms, of lower_digits] ee_digits_length [OF assms, of upper_digits]
  by (cases "type AND UPPERCASE = 0") (auto simp: number_digits_def Let_def)

lemma number_digits_hd:
  assumes b: "2 \<le> base" "base \<le> 36"
    and l: "precision < int (length (number_digits n base precision type))"
    and "n \<noteq> 0"
  shows "digit_value (hd (number_digits n base precision type)) \<noteq> 0"
proof -
  let ?dig = "if type AND UPPERCASE \<noteq> 0 then upper_digits else lower_digits"
  have nz: "ee_digits ?dig base n \<noteq> []" "digit_value (last (ee_digits ?dig base n)) \<noteq> 0"
    using ee_digits_last [OF b _ assms(4), of ?dig] by auto
  have "number_digits n base precision type = rev (ee_digits ?dig base n)"
    using l assms(4)
    by (cases "type AND UPPERCASE = 0") (auto simp: number_digits_def Let_def split: if_splits)
  then show ?thesis using nz by (simp add: hd_rev)
qed

lemma layout_length:
  "int (length (layout body ds sz type)) = max sz (int (length body + length ds))"
  by (auto simp: layout_def Let_def)

lemma sign_prefix_length: "length (sign_text num type @ ee_prefix base type) \<le> 3"
  by (simp add: sign_text_def ee_sign_def ee_prefix_def)

lemma ee_prefix_text: "ee_prefix base type = prefix_text base type"
  by (simp add: ee_prefix_def prefix_text_def lower_digits_def)

lemma ee_digits_set:
  "base \<le> length dig \<Longrightarrow> set (ee_digits dig base n) \<subseteq> set dig"
proof (induction dig base n rule: ee_digits.induct)
  case (1 dig base n)
  show ?case
  proof (cases "base < 2 \<or> n = 0")
    case False
    then have "n mod base < base" by simp
    then have "n mod base < length dig" using 1(2) by linarith
    then show ?thesis using 1 False by (subst ee_digits.simps) auto
  qed (simp add: ee_digits.simps)
qed

lemma number_digits_set:
  assumes "base \<le> 36"
  shows "set (number_digits n base precision type) \<subseteq> digit_chars type"
proof -
  let ?dig = "if type AND UPPERCASE \<noteq> 0 then upper_digits else lower_digits"
  have d: "length ?dig = 36" "set ?dig = digit_chars type" by (auto simp: upper_digits_def lower_digits_def digit_chars_def)
  have "set (ee_digits ?dig base n) \<subseteq> digit_chars type" using ee_digits_set [of base ?dig n] assms unfolding d by blast
  moreover have "CHR ''0'' \<in> digit_chars type" by (simp add: digit_chars_def)
  ultimately show ?thesis by (auto simp: number_digits_def Let_def)
qed



text \<open>
  The text \<^verbatim>\<open>ee_number\<close> stores is at least as long as the field width and never longer
  than the larger of the field width and three characters (sign and \<^verbatim>\<open>0x\<close>) more than the
  larger of the precision and 32, the digits of a 32-bit number in base 2. So a buffer of that
  size is enough, and the 66 characters of \<^verbatim>\<open>tmp\<close> hold any number's digits.
\<close>
theorem ee_number_bounds:
  assumes "ee_number num base sz precision type = Some s"
  shows "sz \<le> int (length s) \<and> int (length s) \<le> max sz (max precision 32 + 3)"
proof -
  have b: "2 \<le> base" "base \<le> 36" using assms by (auto simp: ee_number_def Let_def split: if_splits)
  then have "int (length (number_digits (magnitude num type) (nat base) precision type)) \<le> max precision 32"
    using number_digits_length [OF _ magnitude_less, of "nat base"] by simp
  moreover have "s = layout (sign_text num type @ ee_prefix base type)
      (number_digits (magnitude num type) (nat base) precision type) sz type"
    using assms by (simp add: ee_number_eq [OF b])
  ultimately show ?thesis
    using sign_prefix_length [of num type base] by (simp add: layout_length)
qed

theorem ee_number_bounds_witness:
  "ee_number 255 16 0 4 (HEX_PREP OR UPPERCASE) = Some ''0x00FF''
    \<and> int (length ''0x00FF'') \<le> max 0 (max 4 32 + 3)"
proof -
  have e: "ee_number 255 16 0 4 (HEX_PREP OR UPPERCASE) = Some ''0x00FF''" by code_simp
  show ?thesis using ee_number_bounds [OF e] e by blast
qed

subsection \<open>Text and directives\<close>

text \<open>Doubling the percent signs makes a format of a text.\<close>

definition escape :: "string \<Rightarrow> string" where
  "escape t = concat (map (\<lambda>c. if c = CHR ''%'' then ''%%'' else [c]) t)"

definition read_int :: "string \<Rightarrow> int" where
  "read_int s =
    (case s of
       [] \<Rightarrow> 0
     | c # ds \<Rightarrow> if c = CHR ''-'' then - int (numeral_value 10 ds) else int (numeral_value 10 s))"

lemma ee_directive_percent: "ee_directive (CHR ''%'' # fmt) args = Some (''%'', fmt, args)"
  by (simp add: ee_directive_def ee_width_def ee_precision_def ee_qualifier_def ee_convert_def
      is_digit_def)

lemma ee_vsprintf_escape:
  "ee_vsprintf (escape t @ fmt) args = map_option ((@) t) (ee_vsprintf fmt args)"
proof (induction t)
  case Nil
  then show ?case by (cases "ee_vsprintf fmt args") (simp_all add: escape_def)
next
  case (Cons c t)
  have "escape (c # t) = (if c = CHR ''%'' then ''%%'' else [c]) @ escape t"
    by (simp add: escape_def)
  then show ?case
    using Cons by (cases "ee_vsprintf fmt args") (auto simp: ee_directive_percent)
qed

lemma ee_directive_d:
  "ee_directive (CHR ''d'' # fmt) (Arg_int n # args) =
    Some (layout (sign_text n SIGN) (number_digits (magnitude n SIGN) 10 (- 1) SIGN) (- 1) SIGN,
      fmt, args)"
  by (simp add: ee_directive_def ee_width_def ee_precision_def ee_qualifier_def ee_convert_def
      is_digit_def ee_integer_def ee_number_eq ee_prefix_def fmt_flags)

lemma digit_not_minus: "k < 10 \<Longrightarrow> lower_digits ! k \<noteq> CHR ''-''"
proof -
  have "list_all (\<lambda>k. lower_digits ! k \<noteq> CHR ''-'') [0..<10]" by code_simp
  then show "k < 10 \<Longrightarrow> lower_digits ! k \<noteq> CHR ''-''" by (auto simp: list_all_iff)
qed

lemma ee_digits_no_minus: "CHR ''-'' \<notin> set (ee_digits lower_digits 10 n)"
proof (induction n rule: less_induct)
  case (less n)
  then show ?case
    using digit_not_minus [of "n mod 10"] by (subst ee_digits.simps) auto
qed

lemma read_int_layout:
  "read_int (layout (sign_text n SIGN) (number_digits (magnitude n SIGN) 10 (- 1) SIGN) (- 1) SIGN)
    = sint n"
proof -
  let ?ds = "number_digits (magnitude n SIGN) 10 (- 1) SIGN"
  have v: "numeral_value 10 ?ds = nat \<bar>sint n\<bar>"
    by (subst number_digits_value) (simp_all add: magnitude_def SIGN_def)
  have "CHR ''-'' \<notin> set ?ds"
    using ee_digits_no_minus by (auto simp: number_digits_def Let_def fmt_flags)
  moreover have "?ds \<noteq> []"
    using number_digits_length [of 10 "magnitude n SIGN" 0] ee_digits_last [of 10 lower_digits "magnitude n SIGN"]
    by (auto simp: number_digits_def Let_def fmt_flags)
  ultimately obtain c ds where "?ds = c # ds" "c \<noteq> CHR ''-''" by (cases ?ds) auto
  then show ?thesis
    using v by (auto simp: layout_def sign_text_def ee_sign_def read_int_def fmt_flags)
qed


end
