(* ===== verification/Console.thy ===== *)
theory Console
  imports Spinlock Printf "HOL-Library.Monad_Syntax"
begin

text \<open>
  The kernel log: the VGA text console and \<^verbatim>\<open>printk\<close> of \<^verbatim>\<open>kernel/src/initial_printk.c\<close>,
  and the serial ports of \<^verbatim>\<open>kernel/src/serial.c\<close> that \<^verbatim>\<open>printk\<close> can be switched to.

  The console state is the \<^verbatim>\<open>monitor_info\<close> structure with the video memory it points to, and
  the bytes written to I/O ports. \<^verbatim>\<open>internal_printk\<close> calls \<^verbatim>\<open>put_char\<close> through a
  pointer, so the model of the formatter produces the sequence of its calls and colour changes, and
  \<open>printk_vga\<close> runs that sequence on the console. \<open>None\<close> stands for an argument the
  caller did not pass, for the negation of the least \<^verbatim>\<open>long\<close>, and, at the serial port, for a
  wait that does not end.
\<close>

subsection \<open>The VGA text console\<close>

definition STEWIEOS_TAB_WIDTH :: int where "STEWIEOS_TAB_WIDTH = 5"

record monitor_info =
  m_cx :: int
  m_cy :: int
  m_color :: u8
  m_screen :: "u8 list"
  m_width :: int
  m_height :: int

record console =
  mon :: monitor_info
  outb_log :: "(u16 \<times> u8) list"

definition CURSOR_INDEX :: "monitor_info \<Rightarrow> int" where
  "CURSOR_INDEX m = (m_cx m + m_cy m * m_width m) * 2"

definition screen_set :: "int \<Rightarrow> u8 \<Rightarrow> monitor_info \<Rightarrow> monitor_info" where
  "screen_set i v m = m\<lparr>m_screen := (m_screen m)[nat i := v]\<rparr>"

definition set_cursor_pos :: "u32 \<Rightarrow> monitor_info \<Rightarrow> monitor_info" where
  "set_cursor_pos idx m =
    m\<lparr>m_cx := uint idx mod m_width m, m_cy := uint idx div m_width m\<rparr>"

definition clear_screen :: "monitor_info \<Rightarrow> monitor_info" where
  "clear_screen m =
    fold (\<lambda>x. fold (\<lambda>y m.
        screen_set (1 + m_cx m + m_cy m * m_width m) (m_color m)
          (screen_set (0 + m_cx m + m_cy m * m_width m) 0 m)) [0..<nat (m_height m)])
      [0..<nat (m_width m)] m"

text \<open>\<^verbatim>\<open>memcpy\<close> of \<open>n\<close> bytes inside the video memory.\<close>

definition screen_copy :: "nat \<Rightarrow> nat \<Rightarrow> nat \<Rightarrow> u8 list \<Rightarrow> u8 list" where
  "screen_copy dst src n s = take dst s @ take n (drop src s) @ drop (dst + n) s"

definition scroll_lines :: "nat \<Rightarrow> nat \<Rightarrow> u8 list \<Rightarrow> u8 list" where
  "scroll_lines w lines s =
    fold (\<lambda>ln. screen_copy (ln * w * 2) ((ln + 1) * w * 2) (w * 2)) [0..<lines] s"

definition blank_lines :: "nat \<Rightarrow> nat \<Rightarrow> nat \<Rightarrow> u8 list \<Rightarrow> u8 list" where
  "blank_lines w from to s =
    fold (\<lambda>ln. fold (\<lambda>i s. s[(i + ln * w) * 2 := 0, 1 + (i + ln * w) * 2 := 0]) [0..<w])
      [from..<to] s"

definition scroll_screen :: "int \<Rightarrow> monitor_info \<Rightarrow> monitor_info" where
  "scroll_screen count m =
    (let w = nat (m_width m); s = scroll_lines w (nat (m_height m - count)) (m_screen m)
     in m\<lparr>m_screen := blank_lines w (nat (m_height m - count)) (nat (m_height m)) s\<rparr>)"

definition update_cursor :: "console \<Rightarrow> console" where
  "update_cursor c =
    (let m = mon c; idx = (word_of_int (m_cy m * m_width m + m_cx m) :: u16)
     in c\<lparr>outb_log := outb_log c @
          [(0x3D4, 0x0E), (0x3D5, ucast (drop_bit 8 idx)), (0x3D4, 0x0F), (0x3D5, ucast idx)]\<rparr>)"

definition next_line :: "monitor_info \<Rightarrow> monitor_info" where
  "next_line m =
    (let m = m\<lparr>m_cy := m_cy m + 1, m_cx := 0\<rparr>
     in if m_cy m = m_height m then scroll_screen 1 (m\<lparr>m_cy := m_cy m - 1\<rparr>) else m)"

definition vga_backspace :: "monitor_info \<Rightarrow> monitor_info" where
  "vga_backspace m =
    (if m_cx m = 0 then
       if m_cy m \<noteq> 0 then m\<lparr>m_cx := m_width m - 1, m_cy := m_cy m - 1\<rparr> else m
     else
       let m = m\<lparr>m_cx := m_cx m - 1\<rparr>
       in screen_set (CURSOR_INDEX m + 1) (m_color m) (screen_set (CURSOR_INDEX m) 0 m))"

definition vga_print :: "u8 \<Rightarrow> monitor_info \<Rightarrow> monitor_info" where
  "vga_print c m =
    (let m = screen_set (CURSOR_INDEX m + 1) (m_color m) (screen_set (CURSOR_INDEX m) c m)
     in m\<lparr>m_cx := m_cx m + 1\<rparr>)"

text \<open>A \<^verbatim>\<open>char\<close> is signed, so \<^verbatim>\<open>c >= ' '\<close> fails for the bytes from 128 on.\<close>

definition initial_vga_put_char :: "u8 \<Rightarrow> console \<Rightarrow> console" where
  "initial_vga_put_char c con =
    (let m = mon con;
         m = (if c = 13 then m\<lparr>m_cx := 0\<rparr> else m);
         m = (if c = 10 then next_line m else m);
         m = (if c = 8 then vga_backspace m else m);
         m = (if c = 9 then
                if m_width m - m_cx m < STEWIEOS_TAB_WIDTH then m\<lparr>m_cx := m_width m\<rparr>
                else m\<lparr>m_cx := m_cx m + STEWIEOS_TAB_WIDTH\<rparr>
              else m);
         m = (if sint c \<ge> 32 then vga_print c m else m);
         m = (if m_cx m = m_width m then next_line m else m)
     in update_cursor (con\<lparr>mon := m\<rparr>))"

subsection \<open>Number and string output of printk\<close>

definition P_LEFT :: u32 where "P_LEFT = 0x01"
definition P_SIGN :: u32 where "P_SIGN = 0x02"
definition P_SPACE :: u32 where "P_SPACE = 0x04"
definition P_PAD0 :: u32 where "P_PAD0 = 0x08"
definition P_NOWIDTH :: u32 where "P_NOWIDTH = 0x10"
definition P_NOPREC :: u32 where "P_NOPREC = 0x20"
definition P_PREFIX :: u32 where "P_PREFIX = 0x40"
definition P_UPPER :: u32 where "P_UPPER = 0x80"

lemmas p_flags = P_LEFT_def P_SIGN_def P_SPACE_def P_PAD0_def P_NOWIDTH_def P_NOPREC_def
  P_PREFIX_def P_UPPER_def

datatype pk_event = Pk_char char | Pk_str string int | Pk_color u8

text \<open>The loop \<^verbatim>\<open>while( count < width ){ put_char(c); count++; }\<close>.\<close>

function pk_pad :: "int \<Rightarrow> int \<Rightarrow> char \<Rightarrow> pk_event list \<times> int" where
  "pk_pad count lim c =
    (if count < lim then let (out, n) = pk_pad (count + 1) lim c in (Pk_char c # out, n)
     else ([], count))"
  by pat_completeness auto
termination by (relation "measure (\<lambda>(count, lim, c). nat (lim - count))") auto

declare pk_pad.simps [simp del]

fun prec_len :: "string \<Rightarrow> int \<Rightarrow> nat" where
  "prec_len [] precision = 0"
| "prec_len (c # s) precision = (if precision = 0 then 0 else Suc (prec_len s (precision - 1)))"

text \<open>\<open>custom\<close> says whether \<^verbatim>\<open>custom_put_str\<close> is set.\<close>

definition put_str ::
  "bool \<Rightarrow> string \<Rightarrow> u32 \<Rightarrow> int \<Rightarrow> int \<Rightarrow> pk_event list \<times> int" where
  "put_str custom s flags width precision =
    (let precision = (if precision = 0 then 1000000 else precision);
         c = (if flags AND P_PAD0 \<noteq> 0 then CHR ''0'' else CHR '' '');
         out1 = (if flags AND P_LEFT = 0 \<and> width \<noteq> 0
                 then fst (pk_pad (int (prec_len s precision)) width c) else []);
         (out2, count) =
           (if custom then
              if precision < int (length s) then ([Pk_str s precision], precision)
              else ([Pk_str s (int (length s))], int (length s))
            else (map Pk_char (take (prec_len s precision) s), int (prec_len s precision)));
         (out3, count) = (if flags AND P_LEFT \<noteq> 0 \<and> width \<noteq> 0 then pk_pad count width c
                          else ([], count))
     in (out1 @ out2 @ out3, count))"

text \<open>The two \<^verbatim>\<open>do ... while\<close> loops: the number of digits, and the digits, the least
  significant first.\<close>

function pk_count :: "nat \<Rightarrow> nat \<Rightarrow> nat" where
  "pk_count base v = (if base < 2 \<or> v div base = 0 then 1 else Suc (pk_count base (v div base)))"
  by pat_completeness auto
termination by (relation "measure (\<lambda>(base, v). v)") (auto simp: div_greater_zero_iff)

definition pk_digit :: "nat \<Rightarrow> nat \<Rightarrow> char" where
  "pk_digit letter_base d =
    (if d > 9 then char_of (letter_base + (d - 10)) else char_of (48 + d))"

function pk_digits :: "nat \<Rightarrow> nat \<Rightarrow> nat \<Rightarrow> string" where
  "pk_digits letter_base base v =
    pk_digit letter_base (v mod base) #
      (if base < 2 \<or> v div base = 0 then [] else pk_digits letter_base base (v div base))"
  by pat_completeness auto
termination by (relation "measure (\<lambda>(letter_base, base, v). v)") (auto simp: div_greater_zero_iff)

declare pk_count.simps [simp del] pk_digits.simps [simp del]

definition put_int ::
  "bool \<Rightarrow> u32 \<Rightarrow> u32 \<Rightarrow> int \<Rightarrow> int \<Rightarrow> (pk_event list \<times> int) option" where
  "put_int custom v flags width precision =
    (if sint v = - (2 ^ 31) then None
     else
       let n = nat \<bar>sint v\<bar>;
           count = (if (sint v \<ge> 0 \<and> (flags AND P_SIGN \<noteq> 0 \<or> flags AND P_SPACE \<noteq> 0)) \<or> sint v < 0
                    then 1 else 0 :: int);
           digits = int (pk_count 10 n);
           count = count + digits;
           c = (if flags AND P_PAD0 \<noteq> 0 then CHR ''0'' else CHR '' '');
           (out1, count) =
             (if flags AND P_LEFT = 0 then
                let (zeros, digits') = pk_pad digits precision (CHR ''0'');
                    (blanks, count) = pk_pad (count + (digits' - digits)) width c
                in (zeros @ blanks, count)
              else ([], count));
           sign = (if sint v \<ge> 0 \<and> flags AND P_SIGN \<noteq> 0 then [Pk_char (CHR ''+'')]
                   else if sint v \<ge> 0 \<and> flags AND P_SPACE \<noteq> 0 then [Pk_char (CHR '' '')]
                   else if sint v < 0 then [Pk_char (CHR ''-'')] else []);
           (out2, _) = put_str custom (rev (pk_digits 97 10 n)) 0 0 0;
           (out3, count) = (if flags AND P_LEFT \<noteq> 0 then pk_pad count width c else ([], count))
       in Some (out1 @ sign @ out2 @ out3, count))"

text \<open>The digits are stored downwards from \<^verbatim>\<open>buffer[30]\<close>, so that there is room for 31 of
  them; the 32nd is written outside the buffer. With a base below 2 the loops divide by zero or
  do not end.\<close>

definition put_uint ::
  "bool \<Rightarrow> u32 \<Rightarrow> u32 \<Rightarrow> int \<Rightarrow> int \<Rightarrow> nat \<Rightarrow> (pk_event list \<times> int) option" where
  "put_uint custom v flags width precision base =
    (if base < 2 \<or> pk_count base (unat v) > 31 then None else
     let count = (if flags AND P_SIGN \<noteq> 0 then 1 else 0 :: int);
         count = (if flags AND P_PREFIX \<noteq> 0
                  then if base = 8 then count + 1 else if base = 16 then count + 2 else count
                  else count);
         letter_base = (if flags AND P_UPPER \<noteq> 0 then 65 else 97 :: nat);
         digits = int (pk_count base (unat v));
         count = count + digits;
         out1 = (if flags AND P_PREFIX \<noteq> 0
                 then Pk_char (CHR ''0'') # (if base = 16 then [Pk_char (CHR ''x'')] else [])
                 else []);
         c = (if flags AND P_PAD0 \<noteq> 0 then CHR ''0'' else CHR '' '');
         (out2, count) =
           (if flags AND P_LEFT = 0 then
              let (zeros, digits') = pk_pad digits precision (CHR ''0'');
                  (blanks, count) = pk_pad (count + (digits' - digits)) width c
              in (zeros @ blanks, count)
            else ([], count));
         (out3, _) = put_str custom (rev (pk_digits letter_base base (unat v))) 0 0 0;
         (out4, count) = (if flags AND P_LEFT \<noteq> 0 then pk_pad count width c else ([], count))
     in Some (out1 @ out2 @ out3 @ out4, count))"

subsection \<open>internal_printk\<close>

fun pk_flags :: "string \<Rightarrow> u32 \<Rightarrow> u32 \<times> string" where
  "pk_flags [] flags = (flags, [])"
| "pk_flags (c # fmt) flags =
    (if c = CHR ''-'' then pk_flags fmt (flags OR P_LEFT)
     else if c = CHR ''+'' then pk_flags fmt (flags OR P_SIGN)
     else if c = CHR ''0'' then pk_flags fmt (flags OR P_PAD0)
     else if c = CHR '' '' then pk_flags fmt (flags OR P_SPACE)
     else if c = CHR ''#'' then pk_flags fmt (flags OR P_PREFIX)
     else (flags, c # fmt))"

text \<open>At most \<open>room\<close> digits are collected; what they are worth is added up from the last
  one, with \<^verbatim>\<open>power\<close> growing.\<close>

fun pk_collect :: "nat \<Rightarrow> string \<Rightarrow> string \<times> string" where
  "pk_collect room [] = ([], [])"
| "pk_collect room (c # fmt) =
    (if is_digit c \<and> room > 0
     then let (ds, rest) = pk_collect (room - 1) fmt in (c # ds, rest)
     else ([], c # fmt))"

text \<open>\<^verbatim>\<open>precision\<close>, \<^verbatim>\<open>width\<close> and \<^verbatim>\<open>power\<close> are \<^verbatim>\<open>int\<close>s: a
  product that does not fit is \<open>None\<close>. Nothing is added up when the format ends after the digits.\<close>

fun pk_worth :: "string \<Rightarrow> int \<Rightarrow> int option" where
  "pk_worth [] pw = Some 0"
| "pk_worth (c # ds) pw =
    (if (of_char c - 48) * pw > 2 ^ 31 - 1 \<or> pw * 10 > 2 ^ 31 - 1 then None
     else map_option (\<lambda>n. (of_char c - 48) * pw + n) (pk_worth ds (pw * 10)))"

definition pk_number :: "nat \<Rightarrow> string \<Rightarrow> (int \<times> string) option" where
  "pk_number room fmt =
    (let (ds, rest) = pk_collect room fmt
     in if rest = [] then Some (0, []) else map_option (\<lambda>n. (n, rest)) (pk_worth (rev ds) 1))"

text \<open>The width and the precision. A \<^verbatim>\<open>*\<close> sets a flag and is not skipped.\<close>

definition pk_width :: "string \<Rightarrow> u32 \<Rightarrow> (int \<times> u32 \<times> string) option" where
  "pk_width fmt flags =
    (if fmt \<noteq> [] \<and> hd fmt = CHR ''*'' then Some (0, flags OR P_NOWIDTH, fmt)
     else map_option (\<lambda>(w, fmt). (w, flags, fmt)) (pk_number 5 fmt))"

definition pk_precision :: "string \<Rightarrow> u32 \<Rightarrow> (int \<times> u32 \<times> string) option" where
  "pk_precision fmt flags =
    (if fmt \<noteq> [] \<and> hd fmt = CHR ''.'' then
       if tl fmt \<noteq> [] \<and> hd (tl fmt) = CHR ''*'' then Some (0, flags OR P_NOPREC, tl fmt)
       else map_option (\<lambda>(p, fmt). (p, flags, fmt)) (pk_number 12 (tl fmt))
     else Some (0, flags, fmt))"

definition pk_length :: "string \<Rightarrow> char option \<times> string" where
  "pk_length fmt =
    (if fmt \<noteq> [] \<and> hd fmt \<in> {CHR ''l'', CHR ''L'', CHR ''h''} then (Some (hd fmt), tl fmt)
     else (None, fmt))"

fun pk_fetch :: "bool \<Rightarrow> int \<Rightarrow> fmt_arg list \<Rightarrow> (int \<times> fmt_arg list) option" where
  "pk_fetch False n args = Some (n, args)"
| "pk_fetch True n args = map_option (\<lambda>(w, args). (sint w, args)) (arg_int args)"

definition output_level_colors :: "u8 list" where
  "output_level_colors = [0x0F, 0x01, 0x04]"

text \<open>The conversion that a specifier selects: its output, its count and the arguments left.\<close>

definition pk_convert ::
  "bool \<Rightarrow> u32 \<Rightarrow> char \<Rightarrow> u32 \<Rightarrow> int \<Rightarrow> int \<Rightarrow> char option \<Rightarrow> fmt_arg list
    \<Rightarrow> (pk_event list \<times> int \<times> fmt_arg list) option" where
  "pk_convert custom ticks spec flags width precision len args =
    (if spec = CHR ''d'' \<or> spec = CHR ''i'' then
       if len = Some (CHR ''L'') then Some ([], 0, args)
       else (case arg_int args of
               None \<Rightarrow> None
             | Some (v, args) \<Rightarrow>
                 map_option (\<lambda>(out, n). (out, n, args)) (put_int custom v flags width precision))
     else if spec = CHR ''s'' then
       if len \<noteq> None then Some ([], 0, args)
       else (case args of
               Arg_str (Some s) # args \<Rightarrow>
                 (let (out, n) = put_str custom s flags width precision in Some (out, n, args))
             | _ \<Rightarrow> None)
     else if spec \<in> {CHR ''p'', CHR ''u'', CHR ''o'', CHR ''x'', CHR ''X''} then
       (let base = (if spec = CHR ''o'' then 8 else if spec = CHR ''u'' then 10 else 16);
            flags = (if spec = CHR ''X'' then flags OR P_UPPER else flags);
            flags = (if spec = CHR ''p'' then flags OR P_PREFIX else flags)
        in if len = Some (CHR ''L'') then Some ([], 0, args)
           else (case arg_int args of
                   None \<Rightarrow> None
                 | Some (v, args) \<Rightarrow>
                     map_option (\<lambda>(out, n). (out, n, args))
                       (put_uint custom v flags width precision base)))
     else if spec = CHR ''c'' then
       if len \<noteq> None then Some ([], 0, args)
       else (case arg_int args of
               None \<Rightarrow> None
             | Some (v, args) \<Rightarrow> Some ([Pk_char (char_of (unat v mod 256))], 1, args))
     else if spec = CHR ''V'' then
       (let width = (if width < 0 \<or> width \<ge> 3 then 0 else width)
        in Some ([Pk_color (output_level_colors ! nat width)], 0, args))
     else if spec = CHR ''C'' then
       Some ([Pk_color (word_of_int (width AND 0x0F))], 0, args)
     else if spec = CHR ''t'' then
       map_option (\<lambda>(out, n). (Pk_char (CHR ''['') # out @ fst (put_str custom ''] '' 0 0 0), 0, args))
         (put_uint custom ticks 0 0 0 10)
     else Some ([], 0, args))"

definition pk_directive ::
  "bool \<Rightarrow> u32 \<Rightarrow> string \<Rightarrow> fmt_arg list
    \<Rightarrow> (pk_event list \<times> int \<times> string \<times> fmt_arg list) option" where
  "pk_directive custom ticks fmt args =
    do {
      let (flags, fmt) = pk_flags fmt 0;
      (width, flags, fmt) \<leftarrow> pk_width fmt flags;
      (precision, flags, fmt) \<leftarrow> pk_precision fmt flags;
      let (len, fmt) = pk_length fmt;
      case fmt of
        [] \<Rightarrow> Some ([], 0, [], args)
      | spec # fmt \<Rightarrow> do {
          (width, args) \<leftarrow> pk_fetch (flags AND P_NOWIDTH \<noteq> 0) width args;
          (precision, args) \<leftarrow> pk_fetch (flags AND P_NOPREC \<noteq> 0) precision args;
          (out, n, args) \<leftarrow> pk_convert custom ticks spec flags width precision len args;
          Some (out, n, fmt, args)
        }
    }"

lemma pk_flags_length: "length (snd (pk_flags fmt flags)) \<le> length fmt"
  by (induction fmt flags rule: pk_flags.induct) auto

lemma pk_collect_length: "length (snd (pk_collect room fmt)) \<le> length fmt"
  by (induction room fmt rule: pk_collect.induct) (auto split: prod.splits)

lemma pk_number_length: "pk_number room fmt = Some (n, rest) \<Longrightarrow> length rest \<le> length fmt"
  using pk_collect_length [of room fmt]
  by (auto simp: pk_number_def split: prod.splits if_splits)

lemma pk_directive_length:
  assumes "pk_directive custom ticks fmt args = Some (out, n, fmt', args')"
  shows "length fmt' \<le> length fmt"
proof -
  obtain f1 s1 where 1: "pk_flags fmt 0 = (f1, s1)" by fastforce
  obtain w f2 s2 where 2: "pk_width s1 f1 = Some (w, f2, s2)"
    using assms 1 by (auto simp: pk_directive_def bind_eq_Some_conv)
  obtain p f3 s3 where 3: "pk_precision s2 f2 = Some (p, f3, s3)"
    using assms 1 2 by (auto simp: pk_directive_def bind_eq_Some_conv)
  obtain l s4 where 4: "pk_length s3 = (l, s4)" by fastforce
  have "length s1 \<le> length fmt" using pk_flags_length [of fmt 0] 1 by simp
  moreover have "length s2 \<le> length s1"
    using 2 by (auto simp: pk_width_def split: if_splits dest: pk_number_length)
  moreover have "length s3 \<le> length s2"
    using 3 by (auto simp: pk_precision_def split: if_splits dest!: pk_number_length)
  moreover have "length s4 \<le> length s3" using 4 by (auto simp: pk_length_def split: if_splits)
  moreover have "length fmt' \<le> length s4"
    using assms 1 2 3 4
    by (auto simp: pk_directive_def bind_eq_Some_conv split: list.splits)
  ultimately show ?thesis by simp
qed

function printk_loop ::
  "bool \<Rightarrow> u32 \<Rightarrow> string \<Rightarrow> fmt_arg list \<Rightarrow> (pk_event list \<times> int) option" where
  "printk_loop custom ticks [] args = Some ([], 0)"
| "printk_loop custom ticks (c # fmt) args =
    (if c = CHR ''%'' then
       (case pk_directive custom ticks fmt args of
          None \<Rightarrow> None
        | Some (out, n, fmt', args') \<Rightarrow>
            map_option (\<lambda>(out', n'). (out @ out', n + n')) (printk_loop custom ticks fmt' args'))
     else map_option (\<lambda>(out', n'). (Pk_char c # out', 1 + n')) (printk_loop custom ticks fmt args))"
  by pat_completeness auto
termination
  by (relation "measure (\<lambda>(custom, ticks, fmt, args). length fmt)") (auto dest: pk_directive_length)

definition internal_printk ::
  "bool \<Rightarrow> u32 \<Rightarrow> u8 \<Rightarrow> string \<Rightarrow> fmt_arg list \<Rightarrow> (pk_event list \<times> int) option" where
  "internal_printk custom ticks original_color fmt args =
    map_option (\<lambda>(out, n). (out @ [Pk_color original_color], n)) (printk_loop custom ticks fmt args)"

fun vga_event :: "pk_event \<Rightarrow> console \<Rightarrow> console" where
  "vga_event (Pk_char c) con = initial_vga_put_char (of_char c) con"
| "vga_event (Pk_color k) con = con\<lparr>mon := (mon con)\<lparr>m_color := k\<rparr>\<rparr>"
| "vga_event (Pk_str s n) con = con"

text \<open>\<^verbatim>\<open>printk\<close> as the kernel starts: \<^verbatim>\<open>put_char\<close> is the console and
  \<^verbatim>\<open>custom_put_str\<close> is not set.\<close>

definition printk_vga :: "u32 \<Rightarrow> string \<Rightarrow> fmt_arg list \<Rightarrow> console \<Rightarrow> (int \<times> console) option" where
  "printk_vga ticks fmt args con =
    map_option (\<lambda>(out, n). (n, fold vga_event out con))
      (internal_printk False ticks (m_color (mon con)) fmt args)"

subsection \<open>Serial ports\<close>

record serial_device =
  rlock :: u32
  wlock :: u32
  port :: u16

definition SERIAL_NMINORS :: u32 where "SERIAL_NMINORS = 4"

definition serial_devices :: "serial_device list" where
  "serial_devices = map (\<lambda>p. \<lparr>rlock = 0, wlock = 0, port = p\<rparr>) [0x3F8, 0x2F8, 0x3E8, 0x2E8]"

definition serial_init :: "serial_device list \<Rightarrow> (u16 \<times> u8) list" where
  "serial_init devs =
    concat (map (\<lambda>d. [(port d + 1, 0), (port d + 3, 0x80), (port d + 0, 0x03), (port d + 1, 0x00),
                       (port d + 3, 0x03), (port d + 2, 0xC7)]) devs)"

definition serial_get_device :: "u32 \<Rightarrow> nat option" where
  "serial_get_device devid = (if devid \<ge> SERIAL_NMINORS then None else Some (unat devid))"

text \<open>What \<^verbatim>\<open>inb\<close> answers is a list; polling consumes it until the bit is set.\<close>

fun serial_poll :: "u8 \<Rightarrow> u8 list \<Rightarrow> u8 list option" where
  "serial_poll ready [] = None"
| "serial_poll ready (st # inp) = (if st AND ready = 0 then serial_poll ready inp else Some inp)"

fun serial_send :: "u16 \<Rightarrow> u8 list \<Rightarrow> u8 list \<Rightarrow> ((u16 \<times> u8) list \<times> u8 list) option" where
  "serial_send p [] inp = Some ([], inp)"
| "serial_send p (b # bs) inp =
    (case serial_poll 0x20 inp of
       None \<Rightarrow> None
     | Some inp \<Rightarrow> map_option (\<lambda>(out, inp). ((p, b) # out, inp)) (serial_send p bs inp))"

definition serial_write ::
  "serial_device \<Rightarrow> u8 list \<Rightarrow> u8 list
    \<Rightarrow> (int \<times> serial_device \<times> (u16 \<times> u8) list \<times> u8 list) option" where
  "serial_write dev buffer inp =
    (case spin_lock (wlock dev) of
       None \<Rightarrow> None
     | Some l \<Rightarrow>
         map_option (\<lambda>(out, inp). (int (length buffer), dev\<lparr>wlock := spin_unlock l\<rparr>, out, inp))
           (serial_send (port dev) buffer inp))"

text \<open>The bytes stored in the caller's buffer and the value returned.\<close>

fun serial_receive :: "nat \<Rightarrow> nat \<Rightarrow> u8 list \<Rightarrow> (u8 list \<times> int \<times> u8 list) option" where
  "serial_receive i 0 inp = Some ([], int i, inp)"
| "serial_receive i (Suc n) inp =
    (case serial_poll 1 inp of
       None \<Rightarrow> None
     | Some [] \<Rightarrow> None
     | Some (b # inp) \<Rightarrow>
         if b = 10 then Some ([b], int i, inp)
         else map_option (\<lambda>(bs, r, inp). (b # bs, r, inp)) (serial_receive (i + 1) n inp))"

definition serial_read ::
  "serial_device \<Rightarrow> nat \<Rightarrow> u8 list \<Rightarrow> (int \<times> u8 list \<times> serial_device \<times> u8 list) option" where
  "serial_read dev buflen inp =
    (case spin_lock (rlock dev) of
       None \<Rightarrow> None
     | Some l \<Rightarrow>
         map_option (\<lambda>(bs, r, inp). (r, bs, dev\<lparr>rlock := spin_unlock l\<rparr>, inp))
           (serial_receive 0 buflen inp))"

text \<open>\<^verbatim>\<open>serial_put_char\<close> writes one byte to device 0.\<close>

definition serial_put_char ::
  "u8 \<Rightarrow> serial_device list \<Rightarrow> u8 list
    \<Rightarrow> (serial_device list \<times> (u16 \<times> u8) list \<times> u8 list) option" where
  "serial_put_char c devs inp =
    (case serial_get_device 0 of
       None \<Rightarrow> None
     | Some d \<Rightarrow>
         map_option (\<lambda>(_, dev, out, inp). (devs[d := dev], out, inp))
           (serial_write (devs ! d) [c] inp))"

subsection \<open>Scrolling\<close>

lemma scroll_lines_eq:
  assumes "(n + 1) * (w * 2) \<le> length s"
  shows "scroll_lines w n s = take (n * (w * 2)) (drop (w * 2) s) @ drop (n * (w * 2)) s"
  using assms
proof (induction n)
  case (Suc n)
  let ?W = "w * 2"
  let ?s = "take (n * ?W) (drop ?W s) @ drop (n * ?W) s"
  have l: "length (take (n * ?W) (drop ?W s)) = n * ?W" using Suc(2) by simp
  have d: "drop ((n + 1) * ?W) ?s = drop ((n + 1) * ?W) s"
    using l by (simp add: algebra_simps)
  have d2: "drop (Suc n * ?W) ?s = drop (Suc n * ?W) s" using d by simp
  have "scroll_lines w (Suc n) s = screen_copy (n * ?W) ((n + 1) * ?W) ?W ?s"
    using Suc by (simp add: scroll_lines_def algebra_simps)
  also have "\<dots> = take (n * ?W) (drop ?W s) @ take ?W (drop ((n + 1) * ?W) s) @ drop (Suc n * ?W) s"
    using l d d2 by (simp add: screen_copy_def add.commute)
  also have "\<dots> = take (Suc n * ?W) (drop ?W s) @ drop (Suc n * ?W) s"
    using take_add [of "n * ?W" ?W "drop ?W s"] by (simp add: algebra_simps)
  finally show ?case .
qed (simp add: scroll_lines_def)

lemma drop_two: "i + 1 < length s \<Longrightarrow> drop i s = s ! i # s ! Suc i # drop (i + 2) s"
  by (simp add: Cons_nth_drop_Suc)

lemma update_two: "(xs @ x # y # ys)[length xs := a, 1 + length xs := b] = xs @ a # b # ys"
  by (simp add: list_update_append)

lemma blank_line_upto:
  assumes "(b + k) * 2 \<le> length s"
  shows "fold (\<lambda>i s. s[(i + b) * 2 := 0, 1 + (i + b) * 2 := 0]) [0..<k] s
    = take (b * 2) s @ replicate (k * 2) 0 @ drop ((b + k) * 2) s"
  using assms
proof (induction k)
  case (Suc k)
  let ?P = "take (b * 2) s @ replicate (k * 2) 0"
  have "drop ((b + k) * 2) s = s ! ((b + k) * 2) # s ! Suc ((b + k) * 2) # drop ((b + Suc k) * 2) s"
    using Suc(2) drop_two [of "(b + k) * 2" s] by simp
  then have "fold (\<lambda>i s. s[(i + b) * 2 := 0, 1 + (i + b) * 2 := 0]) [0..<Suc k] s =
      (?P @ s ! ((b + k) * 2) # s ! Suc ((b + k) * 2) # drop ((b + Suc k) * 2) s)
        [(k + b) * 2 := 0, 1 + (k + b) * 2 := 0]"
    using Suc by simp
  also have "\<dots> = ?P @ 0 # 0 # drop ((b + Suc k) * 2) s"
  proof -
    have "length ?P = (k + b) * 2" using Suc(2) by simp
    then show ?thesis using update_two by metis
  qed
  finally show ?case by (simp add: replicate_app_Cons_same)
qed simp

lemma blank_last_line:
  assumes "length s = (ln + 1) * (w * 2)"
  shows "blank_lines w ln (Suc ln) s = take (ln * (w * 2)) s @ replicate (w * 2) 0"
  using blank_line_upto [of "ln * w" w s] assms
  by (simp add: blank_lines_def algebra_simps)

definition mon_wf :: "monitor_info \<Rightarrow> bool" where
  "mon_wf m \<longleftrightarrow> 0 \<le> m_cx m \<and> m_cx m < m_width m \<and> 0 \<le> m_cy m \<and> m_cy m < m_height m
    \<and> int (length (m_screen m)) = m_width m * m_height m * 2"

lemma scroll_screen_eq:
  assumes "0 \<le> m_width m" "0 < m_height m"
    "int (length (m_screen m)) = m_width m * m_height m * 2"
  shows "scroll_screen 1 m =
    m\<lparr>m_screen := drop (nat (m_width m) * 2) (m_screen m) @ replicate (nat (m_width m) * 2) 0\<rparr>"
proof -
  define w where "w = nat (m_width m)"
  define h where "h = nat (m_height m - 1)"
  let ?s = "m_screen m"
  have wh: "m_width m = int w" "m_height m = int (h + 1)" using assms by (auto simp: w_def h_def)
  have "int (length ?s) = int ((h + 1) * (w * 2))"
    using assms(3) unfolding wh by (simp add: algebra_simps)
  then have l: "length ?s = (h + 1) * (w * 2)" by (simp only: of_nat_eq_iff)
  have "scroll_lines w h ?s = take (h * (w * 2)) (drop (w * 2) ?s) @ drop (h * (w * 2)) ?s"
    using l by (intro scroll_lines_eq) simp
  moreover have "take (h * (w * 2)) (drop (w * 2) ?s) = drop (w * 2) ?s" using l by simp
  ultimately have e: "scroll_lines w h ?s = drop (w * 2) ?s @ drop (h * (w * 2)) ?s" by simp
  have "blank_lines w h (Suc h) (scroll_lines w h ?s) = drop (w * 2) ?s @ replicate (w * 2) 0"
    unfolding e using l by (subst blank_last_line) simp_all
  then show ?thesis using wh by (simp add: scroll_screen_def Let_def nat_add_distrib)
qed

lemma scroll_screen_wf:
  assumes "mon_wf m"
  shows "mon_wf (scroll_screen 1 m)"
proof -
  have "int (nat (m_width m) * 2) \<le> int (length (m_screen m))"
    using assms by (auto simp: mon_wf_def)
  then have "nat (m_width m) * 2 \<le> length (m_screen m)" by (simp only: of_nat_le_iff)
  then show ?thesis
    using assms by (subst scroll_screen_eq) (auto simp: mon_wf_def of_nat_diff)
qed

lemma next_line_wf:
  assumes "mon_wf (m\<lparr>m_cx := 0\<rparr>)"
  shows "mon_wf (next_line m)"
proof (cases "m_cy m + 1 = m_height m")
  case True
  then have "mon_wf (m\<lparr>m_cx := 0, m_cy := m_height m - 1\<rparr>)"
    using assms by (auto simp: mon_wf_def)
  from scroll_screen_wf [OF this] show ?thesis
    using True by (simp add: next_line_def add.commute)
qed (use assms in \<open>auto simp: next_line_def mon_wf_def\<close>)

lemma vga_step_wf:
  assumes "mon_wf m"
  shows "mon_wf (m\<lparr>m_cx := 0\<rparr>)" "mon_wf (next_line m)" "mon_wf (vga_backspace m)"
proof -
  show "mon_wf (m\<lparr>m_cx := 0\<rparr>)" using assms by (auto simp: mon_wf_def)
  then show "mon_wf (next_line m)" by (rule next_line_wf)
  show "mon_wf (vga_backspace m)"
    using assms by (auto simp: mon_wf_def vga_backspace_def screen_set_def Let_def)
qed

text \<open>The end of \<^verbatim>\<open>initial_vga_put_char\<close>: wrap if the line is full.\<close>

definition vga_wrap :: "monitor_info \<Rightarrow> monitor_info" where
  "vga_wrap m = (if m_cx m = m_width m then next_line m else m)"

lemma vga_wrap_wf:
  assumes "mon_wf (m\<lparr>m_cx := 0\<rparr>)" "0 \<le> m_cx m" "m_cx m \<le> m_width m"
  shows "mon_wf (vga_wrap m)"
  using assms next_line_wf [OF assms(1)] by (auto simp: vga_wrap_def mon_wf_def)

lemma put_char_cases:
  "mon (initial_vga_put_char c con) = vga_wrap
    (if c = 13 then (mon con)\<lparr>m_cx := 0\<rparr>
     else if c = 10 then next_line (mon con)
     else if c = 8 then vga_backspace (mon con)
     else if c = 9 then
       (mon con)\<lparr>m_cx := min (m_cx (mon con) + STEWIEOS_TAB_WIDTH) (m_width (mon con))\<rparr>
     else if sint c \<ge> 32 then vga_print c (mon con)
     else mon con)"
proof -
  have "sint (13 :: u8) = 13" "sint (10 :: u8) = 10" "sint (8 :: u8) = 8" "sint (9 :: u8) = 9"
    by simp_all
  then show ?thesis
    by (auto simp: initial_vga_put_char_def Let_def vga_wrap_def update_cursor_def min_def
        STEWIEOS_TAB_WIDTH_def)
qed

lemma put_char_wf:
  assumes "mon_wf (mon con)"
  shows "mon_wf (mon (initial_vga_put_char c con))"
proof -
  have w: "mon_wf m \<Longrightarrow> mon_wf (vga_wrap m)" for m
    by (rule vga_wrap_wf) (auto simp: mon_wf_def)
  have "mon_wf (vga_wrap (vga_print c (mon con)))"
    by (rule vga_wrap_wf)
      (use assms in \<open>auto simp: mon_wf_def vga_print_def Let_def screen_set_def\<close>)
  moreover have "mon_wf (vga_wrap ((mon con)\<lparr>m_cx :=
      min (m_cx (mon con) + STEWIEOS_TAB_WIDTH) (m_width (mon con))\<rparr>))"
    by (rule vga_wrap_wf) (use assms in \<open>auto simp: mon_wf_def STEWIEOS_TAB_WIDTH_def\<close>)
  ultimately show ?thesis
    using vga_step_wf [OF assms] assms by (simp add: put_char_cases w)
qed

lemma next_line_sel [simp]:
  "m_color (next_line m) = m_color m" "m_width (next_line m) = m_width m"
  "m_height (next_line m) = m_height m"
  by (simp_all add: next_line_def scroll_screen_def Let_def)

lemma put_char_sel:
  "m_color (mon (initial_vga_put_char c con)) = m_color (mon con)
    \<and> m_width (mon (initial_vga_put_char c con)) = m_width (mon con)
    \<and> m_height (mon (initial_vga_put_char c con)) = m_height (mon con)"
  by (simp add: put_char_cases vga_wrap_def vga_backspace_def vga_print_def Let_def screen_set_def)

lemma vga_event_wf: "mon_wf (mon con) \<Longrightarrow> mon_wf (mon (vga_event e con))"
  by (cases e) (simp_all add: put_char_wf, simp add: mon_wf_def)

lemma fold_vga_event_wf: "mon_wf (mon con) \<Longrightarrow> mon_wf (mon (fold vga_event es con))"
  by (induction es arbitrary: con) (simp_all add: vga_event_wf)

lemma fold_vga_event_size:
  "m_width (mon (fold vga_event es con)) = m_width (mon con)
    \<and> m_height (mon (fold vga_event es con)) = m_height (mon con)"
proof (induction es arbitrary: con)
  case (Cons e es)
  then show ?case using put_char_sel by (cases e) simp_all
qed simp

text \<open>
  Whatever is printed, \<^verbatim>\<open>printk\<close> leaves a well-formed console: the cursor is on the
  screen and the screen has its size, so that no character, tab, backspace or newline writes
  outside the video memory. The colour is the one from before the call, whatever colour
  directives the format had.
\<close>
theorem printk_keeps_console:
  assumes "mon_wf (mon con)" and "printk_vga ticks fmt args con = Some (n, con')"
  shows "mon_wf (mon con') \<and> m_color (mon con') = m_color (mon con)
    \<and> m_width (mon con') = m_width (mon con) \<and> m_height (mon con') = m_height (mon con)"
proof -
  obtain out where "con' = fold vga_event (out @ [Pk_color (m_color (mon con))]) con"
    using assms(2) by (auto simp: printk_vga_def internal_printk_def)
  then show ?thesis
    using fold_vga_event_wf [OF assms(1), of "out @ [Pk_color (m_color (mon con))]"]
      fold_vga_event_size [of out con]
    by simp
qed

text \<open>A console of two lines of four characters.\<close>

definition small_console :: console where
  "small_console =
    \<lparr>mon = \<lparr>m_cx = 0, m_cy = 0, m_color = 0x0F, m_screen = replicate 16 0, m_width = 4,
      m_height = 2\<rparr>, outb_log = []\<rparr>"

lemma small_console_wf: "mon_wf (mon small_console)"
  by (simp add: small_console_def mon_wf_def)

theorem printk_keeps_console_witness:
  "\<exists>n con'. printk_vga 0 ''ab%1V%d%t!'' [Arg_int 42] small_console = Some (n, con')
    \<and> mon_wf (mon con') \<and> m_color (mon con') = 0x0F"
proof -
  have "printk_vga 0 ''ab%1V%d%t!'' [Arg_int 42] small_console \<noteq> None" by code_simp
  then obtain n con' where e: "printk_vga 0 ''ab%1V%d%t!'' [Arg_int 42] small_console = Some (n, con')"
    by auto
  then show ?thesis
    using printk_keeps_console [OF small_console_wf e] by (auto simp: small_console_def)
qed

subsection \<open>Printing text\<close>

definition cursor_pos :: "monitor_info \<Rightarrow> nat" where
  "cursor_pos m = nat (m_cx m + m_cy m * m_width m)"

definition printable :: "char \<Rightarrow> bool" where
  "printable c \<longleftrightarrow> 32 \<le> (of_char c :: nat) \<and> (of_char c :: nat) < 128"

lemma printable_sint: "printable c \<Longrightarrow> sint (of_char c :: u8) \<ge> 32"
proof -
  assume "printable c"
  then have k: "(of_char c :: nat) < 128" "32 \<le> (of_char c :: nat)" by (auto simp: printable_def)
  have "(of_char c :: u8) = word_of_nat (of_char c)" by (simp only: of_nat_of_char)
  then have "sint (of_char c :: u8) = int (of_char c)"
    using k(1) by (simp only: signed_of_nat) (simp add: signed_take_bit_int_eq_self)
  then show ?thesis using k(2) by simp
qed

lemma cursor_less:
  assumes "mon_wf m"
  shows "int (cursor_pos m) = m_cx m + m_cy m * m_width m"
    "2 * cursor_pos m + 1 < length (m_screen m)"
proof -
  show p: "int (cursor_pos m) = m_cx m + m_cy m * m_width m"
    using assms by (simp add: mon_wf_def cursor_pos_def)
  have "(m_cy m + 1) * m_width m \<le> m_height m * m_width m"
    using assms by (intro mult_right_mono) (auto simp: mon_wf_def)
  then have "m_cx m + m_cy m * m_width m < m_height m * m_width m"
    using assms by (auto simp: mon_wf_def algebra_simps)
  then have "int (2 * cursor_pos m + 1) < int (length (m_screen m))"
    using p assms by (simp add: mon_wf_def algebra_simps)
  then show "2 * cursor_pos m + 1 < length (m_screen m)" by (simp only: of_nat_less_iff)
qed

lemma put_printable:
  assumes wf: "mon_wf (mon con)" and c: "sint c \<ge> 32"
    and room: "2 * (cursor_pos (mon con) + 1) < length (m_screen (mon con))"
  shows "cursor_pos (mon (initial_vga_put_char c con)) = cursor_pos (mon con) + 1"
    "m_screen (mon (initial_vga_put_char c con)) =
      (m_screen (mon con))[2 * cursor_pos (mon con) := c,
        2 * cursor_pos (mon con) + 1 := m_color (mon con)]"
proof -
  let ?m = "mon con"
  have s: "sint (13 :: u8) = 13" "sint (10 :: u8) = 10" "sint (8 :: u8) = 8" "sint (9 :: u8) = 9"
    by simp_all
  have e: "mon (initial_vga_put_char c con) = vga_wrap (vga_print c ?m)"
    using c s by (auto simp: put_char_cases)
  have p: "int (cursor_pos ?m) = m_cx ?m + m_cy ?m * m_width ?m" by (rule cursor_less(1) [OF wf])
  have i: "nat (CURSOR_INDEX ?m) = 2 * cursor_pos ?m" "nat (CURSOR_INDEX ?m + 1) = 2 * cursor_pos ?m + 1"
    using p by (simp_all add: CURSOR_INDEX_def flip: p)
  have "int (2 * (cursor_pos ?m + 1)) < int (length (m_screen ?m))" using room by simp
  then have r: "m_cx ?m + m_cy ?m * m_width ?m + 1 < m_width ?m * m_height ?m"
    using p wf by (simp add: mon_wf_def)
  have nl: "m_cy ?m + 1 \<noteq> m_height ?m" if "m_cx ?m + 1 = m_width ?m"
  proof
    assume "m_cy ?m + 1 = m_height ?m"
    then have "m_width ?m * m_height ?m = m_width ?m + m_cy ?m * m_width ?m"
      by (metis add.commute distrib_left mult.commute mult.right_neutral)
    then show False using r that by simp
  qed
  show "m_screen (mon (initial_vga_put_char c con)) =
      (m_screen ?m)[2 * cursor_pos ?m := c, 2 * cursor_pos ?m + 1 := m_color ?m]"
    using i nl by (auto simp: e vga_wrap_def vga_print_def Let_def screen_set_def next_line_def
        CURSOR_INDEX_def)
  have "m_cx (mon (initial_vga_put_char c con))
      + m_cy (mon (initial_vga_put_char c con)) * m_width (mon (initial_vga_put_char c con))
    = m_cx ?m + m_cy ?m * m_width ?m + 1"
    using nl by (auto simp: e vga_wrap_def vga_print_def Let_def screen_set_def next_line_def
        algebra_simps)
  then have "int (cursor_pos (mon (initial_vga_put_char c con))) = int (cursor_pos ?m + 1)"
    using p cursor_less(1) [OF put_char_wf [OF wf, of c]] by simp
  then show "cursor_pos (mon (initial_vga_put_char c con)) = cursor_pos ?m + 1"
    by (simp only: of_nat_eq_iff)
qed

lemma update_pair:
  assumes "2 * p + 1 < length s"
  shows "s[2 * p := a, 2 * p + 1 := b] = take (2 * p) s @ [a, b] @ drop (2 * (p + 1)) s"
proof -
  have "s = take (2 * p) s @ s ! (2 * p) # s ! Suc (2 * p) # drop (2 * p + 2) s"
    using drop_two [of "2 * p" s] assms by (metis append_take_drop_id)
  moreover have "length (take (2 * p) s) = 2 * p" using assms by simp
  ultimately show ?thesis
    using update_two [of "take (2 * p) s" "s ! (2 * p)" "s ! Suc (2 * p)" "drop (2 * p + 2) s" a b]
    by (simp add: add.commute)
qed

lemma put_text:
  assumes "mon_wf (mon con)" "\<forall>c\<in>set t. sint c \<ge> 32"
    "2 * (cursor_pos (mon con) + length t) < length (m_screen (mon con))"
  shows "cursor_pos (mon (fold initial_vga_put_char t con)) = cursor_pos (mon con) + length t
    \<and> m_screen (mon (fold initial_vga_put_char t con)) =
      take (2 * cursor_pos (mon con)) (m_screen (mon con))
      @ concat (map (\<lambda>c. [c, m_color (mon con)]) t)
      @ drop (2 * (cursor_pos (mon con) + length t)) (m_screen (mon con))"
  using assms
proof (induction t arbitrary: con)
  case (Cons c t)
  let ?p = "cursor_pos (mon con)" and ?s = "m_screen (mon con)" and ?k = "m_color (mon con)"
  let ?con = "initial_vga_put_char c con"
  have 1: "cursor_pos (mon ?con) = ?p + 1" "m_screen (mon ?con) = ?s[2 * ?p := c, 2 * ?p + 1 := ?k]"
    using put_printable [of con c] Cons(2-) by auto
  have s: "m_screen (mon ?con) = take (2 * ?p) ?s @ [c, ?k] @ drop (2 * (?p + 1)) ?s"
    using 1 update_pair [OF cursor_less(2) [OF Cons(2)]] by simp
  have l: "length (take (2 * ?p) ?s) = 2 * ?p" using Cons(4) by simp
  have "2 * (cursor_pos (mon ?con) + length t) < length (m_screen (mon ?con))"
    using Cons(4) 1 by simp
  from Cons(1) [OF put_char_wf [OF Cons(2)] _ this] show ?case
    using Cons(3) 1(1) s l put_char_sel [of c con] by (simp add: algebra_simps)
qed simp

lemma printk_loop_text:
  "CHR ''%'' \<notin> set t \<Longrightarrow> printk_loop custom ticks t args = Some (map Pk_char t, int (length t))"
  by (induction t) auto

lemma fold_vga_text:
  "fold vga_event (map Pk_char t) con = fold initial_vga_put_char (map of_char t) con"
  by (induction t arbitrary: con) simp_all

text \<open>
  C23: \<^verbatim>\<open>printk\<close> of a text without directives that fits on the rest of the screen shows it:
  the characters, each with the current colour, are in the video memory from the cursor on,
  across the ends of lines, nothing else on the screen has changed, the cursor is after the
  text, and the number of characters is returned.
\<close>
theorem printk_shows_text:
  assumes "mon_wf (mon con)" "CHR ''%'' \<notin> set t" "\<forall>c\<in>set t. printable c"
    and "2 * (cursor_pos (mon con) + length t) < length (m_screen (mon con))"
  shows "\<exists>con'. printk_vga ticks t args con = Some (int (length t), con')
    \<and> cursor_pos (mon con') = cursor_pos (mon con) + length t
    \<and> m_screen (mon con') =
      take (2 * cursor_pos (mon con)) (m_screen (mon con))
      @ concat (map (\<lambda>c. [of_char c, m_color (mon con)]) t)
      @ drop (2 * (cursor_pos (mon con) + length t)) (m_screen (mon con))"
proof -
  have "\<forall>c\<in>set (map of_char t). sint (c :: u8) \<ge> 32" using assms(3) printable_sint by auto
  from put_text [OF assms(1) this] show ?thesis
    using assms(2,4)
    by (simp add: printk_vga_def internal_printk_def printk_loop_text fold_vga_text comp_def
        cursor_pos_def)
qed

theorem printk_shows_text_witness:
  "\<exists>con'. printk_vga 0 ''hello'' [] small_console = Some (5, con')
    \<and> m_screen (mon con') = [104, 15, 101, 15, 108, 15, 108, 15, 111, 15, 0, 0, 0, 0, 0, 0]"
proof -
  have "replicate 6 (0 :: u8) = [0, 0, 0, 0, 0, 0]" by (simp add: numeral_eq_Suc)
  moreover have "\<forall>c\<in>set ''hello''. printable c" by (simp add: printable_def)
  ultimately show ?thesis
    using printk_shows_text [OF small_console_wf, of "''hello''" 0 "[]"]
    by (auto simp: small_console_def cursor_pos_def)
qed

subsection \<open>Two formatters\<close>

lemma pk_digit_eq:
  assumes "d < 36"
  shows "pk_digit 97 d = lower_digits ! d \<and> pk_digit 65 d = upper_digits ! d"
proof -
  have "list_all (\<lambda>d. pk_digit 97 d = lower_digits ! d \<and> pk_digit 65 d = upper_digits ! d) [0..<36]"
    by code_simp
  then show ?thesis using assms by (auto simp: list_all_iff)
qed

lemma pk_digits_eq:
  assumes "2 \<le> base" "base \<le> 36"
    and "(lb = 97 \<and> dig = lower_digits) \<or> (lb = 65 \<and> dig = upper_digits)"
  shows "pk_digits lb base v = (if v = 0 then ''0'' else ee_digits dig base v)"
  using assms
proof (induction lb base v rule: pk_digits.induct)
  case (1 lb base v)
  have d: "pk_digit lb (v mod base) = dig ! (v mod base)"
    using pk_digit_eq [of "v mod base"] 1(2-) mod_less_divisor [of base v] by fastforce
  have z: "dig ! 0 = CHR ''0''" using 1(4) by (auto simp: lower_digits_def upper_digits_def)
  consider "v = 0" | "v \<noteq> 0" "v div base = 0" | "v div base \<noteq> 0" by blast
  then show ?case
  proof cases
    case 1
    then show ?thesis using d z by (subst pk_digits.simps) simp
  next
    case 2
    then show ?thesis
      using d \<open>2 \<le> base\<close> by (subst pk_digits.simps, subst ee_digits.simps) (simp add: ee_digits.simps)
  next
    case 3
    moreover from this have "v \<noteq> 0" by (metis div_0)
    ultimately show ?thesis
      using d 1 by (simp add: pk_digits.simps [of lb base v] ee_digits.simps [of dig base v])
  qed
qed

lemma pk_count_eq: "2 \<le> base \<Longrightarrow> pk_count base v = length (pk_digits lb base v)"
proof (induction base v rule: pk_count.induct)
  case (1 base v)
  then show ?case by (subst pk_count.simps, subst pk_digits.simps) auto
qed

lemma prec_len_eq: "int (length s) \<le> n \<Longrightarrow> prec_len s n = length s"
  by (induction s arbitrary: n) auto

lemma put_str_plain:
  "length s \<le> 32 \<Longrightarrow> put_str False s 0 0 0 = (map Pk_char s, int (length s))"
  by (simp add: put_str_def prec_len_eq)

lemma number_digits_plain:
  assumes "2 \<le> base" "base \<le> 36" "n < 2 ^ 32"
    and "(lb = 97 \<and> type AND UPPERCASE = 0) \<or> (lb = 65 \<and> type AND UPPERCASE \<noteq> 0)"
  shows "number_digits n base 0 type = rev (pk_digits lb base n)"
    "length (pk_digits lb base n) \<le> 32"
proof -
  show e: "number_digits n base 0 type = rev (pk_digits lb base n)"
    using assms(4) pk_digits_eq [OF assms(1,2), of lb _ n] by (auto simp: number_digits_def Let_def)
  show "length (pk_digits lb base n) \<le> 32"
    using number_digits_length [OF assms(1,3), of 0 type] by (simp add: e)
qed

lemma pk_pad_none: "0 \<le> n \<Longrightarrow> pk_pad n 0 c = ([], n)"
  by (simp add: pk_pad.simps)

text \<open>Numbers below \<open>2 ^ 31\<close> have at most 31 digits in every base, and all numbers have in
  every base but 2.\<close>

lemma pk_digits_less: "2 \<le> base \<Longrightarrow> v < base ^ Suc k \<Longrightarrow> length (pk_digits lb base v) \<le> Suc k"
proof (induction k arbitrary: v)
  case 0
  then show ?case by (subst pk_digits.simps) simp
next
  case (Suc k)
  then have "v div base < base ^ Suc k" by (simp add: less_mult_imp_div_less mult.commute)
  with Suc.IH [of "v div base"] Suc.prems(1) show ?case by (subst pk_digits.simps) simp
qed

lemma put_uint_room:
  assumes "2 \<le> base" "base \<noteq> 2 \<or> unat (u :: u32) < 2 ^ 31"
  shows "length (pk_digits lb base (unat u)) \<le> 31"
proof -
  have "unat u < base ^ Suc 30"
  proof (cases "base = 2")
    case False
    then have "3 \<le> base" using assms(1) by simp
    then have "3 ^ 31 \<le> base ^ 31" by (intro power_mono) simp_all
    moreover have "unat u < 3 ^ 31" using unsigned_less [of u] by (rule less_trans) simp
    ultimately show ?thesis by (metis less_le_trans numeral_eq_Suc pred_numeral_simps)
  qed (use assms in simp)
  then show ?thesis using pk_digits_less [OF assms(1), of "unat u" 30 lb] by simp
qed

lemma put_uint_agrees:
  assumes b: "2 \<le> base" "base \<le> 36" and r: "base \<noteq> 2 \<or> unat u < 2 ^ 31"
  shows "\<exists>s. ee_number u (int base) 0 0 (if up then UPPERCASE else 0) = Some s
    \<and> put_uint False u (if up then P_UPPER else 0) 0 0 base = Some (map Pk_char s, int (length s))"
proof -
  let ?t = "if up then UPPERCASE else 0" and ?lb = "if up then 65 else 97 :: nat"
  have t: "(?lb = 97 \<and> ?t AND UPPERCASE = 0) \<or> (?lb = 65 \<and> ?t AND UPPERCASE \<noteq> 0)"
    by (simp add: UPPERCASE_def)
  have u: "unat u < 2 ^ 32" using unsigned_less [of u] by simp
  note nd = number_digits_plain [OF b u t]
  have "ee_number u (int base) 0 0 ?t = Some (rev (pk_digits ?lb base (unat u)))"
    using b nd
    by (subst ee_number_eq)
      (auto simp: sign_text_def ee_sign_def ee_prefix_def magnitude_def layout_def fmt_flags)
  moreover have "put_uint False u (if up then P_UPPER else 0) 0 0 base =
      Some (map Pk_char (rev (pk_digits ?lb base (unat u))), int (length (pk_digits ?lb base (unat u))))"
    using nd b pk_count_eq [OF b(1), of "unat u" ?lb] put_uint_room [OF b(1) r, of ?lb]
    by (auto simp: put_uint_def Let_def p_flags put_str_plain pk_pad_none)
  ultimately show ?thesis by simp
qed

lemma pk_count_ge: "2 ^ k \<le> v \<Longrightarrow> Suc k \<le> pk_count 2 v"
proof (induction k arbitrary: v)
  case 0
  then show ?case by (subst pk_count.simps) simp
next
  case (Suc k)
  then have "2 ^ k \<le> v div 2" by simp
  moreover have "v div 2 \<noteq> 0" using calculation by (metis le_zero_eq power_not_zero zero_neq_numeral)
  ultimately show ?case using Suc.IH [of "v div 2"] by (subst pk_count.simps) simp
qed

lemma put_uint_overflow:
  "2 ^ 31 \<le> unat u \<Longrightarrow> put_uint custom u flags width precision 2 = None"
  using pk_count_ge [of 31 "unat u"] by (simp add: put_uint_def)

lemma put_int_agrees:
  assumes "sint v \<noteq> - (2 ^ 31)"
  shows "\<exists>s. ee_number v 10 0 0 SIGN = Some s
    \<and> put_int False v 0 0 0 = Some (map Pk_char s, int (length s))"
proof -
  let ?n = "nat \<bar>sint v\<bar>"
  let ?sg = "if sint v < 0 then ''-'' else []"
  have m: "magnitude v SIGN = ?n" by (simp add: magnitude_def SIGN_def)
  have n: "?n < 2 ^ 32" using magnitude_less [of v SIGN] by (simp only: m)
  have nd: "number_digits ?n 10 0 SIGN = rev (pk_digits 97 10 ?n)" "length (pk_digits 97 10 ?n) \<le> 32"
    using number_digits_plain [OF _ _ n, of 10 97 SIGN] by (simp_all add: fmt_flags)
  have "ee_number v 10 0 0 SIGN = Some (?sg @ rev (pk_digits 97 10 ?n))"
    using nd m
    by (subst ee_number_eq)
      (auto simp: sign_text_def ee_sign_def ee_prefix_def layout_def fmt_flags)
  moreover have "put_int False v 0 0 0 =
      Some (map Pk_char (?sg @ rev (pk_digits 97 10 ?n)), int (length (?sg @ rev (pk_digits 97 10 ?n))))"
    using nd assms pk_count_eq [of 10 ?n 97]
    by (auto simp: put_int_def Let_def p_flags put_str_plain pk_pad_none)
  ultimately show ?thesis by blast
qed



text \<open>With a field width they differ: \<^verbatim>\<open>put_int\<close> pads with zeros in front of the sign, and
  a width taken from the arguments with \<^verbatim>\<open>*\<close> prints nothing.\<close>

lemma put_int_pads_before_sign:
  "put_int False (- 42) P_PAD0 5 0 = Some (map Pk_char ''00-42'', 5)
    \<and> ee_number (- 42) 10 5 0 (SIGN OR ZEROPAD) = Some ''-0042''"
  by code_simp

lemma printk_star_width:
  "printk_loop False 0 ''%*d'' [Arg_int 3, Arg_int 7] = Some ([Pk_char (CHR ''d'')], 1)"
  by code_simp

text \<open>\<^verbatim>\<open>clear_screen\<close> writes at the cursor position for every cell, so all but two bytes of
  the screen stay as they were.\<close>

lemma clear_screen_leaves:
  "clear_screen (m\<lparr>m_cx := 0, m_cy := 0, m_width := int w, m_height := int h,
      m_screen := a # b # rest\<rparr>) =
    m\<lparr>m_cx := 0, m_cy := 0, m_width := int w, m_height := int h,
      m_screen := (if w = 0 \<or> h = 0 then a # b # rest else 0 # m_color m # rest)\<rparr>"
proof -
  let ?f = "\<lambda>m. screen_set (1 + m_cx m + m_cy m * m_width m) (m_color m)
      (screen_set (m_cx m + m_cy m * m_width m) 0 m)"
  let ?m = "\<lambda>a b. m\<lparr>m_cx := 0, m_cy := 0, m_width := int w, m_height := int h,
      m_screen := a # b # rest\<rparr>"
  have i: "fold (\<lambda>y. ?f) ys (?m x y) = (if ys = [] then ?m x y else ?m 0 (m_color m))"
    for ys :: "nat list" and x y
    by (induction ys arbitrary: x y) (simp_all add: screen_set_def)
  have "fold (\<lambda>x. fold (\<lambda>y. ?f) [0..<h]) xs (?m x y) =
      (if xs = [] \<or> h = 0 then ?m x y else ?m 0 (m_color m))" for xs :: "nat list" and x y
    by (induction xs arbitrary: x y) (auto simp: i)
  then show ?thesis by (simp add: clear_screen_def)
qed

end
