(* ===== verification/Vfs.thy ===== *)
theory Vfs
  imports Chrdev "HOL-Library.Monad_Syntax"
begin

text \<open>
  The virtual file system: directory entries, inodes, superblocks and mounts with their reference
  counts, and the walk along a path (\<^verbatim>\<open>kernel/src/dentry.c\<close> and \<^verbatim>\<open>kernel/src/fs.c\<close>).

  The objects are records in maps from addresses; a pointer that may be NULL is an
  \<open>nat option\<close>. A list of the C code is the sequence of addresses of its members, with
  \<^verbatim>\<open>list_add\<close> adding in front and \<^verbatim>\<open>list_rem\<close> removing, which is what the pointer
  operations of \<^verbatim>\<open>linkedlist.h\<close> were shown to do. The lists that the code only initialises
  (\<^verbatim>\<open>d_fslink\<close>, \<^verbatim>\<open>i_dentries\<close>) are left out. Reference counts are 32 bit words.

  A file system driver is a set of functions on this state that the code calls through tables.
  An object carries the number of its table, and the tables are the argument \<open>D\<close> of every
  function that calls a driver; with them are the table of character
  devices and what the C library defines: the mount flags and \<^verbatim>\<open>major\<close>. \<open>None\<close> is an access through a NULL or freed pointer, or a
  call that does not return. Whether an allocation succeeds is a function of its number.

  The state belongs to one task: its user id, its process group, its working directory and its
  descriptors are \<^verbatim>\<open>current\<close>.
\<close>

subsection \<open>Objects\<close>

record path =
  p_dentry :: nat
  p_mount :: "nat option"

record inode =
  i_mode :: u32
  i_uid :: u32
  i_size :: u32
  i_gid :: u32
  i_nlinks :: u16
  i_ino :: u32
  i_dev :: u32
  i_atime :: u32
  i_ctime :: u32
  i_mtime :: u32
  i_private :: nat
  i_ref :: u32
  i_super :: nat
  i_ops :: nat
  i_default_fops :: "nat option"

record dentry =
  d_name :: string
  d_inode :: "nat option"
  d_ino :: u32
  d_uid :: u32
  d_gid :: u32
  d_size :: u32
  d_mode :: u32
  d_ref :: u32
  d_parent :: "nat option"
  d_children :: "nat list"
  d_mountpoint :: "nat option"

record superblock =
  s_blocksize :: u32
  s_magic :: u32
  s_dev :: u32
  s_refs :: u32
  s_fs :: nat
  s_root :: "nat option"
  s_inode_list :: "nat list"
  s_ops :: nat

record mount =
  m_super :: nat
  m_flags :: u32
  m_point :: nat
  m_refs :: u32

record mountpoint =
  mp_point :: path
  mp_mounts :: "nat list"

record filesystem =
  fs_name :: string
  fs_flags :: u32
  fs_ops :: nat
  fs_slist :: "nat list"

record vfile =
  f_path :: path
  f_ops :: "nat option"
  f_off :: u32
  f_status :: u32
  f_refs :: u32
  f_private :: nat

record file_descr =
  fd_file :: "nat option"
  fd_flags :: u32

record vfs =
  dents :: "nat \<Rightarrow> dentry option"
  inods :: "nat \<Rightarrow> inode option"
  supers :: "nat \<Rightarrow> superblock option"
  mnts :: "nat \<Rightarrow> mount option"
  mpoints :: "nat \<Rightarrow> mountpoint option"
  fsystems :: "nat \<Rightarrow> filesystem option"
  files :: "nat \<Rightarrow> vfile option"
  vfs_filesystem_list :: "nat list"
  vfs_mount_list :: "nat list"
  vfs_root :: nat
  cur_uid :: u32
  cur_gid :: u32
  cur_umask :: u32
  v_cwd :: path
  v_openvect :: "file_descr list"
  kmalloc_ok :: "nat \<Rightarrow> bool"
  next_addr :: nat

text \<open>Driver tables. A driver function returns an error number or zero, here \<open>None\<close>.\<close>

type_synonym drv_result = "(errno option \<times> vfs) option"

record inode_operations =
  op_lookup :: "(nat \<Rightarrow> nat \<Rightarrow> vfs \<Rightarrow> drv_result) option"
  op_creat :: "(nat \<Rightarrow> string \<Rightarrow> u32 \<Rightarrow> vfs \<Rightarrow> drv_result) option"
  op_mknod :: "(nat \<Rightarrow> string \<Rightarrow> u32 \<Rightarrow> u32 \<Rightarrow> vfs \<Rightarrow> drv_result) option"
  op_link :: "(nat \<Rightarrow> string \<Rightarrow> nat option \<Rightarrow> vfs \<Rightarrow> drv_result) option"
  op_unlink :: "(nat \<Rightarrow> nat \<Rightarrow> vfs \<Rightarrow> drv_result) option"
  op_chmod :: "(nat \<Rightarrow> u32 \<Rightarrow> vfs \<Rightarrow> drv_result) option"
  op_chown :: "(nat \<Rightarrow> u32 \<Rightarrow> u32 \<Rightarrow> vfs \<Rightarrow> drv_result) option"
  op_truncate :: "(nat \<Rightarrow> vfs \<Rightarrow> drv_result) option"
  op_flush :: "(nat \<Rightarrow> vfs \<Rightarrow> drv_result) option"

record file_operations =
  fo_open :: "(nat \<Rightarrow> nat \<Rightarrow> u32 \<Rightarrow> vfs \<Rightarrow> drv_result) option"
  fo_close :: "(nat \<Rightarrow> nat \<Rightarrow> vfs \<Rightarrow> drv_result) option"
  fo_read :: "(nat \<Rightarrow> nat \<Rightarrow> vfs \<Rightarrow> (u8 list result \<times> vfs) option) option"
  fo_write :: "(nat \<Rightarrow> u8 list \<Rightarrow> vfs \<Rightarrow> (nat result \<times> vfs) option) option"
  fo_readdir :: "(nat \<Rightarrow> nat \<Rightarrow> vfs \<Rightarrow> (string list result \<times> vfs) option) option"
  fo_lseek :: "(nat \<Rightarrow> u32 \<Rightarrow> u32 \<Rightarrow> vfs \<Rightarrow> (u32 result \<times> vfs) option) option"
  fo_ioctl :: "(nat \<Rightarrow> u32 \<Rightarrow> vfs \<Rightarrow> (u32 result \<times> vfs) option) option"
  fo_isatty :: "(nat \<Rightarrow> vfs \<Rightarrow> (u32 result \<times> vfs) option) option"

record superblock_operations =
  so_read_inode :: "nat \<Rightarrow> nat \<Rightarrow> vfs \<Rightarrow> drv_result"
  so_put_inode :: "(nat \<Rightarrow> nat \<Rightarrow> vfs \<Rightarrow> vfs option) option"

record filesystem_operations =
  fso_read_super :: "nat \<Rightarrow> nat \<Rightarrow> u32 \<Rightarrow> u32 \<Rightarrow> vfs \<Rightarrow> drv_result"
  fso_put_super :: "(nat \<Rightarrow> nat \<Rightarrow> vfs \<Rightarrow> drv_result) option"

record drivers =
  iops :: "nat \<Rightarrow> inode_operations"
  fops :: "nat \<Rightarrow> file_operations"
  sops :: "nat \<Rightarrow> superblock_operations"
  fsops :: "nat \<Rightarrow> filesystem_operations"
  block_device_fops :: nat
  pipe_operations :: nat
  chrdev_table :: "nat chrdevs"
  major :: "u32 \<Rightarrow> nat"
  MS_RDONLY :: u32
  MS_NOEXEC :: u32

text \<open>Updates of one object.\<close>

definition upd_dentry :: "nat \<Rightarrow> (dentry \<Rightarrow> dentry) \<Rightarrow> vfs \<Rightarrow> vfs" where
  "upd_dentry a f s = s\<lparr>dents := (dents s)(a := map_option f (dents s a))\<rparr>"

definition upd_inode :: "nat \<Rightarrow> (inode \<Rightarrow> inode) \<Rightarrow> vfs \<Rightarrow> vfs" where
  "upd_inode a f s = s\<lparr>inods := (inods s)(a := map_option f (inods s a))\<rparr>"

definition upd_super :: "nat \<Rightarrow> (superblock \<Rightarrow> superblock) \<Rightarrow> vfs \<Rightarrow> vfs" where
  "upd_super a f s = s\<lparr>supers := (supers s)(a := map_option f (supers s a))\<rparr>"

definition upd_mount :: "nat \<Rightarrow> (mount \<Rightarrow> mount) \<Rightarrow> vfs \<Rightarrow> vfs" where
  "upd_mount a f s = s\<lparr>mnts := (mnts s)(a := map_option f (mnts s a))\<rparr>"

definition upd_file :: "nat \<Rightarrow> (vfile \<Rightarrow> vfile) \<Rightarrow> vfs \<Rightarrow> vfs" where
  "upd_file a f s = s\<lparr>files := (files s)(a := map_option f (files s a))\<rparr>"

lemmas upd_defs = upd_dentry_def upd_inode_def upd_super_def upd_mount_def upd_file_def

text \<open>\<^verbatim>\<open>kmalloc\<close>: a new address, or NULL.\<close>

definition vfs_kmalloc :: "vfs \<Rightarrow> nat option \<times> vfs" where
  "vfs_kmalloc s =
    (if kmalloc_ok s (next_addr s) then Some (next_addr s) else None, s\<lparr>next_addr := next_addr s + 1\<rparr>)"

subsection \<open>Reference counts\<close>

definition super_get :: "nat \<Rightarrow> vfs \<Rightarrow> vfs option" where
  "super_get a s =
    (case supers s a of None \<Rightarrow> None | Some _ \<Rightarrow> Some (upd_super a (\<lambda>x. x\<lparr>s_refs := s_refs x + 1\<rparr>) s))"

definition super_put :: "nat \<Rightarrow> vfs \<Rightarrow> vfs option" where
  "super_put a s =
    (case supers s a of None \<Rightarrow> None | Some _ \<Rightarrow> Some (upd_super a (\<lambda>x. x\<lparr>s_refs := s_refs x - 1\<rparr>) s))"

definition i_getref :: "nat \<Rightarrow> vfs \<Rightarrow> vfs option" where
  "i_getref a s =
    (case inods s a of None \<Rightarrow> None | Some _ \<Rightarrow> Some (upd_inode a (\<lambda>x. x\<lparr>i_ref := i_ref x + 1\<rparr>) s))"

definition i_free :: "drivers \<Rightarrow> nat \<Rightarrow> vfs \<Rightarrow> vfs option" where
  "i_free D a s = do {
    i \<leftarrow> inods s a;
    sb \<leftarrow> supers s (i_super i);
    s1 \<leftarrow> (case so_put_inode (sops D (s_ops sb)) of None \<Rightarrow> Some s | Some f \<Rightarrow> f (i_super i) a s);
    let s2 = upd_super (i_super i) (\<lambda>x. x\<lparr>s_inode_list := remove1 a (s_inode_list x)\<rparr>) s1;
    s3 \<leftarrow> super_put (i_super i) s2;
    Some (s3\<lparr>inods := (inods s3)(a := None)\<rparr>)
  }"

definition i_put :: "drivers \<Rightarrow> nat \<Rightarrow> vfs \<Rightarrow> vfs option" where
  "i_put D a s = do {
    i \<leftarrow> inods s a;
    if i_ref i = 1 then i_free D a s
    else Some (upd_inode a (\<lambda>x. x\<lparr>i_ref := i_ref x - 1\<rparr>) s)
  }"

fun i_find :: "vfs \<Rightarrow> u32 \<Rightarrow> nat list \<Rightarrow> nat option option" where
  "i_find s ino [] = Some None"
| "i_find s ino (a # as) =
    (case inods s a of
       None \<Rightarrow> None
     | Some i \<Rightarrow> if i_ino i = ino then Some (Some a) else i_find s ino as)"

definition zero_inode :: inode where
  "zero_inode = \<lparr>i_mode = 0, i_uid = 0, i_size = 0, i_gid = 0, i_nlinks = 0, i_ino = 0, i_dev = 0,
    i_atime = 0, i_ctime = 0, i_mtime = 0, i_private = 0, i_ref = 0, i_super = 0, i_ops = 0,
    i_default_fops = None\<rparr>"

definition i_get :: "drivers \<Rightarrow> nat \<Rightarrow> u32 \<Rightarrow> vfs \<Rightarrow> (nat result \<times> vfs) option" where
  "i_get D super ino s = do {
    sb \<leftarrow> supers s super;
    hit \<leftarrow> i_find s ino (s_inode_list sb);
    case hit of
      Some a \<Rightarrow> do { s1 \<leftarrow> i_getref a s; Some (Inr a, s1) }
    | None \<Rightarrow>
        (case vfs_kmalloc s of
           (None, s1) \<Rightarrow> None
         | (Some a, s1) \<Rightarrow> do {
             s2 \<leftarrow> super_get super s1;
             let s3 = s2\<lparr>inods := (inods s2)(a \<mapsto>
                        zero_inode\<lparr>i_ino := ino, i_super := super, i_ref := 1\<rparr>)\<rparr>;
             sb \<leftarrow> supers s3 super;
             (err, s4) \<leftarrow> so_read_inode (sops D (s_ops sb)) super a s3;
             case err of
               Some e \<Rightarrow> Some (Inl e, s4\<lparr>inods := (inods s4)(a := None)\<rparr>)
             | None \<Rightarrow>
                 Some (Inr a, upd_super super (\<lambda>x. x\<lparr>s_inode_list := a # s_inode_list x\<rparr>) s4)
           })
  }"

definition mnt_get :: "nat option \<Rightarrow> vfs \<Rightarrow> vfs option" where
  "mnt_get m s =
    (case m of
       None \<Rightarrow> Some s
     | Some a \<Rightarrow>
         (case mnts s a of None \<Rightarrow> None | Some _ \<Rightarrow> Some (upd_mount a (\<lambda>x. x\<lparr>m_refs := m_refs x + 1\<rparr>) s)))"

definition mnt_put :: "nat option \<Rightarrow> vfs \<Rightarrow> vfs option" where
  "mnt_put m s =
    (case m of
       None \<Rightarrow> Some s
     | Some a \<Rightarrow>
         (case mnts s a of None \<Rightarrow> None | Some _ \<Rightarrow> Some (upd_mount a (\<lambda>x. x\<lparr>m_refs := m_refs x - 1\<rparr>) s)))"

subsection \<open>Directory entries\<close>

definition MAXNAMELEN :: nat where "MAXNAMELEN = 256"

definition d_get :: "nat option \<Rightarrow> vfs \<Rightarrow> vfs option" where
  "d_get d s =
    (case d of
       None \<Rightarrow> Some s
     | Some a \<Rightarrow>
         (case dents s a of None \<Rightarrow> None | Some _ \<Rightarrow> Some (upd_dentry a (\<lambda>x. x\<lparr>d_ref := d_ref x + 1\<rparr>) s)))"

text \<open>\<^verbatim>\<open>d_put\<close> calls \<^verbatim>\<open>d_free\<close> for the last reference, which puts the parent in turn. The
  two are one recursion along the parents; \<open>d_free\<close> below is its other half.\<close>

partial_function (option) d_put :: "drivers \<Rightarrow> nat option \<Rightarrow> vfs \<Rightarrow> vfs option" where
  "d_put D p s =
    (case p of
       None \<Rightarrow> None
     | Some a \<Rightarrow>
         Option.bind (dents s a) (\<lambda>d.
           if d_ref d = 1 then
             Option.bind
               (case d_inode d of
                  None \<Rightarrow> Some (case d_parent d of
                      None \<Rightarrow> s
                    | Some q \<Rightarrow> upd_dentry q (\<lambda>x. x\<lparr>d_children := remove1 a (d_children x)\<rparr>) s)
                | Some i \<Rightarrow> i_put D i (case d_parent d of
                      None \<Rightarrow> s
                    | Some q \<Rightarrow> upd_dentry q (\<lambda>x. x\<lparr>d_children := remove1 a (d_children x)\<rparr>) s))
               (\<lambda>s1. Option.bind (d_put D (d_parent d) s1)
                 (\<lambda>s2. Some (s2\<lparr>dents := (dents s2)(a := None)\<rparr>)))
           else Some (upd_dentry a (\<lambda>x. x\<lparr>d_ref := d_ref x - 1\<rparr>) s)))"

declare d_put.simps [code]

definition d_free :: "drivers \<Rightarrow> nat \<Rightarrow> vfs \<Rightarrow> vfs option" where
  "d_free D a s = do {
    d \<leftarrow> dents s a;
    let s0 = (case d_parent d of
        None \<Rightarrow> s
      | Some q \<Rightarrow> upd_dentry q (\<lambda>x. x\<lparr>d_children := remove1 a (d_children x)\<rparr>) s);
    s1 \<leftarrow> (case d_inode d of None \<Rightarrow> Some s0 | Some i \<Rightarrow> i_put D i s0);
    s2 \<leftarrow> d_put D (d_parent d) s1;
    Some (s2\<lparr>dents := (dents s2)(a := None)\<rparr>)
  }"

lemma d_put_None [simp]: "d_put D None s = None"
  by (simp add: d_put.simps)

lemma d_put_Some:
  "d_put D (Some a) s =
    (case dents s a of
       None \<Rightarrow> None
     | Some d \<Rightarrow>
         if d_ref d = 1 then d_free D a s
         else Some (upd_dentry a (\<lambda>x. x\<lparr>d_ref := d_ref x - 1\<rparr>) s))"
  by (subst d_put.simps) (auto simp: d_free_def Let_def split: option.splits)

definition zero_dentry :: dentry where
  "zero_dentry = \<lparr>d_name = [], d_inode = None, d_ino = 0, d_uid = 0, d_gid = 0, d_size = 0,
    d_mode = 0, d_ref = 0, d_parent = None, d_children = [], d_mountpoint = None\<rparr>"

definition d_alloc :: "string \<Rightarrow> nat option \<Rightarrow> vfs \<Rightarrow> (nat option \<times> vfs) option" where
  "d_alloc name parent s =
    (case vfs_kmalloc s of
       (None, s1) \<Rightarrow> Some (None, s1)
     | (Some a, s1) \<Rightarrow> do {
         s2 \<leftarrow> d_get parent s1;
         let s3 = s2\<lparr>dents := (dents s2)(a \<mapsto>
             zero_dentry\<lparr>d_name := take MAXNAMELEN name, d_parent := parent, d_ref := 1\<rparr>)\<rparr>;
         Some (Some a, case parent of
             None \<Rightarrow> s3
           | Some q \<Rightarrow> upd_dentry q (\<lambda>x. x\<lparr>d_children := a # d_children x\<rparr>) s3)
       })"

text \<open>The error test of the caller does not catch NULL, which is then used.\<close>

definition d_alloc_root :: "nat \<Rightarrow> vfs \<Rightarrow> (nat \<times> vfs) option" where
  "d_alloc_root inode s = do {
    (root, s1) \<leftarrow> d_alloc [] None s;
    r \<leftarrow> root;
    s2 \<leftarrow> i_getref inode s1;
    i \<leftarrow> inods s2 inode;
    Some (r, upd_dentry r (\<lambda>x. x\<lparr>d_inode := Some inode, d_ino := i_ino i, d_uid := i_uid i,
      d_gid := i_gid i, d_size := i_size i, d_mode := i_mode i\<rparr>) s2)
  }"

fun d_find :: "vfs \<Rightarrow> string \<Rightarrow> nat list \<Rightarrow> nat option option" where
  "d_find s name [] = Some None"
| "d_find s name (a # as) =
    (case dents s a of
       None \<Rightarrow> None
     | Some d \<Rightarrow> if d_name d = name then Some (Some a) else d_find s name as)"

definition d_lookup :: "drivers \<Rightarrow> nat \<Rightarrow> string \<Rightarrow> vfs \<Rightarrow> (nat result \<times> vfs) option" where
  "d_lookup D dir name s = do {
    d \<leftarrow> dents s dir;
    hit \<leftarrow> d_find s name (d_children d);
    case hit of
      Some a \<Rightarrow> do { s1 \<leftarrow> d_get (Some a) s; Some (Inr a, s1) }
    | None \<Rightarrow>
        (case d_inode d of
           None \<Rightarrow> Some (Inl ENOENT, s)
         | Some i \<Rightarrow> do {
             ino \<leftarrow> inods s i;
             case op_lookup (iops D (i_ops ino)) of
               None \<Rightarrow> Some (Inl ENOENT, s)
             | Some lookup \<Rightarrow> do {
                 (entry, s1) \<leftarrow> d_alloc name (Some dir) s;
                 a \<leftarrow> entry;
                 (err, s2) \<leftarrow> lookup i a s1;
                 case err of
                   Some e \<Rightarrow> do { s3 \<leftarrow> d_put D (Some a) s2; Some (Inl e, s3) }
                 | None \<Rightarrow> Some (Inr a, s2)
               }
           })
  }"

subsection \<open>Paths\<close>

definition path_put :: "drivers \<Rightarrow> path \<Rightarrow> vfs \<Rightarrow> vfs option" where
  "path_put D p s = do { s1 \<leftarrow> d_put D (Some (p_dentry p)) s; mnt_put (p_mount p) s1 }"

text \<open>The copy is the same pair of pointers.\<close>

definition path_copy :: "path \<Rightarrow> vfs \<Rightarrow> (path \<times> vfs) option" where
  "path_copy src s = do {
    s1 \<leftarrow> d_get (Some (p_dentry src)) s;
    s2 \<leftarrow> mnt_get (p_mount src) s1;
    Some (src, s2)
  }"

definition path_get_parent :: "drivers \<Rightarrow> path \<Rightarrow> vfs \<Rightarrow> (path \<times> vfs) option" where
  "path_get_parent D p s = do {
    d \<leftarrow> dents s (p_dentry p);
    case d_parent d of
      Some q \<Rightarrow> do {
        s1 \<leftarrow> d_get (Some q) s;
        s2 \<leftarrow> d_put D (Some (p_dentry p)) s1;
        Some (p\<lparr>p_dentry := q\<rparr>, s2)
      }
    | None \<Rightarrow> do {
        mp \<leftarrow> d_mountpoint d;
        point \<leftarrow> mpoints s mp;
        (parent, s1) \<leftarrow> path_copy (mp_point point) s;
        s2 \<leftarrow> path_put D p s1;
        (p', s3) \<leftarrow> path_copy parent s2;
        s4 \<leftarrow> path_put D parent s3;
        Some (p', s4)
      }
  }"

definition S_IRUSR :: u32 where "S_IRUSR = 256"
definition S_IWUSR :: u32 where "S_IWUSR = 128"
definition S_IXUSR :: u32 where "S_IXUSR = 64"
definition S_IRGRP :: u32 where "S_IRGRP = 32"
definition S_IWGRP :: u32 where "S_IWGRP = 16"
definition S_IXGRP :: u32 where "S_IXGRP = 8"
definition S_IROTH :: u32 where "S_IROTH = 4"
definition S_IWOTH :: u32 where "S_IWOTH = 2"
definition S_IXOTH :: u32 where "S_IXOTH = 1"
definition F_OK :: u32 where "F_OK = 0"
definition R_OK :: u32 where "R_OK = 4"
definition W_OK :: u32 where "W_OK = 2"
definition X_OK :: u32 where "X_OK = 1"

text \<open>The check of one kind of access, with the bits for owner, group and others.\<close>

definition access_class :: "vfs \<Rightarrow> inode \<Rightarrow> u32 \<Rightarrow> u32 \<Rightarrow> u32 \<Rightarrow> bool" where
  "access_class s i usr grp oth =
    (if cur_uid s = i_uid i then i_mode i AND usr \<noteq> 0
     else if cur_gid s = i_gid i then i_mode i AND grp \<noteq> 0
     else i_mode i AND oth \<noteq> 0)"

definition mount_flag :: "path \<Rightarrow> u32 \<Rightarrow> vfs \<Rightarrow> bool option" where
  "mount_flag p flag s =
    (case p_mount p of
       None \<Rightarrow> Some False
     | Some m \<Rightarrow> map_option (\<lambda>x. m_flags x AND flag \<noteq> 0) (mnts s m))"

definition dentry_inode :: "nat \<Rightarrow> vfs \<Rightarrow> inode option" where
  "dentry_inode d s = Option.bind (dents s d) (\<lambda>x. Option.bind (d_inode x) (inods s))"

definition access_root :: "drivers \<Rightarrow> path \<Rightarrow> u32 \<Rightarrow> vfs \<Rightarrow> errno option option" where
  "access_root D p mode s = do {
    ro \<leftarrow> mount_flag p (MS_RDONLY D) s;
    if ro \<and> mode AND W_OK \<noteq> 0 then Some (Some EROFS)
    else if mode AND X_OK \<noteq> 0 then do {
      i \<leftarrow> dentry_inode (p_dentry p) s;
      Some (if i_mode i AND (S_IXUSR OR S_IXGRP OR S_IXOTH) = 0 then Some EACCES else None)
    }
    else Some None
  }"

definition may_write :: "drivers \<Rightarrow> path \<Rightarrow> vfs \<Rightarrow> bool option" where
  "may_write D p s = do {
    ro \<leftarrow> mount_flag p (MS_RDONLY D) s;
    if ro then Some False
    else map_option (\<lambda>i. access_class s i S_IWUSR S_IWGRP S_IWOTH) (dentry_inode (p_dentry p) s)
  }"

definition may_read :: "path \<Rightarrow> vfs \<Rightarrow> bool option" where
  "may_read p s =
    map_option (\<lambda>i. access_class s i S_IRUSR S_IRGRP S_IROTH) (dentry_inode (p_dentry p) s)"

definition may_exec :: "drivers \<Rightarrow> path \<Rightarrow> vfs \<Rightarrow> bool option" where
  "may_exec D p s = do {
    noexec \<leftarrow> mount_flag p (MS_NOEXEC D) s;
    if noexec then Some False
    else map_option (\<lambda>i. access_class s i S_IXUSR S_IXGRP S_IXOTH) (dentry_inode (p_dentry p) s)
  }"

definition access_user :: "drivers \<Rightarrow> path \<Rightarrow> u32 \<Rightarrow> vfs \<Rightarrow> errno option option" where
  "access_user D p mode s = do {
    w \<leftarrow> (if mode AND W_OK \<noteq> 0 then may_write D p s else Some True);
    if \<not> w then Some (Some EACCES)
    else do {
      r \<leftarrow> (if mode AND R_OK \<noteq> 0 then may_read p s else Some True);
      if \<not> r then Some (Some EACCES)
      else do {
        x \<leftarrow> (if mode AND X_OK \<noteq> 0 then may_exec D p s else Some True);
        Some (if \<not> x then Some EACCES else None)
      }
    }
  }"

definition path_access :: "drivers \<Rightarrow> path \<Rightarrow> u32 \<Rightarrow> vfs \<Rightarrow> errno option option" where
  "path_access D p mode s =
    (if mode \<noteq> F_OK \<and> mode AND NOT (X_OK OR W_OK OR R_OK) \<noteq> 0 then Some (Some EINVAL)
     else if mode = F_OK then Some None
     else if p_dentry p = vfs_root s \<and> p_mount p = None then Some None
     else if cur_uid s = 0 then access_root D p mode s
     else access_user D p mode s)"

subsection \<open>Walking a path\<close>

definition WP_DEFAULT :: u32 where "WP_DEFAULT = 0"
definition WP_PARENT :: u32 where "WP_PARENT = 1"

text \<open>A directory entry with a mount point is replaced by the root of what is mounted there.\<close>

definition cross_mount :: "drivers \<Rightarrow> path \<Rightarrow> vfs \<Rightarrow> (path \<times> vfs) option" where
  "cross_mount D p s = do {
    d \<leftarrow> dents s (p_dentry p);
    case d_mountpoint d of
      None \<Rightarrow> Some (p, s)
    | Some mp \<Rightarrow> do {
        point \<leftarrow> mpoints s mp;
        case mp_mounts point of
          [] \<Rightarrow> None
        | m # _ \<Rightarrow> do {
            mnt \<leftarrow> mnts s m;
            sb \<leftarrow> supers s (m_super mnt);
            if s_root sb \<noteq> Some (p_dentry p) then do {
              s1 \<leftarrow> path_put D p s;
              r \<leftarrow> s_root sb;
              s2 \<leftarrow> d_get (Some r) s1;
              s3 \<leftarrow> mnt_get (Some m) s2;
              Some (\<lparr>p_dentry = r, p_mount = Some m\<rparr>, s3)
            }
            else Some (p, s)
          }
      }
  }"

text \<open>The treatment of a leading dot: \<open>Inl\<close> when the walk is over, \<open>Inr\<close> with the rest
  of the name otherwise. After \<^verbatim>\<open>..\<close> the walk goes on with the same rest.\<close>

definition path_dots :: "drivers \<Rightarrow> string \<Rightarrow> path \<Rightarrow> vfs \<Rightarrow> (path + (string \<times> path)) option \<times> vfs" where
  "path_dots D iter p s =
    (case iter of
       [] \<Rightarrow> (Some (Inl p), s)
     | c # r \<Rightarrow>
         if c \<noteq> CHR ''.'' then (Some (Inr (iter, p)), s)
         else (case r of
             [] \<Rightarrow> (Some (Inl p), s)
           | c2 # r2 \<Rightarrow>
               if c2 = CHR ''/'' then (Some (Inr (r2, p)), s)
               else if c2 = CHR ''.'' then
                 (case path_get_parent D p s of
                    None \<Rightarrow> (None, s)
                  | Some (p', s') \<Rightarrow>
                      (if r2 = [] then Some (Inl p') else Some (Inr (iter, p')), s'))
               else (Some (Inr (iter, p)), s)))"

definition split_slash :: "string \<Rightarrow> (string \<times> string) option" where
  "split_slash iter =
    (if CHR ''/'' \<in> set iter
     then Some (takeWhile (\<lambda>c. c \<noteq> CHR ''/'') iter, tl (dropWhile (\<lambda>c. c \<noteq> CHR ''/'') iter))
     else None)"

lemma path_dots_length:
  "path_dots D iter p s = (Some (Inr (iter', p')), s') \<Longrightarrow> length iter' \<le> length iter"
  by (auto simp: path_dots_def split: list.splits if_splits option.splits)

lemma split_slash_length:
  assumes "split_slash iter = Some (name, rest)"
  shows "length rest < length iter"
proof -
  have "CHR ''/'' \<in> set iter" using assms by (auto simp: split_slash_def split: if_splits)
  then have "dropWhile (\<lambda>c. c \<noteq> CHR ''/'') iter \<noteq> []" by (auto simp: dropWhile_eq_Nil_conv)
  then have "length rest < length (dropWhile (\<lambda>c. c \<noteq> CHR ''/'') iter)"
    using assms by (auto simp: split_slash_def split: if_splits)
  then show ?thesis using length_dropWhile_le [of "\<lambda>c. c \<noteq> CHR ''/''" iter] by linarith
qed

text \<open>The end of the walk: with \<^verbatim>\<open>WP_PARENT\<close> one level up.\<close>

definition path_finish :: "drivers \<Rightarrow> u32 \<Rightarrow> path \<Rightarrow> vfs \<Rightarrow> (path result \<times> vfs) option" where
  "path_finish D flags p s =
    (if flags AND WP_PARENT \<noteq> 0
     then map_option (\<lambda>(p', s'). (Inr p', s')) (path_get_parent D p s)
     else Some (Inr p, s))"

text \<open>The last component of a name.\<close>

definition path_last :: "drivers \<Rightarrow> u32 \<Rightarrow> string \<Rightarrow> path \<Rightarrow> vfs \<Rightarrow> (path result \<times> vfs) option" where
  "path_last D flags iter p s =
    (if iter = [] then path_finish D flags p s
     else if flags AND WP_PARENT \<noteq> 0 then Some (Inr p, s)
     else do {
       (r, s1) \<leftarrow> d_lookup D (p_dentry p) iter s;
       s2 \<leftarrow> d_put D (Some (p_dentry p)) s1;
       case r of
         Inl e \<Rightarrow> do { s3 \<leftarrow> mnt_put (p_mount p) s2; Some (Inl e, s3) }
       | Inr a \<Rightarrow> path_finish D flags (p\<lparr>p_dentry := a\<rparr>) s2
     })"

text \<open>A component before a slash: the new directory, or the error.\<close>

definition path_step :: "drivers \<Rightarrow> string \<Rightarrow> path \<Rightarrow> vfs \<Rightarrow> (path result \<times> vfs) option" where
  "path_step D name p s = do {
    (r, s1) \<leftarrow> d_lookup D (p_dentry p) name s;
    case r of
      Inl e \<Rightarrow> do { s2 \<leftarrow> path_put D p s1; Some (Inl e, s2) }
    | Inr a \<Rightarrow> do { s2 \<leftarrow> d_put D (Some (p_dentry p)) s1; Some (Inr (p\<lparr>p_dentry := a\<rparr>), s2) }
  }"

function path_walk :: "drivers \<Rightarrow> u32 \<Rightarrow> string \<Rightarrow> path \<Rightarrow> vfs \<Rightarrow> (path result \<times> vfs) option" where
  "path_walk D flags iter p s =
    (case cross_mount D p s of
       None \<Rightarrow> None
     | Some (p1, s1) \<Rightarrow>
         (case path_dots D iter p1 s1 of
            (None, _) \<Rightarrow> None
          | (Some (Inl p2), s2) \<Rightarrow> path_finish D flags p2 s2
          | (Some (Inr (iter2, p2)), s2) \<Rightarrow>
              (case path_access D p2 X_OK s2 of
                 None \<Rightarrow> None
               | Some (Some _) \<Rightarrow>
                   (case path_put D p2 s2 of None \<Rightarrow> None | Some s3 \<Rightarrow> Some (Inl EACCES, s3))
               | Some None \<Rightarrow>
                   (case split_slash iter2 of
                      None \<Rightarrow> path_last D flags iter2 p2 s2
                    | Some (name, rest) \<Rightarrow>
                        (case path_step D name p2 s2 of
                           None \<Rightarrow> None
                         | Some (Inl e, s3) \<Rightarrow> Some (Inl e, s3)
                         | Some (Inr p3, s3) \<Rightarrow> path_walk D flags rest p3 s3)))))"
  by pat_completeness auto
termination
  by (relation "measure (\<lambda>(D, flags, iter, p, s). length iter)")
    (auto dest!: path_dots_length [OF sym] split_slash_length)

declare path_walk.simps [simp del]

definition path_lookup :: "drivers \<Rightarrow> string option \<Rightarrow> u32 \<Rightarrow> vfs \<Rightarrow> (path result \<times> vfs) option" where
  "path_lookup D name flags s =
    (case name of
       None \<Rightarrow> Some (Inl ENOENT, s)
     | Some name \<Rightarrow>
         if length name > 511 then Some (Inl ENAMETOOLONG, s)
         else if name \<noteq> [] \<and> hd name = CHR ''/'' then do {
           s1 \<leftarrow> d_get (Some (vfs_root s)) s;
           path_walk D flags (tl name) \<lparr>p_dentry = vfs_root s, p_mount = None\<rparr> s1
         }
         else do {
           (p, s1) \<leftarrow> path_copy (v_cwd s) s;
           path_walk D flags name p s1
         })"

text \<open>\<^verbatim>\<open>basename\<close>: the loop steps from slash to slash.\<close>

function basename :: "string \<Rightarrow> string" where
  "basename path =
    (case split_slash path of None \<Rightarrow> path | Some (name, rest) \<Rightarrow> basename rest)"
  by pat_completeness auto
termination by (relation "measure length") (auto dest: split_slash_length)

declare basename.simps [simp del]

end
