(* ===== verification/VfsFile.thy ===== *)
theory VfsFile
  imports Vfs
begin

text \<open>
  Open files and descriptors, and the system calls on names: \<^verbatim>\<open>kernel/src/file.c\<close> and the rest
  of \<^verbatim>\<open>kernel/src/fs.c\<close>. The values of the open flags and of the file types are those of the
  C library the kernel is built with.
\<close>

definition FREAD :: u32 where "FREAD = 1"
definition FWRITE :: u32 where "FWRITE = 2"
definition O_APPEND :: u32 where "O_APPEND = 8"
definition O_CREAT :: u32 where "O_CREAT = 0x200"
definition O_TRUNC :: u32 where "O_TRUNC = 0x400"
definition O_EXCL :: u32 where "O_EXCL = 0x800"
definition S_IFMT :: u32 where "S_IFMT = 0xF000"
definition S_IFDIR :: u32 where "S_IFDIR = 0x4000"
definition S_IFCHR :: u32 where "S_IFCHR = 0x2000"
definition S_IFBLK :: u32 where "S_IFBLK = 0x6000"
definition S_IFREG :: u32 where "S_IFREG = 0x8000"
definition S_IFIFO :: u32 where "S_IFIFO = 0x1000"
definition SEEK_SET :: u32 where "SEEK_SET = 0"
definition SEEK_CUR :: u32 where "SEEK_CUR = 1"
definition SEEK_END :: u32 where "SEEK_END = 2"

definition S_ISDIR :: "u32 \<Rightarrow> bool" where "S_ISDIR m \<longleftrightarrow> m AND S_IFMT = S_IFDIR"
definition S_ISBLK :: "u32 \<Rightarrow> bool" where "S_ISBLK m \<longleftrightarrow> m AND S_IFMT = S_IFBLK"
definition S_ISCHR :: "u32 \<Rightarrow> bool" where "S_ISCHR m \<longleftrightarrow> m AND S_IFMT = S_IFCHR"
definition S_ISFIFO :: "u32 \<Rightarrow> bool" where "S_ISFIFO m \<longleftrightarrow> m AND S_IFMT = S_IFIFO"

subsection \<open>Files\<close>

definition inode_trunc :: "drivers \<Rightarrow> nat \<Rightarrow> vfs \<Rightarrow> drv_result" where
  "inode_trunc D i s = do {
    ino \<leftarrow> inods s i;
    case op_truncate (iops D (i_ops ino)) of
      None \<Rightarrow> Some (Some EACCES, s)
    | Some f \<Rightarrow> f i s
  }"

definition file_fops :: "drivers \<Rightarrow> inode \<Rightarrow> nat option" where
  "file_fops D i =
    (if S_ISBLK (i_mode i) then Some (block_device_fops D)
     else if S_ISCHR (i_mode i) then get_chrdev_fops (major D (i_dev i)) (chrdev_table D)
     else if S_ISFIFO (i_mode i) then Some (pipe_operations D)
     else i_default_fops i)"

text \<open>The second half of \<^verbatim>\<open>file_open\<close>, from the allocation of the file on.\<close>

definition file_create :: "drivers \<Rightarrow> path \<Rightarrow> u32 \<Rightarrow> vfs \<Rightarrow> (nat result \<times> vfs) option" where
  "file_create D p flags s =
    (case vfs_kmalloc s of
       (None, s1) \<Rightarrow> Some (Inl ENOMEM, s1)
     | (Some a, s1) \<Rightarrow> do {
         (fp, s2) \<leftarrow> path_copy p s1;
         i \<leftarrow> dentry_inode (p_dentry p) s2;
         case file_fops D i of
           None \<Rightarrow> do { s3 \<leftarrow> path_put D fp s2; Some (Inl ENXIO, s3) }
         | Some t \<Rightarrow> do {
             let s3 = s2\<lparr>files := (files s2)(a \<mapsto>
               \<lparr>f_path = fp, f_ops = Some t, f_off = 0, f_status = 0, f_refs = 0, f_private = 0\<rparr>)\<rparr>;
             (err, s4) \<leftarrow> (case fo_open (fops D t) of
                 None \<Rightarrow> Some (None, s3)
               | Some op \<Rightarrow> op a (p_dentry fp) flags s3);
             case err of
               Some e \<Rightarrow> do {
                 s5 \<leftarrow> path_put D fp s4;
                 Some (Inl e, s5\<lparr>files := (files s5)(a := None)\<rparr>)
               }
             | None \<Rightarrow> Some (Inr a, upd_file a (\<lambda>f. f\<lparr>f_status := flags, f_refs := 1\<rparr>) s4)
           }
       })"

definition access_of :: "u32 \<Rightarrow> u32" where
  "access_of flags =
    (if (flags + 1) AND FWRITE \<noteq> 0 then W_OK else 0) OR (if (flags + 1) AND FREAD \<noteq> 0 then R_OK else 0)"

definition file_open :: "drivers \<Rightarrow> path \<Rightarrow> u32 \<Rightarrow> vfs \<Rightarrow> (nat result \<times> vfs) option" where
  "file_open D p flags s = do {
    acc \<leftarrow> path_access D p (access_of flags) s;
    case acc of
      Some e \<Rightarrow> Some (Inl e, s)
    | None \<Rightarrow> do {
        d \<leftarrow> dents s (p_dentry p);
        ia \<leftarrow> d_inode d;
        i \<leftarrow> inods s ia;
        if S_ISDIR (i_mode i) \<and> (flags + 1) AND FWRITE \<noteq> 0 then Some (Inl EISDIR, s)
        else do {
          (err, s1) \<leftarrow> (if flags AND O_TRUNC \<noteq> 0 then
              if access_of flags AND W_OK = 0 then Some (Some EACCES, s) else inode_trunc D ia s
            else Some (None, s));
          case err of
            Some e \<Rightarrow> Some (Inl e, s1)
          | None \<Rightarrow> file_create D p flags s1
        }
      }
  }"

definition file_flush :: "drivers \<Rightarrow> nat \<Rightarrow> vfs \<Rightarrow> drv_result" where
  "file_flush D f s = do {
    fl \<leftarrow> files s f;
    d \<leftarrow> dents s (p_dentry (f_path fl));
    i \<leftarrow> d_inode d;
    ino \<leftarrow> inods s i;
    case op_flush (iops D (i_ops ino)) of
      None \<Rightarrow> Some (None, s)
    | Some g \<Rightarrow> g i s
  }"

definition file_get :: "nat option \<Rightarrow> vfs \<Rightarrow> vfs option" where
  "file_get f s =
    (case f of
       None \<Rightarrow> Some s
     | Some a \<Rightarrow>
         (case files s a of None \<Rightarrow> None | Some _ \<Rightarrow> Some (upd_file a (\<lambda>x. x\<lparr>f_refs := f_refs x + 1\<rparr>) s)))"

text \<open>Every file has an operation table; a file without one does not leave \<^verbatim>\<open>file_open\<close>.\<close>

definition file_table :: "drivers \<Rightarrow> vfile \<Rightarrow> file_operations option" where
  "file_table D f = map_option (fops D) (f_ops f)"

definition file_close :: "drivers \<Rightarrow> nat option \<Rightarrow> vfs \<Rightarrow> drv_result" where
  "file_close D f s =
    (case f of
       None \<Rightarrow> Some (None, s)
     | Some a \<Rightarrow> do {
         fl \<leftarrow> files s a;
         let s1 = upd_file a (\<lambda>x. x\<lparr>f_refs := f_refs x - 1\<rparr>) s;
         if sint (f_refs fl - 1) > 0 then Some (None, s1)
         else do {
           ops \<leftarrow> file_table D fl;
           (err, s2) \<leftarrow> (case fo_close ops of
               None \<Rightarrow> Some (None, s1)
             | Some g \<Rightarrow> g a (p_dentry (f_path fl)) s1);
           case err of
             Some e \<Rightarrow> Some (Some e, s2)
           | None \<Rightarrow> do {
               s3 \<leftarrow> path_put D (f_path fl) s2;
               Some (None, s3\<lparr>files := (files s3)(a := None)\<rparr>)
             }
         }
       })"

definition file_read :: "drivers \<Rightarrow> nat \<Rightarrow> nat \<Rightarrow> vfs \<Rightarrow> (u8 list result \<times> vfs) option" where
  "file_read D f count s = do {
    fl \<leftarrow> files s f;
    if (f_status fl + 1) AND FREAD = 0 then Some (Inl EINVAL, s)
    else do {
      ops \<leftarrow> file_table D fl;
      case fo_read ops of
        None \<Rightarrow> Some (Inl EINVAL, s)
      | Some g \<Rightarrow> g f count s
    }
  }"

definition file_readdir :: "drivers \<Rightarrow> nat \<Rightarrow> nat \<Rightarrow> vfs \<Rightarrow> (string list result \<times> vfs) option" where
  "file_readdir D f count s = do {
    fl \<leftarrow> files s f;
    i \<leftarrow> dentry_inode (p_dentry (f_path fl)) s;
    if \<not> S_ISDIR (i_mode i AND S_IFDIR) then Some (Inl ENOTDIR, s)
    else if (f_status fl + 1) AND FREAD = 0 then Some (Inl EINVAL, s)
    else do {
      ops \<leftarrow> file_table D fl;
      case fo_readdir ops of
        None \<Rightarrow> Some (Inl EINVAL, s)
      | Some g \<Rightarrow> g f count s
    }
  }"

definition file_write :: "drivers \<Rightarrow> nat \<Rightarrow> u8 list \<Rightarrow> vfs \<Rightarrow> (nat result \<times> vfs) option" where
  "file_write D f buf s = do {
    fl \<leftarrow> files s f;
    if (f_status fl + 1) AND FWRITE = 0 then Some (Inl EINVAL, s)
    else do {
      ops \<leftarrow> file_table D fl;
      case fo_write ops of
        None \<Rightarrow> Some (Inl EINVAL, s)
      | Some g \<Rightarrow>
          if (f_status fl + 1) AND O_APPEND \<noteq> 0 then do {
            i \<leftarrow> dentry_inode (p_dentry (f_path fl)) s;
            (r, s1) \<leftarrow> g f buf (upd_file f (\<lambda>x. x\<lparr>f_off := i_size i\<rparr>) s);
            Some (r, upd_file f (\<lambda>x. x\<lparr>f_off := f_off fl\<rparr>) s1)
          }
          else g f buf s
    }
  }"

definition file_seek :: "drivers \<Rightarrow> nat \<Rightarrow> u32 \<Rightarrow> u32 \<Rightarrow> vfs \<Rightarrow> (u32 result \<times> vfs) option" where
  "file_seek D f offset whence s = do {
    fl \<leftarrow> files s f;
    ops \<leftarrow> file_table D fl;
    case fo_lseek ops of
      Some g \<Rightarrow> g f offset whence s
    | None \<Rightarrow>
        if whence = SEEK_SET then Some (Inr 0, upd_file f (\<lambda>x. x\<lparr>f_off := offset\<rparr>) s)
        else if whence = SEEK_CUR then Some (Inr 0, upd_file f (\<lambda>x. x\<lparr>f_off := f_off x + offset\<rparr>) s)
        else if whence = SEEK_END then do {
          i \<leftarrow> dentry_inode (p_dentry (f_path fl)) s;
          Some (Inr 0, upd_file f (\<lambda>x. x\<lparr>f_off := i_size i + offset\<rparr>) s)
        }
        else Some (Inl EINVAL, s)
  }"

definition file_ioctl :: "drivers \<Rightarrow> nat \<Rightarrow> u32 \<Rightarrow> vfs \<Rightarrow> (u32 result \<times> vfs) option" where
  "file_ioctl D f request s = do {
    fl \<leftarrow> files s f;
    ops \<leftarrow> file_table D fl;
    case fo_ioctl ops of
      None \<Rightarrow> Some (Inl EINVAL, s)
    | Some g \<Rightarrow> g f request s
  }"

definition file_isatty :: "drivers \<Rightarrow> nat \<Rightarrow> vfs \<Rightarrow> (u32 result \<times> vfs) option" where
  "file_isatty D f s = do {
    fl \<leftarrow> files s f;
    ops \<leftarrow> file_table D fl;
    case fo_isatty ops of
      None \<Rightarrow> Some (Inl ENOTTY, s)
    | Some g \<Rightarrow> g f s
  }"

record stat =
  st_dev :: u32
  st_ino :: u32
  st_mode :: u32
  st_nlink :: u16
  st_uid :: u32
  st_gid :: u32
  st_rdev :: u32
  st_size :: u32
  st_blksize :: u32
  st_blocks :: u32
  st_atime :: u32
  st_mtime :: u32
  st_ctime :: u32

text \<open>The values cached in the inode; \<open>fstat\<close> is the driver's own function, if it has one.\<close>

definition file_stat ::
  "(nat \<Rightarrow> vfs \<Rightarrow> (stat result \<times> vfs) option) option \<Rightarrow> nat \<Rightarrow> vfs \<Rightarrow> (stat result \<times> vfs) option" where
  "file_stat fstat f s = do {
    fl \<leftarrow> files s f;
    d \<leftarrow> dents s (p_dentry (f_path fl));
    case d_inode d of
      None \<Rightarrow> Some (Inl EINVAL, s)
    | Some ia \<Rightarrow> do {
        i \<leftarrow> inods s ia;
        case fstat of
          Some g \<Rightarrow> g f s
        | None \<Rightarrow> do {
            sb \<leftarrow> supers s (i_super i);
            Some (Inr \<lparr>st_dev = s_dev sb, st_ino = i_ino i, st_mode = i_mode i, st_nlink = i_nlinks i,
              st_uid = i_uid i, st_gid = i_gid i, st_rdev = i_dev i, st_size = i_size i,
              st_blksize = s_blocksize sb, st_blocks = 0, st_atime = i_atime i,
              st_mtime = i_mtime i, st_ctime = i_ctime i\<rparr>, s)
          }
      }
  }"

subsection \<open>File descriptors\<close>

definition FD_OCCUPIED :: u32 where "FD_OCCUPIED = 0x10000"
definition FD_INVALID :: u32 where "FD_INVALID = 0x20000"
definition FS_MAX_OPEN_FILES :: nat where "FS_MAX_OPEN_FILES = 1024"

definition fd_occupied :: "file_descr \<Rightarrow> bool" where
  "fd_occupied x \<longleftrightarrow> fd_flags x AND FD_OCCUPIED \<noteq> 0"

definition fd_usable :: "file_descr \<Rightarrow> bool" where
  "fd_usable x \<longleftrightarrow> fd_flags x AND FD_OCCUPIED \<noteq> 0 \<and> fd_flags x AND FD_INVALID = 0"

definition FD_VALID :: "int \<Rightarrow> vfs \<Rightarrow> bool" where
  "FD_VALID fd s \<longleftrightarrow> fd \<ge> 0 \<and> fd < int FS_MAX_OPEN_FILES \<and> fd_usable (v_openvect s ! nat fd)"

definition fd_get :: "int \<Rightarrow> vfs \<Rightarrow> nat option" where
  "fd_get fd s = fd_file (v_openvect s ! nat fd)"

definition upd_fd :: "int \<Rightarrow> (file_descr \<Rightarrow> file_descr) \<Rightarrow> vfs \<Rightarrow> vfs" where
  "upd_fd fd f s = s\<lparr>v_openvect := (v_openvect s)[nat fd := f (v_openvect s ! nat fd)]\<rparr>"

text \<open>The loop over the descriptors for the first one with a property.\<close>

fun fd_scan :: "(file_descr \<Rightarrow> bool) \<Rightarrow> file_descr list \<Rightarrow> nat option" where
  "fd_scan P [] = None"
| "fd_scan P (x # xs) = (if P x then Some 0 else map_option Suc (fd_scan P xs))"

definition sys_resfd :: "vfs \<Rightarrow> int \<times> vfs" where
  "sys_resfd s =
    (case fd_scan (\<lambda>x. \<not> fd_occupied x) (v_openvect s) of
       None \<Rightarrow> (-1, s)
     | Some i \<Rightarrow> (int i, upd_fd (int i) (\<lambda>x. x\<lparr>fd_flags := FD_OCCUPIED OR FD_INVALID\<rparr>) s))"

definition sys_relfd :: "int \<Rightarrow> vfs \<Rightarrow> vfs" where
  "sys_relfd fd s = upd_fd fd (\<lambda>x. x\<lparr>fd_flags := 0\<rparr>) s"

definition sys_close :: "drivers \<Rightarrow> int \<Rightarrow> vfs \<Rightarrow> drv_result" where
  "sys_close D fd s =
    (if \<not> FD_VALID fd s then Some (Some EBADF, s)
     else do {
       (err, s1) \<leftarrow> file_close D (fd_get fd s) s;
       case err of
         Some e \<Rightarrow> Some (Some e, s1)
       | None \<Rightarrow> Some (None, upd_fd fd (\<lambda>x. x\<lparr>fd_file := None, fd_flags := 0\<rparr>) s1)
     })"

definition dup_slot :: "int \<Rightarrow> vfs \<Rightarrow> int result" where
  "dup_slot otherfd s =
    (if otherfd = -1 then
       (case fd_scan (\<lambda>x. \<not> fd_usable x) (v_openvect s) of
          None \<Rightarrow> Inl EMFILE
        | Some i \<Rightarrow> Inr (int i))
     else if otherfd \<ge> int FS_MAX_OPEN_FILES \<or> otherfd < 0 then Inl EBADF
     else Inr otherfd)"

definition sys_dup2 :: "drivers \<Rightarrow> int \<Rightarrow> int \<Rightarrow> vfs \<Rightarrow> (int result \<times> vfs) option" where
  "sys_dup2 D fd otherfd s =
    (if \<not> FD_VALID fd s then Some (Inl EBADF, s)
     else case dup_slot otherfd s of
       Inl e \<Rightarrow> Some (Inl e, s)
     | Inr other \<Rightarrow> do {
         (err, s1) \<leftarrow> (if FD_VALID other s then sys_close D other s else Some (None, s));
         if err \<noteq> None then Some (Inl EIO, s1)
         else do {
           let x = v_openvect s1 ! nat fd;
           s2 \<leftarrow> file_get (fd_file x) s1;
           Some (Inr other, upd_fd other (\<lambda>y. \<lparr>fd_file = fd_file x, fd_flags = fd_flags x\<rparr>) s2)
         }
       })"

definition sys_dup :: "int \<Rightarrow> vfs \<Rightarrow> (int result \<times> vfs) option" where
  "sys_dup old_fd s =
    (if \<not> FD_VALID old_fd s then Some (Inl EBADF, s)
     else case fd_scan (\<lambda>x. \<not> fd_occupied x) (v_openvect s) of
       None \<Rightarrow> Some (Inl EMFILE, s)
     | Some i \<Rightarrow> do {
         f \<leftarrow> fd_get old_fd s;
         _ \<leftarrow> files s f;
         let s1 = upd_file f (\<lambda>x. x\<lparr>f_refs := f_refs x + 1\<rparr>) s;
         Some (Inr (int i), upd_fd (int i) (\<lambda>x. \<lparr>fd_file = Some f, fd_flags = FD_OCCUPIED\<rparr>) s1)
       })"

definition sys_read :: "drivers \<Rightarrow> int \<Rightarrow> nat \<Rightarrow> vfs \<Rightarrow> (u8 list result \<times> vfs) option" where
  "sys_read D fd count s =
    (if \<not> FD_VALID fd s then Some (Inl EBADF, s)
     else do { f \<leftarrow> fd_get fd s; file_read D f count s })"

definition sys_write :: "drivers \<Rightarrow> int \<Rightarrow> u8 list \<Rightarrow> vfs \<Rightarrow> (nat result \<times> vfs) option" where
  "sys_write D fd buf s =
    (if \<not> FD_VALID fd s then Some (Inl EBADF, s)
     else do { f \<leftarrow> fd_get fd s; file_write D f buf s })"

definition sys_readdir :: "drivers \<Rightarrow> int \<Rightarrow> nat \<Rightarrow> vfs \<Rightarrow> (string list result \<times> vfs) option" where
  "sys_readdir D fd count s =
    (if \<not> FD_VALID fd s then Some (Inl EBADF, s)
     else do { f \<leftarrow> fd_get fd s; file_readdir D f count s })"

definition sys_lseek :: "drivers \<Rightarrow> int \<Rightarrow> u32 \<Rightarrow> u32 \<Rightarrow> vfs \<Rightarrow> (u32 result \<times> vfs) option" where
  "sys_lseek D fd offset whence s =
    (if \<not> FD_VALID fd s then Some (Inl EBADF, s)
     else do { f \<leftarrow> fd_get fd s; file_seek D f offset whence s })"

definition sys_isatty :: "drivers \<Rightarrow> int \<Rightarrow> vfs \<Rightarrow> (u32 result \<times> vfs) option" where
  "sys_isatty D fd s =
    (if \<not> FD_VALID fd s then Some (Inl EBADF, s)
     else do { f \<leftarrow> fd_get fd s; file_isatty D f s })"

definition sys_fstat ::
  "(nat \<Rightarrow> vfs \<Rightarrow> (stat result \<times> vfs) option) option \<Rightarrow> int \<Rightarrow> vfs \<Rightarrow> (stat result \<times> vfs) option" where
  "sys_fstat fstat fd s =
    (if \<not> FD_VALID fd s then Some (Inl EBADF, s)
     else do { f \<leftarrow> fd_get fd s; file_stat fstat f s })"

text \<open>\<^verbatim>\<open>sys_ioctl\<close> indexes the vector without looking at the range of \<^verbatim>\<open>fd\<close>.\<close>

definition sys_ioctl :: "drivers \<Rightarrow> int \<Rightarrow> u32 \<Rightarrow> vfs \<Rightarrow> (u32 result \<times> vfs) option" where
  "sys_ioctl D fd request s =
    (if fd < 0 \<or> fd \<ge> int FS_MAX_OPEN_FILES then None
     else case fd_get fd s of
       None \<Rightarrow> Some (Inl EBADF, s)
     | Some f \<Rightarrow> file_ioctl D f request s)"

end
