(* ===== verification/VfsCalls.thy ===== *)
theory VfsCalls
  imports VfsFile
begin

text \<open>
  The system calls of \<^verbatim>\<open>kernel/src/fs.c\<close> that take a name, the table of file system types,
  mounting, and the file system part of creating and ending a task.
\<close>

subsection \<open>Opening and creating\<close>

definition sys_mknod :: "drivers \<Rightarrow> string \<Rightarrow> u32 \<Rightarrow> u32 \<Rightarrow> vfs \<Rightarrow> drv_result" where
  "sys_mknod D path mode dev s = do {
    (r, s1) \<leftarrow> path_lookup D (Some path) WP_DEFAULT s;
    case r of
      Inr p \<Rightarrow> do { s2 \<leftarrow> path_put D p s1; Some (Some EEXIST, s2) }
    | Inl _ \<Rightarrow> do {
        (r2, s2) \<leftarrow> path_lookup D (Some path) WP_PARENT s1;
        case r2 of
          Inl e \<Rightarrow> Some (Some e, s2)
        | Inr parent \<Rightarrow> do {
            acc \<leftarrow> path_access D parent W_OK s2;
            case acc of
              Some e \<Rightarrow> do { s3 \<leftarrow> path_put D parent s2; Some (Some e, s3) }
            | None \<Rightarrow> do {
                d \<leftarrow> dents s2 (p_dentry parent);
                i \<leftarrow> d_inode d;
                ino \<leftarrow> inods s2 i;
                case op_mknod (iops D (i_ops ino)) of
                  None \<Rightarrow> do { s3 \<leftarrow> path_put D parent s2; Some (Some EPERM, s3) }
                | Some f \<Rightarrow> do {
                    (err, s3) \<leftarrow> f i (basename path) mode dev s2;
                    s4 \<leftarrow> path_put D parent s3;
                    Some (err, s4)
                  }
              }
          }
      }
  }"

text \<open>The lookup of \<^verbatim>\<open>sys_open\<close>: the existing file, or a new one with \<^verbatim>\<open>O_CREAT\<close>.\<close>

definition open_path :: "drivers \<Rightarrow> string \<Rightarrow> u32 \<Rightarrow> u32 \<Rightarrow> vfs \<Rightarrow> (path result \<times> vfs) option" where
  "open_path D filename flags mode s = do {
    (r, s1) \<leftarrow> path_lookup D (Some filename) WP_DEFAULT s;
    case r of
      Inr p \<Rightarrow>
        if flags AND O_EXCL \<noteq> 0 then do { s2 \<leftarrow> path_put D p s1; Some (Inl EEXIST, s2) }
        else Some (Inr p, s1)
    | Inl e \<Rightarrow>
        if flags AND O_CREAT \<noteq> 0 then do {
          (err, s2) \<leftarrow> sys_mknod D filename ((mode AND NOT S_IFMT) OR S_IFREG) 0 s1;
          case err of
            Some e2 \<Rightarrow> Some (Inl e2, s2)
          | None \<Rightarrow> path_lookup D (Some filename) WP_DEFAULT s2
        }
        else Some (Inl e, s1)
  }"

definition sys_open :: "drivers \<Rightarrow> string \<Rightarrow> u32 \<Rightarrow> u32 \<Rightarrow> vfs \<Rightarrow> (int result \<times> vfs) option" where
  "sys_open D filename flags mode s =
    (case fd_scan (\<lambda>x. \<not> fd_occupied x) (v_openvect s) of
       None \<Rightarrow> Some (Inl EMFILE, s)
     | Some n \<Rightarrow> do {
         let fd = int n;
         let s0 = upd_fd fd (\<lambda>x. x\<lparr>fd_flags := FD_OCCUPIED OR FD_INVALID\<rparr>) s;
         (r, s1) \<leftarrow> open_path D filename flags mode s0;
         case r of
           Inl e \<Rightarrow> Some (Inl e, upd_fd fd (\<lambda>x. x\<lparr>fd_flags := 0\<rparr>) s1)
         | Inr p \<Rightarrow> do {
             (fr, s2) \<leftarrow> file_open D p flags s1;
             s3 \<leftarrow> path_put D p s2;
             case fr of
               Inl e \<Rightarrow> Some (Inl e, upd_fd fd (\<lambda>x. \<lparr>fd_file = None, fd_flags = 0\<rparr>) s3)
             | Inr f \<Rightarrow>
                 Some (Inr fd, upd_fd fd
                   (\<lambda>x. x\<lparr>fd_file := Some f, fd_flags := fd_flags x AND NOT FD_INVALID\<rparr>) s3)
           }
       })"

text \<open>The name of a new file split at its last slash. Without a slash the containing directory is
  the root directory.\<close>

definition dirname :: "string \<Rightarrow> string" where
  "dirname path = take (length path - length (basename path) - 1) path"

definition create_file :: "drivers \<Rightarrow> string \<Rightarrow> u32 \<Rightarrow> vfs \<Rightarrow> drv_result" where
  "create_file D filename mode s = do {
    let name = basename filename;
    (r, s1) \<leftarrow> path_lookup D (Some (if name = filename then ''/'' else dirname filename)) WP_DEFAULT s;
    case r of
      Inl e \<Rightarrow> Some (Some e, s1)
    | Inr dir \<Rightarrow> do {
        acc \<leftarrow> path_access D dir W_OK s1;
        case acc of
          Some e \<Rightarrow> do { s2 \<leftarrow> path_put D dir s1; Some (Some e, s2) }
        | None \<Rightarrow> do {
            d \<leftarrow> dents s1 (p_dentry dir);
            i \<leftarrow> d_inode d;
            ino \<leftarrow> inods s1 i;
            case op_creat (iops D (i_ops ino)) of
              None \<Rightarrow> do { s2 \<leftarrow> path_put D dir s1; Some (Some EACCES, s2) }
            | Some f \<Rightarrow> do {
                (err, s2) \<leftarrow> f i name mode s1;
                s3 \<leftarrow> path_put D dir s2;
                Some (err, s3)
              }
          }
      }
  }"

subsection \<open>Links, modes and owners\<close>

definition sys_unlink :: "drivers \<Rightarrow> string \<Rightarrow> vfs \<Rightarrow> drv_result" where
  "sys_unlink D pathname s = do {
    (r, s1) \<leftarrow> path_lookup D (Some pathname) WP_DEFAULT s;
    case r of
      Inl e \<Rightarrow> Some (Some e, s1)
    | Inr p \<Rightarrow> do {
        d \<leftarrow> dents s1 (p_dentry p);
        case d_parent d of
          None \<Rightarrow> do { s2 \<leftarrow> path_put D p s1; Some (Some EINVAL, s2) }
        | Some q \<Rightarrow> do {
            pd \<leftarrow> dents s1 q;
            case d_inode pd of
              None \<Rightarrow> do { s2 \<leftarrow> path_put D p s1; Some (Some EINVAL, s2) }
            | Some i \<Rightarrow> do {
                ino \<leftarrow> inods s1 i;
                case op_unlink (iops D (i_ops ino)) of
                  None \<Rightarrow> do { s2 \<leftarrow> path_put D p s1; Some (Some ENOSYS, s2) }
                | Some f \<Rightarrow> do {
                    (err, s2) \<leftarrow> f i (p_dentry p) s1;
                    s3 \<leftarrow> path_put D p s2;
                    Some (err, s3)
                  }
              }
          }
      }
  }"

text \<open>\<^verbatim>\<open>sys_link\<close>. Without a slash in the new name the write in front of the buffer is outside
  of it.\<close>

definition sys_link :: "drivers \<Rightarrow> string \<Rightarrow> string \<Rightarrow> vfs \<Rightarrow> drv_result" where
  "sys_link D old_path new_path s =
    (if basename new_path = new_path then None
     else do {
       (r, s1) \<leftarrow> path_lookup D (Some old_path) WP_DEFAULT s;
       case r of
         Inl e \<Rightarrow> Some (Some e, s1)
       | Inr oldp \<Rightarrow> do {
           (r2, s2) \<leftarrow> path_lookup D (Some (dirname new_path)) WP_DEFAULT s1;
           case r2 of
             Inl e \<Rightarrow> Some (Some e, s2)
           | Inr newp \<Rightarrow>
               if p_mount oldp \<noteq> p_mount newp then do {
                 s3 \<leftarrow> path_put D oldp s2; s4 \<leftarrow> path_put D newp s3; Some (Some EXDEV, s4)
               }
               else do {
                 m \<leftarrow> p_mount newp;
                 mnt \<leftarrow> mnts s2 m;
                 if m_flags mnt AND MS_RDONLY D \<noteq> 0 then do {
                   s3 \<leftarrow> path_put D oldp s2; s4 \<leftarrow> path_put D newp s3; Some (Some EROFS, s4)
                 }
                 else do {
                   d \<leftarrow> dents s2 (p_dentry newp);
                   i \<leftarrow> d_inode d;
                   ino \<leftarrow> inods s2 i;
                   od \<leftarrow> dents s2 (p_dentry oldp);
                   case op_link (iops D (i_ops ino)) of
                     None \<Rightarrow> do {
                       s3 \<leftarrow> path_put D oldp s2; s4 \<leftarrow> path_put D newp s3; Some (Some EPERM, s4)
                     }
                   | Some f \<Rightarrow> do {
                       (err, s3) \<leftarrow> f i (basename new_path) (d_inode od) s2;
                       s4 \<leftarrow> path_put D newp s3;
                       s5 \<leftarrow> path_put D oldp s4;
                       Some (err, s5)
                     }
                 }
               }
         }
     })"

definition sys_access :: "drivers \<Rightarrow> string \<Rightarrow> u32 \<Rightarrow> vfs \<Rightarrow> drv_result" where
  "sys_access D name mode s = do {
    (r, s1) \<leftarrow> path_lookup D (Some name) WP_DEFAULT s;
    case r of
      Inl e \<Rightarrow> Some (Some e, s1)
    | Inr p \<Rightarrow> do {
        acc \<leftarrow> path_access D p mode s1;
        s2 \<leftarrow> path_put D p s1;
        Some (acc, s2)
      }
  }"

definition sys_chmod :: "drivers \<Rightarrow> string \<Rightarrow> u32 \<Rightarrow> vfs \<Rightarrow> drv_result" where
  "sys_chmod D name mode s = do {
    (r, s1) \<leftarrow> path_lookup D (Some name) WP_DEFAULT s;
    case r of
      Inl e \<Rightarrow> Some (Some e, s1)
    | Inr p \<Rightarrow> do {
        d \<leftarrow> dents s1 (p_dentry p);
        i \<leftarrow> d_inode d;
        ino \<leftarrow> inods s1 i;
        (err, s2) \<leftarrow> (case op_chmod (iops D (i_ops ino)) of
            Some f \<Rightarrow> f i mode s1
          | None \<Rightarrow> Some (None, upd_inode i
              (\<lambda>x. x\<lparr>i_mode := (i_mode x AND S_IFMT) OR (mode AND NOT S_IFMT)\<rparr>) s1));
        s3 \<leftarrow> path_put D p s2;
        Some (err, s3)
      }
  }"

definition sys_chown :: "drivers \<Rightarrow> string \<Rightarrow> u32 \<Rightarrow> u32 \<Rightarrow> vfs \<Rightarrow> drv_result" where
  "sys_chown D name owner grp s =
    (if owner \<noteq> - 1 \<and> cur_uid s \<noteq> 0 then Some (Some EPERM, s)
     else do {
       (r, s1) \<leftarrow> path_lookup D (Some name) WP_DEFAULT s;
       case r of
         Inl e \<Rightarrow> Some (Some e, s1)
       | Inr p \<Rightarrow> do {
           d \<leftarrow> dents s1 (p_dentry p);
           i \<leftarrow> d_inode d;
           ino \<leftarrow> inods s1 i;
           (err, s2) \<leftarrow> (case op_chown (iops D (i_ops ino)) of
               Some f \<Rightarrow> f i owner grp s1
             | None \<Rightarrow> Some (None, upd_inode i
                 (\<lambda>x. x\<lparr>i_uid := (if owner \<noteq> - 1 then owner else i_uid x),
                       i_gid := (if grp \<noteq> - 1 then grp else i_gid x)\<rparr>) s1));
           s3 \<leftarrow> path_put D p s2;
           Some (err, s3)
         }
     })"

definition sys_umask :: "u32 \<Rightarrow> vfs \<Rightarrow> u32 \<times> vfs" where
  "sys_umask m s = (cur_umask s, s\<lparr>cur_umask := m\<rparr>)"

subsection \<open>The working directory\<close>

definition sys_chdir :: "drivers \<Rightarrow> string \<Rightarrow> vfs \<Rightarrow> drv_result" where
  "sys_chdir D name s = do {
    (r, s1) \<leftarrow> path_lookup D (Some name) WP_DEFAULT s;
    case r of
      Inl e \<Rightarrow> Some (Some e, s1)
    | Inr p \<Rightarrow> do {
        i \<leftarrow> dentry_inode (p_dentry p) s1;
        if \<not> S_ISDIR (i_mode i) then do { s2 \<leftarrow> path_put D p s1; Some (Some ENOTDIR, s2) }
        else do {
          s2 \<leftarrow> path_put D (v_cwd s1) s1;
          (p', s3) \<leftarrow> path_copy p s2;
          Some (None, s3\<lparr>v_cwd := p'\<rparr>)
        }
      }
  }"

text \<open>\<^verbatim>\<open>_build_path\<close> appends to \<open>buf\<close> while it is at most \<open>room\<close> characters long. It
  follows the parents, which in a cyclic structure would not end.\<close>

definition build_name :: "bool \<Rightarrow> nat \<Rightarrow> string \<Rightarrow> string result" where
  "build_name dir room buf =
    (if dir then if length buf = room then Inl ENAMETOOLONG else Inr (buf @ ''/'') else Inr buf)"

partial_function (option) build_path ::
  "vfs \<Rightarrow> bool \<Rightarrow> nat \<Rightarrow> string \<Rightarrow> nat \<Rightarrow> string result option" where
  "build_path s dotdot room buf a =
    Option.bind (dents s a) (\<lambda>d.
      Option.bind
        (case d_parent d of
           None \<Rightarrow> Some (Inr (True, buf))
         | Some q \<Rightarrow>
             Option.bind (build_path s (d_name d = ''..'') room buf q) (\<lambda>r. Some (case r of
                 Inl e \<Rightarrow> Inl e
               | Inr buf' \<Rightarrow>
                   Inr (\<not> (d_name d = ''.'' \<or> dotdot \<or> d_name d = ''..''), buf'))))
        (\<lambda>r. case r of
               Inl e \<Rightarrow> Some (Inl e)
             | Inr (False, buf') \<Rightarrow> Some (Inr buf')
             | Inr (True, buf') \<Rightarrow>
                 if room - length buf' < length (d_name d) then Some (Inl ENAMETOOLONG)
                 else
                   (case d_inode d of
                      None \<Rightarrow> Some (build_name True room (buf' @ d_name d))
                    | Some i \<Rightarrow> Option.bind (inods s i)
                        (\<lambda>ino. Some (build_name (S_ISDIR (i_mode ino)) room (buf' @ d_name d))))))"

declare build_path.simps [code]

definition sys_getcwd :: "nat \<Rightarrow> vfs \<Rightarrow> string result option" where
  "sys_getcwd len s = build_path s False (len - 2) [] (p_dentry (v_cwd s))"

subsection \<open>File system types and mounts\<close>

definition FS_NODEV :: u32 where "FS_NODEV = 1"
definition FS_RDONLY :: u32 where "FS_RDONLY = 2"

definition register_filesystem :: "nat \<Rightarrow> vfs \<Rightarrow> vfs" where
  "register_filesystem fs s = s\<lparr>vfs_filesystem_list := fs # vfs_filesystem_list s\<rparr>"

definition unregister_filesystem :: "nat \<Rightarrow> vfs \<Rightarrow> drv_result" where
  "unregister_filesystem fs s = do {
    f \<leftarrow> fsystems s fs;
    if fs_slist f \<noteq> [] then Some (Some EBUSY, s)
    else Some (None, s\<lparr>vfs_filesystem_list := remove1 fs (vfs_filesystem_list s)\<rparr>)
  }"

fun find_filesystem :: "vfs \<Rightarrow> string \<Rightarrow> nat list \<Rightarrow> nat result option" where
  "find_filesystem s name [] = Some (Inl ENODEV)"
| "find_filesystem s name (a # as) =
    (case fsystems s a of
       None \<Rightarrow> None
     | Some f \<Rightarrow> if fs_name f = name then Some (Inr a) else find_filesystem s name as)"

definition get_filesystem :: "string \<Rightarrow> vfs \<Rightarrow> nat result option" where
  "get_filesystem name s = find_filesystem s name (vfs_filesystem_list s)"

text \<open>Is the device, or a file system without one, mounted already?\<close>

fun mount_busy :: "vfs \<Rightarrow> u32 \<Rightarrow> nat \<Rightarrow> nat list \<Rightarrow> bool option" where
  "mount_busy s device fs [] = Some False"
| "mount_busy s device fs (m # ms) = do {
    mnt \<leftarrow> mnts s m;
    sb \<leftarrow> supers s (m_super mnt);
    if device = 0 then
      if s_dev sb = 0 \<and> s_fs sb = fs then Some True else mount_busy s device fs ms
    else if s_dev sb = device then Some True
    else mount_busy s device fs ms
  }"

definition zero_super :: superblock where
  "zero_super = \<lparr>s_blocksize = 0, s_magic = 0, s_dev = 0, s_refs = 0, s_fs = 0, s_root = None,
    s_inode_list = [], s_ops = 0\<rparr>"

text \<open>The superblock is allocated and read.\<close>

definition mount_super ::
  "drivers \<Rightarrow> nat \<Rightarrow> u32 \<Rightarrow> u32 \<Rightarrow> path \<Rightarrow> vfs \<Rightarrow> (nat result \<times> vfs) option" where
  "mount_super D fs device mountflags target s = do {
    f \<leftarrow> fsystems s fs;
    if mountflags AND MS_RDONLY D = 0 \<and> fs_flags f AND FS_RDONLY \<noteq> 0 then do {
      s1 \<leftarrow> path_put D target s; Some (Inl EACCES, s1)
    }
    else
      (case vfs_kmalloc s of
         (None, s1) \<Rightarrow> do { s2 \<leftarrow> path_put D target s1; Some (Inl ENOMEM, s2) }
       | (Some sb, s1) \<Rightarrow> do {
           let s2 = s1\<lparr>supers := (supers s1)(sb \<mapsto> zero_super\<lparr>s_fs := fs\<rparr>)\<rparr>;
           (err, s3) \<leftarrow> fso_read_super (fsops D (fs_ops f)) fs sb device mountflags s2;
           case err of
             Some e \<Rightarrow> do {
               s4 \<leftarrow> path_put D target s3;
               Some (Inl e, s4\<lparr>supers := (supers s4)(sb := None)\<rparr>)
             }
           | None \<Rightarrow> Some (Inr sb, s3)
         })
  }"

text \<open>Failure after the superblock is read.\<close>

definition mount_undo :: "drivers \<Rightarrow> nat \<Rightarrow> nat \<Rightarrow> path \<Rightarrow> vfs \<Rightarrow> drv_result" where
  "mount_undo D fs sb target s = do {
    s1 \<leftarrow> path_put D target s;
    f \<leftarrow> fsystems s1 fs;
    (_, s2) \<leftarrow> (case fso_put_super (fsops D (fs_ops f)) of
        None \<Rightarrow> Some (None, s1)
      | Some g \<Rightarrow> g fs sb s1);
    Some (Some ENOMEM, s2\<lparr>supers := (supers s2)(sb := None)\<rparr>)
  }"

text \<open>The mount point of the target, made if there is none.\<close>

definition mount_point :: "path \<Rightarrow> vfs \<Rightarrow> (nat option \<times> vfs) option" where
  "mount_point target s = do {
    d \<leftarrow> dents s (p_dentry target);
    case d_mountpoint d of
      Some mp \<Rightarrow> Some (Some mp, s)
    | None \<Rightarrow>
        (case vfs_kmalloc s of
           (None, s1) \<Rightarrow> Some (None, s1)
         | (Some mp, s1) \<Rightarrow> do {
             (p, s2) \<leftarrow> path_copy target s1;
             let s3 = s2\<lparr>mpoints := (mpoints s2)(mp \<mapsto> \<lparr>mp_point = p, mp_mounts = []\<rparr>)\<rparr>;
             Some (Some mp, upd_dentry (p_dentry target) (\<lambda>x. x\<lparr>d_mountpoint := Some mp\<rparr>) s3)
           })
  }"

text \<open>The mount itself, linked to its mount point and the list of mounts.\<close>

definition mount_link ::
  "drivers \<Rightarrow> nat \<Rightarrow> nat \<Rightarrow> u32 \<Rightarrow> path \<Rightarrow> nat \<Rightarrow> vfs \<Rightarrow> drv_result" where
  "mount_link D fs sb mountflags target mp s = do {
    x \<leftarrow> supers s sb;
    root \<leftarrow> s_root x;
    _ \<leftarrow> dents s root;
    let s1 = upd_dentry root (\<lambda>x. x\<lparr>d_mountpoint := Some mp\<rparr>) s;
    case vfs_kmalloc s1 of
      (None, s2) \<Rightarrow> mount_undo D fs sb target s2
    | (Some m, s2) \<Rightarrow> do {
        point \<leftarrow> mpoints s2 mp;
        Some (None, s2\<lparr>
          mnts := (mnts s2)(m \<mapsto> \<lparr>m_super = sb, m_flags = mountflags, m_point = mp, m_refs = 1\<rparr>),
          mpoints := (mpoints s2)(mp \<mapsto> point\<lparr>mp_mounts := m # mp_mounts point\<rparr>),
          vfs_mount_list := m # vfs_mount_list s2\<rparr>)
      }
  }"

text \<open>The device of the source, or zero when the type needs none. When the type does not exist and
  the source was not found, the code puts a path that was never set.\<close>

definition mount_source ::
  "drivers \<Rightarrow> string option \<Rightarrow> string \<Rightarrow> path \<Rightarrow> vfs \<Rightarrow> ((nat \<times> u32) result \<times> vfs) option" where
  "mount_source D source_name fstype target s = do {
    (r, s1) \<leftarrow> path_lookup D source_name WP_DEFAULT s;
    gf \<leftarrow> get_filesystem fstype s1;
    case gf of
      Inl e \<Rightarrow> do {
        s2 \<leftarrow> path_put D target s1;
        case r of Inl _ \<Rightarrow> None | Inr _ \<Rightarrow> Some (Inl e, s2)
      }
    | Inr fs \<Rightarrow> do {
        f \<leftarrow> fsystems s1 fs;
        if fs_flags f AND FS_NODEV = 0 then
          (case r of
             Inl e \<Rightarrow> do { s2 \<leftarrow> path_put D target s1; Some (Inl e, s2) }
           | Inr source \<Rightarrow> do {
               i \<leftarrow> dentry_inode (p_dentry source) s1;
               s2 \<leftarrow> path_put D source s1;
               Some (Inr (fs, i_dev i), s2)
             })
        else
          (case r of
             Inl _ \<Rightarrow> Some (Inr (fs, 0), s1)
           | Inr source \<Rightarrow> do { s2 \<leftarrow> path_put D source s1; Some (Inr (fs, 0), s2) })
      }
  }"

definition sys_mount ::
  "drivers \<Rightarrow> string option \<Rightarrow> string option \<Rightarrow> string \<Rightarrow> u32 \<Rightarrow> vfs \<Rightarrow> drv_result" where
  "sys_mount D source_name target_name fstype mountflags s = do {
    (tr, s1) \<leftarrow> path_lookup D target_name WP_DEFAULT s;
    case tr of
      Inl e \<Rightarrow> Some (Some e, s1)
    | Inr target \<Rightarrow> do {
        (src, s2) \<leftarrow> mount_source D source_name fstype target s1;
        case src of
          Inl e \<Rightarrow> Some (Some e, s2)
        | Inr (fs, device) \<Rightarrow> do {
            busy \<leftarrow> mount_busy s2 device fs (vfs_mount_list s2);
            if busy then do { s3 \<leftarrow> path_put D target s2; Some (Some EBUSY, s3) }
            else do {
              (sr, s3) \<leftarrow> mount_super D fs device mountflags target s2;
              case sr of
                Inl e \<Rightarrow> Some (Some e, s3)
              | Inr sb \<Rightarrow> do {
                  (mp, s4) \<leftarrow> mount_point target s3;
                  case mp of
                    None \<Rightarrow> mount_undo D fs sb target s4
                  | Some mp \<Rightarrow> mount_link D fs sb mountflags target mp s4
                }
            }
          }
      }
  }"

definition umount_last :: "drivers \<Rightarrow> nat \<Rightarrow> vfs \<Rightarrow> vfs option" where
  "umount_last D mp s = do {
    point \<leftarrow> mpoints s mp;
    if mp_mounts point \<noteq> [] then Some s
    else do {
      _ \<leftarrow> dents s (p_dentry (mp_point point));
      s1 \<leftarrow> path_put D (mp_point point)
        (upd_dentry (p_dentry (mp_point point)) (\<lambda>x. x\<lparr>d_mountpoint := None\<rparr>) s);
      Some (s1\<lparr>mpoints := (mpoints s1)(mp := None)\<rparr>)
    }
  }"

definition sys_umount :: "drivers \<Rightarrow> string option \<Rightarrow> vfs \<Rightarrow> drv_result" where
  "sys_umount D target_name s = do {
    (tr, s1) \<leftarrow> path_lookup D target_name WP_DEFAULT s;
    case tr of
      Inl e \<Rightarrow> Some (Some e, s1)
    | Inr target \<Rightarrow> do {
        m \<leftarrow> p_mount target;
        mnt \<leftarrow> mnts s1 m;
        sb \<leftarrow> supers s1 (m_super mnt);
        s2 \<leftarrow> path_put D target s1;
        if s_root sb \<noteq> Some (p_dentry target) then Some (Some EINVAL, s2)
        else do {
          mnt2 \<leftarrow> mnts s2 m;
          sb2 \<leftarrow> supers s2 (m_super mnt);
          if m_refs mnt2 \<noteq> 1 then Some (Some EBUSY, s2)
          else if s_refs sb2 \<noteq> 1 then Some (Some EBUSY, s2)
          else do {
            f \<leftarrow> fsystems s2 (s_fs sb2);
            (err, s3) \<leftarrow> (case fso_put_super (fsops D (fs_ops f)) of
                None \<Rightarrow> Some (None, s2)
              | Some g \<Rightarrow> g (s_fs sb2) (m_super mnt) s2);
            case err of
              Some e \<Rightarrow> Some (Some e, s3)
            | None \<Rightarrow> do {
                point \<leftarrow> mpoints s3 (m_point mnt);
                s4 \<leftarrow> umount_last D (m_point mnt) (s3\<lparr>
                  mpoints := (mpoints s3)(m_point mnt \<mapsto>
                    point\<lparr>mp_mounts := remove1 m (mp_mounts point)\<rparr>),
                  vfs_mount_list := remove1 m (vfs_mount_list s3)\<rparr>);
                Some (None, s4\<lparr>mnts := (mnts s4)(m := None),
                  supers := (supers s4)(m_super mnt := None)\<rparr>)
              }
          }
        }
      }
  }"

subsection \<open>The first entry, and tasks\<close>

text \<open>\<^verbatim>\<open>initialize_filesystem\<close>: an entry without inode, and the built-in file system type.\<close>

definition initialize_filesystem :: "nat \<Rightarrow> vfs \<Rightarrow> vfs option" where
  "initialize_filesystem testfs s = do {
    (root, s1) \<leftarrow> d_alloc [] None s;
    r \<leftarrow> root;
    Some (register_filesystem testfs (s1\<lparr>vfs_root := r\<rparr>))
  }"

definition copy_descr :: "file_descr \<Rightarrow> vfs \<Rightarrow> (file_descr \<times> vfs) option" where
  "copy_descr x s =
    (if fd_usable x then do { s1 \<leftarrow> file_get (fd_file x) s; Some (x, s1) }
     else Some (\<lparr>fd_file = None, fd_flags = 0\<rparr>, s))"

fun copy_descrs :: "file_descr list \<Rightarrow> vfs \<Rightarrow> (file_descr list \<times> vfs) option" where
  "copy_descrs [] s = Some ([], s)"
| "copy_descrs (x # xs) s = do {
    (y, s1) \<leftarrow> copy_descr x s;
    (ys, s2) \<leftarrow> copy_descrs xs s1;
    Some (y # ys, s2)
  }"

text \<open>\<^verbatim>\<open>copy_task_vfs\<close>: the working directory and the descriptors of the new task.\<close>

definition copy_task_vfs :: "vfs \<Rightarrow> ((path \<times> file_descr list) \<times> vfs) option" where
  "copy_task_vfs s = do {
    (cwd, s1) \<leftarrow> path_copy (v_cwd s) s;
    (fds, s2) \<leftarrow> copy_descrs (v_openvect s) s1;
    Some ((cwd, fds), s2)
  }"

definition init_task_vfs :: "vfs \<Rightarrow> vfs option" where
  "init_task_vfs s = do {
    s1 \<leftarrow> d_get (Some (vfs_root s)) s;
    Some (s1\<lparr>v_cwd := \<lparr>p_dentry = vfs_root s, p_mount = None\<rparr>,
      v_openvect := replicate FS_MAX_OPEN_FILES \<lparr>fd_file = None, fd_flags = 0\<rparr>\<rparr>)
  }"

fun close_descrs :: "drivers \<Rightarrow> file_descr list \<Rightarrow> vfs \<Rightarrow> (file_descr list \<times> vfs) option" where
  "close_descrs D [] s = Some ([], s)"
| "close_descrs D (x # xs) s =
    (if fd_occupied x then do {
       (_, s1) \<leftarrow> file_close D (fd_file x) s;
       (ys, s2) \<leftarrow> close_descrs D xs s1;
       Some (\<lparr>fd_file = None, fd_flags = 0\<rparr> # ys, s2)
     }
     else do {
       (ys, s2) \<leftarrow> close_descrs D xs s;
       Some (x # ys, s2)
     })"

definition free_task_vfs :: "drivers \<Rightarrow> vfs \<Rightarrow> vfs option" where
  "free_task_vfs D s = do {
    s1 \<leftarrow> path_put D (v_cwd s) s;
    (fds, s2) \<leftarrow> close_descrs D (v_openvect s1) s1;
    Some (s2\<lparr>v_openvect := fds\<rparr>)
  }"

end
