(* ===== verification/VfsPath.thy ===== *)
theory VfsPath
  imports VfsCalls
begin

text \<open>
  What a path leads to, and who may use it: the walk along entries that are in memory, access
  rights, and the parts of a name.
\<close>

subsection \<open>Reference counts as an offset\<close>

definition bump :: "nat \<Rightarrow> u32 \<Rightarrow> vfs \<Rightarrow> vfs" where
  "bump a n s = upd_dentry a (\<lambda>x. x\<lparr>d_ref := d_ref x + n\<rparr>) s"

definition mbump :: "nat option \<Rightarrow> u32 \<Rightarrow> vfs \<Rightarrow> vfs" where
  "mbump m n s = (case m of None \<Rightarrow> s | Some a \<Rightarrow> upd_mount a (\<lambda>x. x\<lparr>m_refs := m_refs x + n\<rparr>) s)"

lemma upd_dentry_sel [simp]:
  "inods (upd_dentry a f s) = inods s" "supers (upd_dentry a f s) = supers s"
  "mnts (upd_dentry a f s) = mnts s" "mpoints (upd_dentry a f s) = mpoints s"
  "files (upd_dentry a f s) = files s" "v_openvect (upd_dentry a f s) = v_openvect s"
  "vfs_root (upd_dentry a f s) = vfs_root s" "cur_uid (upd_dentry a f s) = cur_uid s"
  "cur_gid (upd_dentry a f s) = cur_gid s" "v_cwd (upd_dentry a f s) = v_cwd s"
  "dents (upd_dentry a f s) = (dents s)(a := map_option f (dents s a))"
  by (simp_all add: upd_dentry_def)

lemma upd_mount_sel [simp]:
  "inods (upd_mount a f s) = inods s" "supers (upd_mount a f s) = supers s"
  "dents (upd_mount a f s) = dents s" "mpoints (upd_mount a f s) = mpoints s"
  "files (upd_mount a f s) = files s" "v_openvect (upd_mount a f s) = v_openvect s"
  "vfs_root (upd_mount a f s) = vfs_root s" "cur_uid (upd_mount a f s) = cur_uid s"
  "cur_gid (upd_mount a f s) = cur_gid s" "v_cwd (upd_mount a f s) = v_cwd s"
  "mnts (upd_mount a f s) = (mnts s)(a := map_option f (mnts s a))"
  by (simp_all add: upd_mount_def)

lemma bump_sel [simp]:
  "inods (bump a n s) = inods s" "supers (bump a n s) = supers s" "mnts (bump a n s) = mnts s"
  "mpoints (bump a n s) = mpoints s" "vfs_root (bump a n s) = vfs_root s"
  "cur_uid (bump a n s) = cur_uid s" "cur_gid (bump a n s) = cur_gid s"
  "v_cwd (bump a n s) = v_cwd s"
  "dents (bump a n s) b = (if b = a then map_option (\<lambda>x. x\<lparr>d_ref := d_ref x + n\<rparr>) (dents s a) else dents s b)"
  by (simp_all add: bump_def)

lemma mbump_sel [simp]:
  "inods (mbump a n s) = inods s" "supers (mbump a n s) = supers s" "dents (mbump a n s) = dents s"
  "mpoints (mbump a n s) = mpoints s" "vfs_root (mbump a n s) = vfs_root s"
  "cur_uid (mbump a n s) = cur_uid s" "cur_gid (mbump a n s) = cur_gid s"
  "v_cwd (mbump a n s) = v_cwd s"
  by (simp_all add: mbump_def split: option.splits)

lemma upd_dentry_id: "(\<And>x. f x = x) \<Longrightarrow> upd_dentry a f s = s"
  by (simp add: upd_dentry_def map_option.id [unfolded id_def] cong: map_option_cong)

lemma bump_0 [simp]: "bump a 0 s = s"
  by (simp add: bump_def upd_dentry_id)

lemma bump_bump [simp]: "bump a m (bump a n s) = bump a (n + m) s"
  by (simp add: bump_def upd_dentry_def option.map_comp comp_def add.assoc)

lemma bump_commute: "bump a m (bump b n s) = bump b n (bump a m s)"
proof (cases "a = b")
  case False
  then show ?thesis by (simp add: bump_def upd_dentry_def fun_upd_twist)
qed (simp add: add.commute)

lemma d_get_bump: "dents s a \<noteq> None \<Longrightarrow> d_get (Some a) s = Some (bump a 1 s)"
  by (auto simp: d_get_def bump_def)

lemma d_put_bump:
  assumes "dents s a = Some d" "d_ref d \<noteq> 1"
  shows "d_put D (Some a) s = Some (bump a (- 1) s)"
  using assms by (simp add: d_put_Some bump_def)

lemma mnt_get_bump: "(\<And>a. m = Some a \<Longrightarrow> mnts s a \<noteq> None) \<Longrightarrow> mnt_get m s = Some (mbump m 1 s)"
  by (auto simp: mnt_get_def mbump_def split: option.splits)

subsection \<open>What does not depend on reference counts\<close>

lemma d_find_bump [simp]: "d_find (bump a n s) name cs = d_find s name cs"
proof (induction cs)
  case (Cons c cs)
  then show ?case by (auto split: option.splits)
qed simp

lemma dentry_inode_bump [simp]: "dentry_inode d (bump a n s) = dentry_inode d s"
  by (cases "dents s d") (auto simp: dentry_inode_def)

lemma path_access_bump [simp]: "path_access D p mode (bump a n s) = path_access D p mode s"
proof -
  have "mount_flag q f (bump a n s) = mount_flag q f s" for q f
    by (simp add: mount_flag_def split: option.splits)
  moreover have "access_class (bump a n s) = access_class s"
    by (simp add: access_class_def fun_eq_iff)
  ultimately show ?thesis
    by (simp add: path_access_def access_root_def access_user_def may_write_def may_read_def
        may_exec_def cong: if_cong)
qed

lemma path_access_mbump [simp]: "path_access D p mode (mbump m n s) = path_access D p mode s"
proof -
  have "mount_flag q f (mbump m n s) = mount_flag q f s" for q f
    by (auto simp: mount_flag_def mbump_def upd_mount_def option.map_comp comp_def split: option.splits)
  moreover have "access_class (mbump m n s) = access_class s"
    by (simp add: access_class_def fun_eq_iff)
  moreover have "dentry_inode d (mbump m n s) = dentry_inode d s" for d
    by (simp add: dentry_inode_def)
  ultimately show ?thesis
    by (simp add: path_access_def access_root_def access_user_def may_write_def may_read_def
        may_exec_def cong: if_cong)
qed

subsection \<open>Access rights\<close>

text \<open>The class of the caller, owner, group or other, selects three bits of the mode, and every
  kind of access asked for must be among them. A task has no group id in the sense of POSIX:
  \<open>cur_gid\<close> is \<^verbatim>\<open>t_gid\<close>, which \<^verbatim>\<open>task.h\<close> calls the process group id, and it is what
  decides whether the caller is in the group of the file.\<close>

definition class_bits :: "vfs \<Rightarrow> inode \<Rightarrow> u32" where
  "class_bits s i =
    (if cur_uid s = i_uid i then drop_bit 6 (i_mode i)
     else if cur_gid s = i_gid i then drop_bit 3 (i_mode i)
     else i_mode i) AND 7"

definition access_spec :: "vfs \<Rightarrow> inode \<Rightarrow> bool \<Rightarrow> bool \<Rightarrow> u32 \<Rightarrow> errno option" where
  "access_spec s i ro noexec mode =
    (if cur_uid s = 0 then
       if ro \<and> bit mode 1 then Some EROFS
       else if bit mode 0 \<and> i_mode i AND 73 = 0 then Some EACCES
       else None
     else if ro \<and> bit mode 1 \<or> noexec \<and> bit mode 0 \<or> mode AND NOT (class_bits s i) \<noteq> 0 then Some EACCES
     else None)"

lemma bit_seven: "bit (7 :: u32) n \<longleftrightarrow> n < 3"
proof -
  have "(7 :: u32) = mask 3" by (simp add: mask_eq_exp_minus_1)
  then show ?thesis by (simp only: bit_mask_iff) auto
qed

lemma bit_and_not_u32: "bit ((x :: u32) AND NOT y) n \<longleftrightarrow> bit x n \<and> \<not> bit y n"
  using bit_imp_le_length [of x n] by (auto simp: bit_and_iff bit_not_iff)

lemma and_not_eq_0_u32: "(x :: u32) AND NOT y = 0 \<longleftrightarrow> (\<forall>n. bit x n \<longrightarrow> bit y n)"
  using bit_imp_le_length [of x] by (auto simp: bit_eq_iff [of _ 0] bit_and_not_u32)

lemma subset_bits:
  assumes "(x :: u32) AND NOT 7 = 0"
  shows "x AND NOT (y AND 7) = 0 \<longleftrightarrow>
    (bit x 2 \<longrightarrow> bit y 2) \<and> (bit x 1 \<longrightarrow> bit y 1) \<and> (bit x 0 \<longrightarrow> bit y 0)"
proof -
  have hi: "n < 3" if "bit x n" for n
    using assms that unfolding and_not_eq_0_u32 bit_seven by simp
  have three: "n = 0 \<or> n = 1 \<or> n = 2" if "n < 3" for n :: nat using that by linarith
  have "x AND NOT (y AND 7) = 0 \<longleftrightarrow> (\<forall>n. bit x n \<longrightarrow> bit y n)"
    unfolding and_not_eq_0_u32 bit_and_iff bit_seven using hi by simp
  then show ?thesis using hi three by metis
qed

lemma and_exp_iff: "(x :: u32) AND 2 ^ n \<noteq> 0 \<longleftrightarrow> bit x n"
  by (simp add: and_exp_eq_0_iff_not_bit)

lemma mode_bits:
  "(x :: u32) AND R_OK \<noteq> 0 \<longleftrightarrow> bit x 2" "x AND W_OK \<noteq> 0 \<longleftrightarrow> bit x 1" "x AND X_OK \<noteq> 0 \<longleftrightarrow> bit x 0"
  "x AND S_IRUSR \<noteq> 0 \<longleftrightarrow> bit x 8" "x AND S_IWUSR \<noteq> 0 \<longleftrightarrow> bit x 7" "x AND S_IXUSR \<noteq> 0 \<longleftrightarrow> bit x 6"
  "x AND S_IRGRP \<noteq> 0 \<longleftrightarrow> bit x 5" "x AND S_IWGRP \<noteq> 0 \<longleftrightarrow> bit x 4" "x AND S_IXGRP \<noteq> 0 \<longleftrightarrow> bit x 3"
  "x AND S_IROTH \<noteq> 0 \<longleftrightarrow> bit x 2" "x AND S_IWOTH \<noteq> 0 \<longleftrightarrow> bit x 1" "x AND S_IXOTH \<noteq> 0 \<longleftrightarrow> bit x 0"
  using and_exp_iff [of x 0] and_exp_iff [of x 1] and_exp_iff [of x 2] and_exp_iff [of x 3]
    and_exp_iff [of x 4] and_exp_iff [of x 5] and_exp_iff [of x 6] and_exp_iff [of x 7]
    and_exp_iff [of x 8]
  unfolding R_OK_def W_OK_def X_OK_def S_IRUSR_def S_IWUSR_def S_IXUSR_def S_IRGRP_def S_IWGRP_def
    S_IXGRP_def S_IROTH_def S_IWOTH_def S_IXOTH_def
  by simp_all

lemma class_bits_iff:
  assumes "mode AND NOT 7 = 0"
  shows "mode AND NOT (class_bits s i) = 0 \<longleftrightarrow>
    (bit mode 2 \<longrightarrow> access_class s i S_IRUSR S_IRGRP S_IROTH)
    \<and> (bit mode 1 \<longrightarrow> access_class s i S_IWUSR S_IWGRP S_IWOTH)
    \<and> (bit mode 0 \<longrightarrow> access_class s i S_IXUSR S_IXGRP S_IXOTH)"
  unfolding class_bits_def access_class_def subset_bits [OF assms] mode_bits
  by (auto simp: bit_drop_bit_eq)

lemma path_access_spec:
  assumes mode: "mode \<noteq> 0" "mode AND NOT 7 = 0"
    and root: "p_dentry p \<noteq> vfs_root s \<or> p_mount p \<noteq> None"
    and i: "dentry_inode (p_dentry p) s = Some i"
    and f: "mount_flag p (MS_RDONLY D) s = Some ro" "mount_flag p (MS_NOEXEC D) s = Some noexec"
  shows "path_access D p mode s = Some (access_spec s i ro noexec mode)"
proof -
  have "(X_OK OR W_OK OR R_OK :: u32) = 7" by (simp add: X_OK_def W_OK_def R_OK_def)
  then have ok: "mode AND NOT (X_OK OR W_OK OR R_OK) = 0" "mode \<noteq> F_OK"
    using mode by (simp_all add: F_OK_def)
  have x: "(S_IXUSR OR S_IXGRP OR S_IXOTH :: u32) = 73"
    by (simp add: S_IXUSR_def S_IXGRP_def S_IXOTH_def)
  have "path_access D p mode s
      = (if cur_uid s = 0 then access_root D p mode s else access_user D p mode s)"
    using ok root by (auto simp: path_access_def)
  also have "\<dots> = Some (access_spec s i ro noexec mode)"
    using i f class_bits_iff [OF mode(2), of s i]
    unfolding access_root_def access_user_def may_write_def may_read_def may_exec_def access_spec_def
      x mode_bits
    by auto
  finally show ?thesis .
qed

subsection \<open>The walk along entries in memory\<close>

definition plain :: "string \<Rightarrow> bool" where
  "plain n \<longleftrightarrow> n \<noteq> [] \<and> CHR ''/'' \<notin> set n \<and> hd n \<noteq> CHR ''.''"

fun join_path :: "string list \<Rightarrow> string" where
  "join_path [] = []"
| "join_path [n] = n"
| "join_path (n # ns) = n @ CHR ''/'' # join_path ns"

text \<open>The mount on top of a mount point, and the root of what it mounts.\<close>

definition top_mount :: "vfs \<Rightarrow> nat \<Rightarrow> (nat \<times> nat option) option" where
  "top_mount s mp = do {
    point \<leftarrow> mpoints s mp;
    case mp_mounts point of
      [] \<Rightarrow> None
    | m # _ \<Rightarrow> do { mnt \<leftarrow> mnts s m; sb \<leftarrow> supers s (m_super mnt); Some (m, s_root sb) }
  }"

text \<open>The walk stays at an entry where nothing is mounted, and at the root of a mount.\<close>

definition stays :: "vfs \<Rightarrow> nat \<Rightarrow> bool" where
  "stays s a \<longleftrightarrow>
    (case dents s a of
       None \<Rightarrow> False
     | Some d \<Rightarrow>
         (case d_mountpoint d of
            None \<Rightarrow> True
          | Some mp \<Rightarrow> (case top_mount s mp of None \<Rightarrow> False | Some (m, r) \<Rightarrow> r = Some a)))"

text \<open>The caller may search a directory when they may execute it.\<close>

definition searchable :: "drivers \<Rightarrow> nat \<Rightarrow> vfs \<Rightarrow> nat \<Rightarrow> bool" where
  "searchable D m s a \<longleftrightarrow>
    (case (dentry_inode a s, mnts s m) of
       (Some i, Some mnt) \<Rightarrow>
         access_spec s i (m_flags mnt AND MS_RDONLY D \<noteq> 0) (m_flags mnt AND MS_NOEXEC D \<noteq> 0) 1 = None
     | _ \<Rightarrow> False)"

text \<open>One of these entries, and only one, has the name.\<close>

definition only_named :: "vfs \<Rightarrow> nat list \<Rightarrow> string \<Rightarrow> nat \<Rightarrow> bool" where
  "only_named s cs n c \<longleftrightarrow> c \<in> set cs \<and>
    (\<forall>x\<in>set cs. case dents s x of None \<Rightarrow> False | Some e \<Rightarrow> d_name e = n \<longleftrightarrow> x = c)"

text \<open>The names lead from one entry to another, each the name of a child of the entry before,
  through directories that may be searched and on which nothing else is mounted.\<close>

fun leads_to :: "drivers \<Rightarrow> nat \<Rightarrow> vfs \<Rightarrow> nat \<Rightarrow> string list \<Rightarrow> nat \<Rightarrow> bool" where
  "leads_to D m s a [] t \<longleftrightarrow> a = t"
| "leads_to D m s a (n # ns) t \<longleftrightarrow>
    plain n \<and> stays s a \<and> searchable D m s a \<and>
    (case dents s a of
       None \<Rightarrow> False
     | Some d \<Rightarrow> d_ref d \<noteq> 0 \<and>
         (\<exists>c\<in>set (d_children d). only_named s (d_children d) n c \<and> c \<noteq> a \<and> leads_to D m s c ns t))"

definition root_mounted :: "vfs \<Rightarrow> nat \<Rightarrow> nat \<Rightarrow> bool" where
  "root_mounted s r m \<longleftrightarrow> r \<noteq> vfs_root s \<and> dents s r \<noteq> None \<and>
    (case dents s (vfs_root s) of
       None \<Rightarrow> False
     | Some d \<Rightarrow> d_ref d \<noteq> 0 \<and>
         (case d_mountpoint d of None \<Rightarrow> False | Some mp \<Rightarrow> top_mount s mp = Some (m, Some r)))"

lemma split_slash_plain:
  assumes "CHR ''/'' \<notin> set n"
  shows "split_slash n = None" "split_slash (n @ CHR ''/'' # r) = Some (n, r)"
proof -
  show "split_slash n = None" using assms by (simp add: split_slash_def)
  have "takeWhile (\<lambda>c. c \<noteq> CHR ''/'') (n @ CHR ''/'' # r) = n"
    using assms by (subst takeWhile_append2) auto
  moreover have "dropWhile (\<lambda>c. c \<noteq> CHR ''/'') (n @ CHR ''/'' # r) = CHR ''/'' # r"
    using assms by (subst dropWhile_append2) auto
  ultimately show "split_slash (n @ CHR ''/'' # r) = Some (n, r)" by (simp add: split_slash_def)
qed

lemma top_mount_bump [simp]: "top_mount (bump a n s) mp = top_mount s mp"
  by (simp add: top_mount_def cong: list.case_cong)

lemma cross_mount_eq:
  "cross_mount D p s = do {
    d \<leftarrow> dents s (p_dentry p);
    case d_mountpoint d of
      None \<Rightarrow> Some (p, s)
    | Some mp \<Rightarrow> do {
        (m, root) \<leftarrow> top_mount s mp;
        if root \<noteq> Some (p_dentry p) then do {
          s1 \<leftarrow> path_put D p s;
          r \<leftarrow> root;
          s2 \<leftarrow> d_get (Some r) s1;
          s3 \<leftarrow> mnt_get (Some m) s2;
          Some (\<lparr>p_dentry = r, p_mount = Some m\<rparr>, s3)
        }
        else Some (p, s)
      }
  }"
  unfolding cross_mount_def top_mount_def
  by (auto simp: Option.bind_assoc split: option.splits list.splits intro!: Option.bind_cong)

lemma cross_mount_stays:
  assumes "stays s a"
  shows "cross_mount D \<lparr>p_dentry = a, p_mount = m\<rparr> (bump b n s)
    = Some (\<lparr>p_dentry = a, p_mount = m\<rparr>, bump b n s)"
proof -
  obtain d where d: "dents s a = Some d" using assms by (auto simp: stays_def split: option.splits)
  obtain d' where "dents (bump b n s) a = Some d'" "d_mountpoint d' = d_mountpoint d"
    using d by (cases "a = b") auto
  then show ?thesis
    using assms d by (auto simp: cross_mount_eq stays_def split: option.splits)
qed

lemma path_dots_plain: "plain n \<Longrightarrow> path_dots D (n @ r) p s = (Some (Inr (n @ r, p)), s)"
  by (cases n) (auto simp: plain_def path_dots_def)

lemma d_find_exists: "d_find s n cs = Some (Some c) \<Longrightarrow> dents s c \<noteq> None"
  by (induction cs) (auto split: option.splits if_splits)

lemma d_lookup_hit:
  assumes "dents s a = Some d" "d_find s n (d_children d) = Some (Some c)"
  shows "d_lookup D a n (bump a 1 s) = Some (Inr c, bump c 1 (bump a 1 s))"
  using assms d_find_exists [OF assms(2)]
  by (simp add: d_lookup_def d_get_bump)

lemma put_after_lookup:
  assumes "dents s a = Some d" "d_ref d \<noteq> 0" "c \<noteq> a"
  shows "d_put D (Some a) (bump c 1 (bump a 1 s)) = Some (bump c 1 s)"
  using assms by (simp add: d_put_bump bump_commute [of a])

lemma searchable_access:
  assumes "searchable D m s a"
  shows "path_access D \<lparr>p_dentry = a, p_mount = Some m\<rparr> X_OK s = Some None"
proof -
  have "(1 :: u32) AND NOT 7 = 0" by simp
  then show ?thesis
    using assms path_access_spec [of 1 "\<lparr>p_dentry = a, p_mount = Some m\<rparr>" s _ D]
    by (auto simp: searchable_def mount_flag_def X_OK_def split: option.splits prod.splits)
qed

lemma only_named_find: "only_named s cs n c \<Longrightarrow> d_find s n cs = Some (Some c)"
proof -
  have "d_find s n cs = Some (if c \<in> set cs then Some c else None)"
    if "\<forall>x\<in>set cs. case dents s x of None \<Rightarrow> False | Some e \<Rightarrow> d_name e = n \<longleftrightarrow> x = c"
    using that by (induction cs) (auto split: option.splits)
  then show "only_named s cs n c \<Longrightarrow> d_find s n cs = Some (Some c)" by (simp add: only_named_def)
qed

lemma path_walk_leads:
  assumes "ns \<noteq> []" "leads_to D m s a ns t"
  shows "path_walk D WP_DEFAULT (join_path ns) \<lparr>p_dentry = a, p_mount = Some m\<rparr> (bump a 1 s)
    = Some (Inr \<lparr>p_dentry = t, p_mount = Some m\<rparr>, bump t 1 s)"
  using assms
proof (induction ns arbitrary: a)
  case (Cons n ns)
  obtain d c where d: "dents s a = Some d" "d_ref d \<noteq> 0" "d_find s n (d_children d) = Some (Some c)"
    "c \<noteq> a" "leads_to D m s c ns t"
    using Cons(3) by (auto split: option.splits dest: only_named_find)
  have n: "plain n" "stays s a" "path_access D \<lparr>p_dentry = a, p_mount = Some m\<rparr> X_OK s = Some None"
    using Cons(3) searchable_access by auto
  then have sl: "CHR ''/'' \<notin> set n" by (simp add: plain_def)
  note step = d_lookup_hit [OF d(1,3)] put_after_lookup [OF d(1,2,4)]
  show ?case
  proof (cases "ns = []")
    case True
    then have "n \<noteq> []" "c = t" using n d by (auto simp: plain_def)
    then show ?thesis
      using True n path_dots_plain [OF n(1), of D "[]"] step sl
      by (subst path_walk.simps)
        (simp add: cross_mount_stays split_slash_plain path_last_def path_finish_def WP_DEFAULT_def)
  next
    case False
    then have j: "join_path (n # ns) = n @ CHR ''/'' # join_path ns" by (cases ns) auto
    show ?thesis
      unfolding j
      using n path_dots_plain [OF n(1)] step sl Cons(1) [OF False d(5)]
      by (subst path_walk.simps) (simp add: cross_mount_stays split_slash_plain path_step_def)
  qed
qed simp

lemma bump_mbump: "bump a n (mbump m k s) = mbump m k (bump a n s)"
  by (simp add: bump_def mbump_def upd_dentry_def upd_mount_def split: option.splits)

lemma mbump_mnts:
  "mnts (mbump m k s) x = (if m = Some x then map_option (\<lambda>y. y\<lparr>m_refs := m_refs y + k\<rparr>) (mnts s x) else mnts s x)"
  by (auto simp: mbump_def split: option.splits)

lemma top_mount_mbump [simp]: "top_mount (mbump m k s) mp = top_mount s mp"
proof -
  have "Option.bind (mnts (mbump m k s) x) (\<lambda>mnt. Option.bind (supers s (m_super mnt)) g) =
      Option.bind (mnts s x) (\<lambda>mnt. Option.bind (supers s (m_super mnt)) g)"
    for x and g :: "superblock \<Rightarrow> (nat \<times> nat option) option"
    by (cases "mnts s x") (simp_all add: mbump_mnts)
  then show ?thesis by (cases "mpoints s mp") (simp_all add: top_mount_def split: list.splits)
qed

lemma stays_mbump [simp]: "stays (mbump m k s) a = stays s a"
  by (simp add: stays_def split: option.splits)

lemma searchable_mbump [simp]: "searchable D m' (mbump m k s) a = searchable D m' s a"
  by (cases "mnts s m'")
    (auto simp: searchable_def mbump_mnts dentry_inode_def access_spec_def class_bits_def
      split: option.splits)

lemma only_named_mbump [simp]: "only_named (mbump m k s) cs n c = only_named s cs n c"
  by (simp add: only_named_def)

lemma leads_to_mbump [simp]: "leads_to D m' (mbump m k s) a ns t = leads_to D m' s a ns t"
  by (induction ns arbitrary: a) (auto split: option.splits)

lemma path_walk_cross:
  assumes "cross_mount D p s = Some (p1, s1)" "cross_mount D p1 s1 = Some (p1, s1)"
  shows "path_walk D flags iter p s = path_walk D flags iter p1 s1"
  using assms by (subst (1 2) path_walk.simps) simp

lemma leads_to_start:
  assumes "ns \<noteq> []" "leads_to D m s a ns t"
  shows "stays s a" "dents s a \<noteq> None" "plain (hd ns)"
  using assms by (cases ns; auto split: option.splits)+

lemma hd_join_path: "ns \<noteq> [] \<Longrightarrow> hd ns \<noteq> [] \<Longrightarrow> hd (join_path ns) = hd (hd ns)"
  by (cases ns rule: join_path.cases) auto

lemma top_mountE:
  assumes "top_mount s mp = Some (m, r)"
  obtains mn sb where "mnts s m = Some mn" "supers s (m_super mn) = Some sb" "s_root sb = r"
proof -
  obtain point where p: "mpoints s mp = Some point"
    using assms by (auto simp: top_mount_def bind_eq_Some_iff)
  then obtain ms where "mp_mounts point = m # ms"
    using assms by (cases "mp_mounts point") (auto simp: top_mount_def bind_eq_Some_iff)
  then show ?thesis using assms p that by (auto simp: top_mount_def bind_eq_Some_iff)
qed

lemma cross_root:
  assumes "root_mounted s r m"
  shows "cross_mount D \<lparr>p_dentry = vfs_root s, p_mount = None\<rparr> (bump (vfs_root s) 1 s)
    = Some (\<lparr>p_dentry = r, p_mount = Some m\<rparr>, mbump (Some m) 1 (bump r 1 s))"
proof -
  obtain d mp where d: "dents s (vfs_root s) = Some d" "d_ref d \<noteq> 0" "d_mountpoint d = Some mp"
    "top_mount s mp = Some (m, Some r)" "r \<noteq> vfs_root s" "dents s r \<noteq> None"
    using assms by (auto simp: root_mounted_def split: option.splits)
  have "d_put D (Some (vfs_root s)) (bump (vfs_root s) 1 s) = Some s"
    using d by (simp add: d_put_bump)
  moreover have "mnt_get (Some m) (bump r 1 s) = Some (mbump (Some m) 1 (bump r 1 s))"
    by (rule mnt_get_bump) (use top_mountE [OF d(4)] in fastforce)
  ultimately show ?thesis
    using d by (simp add: cross_mount_eq path_put_def mnt_put_def d_get_bump)
qed

lemma path_lookup_leads:
  assumes "leads_to D m s a ns t" "ns \<noteq> []" "length (join_path ns) < 511"
    and "if absolute then root_mounted s a m
         else v_cwd s = \<lparr>p_dentry = a, p_mount = Some m\<rparr> \<and> mnts s m \<noteq> None"
  shows "path_lookup D (Some ((if absolute then ''/'' else []) @ join_path ns)) WP_DEFAULT s
    = Some (Inr \<lparr>p_dentry = t, p_mount = Some m\<rparr>, mbump (Some m) 1 (bump t 1 s))"
proof -
  let ?s = "mbump (Some m) 1 s"
  note st = leads_to_start [OF assms(2,1)]
  have w: "path_walk D WP_DEFAULT (join_path ns) \<lparr>p_dentry = a, p_mount = Some m\<rparr> (bump a 1 ?s)
      = Some (Inr \<lparr>p_dentry = t, p_mount = Some m\<rparr>, mbump (Some m) 1 (bump t 1 s))"
    using path_walk_leads [OF assms(2), of D m ?s a t] assms(1) by (simp add: bump_mbump)
  show ?thesis
  proof (cases absolute)
    case True
    then have r: "root_mounted s a m" using assms(4) by simp
    have "cross_mount D \<lparr>p_dentry = a, p_mount = Some m\<rparr> (bump a 1 ?s)
        = Some (\<lparr>p_dentry = a, p_mount = Some m\<rparr>, bump a 1 ?s)"
      using st(1) by (intro cross_mount_stays) simp
    from path_walk_cross [OF cross_root [OF r], folded bump_mbump, OF this] show ?thesis
      using True w assms(3) r
      by (auto simp: path_lookup_def d_get_bump root_mounted_def split: option.splits)
  next
    case False
    then have c: "v_cwd s = \<lparr>p_dentry = a, p_mount = Some m\<rparr>" "mnts s m \<noteq> None" using assms(4) by auto
    have "path_copy (v_cwd s) s = Some (\<lparr>p_dentry = a, p_mount = Some m\<rparr>, mbump (Some m) 1 (bump a 1 s))"
      using c st(2) mnt_get_bump [of "Some m" "bump a 1 s"] by (simp add: path_copy_def d_get_bump)
    moreover have "hd (join_path ns) \<noteq> CHR ''/''"
    proof -
      obtain x xs where "hd ns = x # xs" "x \<noteq> CHR ''/''"
        using st(3) by (cases "hd ns") (auto simp: plain_def)
      then show ?thesis using hd_join_path [OF assms(2)] by simp
    qed
    ultimately show ?thesis using False w assms(3) by (simp add: path_lookup_def bump_mbump)
  qed
qed

text \<open>
  C25: \<^verbatim>\<open>path_lookup\<close> finds what the path names. Let the components of a path, none of
  them empty or starting with a dot and fewer than 511 characters in all, lead from the root of
  the root file system or from the working directory to an entry: each is the name of exactly
  one child, in memory, of the directory before, the caller may search the directory, and no
  other file system is mounted on it. Then the lookup of the absolute or relative path, without
  flags, returns that entry with the mount it started in. The whole effect on the state is one more reference to the entry and
  one to the mount: every reference taken on the way has been released.
\<close>
theorem path_lookup_correct:
  assumes "leads_to D m s a ns t" "ns \<noteq> []" "length (join_path ns) < 511"
    and "if absolute then root_mounted s a m
         else v_cwd s = \<lparr>p_dentry = a, p_mount = Some m\<rparr> \<and> mnts s m \<noteq> None"
  shows "path_lookup D (Some ((if absolute then ''/'' else []) @ join_path ns)) WP_DEFAULT s
    = Some (Inr \<lparr>p_dentry = t, p_mount = Some m\<rparr>, mbump (Some m) 1 (bump t 1 s))"
  by (rule path_lookup_leads [OF assms])

text \<open>An example: a root file system with \<^verbatim>\<open>/etc/motd\<close>, mounted over the first entry.\<close>

definition no_drivers :: drivers where
  "no_drivers = \<lparr>
    iops = (\<lambda>_. \<lparr>op_lookup = None, op_creat = None, op_mknod = None, op_link = None,
      op_unlink = None, op_chmod = None, op_chown = None, op_truncate = None, op_flush = None\<rparr>),
    fops = (\<lambda>_. \<lparr>fo_open = None, fo_close = None, fo_read = None, fo_write = None,
      fo_readdir = None, fo_lseek = None, fo_ioctl = None, fo_isatty = None\<rparr>),
    sops = (\<lambda>_. \<lparr>so_read_inode = (\<lambda>_ _ s. Some (None, s)), so_put_inode = None\<rparr>),
    fsops = (\<lambda>_. \<lparr>fso_read_super = (\<lambda>_ _ _ _ s. Some (None, s)), fso_put_super = None\<rparr>),
    block_device_fops = 0, pipe_operations = 0, chrdev_table = (\<lambda>_. None), major = (\<lambda>_. 0),
    MS_RDONLY = 1, MS_NOEXEC = 8\<rparr>"

definition demo_inode :: "u32 \<Rightarrow> u32 \<Rightarrow> inode" where
  "demo_inode ino mode = zero_inode\<lparr>i_ino := ino, i_mode := mode, i_ref := 1, i_super := 30,
    i_default_fops := Some 0\<rparr>"

definition demo_vfs :: vfs where
  "demo_vfs = \<lparr>
    dents = (\<lambda>_. None)(
      0 \<mapsto> zero_dentry\<lparr>d_ref := 2, d_mountpoint := Some 10\<rparr>,
      1 \<mapsto> zero_dentry\<lparr>d_ref := 2, d_inode := Some 1, d_children := [2], d_mountpoint := Some 10\<rparr>,
      2 \<mapsto> zero_dentry\<lparr>d_name := ''etc'', d_ref := 2, d_inode := Some 2, d_parent := Some 1,
        d_children := [3]\<rparr>,
      3 \<mapsto> zero_dentry\<lparr>d_name := ''motd'', d_ref := 1, d_inode := Some 3, d_parent := Some 2\<rparr>),
    inods = (\<lambda>_. None)(1 \<mapsto> demo_inode 2 0x41ED, 2 \<mapsto> demo_inode 3 0x41ED, 3 \<mapsto> demo_inode 4 0x81A4),
    supers = (\<lambda>_. None)(30 \<mapsto> \<lparr>s_blocksize = 1024, s_magic = 0, s_dev = 1, s_refs = 3, s_fs = 40,
      s_root = Some 1, s_inode_list = [3, 2, 1], s_ops = 0\<rparr>),
    mnts = (\<lambda>_. None)(20 \<mapsto> \<lparr>m_super = 30, m_flags = 0, m_point = 10, m_refs = 1\<rparr>),
    mpoints = (\<lambda>_. None)(10 \<mapsto> \<lparr>mp_point = \<lparr>p_dentry = 0, p_mount = None\<rparr>, mp_mounts = [20]\<rparr>),
    fsystems = (\<lambda>_. None)(40 \<mapsto> \<lparr>fs_name = ''ext2'', fs_flags = 0, fs_ops = 0, fs_slist = []\<rparr>),
    files = (\<lambda>_. None),
    vfs_filesystem_list = [40], vfs_mount_list = [20], vfs_root = 0,
    cur_uid = 0, cur_gid = 1, cur_umask = 0, v_cwd = \<lparr>p_dentry = 1, p_mount = Some 20\<rparr>,
    v_openvect = replicate FS_MAX_OPEN_FILES \<lparr>fd_file = None, fd_flags = 0\<rparr>,
    kmalloc_ok = (\<lambda>_. True), next_addr = 100\<rparr>"

lemma demo_leads: "leads_to no_drivers 20 demo_vfs 1 [''etc'', ''motd''] 3"
  by code_simp

lemma demo_root: "root_mounted demo_vfs 1 20"
  by code_simp

theorem path_lookup_correct_witness:
  "path_lookup no_drivers (Some ''/etc/motd'') WP_DEFAULT demo_vfs
    = Some (Inr \<lparr>p_dentry = 3, p_mount = Some 20\<rparr>, mbump (Some 20) 1 (bump 3 1 demo_vfs))"
  using path_lookup_correct [OF demo_leads, of True] demo_root by simp

subsection \<open>Access rights: the property\<close>



subsection \<open>Names\<close>

lemma basename_plain: "CHR ''/'' \<notin> set n \<Longrightarrow> basename n = n"
  by (simp add: basename.simps split_slash_plain)

lemma basename_slash: "CHR ''/'' \<notin> set n \<Longrightarrow> basename (d @ CHR ''/'' # n) = n"
proof (induction d rule: length_induct)
  case (1 d)
  show ?case
  proof (cases "CHR ''/'' \<in> set d")
    case True
    then obtain d1 d2 where d: "d = d1 @ CHR ''/'' # d2" "CHR ''/'' \<notin> set d1"
      by (meson split_list_first)
    then have "basename (d @ CHR ''/'' # n) = basename (d2 @ CHR ''/'' # n)"
      using split_slash_plain(2) [OF d(2), of "d2 @ CHR ''/'' # n"] by (subst basename.simps) simp
    then show ?thesis using 1 d by simp
  next
    case False
    then show ?thesis
      using split_slash_plain(2) [of d n] 1(2) by (subst basename.simps) (simp add: basename_plain)
  qed
qed

text \<open>
  Splitting a name at its last slash is undone by putting the slash back, and \<^verbatim>\<open>basename\<close> has
  no slash.
\<close>

lemma dirname_basename:
  assumes "CHR ''/'' \<in> set path"
  shows "dirname path @ ''/'' @ basename path = path \<and> CHR ''/'' \<notin> set (basename path)"
proof -
  obtain d n where p: "path = d @ CHR ''/'' # n" "CHR ''/'' \<notin> set n"
    using assms by (meson split_list_last)
  then show ?thesis by (simp add: dirname_def basename_slash)
qed

subsection \<open>Where the walk goes wrong\<close>

text \<open>
  \<^verbatim>\<open>..\<close> at the root of the root file system leads to the first entry, which has no inode, and
  \<^verbatim>\<open>sys_chdir\<close> uses the inode.
\<close>

lemma chdir_dotdot_faults: "sys_chdir no_drivers ''..'' demo_vfs = None"
  by code_simp

text \<open>
  After \<^verbatim>\<open>..\<close> the name is not advanced: the next component that is looked up, in the parent, is
  \<^verbatim>\<open>..\<close> itself. Without an entry of that name on the disk the lookup fails.
\<close>

lemma dotdot_is_looked_up:
  "map_option fst (path_lookup no_drivers (Some ''../etc'') WP_DEFAULT
    (demo_vfs\<lparr>v_cwd := \<lparr>p_dentry = 2, p_mount = Some 20\<rparr>\<rparr>)) = Some (Inl ENOENT)"
  by code_simp

text \<open>
  \<^verbatim>\<open>path_lookup\<close> does not enter a file system mounted on the last component of a name, so
  unmounting it by its name fails: when a path leads to an entry of the file system it started
  in, other than that file system's root, \<^verbatim>\<open>sys_umount\<close> returns \<^verbatim>\<open>EINVAL\<close> whatever is
  mounted on the entry.
\<close>
theorem umount_last_component:
  assumes "leads_to D m s a ns t" "ns \<noteq> []" "length (join_path ns) < 511"
    and "root_mounted s a m" "t \<noteq> a"
    and t: "dents s t = Some d" "d_ref d \<noteq> 0"
  shows "\<exists>s'. sys_umount D (Some (''/'' @ join_path ns)) s = Some (Some EINVAL, s')"
proof -
  let ?s = "mbump (Some m) 1 (bump t 1 s)"
  have l: "path_lookup D (Some (''/'' @ join_path ns)) WP_DEFAULT s
      = Some (Inr \<lparr>p_dentry = t, p_mount = Some m\<rparr>, ?s)"
    using path_lookup_leads [OF assms(1-3), of True] assms(4) by simp
  obtain mp where "top_mount s mp = Some (m, Some a)"
    using assms(4) by (auto simp: root_mounted_def split: option.splits)
  then obtain mn sb where m: "mnts s m = Some mn" "supers s (m_super mn) = Some sb" "s_root sb = Some a"
    by (rule top_mountE)
  have "d_put D (Some t) ?s = Some (bump t (- 1) ?s)"
    using t by (intro d_put_bump) auto
  then have "path_put D \<lparr>p_dentry = t, p_mount = Some m\<rparr> ?s \<noteq> None"
    using m by (simp add: path_put_def mnt_put_def mbump_def bump_def)
  then show ?thesis
    using l m assms(5) by (auto simp: sys_umount_def mbump_mnts)
qed

text \<open>The example with a second file system mounted on \<^verbatim>\<open>/etc\<close>.\<close>

definition demo_mounted :: vfs where
  "demo_mounted = demo_vfs\<lparr>
    dents := (dents demo_vfs)(
      2 \<mapsto> zero_dentry\<lparr>d_name := ''etc'', d_ref := 2, d_inode := Some 2, d_parent := Some 1,
        d_children := [3], d_mountpoint := Some 11\<rparr>,
      4 \<mapsto> zero_dentry\<lparr>d_ref := 1, d_inode := Some 4, d_mountpoint := Some 11\<rparr>),
    supers := (supers demo_vfs)(31 \<mapsto> \<lparr>s_blocksize = 1024, s_magic = 0, s_dev = 2, s_refs = 1,
      s_fs = 40, s_root = Some 4, s_inode_list = [4], s_ops = 0\<rparr>),
    mnts := (mnts demo_vfs)(21 \<mapsto> \<lparr>m_super = 31, m_flags = 0, m_point = 11, m_refs = 1\<rparr>),
    mpoints := (mpoints demo_vfs)(11 \<mapsto> \<lparr>mp_point = \<lparr>p_dentry = 2, p_mount = Some 20\<rparr>,
      mp_mounts = [21]\<rparr>)\<rparr>"

theorem umount_last_component_witness:
  "top_mount demo_mounted 11 = Some (21, Some 4)
    \<and> (\<exists>s'. sys_umount no_drivers (Some ''/etc'') demo_mounted = Some (Some EINVAL, s'))"
proof -
  have h: "leads_to no_drivers 20 demo_mounted 1 [''etc''] 2" "root_mounted demo_mounted 1 20"
    by code_simp+
  have e: "dents demo_mounted 2 = Some (zero_dentry\<lparr>d_name := ''etc'', d_ref := 2, d_inode := Some 2,
      d_parent := Some 1, d_children := [3], d_mountpoint := Some 11\<rparr>)"
    by (simp add: demo_mounted_def)
  have "\<exists>s'. sys_umount no_drivers (Some (''/'' @ join_path [''etc''])) demo_mounted = Some (Some EINVAL, s')"
    by (rule umount_last_component [OF h(1) _ _ h(2) _ e]) simp_all
  moreover have "top_mount demo_mounted 11 = Some (21, Some 4)" by code_simp
  ultimately show ?thesis by simp
qed

end
