(* ===== verification/Testfs.thy ===== *)
theory Testfs
  imports VfsCalls
begin

text \<open>
  The file system driver built into the kernel, \<^verbatim>\<open>kernel/src/testfs.c\<close>: every name leads back
  to the one inode. It has one table of each kind, number 0. Its file operations only print.
\<close>

definition testfs_read_inode :: "nat \<Rightarrow> nat \<Rightarrow> vfs \<Rightarrow> drv_result" where
  "testfs_read_inode super inode s =
    Some (None, upd_inode inode (\<lambda>x. x\<lparr>i_ops := 0, i_size := 42, i_default_fops := Some 0\<rparr>) s)"

definition testfs_inode_lookup :: "nat \<Rightarrow> nat \<Rightarrow> vfs \<Rightarrow> drv_result" where
  "testfs_inode_lookup inode dentry s = do {
    s1 \<leftarrow> i_getref inode s;
    i \<leftarrow> inods s1 inode;
    Some (None, upd_dentry dentry (\<lambda>x. x\<lparr>d_inode := Some inode, d_ino := i_ino i, d_uid := i_uid i,
      d_gid := i_gid i, d_size := i_size i, d_mode := i_mode i\<rparr>) s1)
  }"

definition testfs_file_open :: "nat \<Rightarrow> nat \<Rightarrow> u32 \<Rightarrow> vfs \<Rightarrow> drv_result" where
  "testfs_file_open f dentry omode s = Some (None, s)"

definition testfs_file_close :: "nat \<Rightarrow> nat \<Rightarrow> vfs \<Rightarrow> drv_result" where
  "testfs_file_close f dentry s = Some (None, s)"

definition testfs_superblock_ops :: superblock_operations where
  "testfs_superblock_ops = \<lparr>so_read_inode = testfs_read_inode, so_put_inode = None\<rparr>"

definition testfs_file_ops :: file_operations where
  "testfs_file_ops = \<lparr>fo_open = Some testfs_file_open, fo_close = Some testfs_file_close,
    fo_read = None, fo_write = None, fo_readdir = None, fo_lseek = None, fo_ioctl = None,
    fo_isatty = None\<rparr>"

definition testfs_inode_ops :: inode_operations where
  "testfs_inode_ops = \<lparr>op_lookup = Some testfs_inode_lookup, op_creat = None, op_mknod = None,
    op_link = None, op_unlink = None, op_chmod = None, op_chown = None, op_truncate = None,
    op_flush = None\<rparr>"

text \<open>The tables as far as reading and releasing the superblock uses them.\<close>

definition testfs_tables :: "drivers \<Rightarrow> drivers" where
  "testfs_tables D = D\<lparr>iops := (iops D)(0 := testfs_inode_ops), fops := (fops D)(0 := testfs_file_ops),
    sops := (sops D)(0 := testfs_superblock_ops)\<rparr>"

definition testfs_read_super :: "drivers \<Rightarrow> nat \<Rightarrow> nat \<Rightarrow> u32 \<Rightarrow> u32 \<Rightarrow> vfs \<Rightarrow> drv_result" where
  "testfs_read_super D fs super device flags s = do {
    let s1 = upd_super super (\<lambda>x. x\<lparr>s_magic := 0x2BADB002, s_ops := 0\<rparr>) s;
    (r, s2) \<leftarrow> i_get (testfs_tables D) super 0 s1;
    inode \<leftarrow> (case r of Inl _ \<Rightarrow> None | Inr a \<Rightarrow> Some a);
    (root, s3) \<leftarrow> d_alloc_root inode s2;
    s4 \<leftarrow> i_put (testfs_tables D) inode (upd_super super (\<lambda>x. x\<lparr>s_root := Some root\<rparr>) s3);
    Some (None, s4)
  }"

definition testfs_put_super :: "drivers \<Rightarrow> nat \<Rightarrow> nat \<Rightarrow> vfs \<Rightarrow> drv_result" where
  "testfs_put_super D fs super s = do {
    sb \<leftarrow> supers s super;
    s1 \<leftarrow> d_put (testfs_tables D) (s_root sb) s;
    Some (None, s1)
  }"

definition testfs_ops :: "drivers \<Rightarrow> filesystem_operations" where
  "testfs_ops D = \<lparr>fso_read_super = testfs_read_super D, fso_put_super = Some (testfs_put_super D)\<rparr>"

definition testfs_type :: filesystem where
  "testfs_type = \<lparr>fs_name = ''testfs'', fs_flags = FS_NODEV, fs_ops = 0, fs_slist = []\<rparr>"

text \<open>A kernel with this driver.\<close>

definition testfs_drivers :: "drivers \<Rightarrow> drivers" where
  "testfs_drivers D = (testfs_tables D)\<lparr>fsops := (fsops D)(0 := testfs_ops D)\<rparr>"

end
