(* ===== verification/VfsFd.thy ===== *)
theory VfsFd
  imports VfsPath Testfs
begin

text \<open>
  File descriptors: the reference count of an open file is the number of descriptors that refer to
  it, in this task and in others, and the system calls on descriptors keep it so. What is needed
  of a driver is the locale \<open>fs_driver\<close>: closing a file and releasing an inode leave the
  table of open files and the descriptors alone.
\<close>

subsection \<open>The contract of a driver\<close>

locale fs_driver =
  fixes D :: drivers
  assumes put_inode_keeps:
      "so_put_inode (sops D k) = Some f \<Longrightarrow> f sb i s = Some s' \<Longrightarrow>
        files s' = files s \<and> v_openvect s' = v_openvect s"
    and close_keeps:
      "fo_close (fops D k) = Some g \<Longrightarrow> g a d s = Some (r, s') \<Longrightarrow>
        files s' = files s \<and> v_openvect s' = v_openvect s"
begin

lemma i_free_keeps:
  assumes "i_free D i s = Some s'"
  shows "files s' = files s \<and> v_openvect s' = v_openvect s"
proof -
  obtain x sb s1 where x: "inods s i = Some x" "supers s (i_super x) = Some sb"
    "(case so_put_inode (sops D (s_ops sb)) of None \<Rightarrow> Some s | Some f \<Rightarrow> f (i_super x) i s) = Some s1"
    using assms by (auto simp: i_free_def bind_eq_Some_iff)
  have "files s1 = files s \<and> v_openvect s1 = v_openvect s"
    using x(3) put_inode_keeps by (auto split: option.split_asm)
  then show ?thesis
    using assms x
    by (auto simp: i_free_def super_put_def upd_defs Let_def bind_eq_Some_iff split: option.split_asm)
qed

lemma i_put_keeps:
  assumes "i_put D i s = Some s'"
  shows "files s' = files s \<and> v_openvect s' = v_openvect s"
  using assms i_free_keeps
  by (auto simp: i_put_def upd_inode_def bind_eq_Some_iff split: if_split_asm)

lemma d_put_keeps_step:
  assumes "d_put E p s = Some s'"
  shows "E = D \<longrightarrow> files s' = files s \<and> v_openvect s' = v_openvect s"
  using assms
proof (induction rule: d_put.raw_induct [rotated 1, consumes 1])
  case (1 rec E p s s')
  show ?case
  proof
    assume e: "E = D"
    obtain a d where a: "p = Some a" "dents s a = Some d"
      using 1(2) by (auto simp: bind_eq_Some_iff split: option.split_asm)
    let ?s = "case d_parent d of None \<Rightarrow> s
      | Some q \<Rightarrow> upd_dentry q (\<lambda>x. x\<lparr>d_children := remove1 a (d_children x)\<rparr>) s"
    have k: "files ?s = files s \<and> v_openvect ?s = v_openvect s" by (simp split: option.split)
    show "files s' = files s \<and> v_openvect s' = v_openvect s"
    proof (cases "d_ref d = 1")
      case True
      then obtain s1 s2 where s: "(case d_inode d of None \<Rightarrow> Some ?s | Some i \<Rightarrow> i_put E i ?s) = Some s1"
        "rec E (d_parent d) s1 = Some s2" "s' = s2\<lparr>dents := (dents s2)(a := None)\<rparr>"
        using 1(2) a by (auto simp: bind_eq_Some_iff)
      have "files s1 = files ?s \<and> v_openvect s1 = v_openvect ?s"
        using s(1) e i_put_keeps by (auto split: option.split_asm)
      then show ?thesis using 1(1) [OF s(2)] e k s(3) by simp
    next
      case False
      then show ?thesis using 1(2) a by auto
    qed
  qed
qed

lemma d_put_keeps: "d_put D p s = Some s' \<Longrightarrow> files s' = files s \<and> v_openvect s' = v_openvect s"
  using d_put_keeps_step by blast

lemma path_put_keeps:
  assumes "path_put D p s = Some s'"
  shows "files s' = files s \<and> v_openvect s' = v_openvect s"
proof -
  obtain s1 where "d_put D (Some (p_dentry p)) s = Some s1" "mnt_put (p_mount p) s1 = Some s'"
    using assms by (auto simp: path_put_def bind_eq_Some_iff)
  then show ?thesis
    using d_put_keeps by (auto simp: mnt_put_def split: option.split_asm)
qed

text \<open>The effect of \<^verbatim>\<open>file_close\<close> on the open files.\<close>

lemma file_close_files:
  assumes "file_close D (Some a) s = Some (None, s')" "files s a = Some fl"
  shows "v_openvect s' = v_openvect s
    \<and> files s' = (files s)(a := if sint (f_refs fl - 1) > 0 then Some (fl\<lparr>f_refs := f_refs fl - 1\<rparr>) else None)"
proof (cases "sint (f_refs fl - 1) > 0")
  case True
  then show ?thesis using assms by (auto simp: file_close_def upd_file_def Let_def)
next
  case False
  let ?s1 = "upd_file a (\<lambda>x. x\<lparr>f_refs := f_refs x - 1\<rparr>) s"
  obtain k where k: "f_ops fl = Some k"
    using assms False by (auto simp: file_close_def file_table_def Let_def bind_eq_Some_iff)
  obtain s2 s3 where s: "(case fo_close (fops D k) of None \<Rightarrow> Some (None, ?s1)
        | Some g \<Rightarrow> g a (p_dentry (f_path fl)) ?s1) = Some (None, s2)"
      "path_put D (f_path fl) s2 = Some s3" "s' = s3\<lparr>files := (files s3)(a := None)\<rparr>"
    using assms False k
    by (auto simp: file_close_def file_table_def Let_def bind_eq_Some_iff split: option.split_asm)
  have "files s2 = files ?s1 \<and> v_openvect s2 = v_openvect ?s1"
    using s(1) close_keeps by (auto split: option.split_asm)
  then show ?thesis
    using path_put_keeps [OF s(2)] s(3) False by (auto simp: upd_file_def)
qed

end

text \<open>The built-in driver keeps the contract.\<close>

definition kernel_drivers :: drivers where
  "kernel_drivers = testfs_drivers no_drivers"

interpretation kd: fs_driver kernel_drivers
proof
  show "so_put_inode (sops kernel_drivers k) = Some f \<Longrightarrow> f sb i s = Some s' \<Longrightarrow>
      files s' = files s \<and> v_openvect s' = v_openvect s" for k f sb i s s'
    by (auto simp: kernel_drivers_def testfs_drivers_def testfs_tables_def testfs_superblock_ops_def
        no_drivers_def split: if_split_asm)
  show "fo_close (fops kernel_drivers k) = Some g \<Longrightarrow> g a d s = Some (r, s') \<Longrightarrow>
      files s' = files s \<and> v_openvect s' = v_openvect s" for k g a d s r s'
    by (auto simp: kernel_drivers_def testfs_drivers_def testfs_tables_def testfs_file_ops_def
        testfs_file_close_def no_drivers_def split: if_split_asm)
qed

subsection \<open>Counting references\<close>

definition refers :: "nat \<Rightarrow> file_descr \<Rightarrow> bool" where
  "refers f x \<longleftrightarrow> fd_usable x \<and> fd_file x = Some f"

definition refs_in :: "file_descr list \<Rightarrow> nat \<Rightarrow> nat" where
  "refs_in fds f = length (filter (refers f) fds)"

text \<open>\<open>ext f\<close> is the number of references to the file from other tasks.\<close>

definition fd_ok :: "(nat \<Rightarrow> nat) \<Rightarrow> vfs \<Rightarrow> bool" where
  "fd_ok ext s \<longleftrightarrow> length (v_openvect s) = FS_MAX_OPEN_FILES
    \<and> (\<forall>x\<in>set (v_openvect s). fd_usable x \<longrightarrow> (\<exists>f. fd_file x = Some f \<and> files s f \<noteq> None))
    \<and> (\<forall>f fl. files s f = Some fl \<longrightarrow>
        refs_in (v_openvect s) f + ext f < 2 ^ 31 \<and> f_refs fl = word_of_nat (refs_in (v_openvect s) f + ext f))"

lemma refs_in_update:
  assumes "i < length fds"
  shows "refs_in (fds[i := y]) f + (if refers f (fds ! i) then 1 else 0)
    = refs_in fds f + (if refers f y then 1 else 0)"
proof -
  have "refs_in fds f = length (filter (refers f) (take i fds @ fds ! i # drop (Suc i) fds))"
    using id_take_nth_drop [OF assms] by (simp add: refs_in_def)
  then show ?thesis using assms by (simp add: refs_in_def upd_conv_take_nth_drop)
qed

lemma fd_ok_length: "fd_ok ext s \<Longrightarrow> length (v_openvect s) = FS_MAX_OPEN_FILES"
  by (simp add: fd_ok_def)

lemma fd_ok_live:
  "fd_ok ext s \<Longrightarrow> x \<in> set (v_openvect s) \<Longrightarrow> fd_usable x \<Longrightarrow> \<exists>f. fd_file x = Some f \<and> files s f \<noteq> None"
  by (simp add: fd_ok_def)

lemma fd_ok_count:
  "fd_ok ext s \<Longrightarrow> files s f = Some fl \<Longrightarrow>
    refs_in (v_openvect s) f + ext f < 2 ^ 31 \<and> f_refs fl = word_of_nat (refs_in (v_openvect s) f + ext f)"
  unfolding fd_ok_def by blast

lemma fd_okI:
  assumes "length (v_openvect s) = FS_MAX_OPEN_FILES"
    and "\<And>x. x \<in> set (v_openvect s) \<Longrightarrow> fd_usable x \<Longrightarrow> \<exists>f. fd_file x = Some f \<and> files s f \<noteq> None"
    and "\<And>f fl. files s f = Some fl \<Longrightarrow>
      refs_in (v_openvect s) f + ext f < 2 ^ 31 \<and> f_refs fl = word_of_nat (refs_in (v_openvect s) f + ext f)"
  shows "fd_ok ext s"
  unfolding fd_ok_def using assms by blast

lemma refs_in_pos: "x \<in> set fds \<Longrightarrow> refers f x \<Longrightarrow> 1 \<le> refs_in fds f"
  using length_pos_if_in_set [of x "filter (refers f) fds"] by (simp add: refs_in_def Suc_le_eq)

lemma sint_pred_pos:
  assumes "1 \<le> n" "n < 2 ^ 31"
  shows "sint (word_of_nat n - 1 :: u32) > 0 \<longleftrightarrow> 1 < n"
proof -
  have "(word_of_nat n - 1 :: u32) = word_of_nat (n - 1)" using assms by simp
  then show ?thesis using sint_u32 [of "n - 1"] assms by simp
qed

text \<open>A descriptor that refers to nothing takes a reference to an open file.\<close>

lemma fd_ok_attach:
  assumes ok: "fd_ok ext s" and i: "i < FS_MAX_OPEN_FILES" "\<not> fd_usable (v_openvect s ! i)"
    and f: "files s f = Some fl" and y: "refers f y"
    and room: "refs_in (v_openvect s) f + ext f + 1 < 2 ^ 31"
    and s': "files s' = (files s)(f \<mapsto> fl\<lparr>f_refs := f_refs fl + 1\<rparr>)"
      "v_openvect s' = (v_openvect s)[i := y]"
  shows "fd_ok ext s'"
proof -
  let ?v = "v_openvect s"
  have l: "length ?v = FS_MAX_OPEN_FILES" by (rule fd_ok_length [OF ok])
  have c: "refs_in (?v[i := y]) g = refs_in ?v g + (if g = f then 1 else 0)" for g
    using refs_in_update [of i ?v y g] i y l by (auto simp: refers_def)
  show ?thesis
  proof (rule fd_okI)
    show "length (v_openvect s') = FS_MAX_OPEN_FILES" using l s' by simp
  next
    fix x
    assume x: "x \<in> set (v_openvect s')" "fd_usable x"
    then consider "x = y" | "x \<in> set ?v" using s'(2) set_update_subset_insert [of ?v i y] by auto
    then show "\<exists>g. fd_file x = Some g \<and> files s' g \<noteq> None"
    proof cases
      case 1
      then show ?thesis using y s'(1) by (simp add: refers_def)
    next
      case 2
      then obtain g where "fd_file x = Some g" "files s g \<noteq> None" using fd_ok_live [OF ok _ x(2)] by blast
      then show ?thesis using s'(1) by simp
    qed
  next
    fix g gl
    assume g: "files s' g = Some gl"
    show "refs_in (v_openvect s') g + ext g < 2 ^ 31
        \<and> f_refs gl = word_of_nat (refs_in (v_openvect s') g + ext g)"
    proof (cases "g = f")
      case True
      then have "gl = fl\<lparr>f_refs := f_refs fl + 1\<rparr>" using g s'(1) by simp
      then show ?thesis using True room c [of f] fd_ok_count [OF ok f] s'(2) by simp
    next
      case False
      then have "files s g = Some gl" using g s'(1) by simp
      from fd_ok_count [OF ok this] show ?thesis using False c [of g] s'(2) by simp
    qed
  qed
qed

text \<open>A descriptor gives its reference back.\<close>

lemma fd_ok_detach:
  assumes ok: "fd_ok ext s" and i: "i < FS_MAX_OPEN_FILES" "fd_usable (v_openvect s ! i)"
    and f: "fd_file (v_openvect s ! i) = Some f" "files s f = Some fl"
    and s': "files s' = (files s)(f := if sint (f_refs fl - 1) > 0
        then Some (fl\<lparr>f_refs := f_refs fl - 1\<rparr>) else None)"
      "v_openvect s' = (v_openvect s)[i := \<lparr>fd_file = None, fd_flags = 0\<rparr>]"
  shows "fd_ok ext s' \<and> (files s' f = None \<longleftrightarrow> refs_in (v_openvect s') f + ext f = 0)"
proof -
  let ?v = "v_openvect s" and ?y = "\<lparr>fd_file = None, fd_flags = 0\<rparr>"
  let ?n = "refs_in ?v f + ext f"
  have l: "length ?v = FS_MAX_OPEN_FILES" by (rule fd_ok_length [OF ok])
  have rf: "refers f (?v ! i)" using i f by (simp add: refers_def)
  then have r1: "1 \<le> refs_in ?v f" using refs_in_pos [of "?v ! i" ?v f] i l by simp
  have r: "?n < 2 ^ 31" "f_refs fl = word_of_nat ?n" using fd_ok_count [OF ok f(2)] by blast+
  have u: "\<not> fd_usable ?y" by (simp add: fd_usable_def)
  have other: "refers g (?v ! i) \<longleftrightarrow> g = f" for g using f i by (auto simp: refers_def)
  have c: "refs_in (?v[i := ?y]) g = refs_in ?v g - (if g = f then 1 else 0)" for g
    using refs_in_update [of i ?v ?y g] i l u other [of g]
    by (cases "g = f") (simp_all add: refers_def)
  have p: "sint (f_refs fl - 1) > 0 \<longleftrightarrow> 1 < ?n" using sint_pred_pos [of ?n] r r1 by simp
  have gone: "files s' f = None \<longleftrightarrow> refs_in (?v[i := ?y]) f + ext f = 0"
    using p r1 c [of f] s'(1) by (cases "1 < ?n") auto
  have "fd_ok ext s'"
  proof (rule fd_okI)
    show "length (v_openvect s') = FS_MAX_OPEN_FILES" using l s' by simp
  next
    fix x
    assume x: "x \<in> set (v_openvect s')" "fd_usable x"
    then have "x \<in> set ?v" using u s'(2) set_update_subset_insert [of ?v i ?y] by auto
    then obtain g where g: "fd_file x = Some g" "files s g \<noteq> None" using fd_ok_live [OF ok _ x(2)] by blast
    have "1 \<le> refs_in (?v[i := ?y]) g"
      using x g s'(2) refs_in_pos [of x "?v[i := ?y]" g] by (simp add: refers_def)
    then have "g = f \<Longrightarrow> files s' g \<noteq> None" using gone by simp
    then show "\<exists>g. fd_file x = Some g \<and> files s' g \<noteq> None" using g s'(1) by (cases "g = f") auto
  next
    fix g gl
    assume g: "files s' g = Some gl"
    show "refs_in (v_openvect s') g + ext g < 2 ^ 31
        \<and> f_refs gl = word_of_nat (refs_in (v_openvect s') g + ext g)"
    proof (cases "g = f")
      case True
      then have "gl = fl\<lparr>f_refs := f_refs fl - 1\<rparr>" using g s'(1) by (auto split: if_splits)
      then show ?thesis using True r r1 c [of f] s'(2) by (simp add: of_nat_diff)
    next
      case False
      then have "files s g = Some gl" using g s'(1) by simp
      from fd_ok_count [OF ok this] show ?thesis using False c [of g] s'(2) by simp
    qed
  qed
  then show ?thesis using gone s'(2) by simp
qed

subsection \<open>The system calls\<close>

lemma fd_cleared [simp]: "x\<lparr>fd_file := None, fd_flags := 0\<rparr> = (\<lparr>fd_file = None, fd_flags = 0\<rparr> :: file_descr)"
  by (cases x) simp

lemma FD_VALID_nat:
  assumes "FD_VALID fd s"
  obtains i where "fd = int i" "i < FS_MAX_OPEN_FILES" "fd_usable (v_openvect s ! i)"
  using assms by (auto simp: FD_VALID_def nat_less_iff intro: that [of "nat fd"])

lemma fd_scan_Some:
  "fd_scan P fds = Some i \<longleftrightarrow> i < length fds \<and> P (fds ! i) \<and> (\<forall>j<i. \<not> P (fds ! j))"
proof (induction fds arbitrary: i)
  case (Cons x fds)
  show ?case
  proof (cases i)
    case 0
    then show ?thesis by auto
  next
    case (Suc k)
    then show ?thesis using Cons by (auto simp: nth_Cons' less_Suc_eq_0_disj)
  qed
qed simp

lemma fd_occupied_usable: "fd_usable x \<Longrightarrow> fd_occupied x"
  by (simp add: fd_usable_def fd_occupied_def)

lemma sys_close_ok:
  assumes D: "fs_driver D" and ok: "fd_ok ext s" and c: "sys_close D fd s = Some (None, s')"
  shows "fd_ok ext s'
    \<and> v_openvect s' = (v_openvect s)[nat fd := \<lparr>fd_file = None, fd_flags = 0\<rparr>]
    \<and> (\<forall>f. fd_get fd s = Some f \<longrightarrow>
        (files s' f = None \<longleftrightarrow> refs_in (v_openvect s') f + ext f = 0))"
proof -
  have v: "FD_VALID fd s" using c by (auto simp: sys_close_def split: if_split_asm)
  then obtain i where i: "fd = int i" "i < FS_MAX_OPEN_FILES" "fd_usable (v_openvect s ! i)"
    by (rule FD_VALID_nat)
  have "v_openvect s ! i \<in> set (v_openvect s)" using i(2) fd_ok_length [OF ok] by simp
  then obtain f fl where f: "fd_file (v_openvect s ! i) = Some f" "files s f = Some fl"
    using fd_ok_live [OF ok _ i(3)] by auto
  obtain s1 where s1: "file_close D (Some f) s = Some (None, s1)"
    "s' = upd_fd fd (\<lambda>x. x\<lparr>fd_file := None, fd_flags := 0\<rparr>) s1"
    using c v i f by (auto simp: sys_close_def fd_get_def bind_eq_Some_iff split: option.split_asm)
  note k = fs_driver.file_close_files [OF D s1(1) f(2)]
  have "fd_ok ext s' \<and> (files s' f = None \<longleftrightarrow> refs_in (v_openvect s') f + ext f = 0)"
    by (rule fd_ok_detach [OF ok i(2,3) f]) (use k s1(2) i(1) in \<open>simp_all add: upd_fd_def\<close>)
  then show ?thesis using f i(1) k s1(2) by (simp add: fd_get_def upd_fd_def)
qed

lemma attach_ok:
  assumes ok: "fd_ok ext s" and i: "i < FS_MAX_OPEN_FILES" "\<not> fd_usable (v_openvect s ! i)"
    and y: "refers f y" and g: "file_get (Some f) s = Some s1"
    and room: "refs_in (v_openvect s) f + ext f + 1 < 2 ^ 31"
  shows "fd_ok ext (upd_fd (int i) (\<lambda>_. y) s1)"
proof -
  obtain fl where f: "files s f = Some fl" using g by (auto simp: file_get_def split: option.split_asm)
  show ?thesis
    by (rule fd_ok_attach [OF ok i f y room])
      (use f g in \<open>auto simp: file_get_def upd_fd_def upd_file_def\<close>)
qed

lemma sys_dup_ok:
  assumes ok: "fd_ok ext s" and d: "sys_dup fd s = Some (Inr n, s')"
    and room: "\<And>f. refs_in (v_openvect s) f + ext f + 1 < 2 ^ 31"
  shows "fd_ok ext s'"
proof -
  obtain f i where f: "fd_get fd s = Some f" "files s f \<noteq> None"
      "fd_scan (\<lambda>x. \<not> fd_occupied x) (v_openvect s) = Some i"
      "s' = upd_fd (int i) (\<lambda>x. \<lparr>fd_file = Some f, fd_flags = FD_OCCUPIED\<rparr>)
        (upd_file f (\<lambda>x. x\<lparr>f_refs := f_refs x + 1\<rparr>) s)"
    using d by (auto simp: sys_dup_def bind_eq_Some_iff Let_def split: if_split_asm option.split_asm)
  have i: "i < FS_MAX_OPEN_FILES" "\<not> fd_usable (v_openvect s ! i)"
    using f(3) fd_ok_length [OF ok] by (auto simp: fd_scan_Some dest: fd_occupied_usable)
  have y: "refers f \<lparr>fd_file = Some f, fd_flags = FD_OCCUPIED\<rparr>"
    by (simp add: refers_def fd_usable_def FD_OCCUPIED_def FD_INVALID_def)
  have g: "file_get (Some f) s = Some (upd_file f (\<lambda>x. x\<lparr>f_refs := f_refs x + 1\<rparr>) s)"
    using f(2) by (auto simp: file_get_def)
  show ?thesis unfolding f(4) by (rule attach_ok [OF ok i y g room])
qed

lemma refs_in_clear: "refs_in (fds[i := \<lparr>fd_file = None, fd_flags = 0\<rparr>]) f \<le> refs_in fds f"
proof (cases "i < length fds")
  case True
  then show ?thesis
    using refs_in_update [OF True, of "\<lparr>fd_file = None, fd_flags = 0\<rparr>" f]
    by (simp add: refers_def fd_usable_def)
qed (simp add: list_update_beyond)

lemma dup_slot_range: "dup_slot otherfd s = Inr n \<Longrightarrow> fd_ok ext s \<Longrightarrow> 0 \<le> n \<and> n < int FS_MAX_OPEN_FILES"
  by (auto simp: dup_slot_def fd_scan_Some dest: fd_ok_length split: if_split_asm option.split_asm)

text \<open>The state after \<^verbatim>\<open>sys_dup2\<close> has freed the target slot.\<close>

lemma dup2_freed:
  assumes D: "fs_driver D" and ok: "fd_ok ext s" and j: "j < FS_MAX_OPEN_FILES" "j \<noteq> i"
    and c: "(if FD_VALID (int j) s then sys_close D (int j) s else Some (None, s)) = Some (None, s1)"
  shows "fd_ok ext s1 \<and> \<not> fd_usable (v_openvect s1 ! j) \<and> v_openvect s1 ! i = v_openvect s ! i
    \<and> refs_in (v_openvect s1) f \<le> refs_in (v_openvect s) f"
proof (cases "FD_VALID (int j) s")
  case True
  then have "sys_close D (int j) s = Some (None, s1)" using c by simp
  from sys_close_ok [OF D ok this] show ?thesis
    using j fd_ok_length [OF ok] refs_in_clear by (simp add: fd_usable_def)
next
  case False
  then show ?thesis using c ok j by (simp add: FD_VALID_def)
qed

lemma sys_dup2_ok:
  assumes D: "fs_driver D" and ok: "fd_ok ext s"
    and d: "sys_dup2 D fd otherfd s = Some (Inr n, s')" and neq: "n \<noteq> fd"
    and room: "\<And>f. refs_in (v_openvect s) f + ext f + 1 < 2 ^ 31"
  shows "fd_ok ext s'"
proof -
  have v: "FD_VALID fd s" using d by (auto simp: sys_dup2_def split: if_split_asm)
  then obtain i where i: "fd = int i" "i < FS_MAX_OPEN_FILES" "fd_usable (v_openvect s ! i)"
    by (rule FD_VALID_nat)
  have sl: "dup_slot otherfd s = Inr n"
    using d v by (auto simp: sys_dup2_def bind_eq_Some_iff Let_def split: sum.split_asm if_split_asm)
  obtain j where j: "n = int j" "j < FS_MAX_OPEN_FILES" "j \<noteq> i"
    using dup_slot_range [OF sl ok] neq i(1) by (metis int_nat_eq nat_less_iff)
  obtain s1 s2 where s: "(if FD_VALID (int j) s then sys_close D (int j) s else Some (None, s)) = Some (None, s1)"
      "file_get (fd_file (v_openvect s1 ! i)) s1 = Some s2"
      "s' = upd_fd n (\<lambda>y. \<lparr>fd_file = fd_file (v_openvect s1 ! i), fd_flags = fd_flags (v_openvect s1 ! i)\<rparr>) s2"
    using d v sl j(1) i(1) by (auto simp: sys_dup2_def bind_eq_Some_iff Let_def split: if_split_asm)
  note k = dup2_freed [OF D ok j(2,3) s(1)]
  have "length (v_openvect s1) = FS_MAX_OPEN_FILES" using k fd_ok_length by blast
  then have "v_openvect s1 ! i \<in> set (v_openvect s1)" using i(2) by simp
  then obtain f where f: "fd_file (v_openvect s1 ! i) = Some f"
    using fd_ok_live [of ext s1] k i(3) by metis
  have "refers f \<lparr>fd_file = fd_file (v_openvect s1 ! i), fd_flags = fd_flags (v_openvect s1 ! i)\<rparr>"
    using f i(3) k by (simp add: refers_def fd_usable_def)
  moreover have "refs_in (v_openvect s1) f + ext f + 1 < 2 ^ 31" using k [of f] room [of f] by simp
  ultimately show ?thesis
    unfolding s(3) j(1) using attach_ok [of ext s1 j f _ s2] k j(2) f s(2) by simp
qed

lemma sys_dup2_same:
  assumes D: "fs_driver D" and ok: "fd_ok ext s" and c: "sys_close D fd s = Some (None, s1)"
  shows "sys_dup2 D fd fd s = Some (Inr fd, s1)"
proof -
  have v: "FD_VALID fd s" using c by (auto simp: sys_close_def split: if_split_asm)
  then have r: "0 \<le> fd" "fd < int FS_MAX_OPEN_FILES" by (simp_all add: FD_VALID_def)
  then have n: "nat fd < length (v_openvect s)" using fd_ok_length [OF ok] by simp
  have e: "v_openvect s1 = (v_openvect s)[nat fd := \<lparr>fd_file = None, fd_flags = 0\<rparr>]"
    using sys_close_ok [OF D ok c] by simp
  then have "upd_fd fd (\<lambda>_. \<lparr>fd_file = None, fd_flags = 0\<rparr>) s1 = s1"
    by (simp add: upd_fd_def)
  then show ?thesis
    using v r n c e by (simp add: sys_dup2_def dup_slot_def file_get_def)
qed

subsection \<open>Sharing files\<close>

lemma upd_file_cancel:
  "upd_file f (\<lambda>x. x\<lparr>f_refs := f_refs x - 1\<rparr>) (upd_file f (\<lambda>x. x\<lparr>f_refs := f_refs x + 1\<rparr>) s) = s"
proof -
  have "map_option (\<lambda>x. x\<lparr>f_refs := f_refs x\<rparr>) z = z" for z :: "vfile option" by (cases z) simp_all
  then show ?thesis by (simp add: upd_file_def option.map_comp comp_def)
qed

lemma copy_descrs_counts:
  assumes "copy_descrs fds s = Some (ys, s')"
    and "\<And>f fl. files s f = Some fl \<Longrightarrow> f_refs fl = word_of_nat (n f)"
    and "\<forall>x\<in>set fds. fd_usable x \<longrightarrow> fd_file x \<noteq> None"
  shows "v_openvect s' = v_openvect s \<and> dom (files s') = dom (files s) \<and> length ys = length fds
    \<and> refs_in ys = refs_in fds
    \<and> (\<forall>f fl. files s' f = Some fl \<longrightarrow> f_refs fl = word_of_nat (n f + refs_in fds f))"
  using assms
proof (induction fds arbitrary: s ys s' n)
  case Nil
  then show ?case by (simp add: refs_in_def)
next
  case (Cons x fds)
  obtain y s1 zs where c: "copy_descr x s = Some (y, s1)" "copy_descrs fds s1 = Some (zs, s')" "ys = y # zs"
    using Cons(2) by (auto simp: bind_eq_Some_iff)
  let ?m = "\<lambda>f. if refers f x then 1 else 0 :: nat"
  have 1: "v_openvect s1 = v_openvect s \<and> dom (files s1) = dom (files s)
      \<and> (\<forall>f. refers f y = refers f x)
      \<and> (\<forall>f fl. files s1 f = Some fl \<longrightarrow> f_refs fl = word_of_nat (n f + ?m f))"
  proof (cases "fd_usable x")
    case True
    then obtain g where g: "fd_file x = Some g" using Cons(4) by auto
    then have "y = x" "s1 = upd_file g (\<lambda>x. x\<lparr>f_refs := f_refs x + 1\<rparr>) s" "files s g \<noteq> None"
      using c(1) True by (auto simp: copy_descr_def file_get_def bind_eq_Some_iff split: option.split_asm)
    then show ?thesis using True g Cons(3) by (auto simp: refers_def upd_file_def)
  next
    case False
    then show ?thesis
      using c(1) Cons(3) by (auto simp: copy_descr_def refers_def fd_usable_def)
  qed
  have 2: "v_openvect s' = v_openvect s1 \<and> dom (files s') = dom (files s1) \<and> length zs = length fds
      \<and> refs_in zs = refs_in fds
      \<and> (\<forall>f fl. files s' f = Some fl \<longrightarrow> f_refs fl = word_of_nat (n f + ?m f + refs_in fds f))"
    by (rule Cons(1) [OF c(2)]) (use 1 Cons(4) in auto)
  have "refs_in (x # fds) f = ?m f + refs_in fds f" "refs_in (y # zs) f = ?m f + refs_in zs f" for f
    using 1 by (simp_all add: refs_in_def)
  then show ?case using 1 2 c(3) by (auto simp: fun_eq_iff algebra_simps)
qed

text \<open>A new task takes one more reference for each descriptor it inherits.\<close>

lemma copy_task_vfs_ok:
  assumes ok: "fd_ok ext s" and c: "copy_task_vfs s = Some ((cwd, fds), s')"
    and room: "\<And>f. 2 * refs_in (v_openvect s) f + ext f < 2 ^ 31"
  shows "fd_ok (\<lambda>f. ext f + refs_in fds f) s' \<and> refs_in fds = refs_in (v_openvect s)"
proof -
  obtain s1 where s1: "path_copy (v_cwd s) s = Some (cwd, s1)" "copy_descrs (v_openvect s) s1 = Some (fds, s')"
    using c by (auto simp: copy_task_vfs_def bind_eq_Some_iff)
  have k: "files s1 = files s" "v_openvect s1 = v_openvect s"
    using s1(1) by (auto simp: path_copy_def d_get_def mnt_get_def bind_eq_Some_iff split: option.split_asm)
  let ?n = "\<lambda>f. refs_in (v_openvect s) f + ext f"
  have cd: "v_openvect s' = v_openvect s1 \<and> dom (files s') = dom (files s1) \<and> length fds = length (v_openvect s)
    \<and> refs_in fds = refs_in (v_openvect s)
    \<and> (\<forall>f fl. files s' f = Some fl \<longrightarrow> f_refs fl = word_of_nat (?n f + refs_in (v_openvect s) f))"
  proof (rule copy_descrs_counts [OF s1(2)])
    show "f_refs fl = word_of_nat (?n f)" if "files s1 f = Some fl" for f fl
      using fd_ok_count [OF ok] that k(1) by simp
    show "\<forall>x\<in>set (v_openvect s). fd_usable x \<longrightarrow> fd_file x \<noteq> None"
      using fd_ok_live [OF ok] by fastforce
  qed
  have "fd_ok (\<lambda>f. ext f + refs_in fds f) s'"
  proof (rule fd_okI)
    show "length (v_openvect s') = FS_MAX_OPEN_FILES" using cd k fd_ok_length [OF ok] by simp
  next
    fix x
    assume "x \<in> set (v_openvect s')" "fd_usable x"
    then obtain f where "fd_file x = Some f" "files s f \<noteq> None" using fd_ok_live [OF ok, of x] cd k by auto
    then show "\<exists>f. fd_file x = Some f \<and> files s' f \<noteq> None" using cd k by (auto simp: domIff dest!: equalityD2)
  next
    fix f fl
    assume "files s' f = Some fl"
    then show "refs_in (v_openvect s') f + (ext f + refs_in fds f) < 2 ^ 31
        \<and> f_refs fl = word_of_nat (refs_in (v_openvect s') f + (ext f + refs_in fds f))"
      using cd k room [of f] by (simp add: algebra_simps)
  qed
  then show ?thesis using cd by blast
qed

text \<open>
  C27: The reference count of every open file is the number of descriptors that refer to it, here
  and in other tasks. \<^verbatim>\<open>sys_close\<close>, \<^verbatim>\<open>sys_dup\<close> and \<^verbatim>\<open>sys_dup2\<close> between different
  descriptors keep it so, as does copying the descriptors for a new task, whose references are
  then counted with those of the others; and a file is freed exactly when the last descriptor that
  refers to it is closed. This holds for every driver whose close function leaves the table of
  open files alone.
\<close>
theorem fd_refs_invariant:
  assumes "fs_driver D" and "fd_ok ext s"
    and "\<And>f. 2 * refs_in (v_openvect s) f + ext f + 1 < 2 ^ 31"
  shows "(sys_close D fd s = Some (None, s1) \<longrightarrow> fd_ok ext s1
        \<and> (\<forall>f. fd_get fd s = Some f \<longrightarrow> (files s1 f = None \<longleftrightarrow> refs_in (v_openvect s1) f + ext f = 0)))
    \<and> (sys_dup fd s = Some (Inr n, s2) \<longrightarrow> fd_ok ext s2)
    \<and> (sys_dup2 D fd other s = Some (Inr m, s3) \<and> m \<noteq> fd \<longrightarrow> fd_ok ext s3)
    \<and> (copy_task_vfs s = Some ((cwd, fds), s4) \<longrightarrow>
        fd_ok (\<lambda>f. ext f + refs_in fds f) s4 \<and> refs_in fds = refs_in (v_openvect s))"
proof -
  have r: "refs_in (v_openvect s) f + ext f + 1 < 2 ^ 31" "2 * refs_in (v_openvect s) f + ext f < 2 ^ 31" for f
    using assms(3) [of f] by simp_all
  show ?thesis
  proof (intro conjI impI)
    assume "sys_close D fd s = Some (None, s1)"
    note c = sys_close_ok [OF assms(1,2) this]
    show "fd_ok ext s1" using c by (rule conjunct1)
    show "\<forall>f. fd_get fd s = Some f \<longrightarrow> (files s1 f = None \<longleftrightarrow> refs_in (v_openvect s1) f + ext f = 0)"
      using c by (elim conjE)
  next
    assume "sys_dup fd s = Some (Inr n, s2)"
    then show "fd_ok ext s2" by (rule sys_dup_ok [OF assms(2) _ r(1)])
  next
    assume "sys_dup2 D fd other s = Some (Inr m, s3) \<and> m \<noteq> fd"
    then show "fd_ok ext s3" using sys_dup2_ok [OF assms(1,2) _ _ r(1), of fd other m s3] by simp
  next
    assume "copy_task_vfs s = Some ((cwd, fds), s4)"
    note c = copy_task_vfs_ok [OF assms(2) this r(2)]
    show "fd_ok (\<lambda>f. ext f + refs_in fds f) s4" using c by (rule conjunct1)
    show "refs_in fds = refs_in (v_openvect s)" using c by (rule conjunct2)
  qed
qed

text \<open>A state with one open file, used by descriptor 0.\<close>

definition demo_open :: vfs where
  "demo_open = demo_vfs\<lparr>
    files := (\<lambda>_. None)(50 \<mapsto> \<lparr>f_path = \<lparr>p_dentry = 3, p_mount = Some 20\<rparr>, f_ops = Some 0, f_off = 0,
      f_status = 0, f_refs = 1, f_private = 0\<rparr>),
    v_openvect := \<lparr>fd_file = Some 50, fd_flags = FD_OCCUPIED\<rparr> #
      \<lparr>fd_file = None, fd_flags = 0\<rparr> # replicate 1022 \<lparr>fd_file = None, fd_flags = 0\<rparr>\<rparr>"

lemma demo_open_slots:
  "FD_VALID 0 demo_open" "fd_get 0 demo_open = Some 50"
  "fd_scan (\<lambda>x. \<not> fd_occupied x) (v_openvect demo_open) = Some 1"
  by (simp_all add: FD_VALID_def FS_MAX_OPEN_FILES_def demo_open_def fd_get_def fd_usable_def
      fd_occupied_def FD_OCCUPIED_def FD_INVALID_def)

lemma demo_open_dup: "\<exists>s1. sys_dup 0 demo_open = Some (Inr 1, s1)"
  by (simp add: sys_dup_def demo_open_slots) (simp add: demo_open_def)

lemma demo_open_refs: "refs_in (v_openvect demo_open) f = (if f = 50 then 1 else 0)"
  by (simp add: demo_open_def refs_in_def refers_def fd_usable_def FD_OCCUPIED_def FD_INVALID_def)

lemma demo_open_ok: "fd_ok (\<lambda>_. 0) demo_open"
proof (rule fd_okI)
  show "length (v_openvect demo_open) = FS_MAX_OPEN_FILES"
    by (simp add: demo_open_def FS_MAX_OPEN_FILES_def)
next
  fix x
  assume "x \<in> set (v_openvect demo_open)" "fd_usable x"
  then show "\<exists>f. fd_file x = Some f \<and> files demo_open f \<noteq> None"
    by (auto simp: demo_open_def fd_usable_def)
next
  fix f fl
  assume "files demo_open f = Some fl"
  then have "f = 50 \<and> f_refs fl = 1" by (auto simp: demo_open_def split: if_split_asm)
  then show "refs_in (v_openvect demo_open) f + 0 < 2 ^ 31
      \<and> f_refs fl = word_of_nat (refs_in (v_openvect demo_open) f + 0)"
    by (simp add: demo_open_refs)
qed

theorem fd_refs_invariant_witness:
  "\<exists>s2. sys_dup 0 demo_open = Some (Inr 1, s2) \<and> fd_ok (\<lambda>_. 0) s2"
proof -
  have "2 * refs_in (v_openvect demo_open) f + (\<lambda>_. 0) f + 1 < 2 ^ 31" for f
    by (simp add: demo_open_refs)
  then show ?thesis
    using demo_open_dup fd_refs_invariant [OF kd.fs_driver_axioms demo_open_ok, of 0 _ 1] by blast
qed

text \<open>
  C28: Duplicating a descriptor and closing the duplicate is undone: \<^verbatim>\<open>sys_dup\<close> returns the
  lowest free descriptor, which then refers to the same file, and closing it again gives back the
  state from before with that descriptor free, whatever the driver.
\<close>
theorem dup_close_roundtrip:
  assumes "fd_ok ext s" and "sys_dup fd s = Some (Inr n, s1)"
    and "refs_in (v_openvect s) f + ext f + 1 < 2 ^ 31" and "fd_get fd s = Some f"
  shows "\<not> fd_occupied (v_openvect s ! nat n) \<and> (\<forall>j<nat n. fd_occupied (v_openvect s ! j))
    \<and> fd_get n s1 = Some f
    \<and> sys_close D n s1 = Some (None, upd_fd n (\<lambda>_. \<lparr>fd_file = None, fd_flags = 0\<rparr>) s)"
proof -
  obtain i fl where i: "files s f = Some fl" "FD_VALID fd s"
      "fd_scan (\<lambda>x. \<not> fd_occupied x) (v_openvect s) = Some i" "n = int i"
      "s1 = upd_fd (int i) (\<lambda>x. \<lparr>fd_file = Some f, fd_flags = FD_OCCUPIED\<rparr>)
        (upd_file f (\<lambda>x. x\<lparr>f_refs := f_refs x + 1\<rparr>) s)"
    using assms(2,4) by (auto simp: sys_dup_def bind_eq_Some_iff Let_def split: if_split_asm option.split_asm)
  have l: "length (v_openvect s) = FS_MAX_OPEN_FILES" "i < FS_MAX_OPEN_FILES"
    using fd_ok_length [OF assms(1)] i(3) by (auto simp: fd_scan_Some)
  obtain j where j: "fd = int j" "j < FS_MAX_OPEN_FILES" "fd_usable (v_openvect s ! j)"
    using i(2) by (rule FD_VALID_nat)
  have "refers f (v_openvect s ! j)" using j assms(4) by (simp add: refers_def fd_get_def)
  then have "1 \<le> refs_in (v_openvect s) f" using refs_in_pos [of "v_openvect s ! j"] j l by simp
  then have p: "sint (f_refs fl) > 0"
    using fd_ok_count [OF assms(1) i(1)] sint_u32 [of "refs_in (v_openvect s) f + ext f"] by simp
  have v: "FD_VALID n s1" "fd_get n s1 = Some f"
    using l i(4,5)
    by (simp_all add: FD_VALID_def fd_get_def upd_fd_def upd_file_def fd_usable_def FD_OCCUPIED_def FD_INVALID_def)
  have "file_close D (Some f) s1 = Some (None, upd_file f (\<lambda>x. x\<lparr>f_refs := f_refs x - 1\<rparr>) s1)"
    using p i(1,5) by (simp add: file_close_def upd_fd_def upd_file_def)
  moreover have "upd_file f (\<lambda>x. x\<lparr>f_refs := f_refs x - 1\<rparr>) s1
      = upd_fd (int i) (\<lambda>x. \<lparr>fd_file = Some f, fd_flags = FD_OCCUPIED\<rparr>) s"
    unfolding i(5) by (subst (2) upd_file_cancel [of f s, symmetric]) (simp add: upd_fd_def upd_file_def)
  ultimately show ?thesis
    using v i(3,4) l by (simp add: sys_close_def fd_scan_Some upd_fd_def)
qed

theorem dup_close_roundtrip_witness:
  "\<exists>s1. sys_dup 0 demo_open = Some (Inr 1, s1)
    \<and> sys_close kernel_drivers 1 s1 = Some (None, upd_fd 1 (\<lambda>_. \<lparr>fd_file = None, fd_flags = 0\<rparr>) demo_open)"
proof -
  obtain s1 where s1: "sys_dup 0 demo_open = Some (Inr 1, s1)" using demo_open_dup by blast
  from dup_close_roundtrip [OF demo_open_ok s1 _ demo_open_slots(2), of kernel_drivers] s1 show ?thesis
    by (simp add: demo_open_refs)
qed

end
