(* ===== verification/Slre.thy ===== *)
theory Slre
  imports Prelude
begin

text \<open>
  The regular expression library of the shell, userland/sh/src/slre/slre.c.

  Memory is a function from addresses to characters, and the pointers of the code are addresses, so
  a read past the end of a pattern or of a text gives whatever byte is there. Offsets and lengths
  are integers; they are bounded by the lengths of the two strings. The matcher itself, \<open>bar\<close> and
  \<open>doh\<close> with the loops inside \<open>bar\<close>, is a group of total functions: the termination proof is part
  of the development. The scan of the pattern in \<open>foo\<close> may run forever, so its result is an option.
  The array of brackets is not initialised by the code; its first contents are an argument of
  \<open>slre_match\<close>.
\<close>

type_synonym bytes = "int \<Rightarrow> char"

record bracket_pair =
  b_ptr :: int
  b_len :: int
  b_branches :: int
  b_num_branches :: int

record branch =
  bracket_index :: int
  schlong :: int

record slre_cap =
  c_ptr :: int
  c_len :: int

type_synonym caps_array = "(int \<Rightarrow> slre_cap) option"

record regex_info =
  brackets :: "int \<Rightarrow> bracket_pair"
  num_brackets :: int
  branches :: "int \<Rightarrow> branch"
  num_branches :: int
  caps :: caps_array
  num_caps :: int
  flags :: int

definition SLRE_NO_MATCH :: int where "SLRE_NO_MATCH = - 1"
definition SLRE_UNEXPECTED_QUANTIFIER :: int where "SLRE_UNEXPECTED_QUANTIFIER = - 2"
definition SLRE_UNBALANCED_BRACKETS :: int where "SLRE_UNBALANCED_BRACKETS = - 3"
definition SLRE_INTERNAL_ERROR :: int where "SLRE_INTERNAL_ERROR = - 4"
definition SLRE_INVALID_CHARACTER_SET :: int where "SLRE_INVALID_CHARACTER_SET = - 5"
definition SLRE_INVALID_METACHARACTER :: int where "SLRE_INVALID_METACHARACTER = - 6"
definition SLRE_CAPS_ARRAY_TOO_SMALL :: int where "SLRE_CAPS_ARRAY_TOO_SMALL = - 7"
definition SLRE_TOO_MANY_BRANCHES :: int where "SLRE_TOO_MANY_BRANCHES = - 8"
definition SLRE_TOO_MANY_BRACKETS :: int where "SLRE_TOO_MANY_BRACKETS = - 9"

definition SLRE_IGNORE_CASE :: int where "SLRE_IGNORE_CASE = 1"
definition MAX_BRANCHES :: int where "MAX_BRANCHES = 100"
definition MAX_BRACKETS :: int where "MAX_BRACKETS = 100"

lemmas slre_codes = SLRE_NO_MATCH_def SLRE_UNEXPECTED_QUANTIFIER_def SLRE_UNBALANCED_BRACKETS_def
  SLRE_INTERNAL_ERROR_def SLRE_INVALID_CHARACTER_SET_def SLRE_INVALID_METACHARACTER_def
  SLRE_CAPS_ARRAY_TOO_SMALL_def SLRE_TOO_MANY_BRANCHES_def SLRE_TOO_MANY_BRACKETS_def

text \<open>The functions of ctype.h, on the values the code passes: unsigned or signed characters.\<close>

definition uchar :: "char \<Rightarrow> int" where
  "uchar c = of_char c"

definition schar :: "char \<Rightarrow> int" where
  "schar c = (let n = of_char c in if n < 128 then n else n - 256)"

definition isspace :: "int \<Rightarrow> bool" where
  "isspace c = (c = 32 \<or> 9 \<le> c \<and> c \<le> 13)"

definition isdigit :: "int \<Rightarrow> bool" where
  "isdigit c = (48 \<le> c \<and> c \<le> 57)"

definition isxdigit :: "int \<Rightarrow> bool" where
  "isxdigit c = (isdigit c \<or> 65 \<le> c \<and> c \<le> 70 \<or> 97 \<le> c \<and> c \<le> 102)"

definition tolower :: "int \<Rightarrow> int" where
  "tolower c = (if 65 \<le> c \<and> c \<le> 90 then c + 32 else c)"

definition is_metacharacter :: "bytes \<Rightarrow> int \<Rightarrow> bool" where
  "is_metacharacter m s =
    (m s \<in> set (''^$().[]*+?|'' @ CHR 0x5C # ''Ssdbfnrtv'') \<or> m s = CHR 0x00)"

definition op_len :: "bytes \<Rightarrow> int \<Rightarrow> int" where
  "op_len m re =
    (if m re = CHR 0x5C \<and> m (re + 1) = CHR ''x'' then 4 else if m re = CHR 0x5C then 2 else 1)"

lemma op_len_pos [simp]: "0 < op_len m re" "op_len m re \<noteq> 0" "\<not> op_len m re \<le> 0"
  by (auto simp: op_len_def)

function set_loop :: "bytes \<Rightarrow> int \<Rightarrow> int \<Rightarrow> int \<Rightarrow> int" where
  "set_loop m re re_len len =
    (if len < re_len \<and> m (re + len) \<noteq> CHR '']'' then set_loop m re re_len (len + op_len m (re + len))
     else len)"
  by pat_completeness auto
termination
  by (relation "measure (\<lambda>(m, re, re_len, len). nat (re_len - len))") (auto simp: op_len_def)

definition set_len :: "bytes \<Rightarrow> int \<Rightarrow> int \<Rightarrow> int" where
  "set_len m re re_len = (let len = set_loop m re re_len 0 in if len \<le> re_len then len + 1 else - 1)"

definition get_op_len :: "bytes \<Rightarrow> int \<Rightarrow> int \<Rightarrow> int" where
  "get_op_len m re re_len =
    (if m re = CHR ''['' then set_len m (re + 1) (re_len - 1) + 1 else op_len m re)"

definition is_quantifier :: "bytes \<Rightarrow> int \<Rightarrow> bool" where
  "is_quantifier m re = (m re = CHR ''*'' \<or> m re = CHR ''+'' \<or> m re = CHR ''?'')"

definition toi :: "int \<Rightarrow> int" where
  "toi x = (if isdigit x then x - 48 else x - 87)"

definition hextoi :: "bytes \<Rightarrow> int \<Rightarrow> int" where
  "hextoi m s = (push_bit 4 (toi (tolower (uchar (m s))))) OR toi (tolower (uchar (m (s + 1))))"

definition fail_unless :: "bool \<Rightarrow> int" where
  "fail_unless b = (if b then 1 else SLRE_NO_MATCH)"

definition match_op :: "bytes \<Rightarrow> int \<Rightarrow> int \<Rightarrow> regex_info \<Rightarrow> int" where
  "match_op m re s info =
    (if m re = CHR 0x5C then
       (let e = m (re + 1) in
        if e = CHR ''S'' then fail_unless (\<not> isspace (uchar (m s)))
        else if e = CHR ''s'' then fail_unless (isspace (uchar (m s)))
        else if e = CHR ''d'' then fail_unless (isdigit (uchar (m s)))
        else if e = CHR ''b'' then fail_unless (m s = CHR 0x08)
        else if e = CHR ''f'' then fail_unless (m s = CHR 0x0C)
        else if e = CHR ''n'' then fail_unless (m s = CHR 0x0A)
        else if e = CHR ''r'' then fail_unless (m s = CHR 0x0D)
        else if e = CHR ''t'' then fail_unless (m s = CHR 0x09)
        else if e = CHR ''v'' then fail_unless (m s = CHR 0x0B)
        else if e = CHR ''x'' then fail_unless (hextoi m (re + 2) = uchar (m s))
        else fail_unless (e = m s))
     else if m re = CHR ''|'' then SLRE_INTERNAL_ERROR
     else if m re = CHR ''$'' then SLRE_NO_MATCH
     else if m re = CHR ''.'' then 1
     else if flags info AND SLRE_IGNORE_CASE \<noteq> 0
       then fail_unless (tolower (uchar (m re)) = tolower (uchar (m s)))
     else fail_unless (m re = m s))"

definition in_range :: "bytes \<Rightarrow> int \<Rightarrow> int \<Rightarrow> int \<Rightarrow> regex_info \<Rightarrow> bool" where
  "in_range m lo hi s info =
    (if flags info \<noteq> 0 \<and> SLRE_IGNORE_CASE \<noteq> 0
     then schar (m lo) \<le> schar (m s) \<and> schar (m s) \<le> schar (m hi)
     else tolower (schar (m lo)) \<le> tolower (schar (m s))
        \<and> tolower (schar (m s)) \<le> tolower (schar (m hi)))"

function match_set_loop :: "bytes \<Rightarrow> int \<Rightarrow> int \<Rightarrow> int \<Rightarrow> regex_info \<Rightarrow> int \<Rightarrow> int \<Rightarrow> int" where
  "match_set_loop m re re_len s info len result =
    (if len \<le> re_len \<and> m (re + len) \<noteq> CHR '']'' \<and> result \<le> 0 then
       if m (re + len) \<noteq> CHR ''-'' \<and> m (re + len + 1) = CHR ''-'' \<and>
          m (re + len + 2) \<noteq> CHR '']'' \<and> m (re + len + 2) \<noteq> CHR 0x00
       then match_set_loop m re re_len s info (len + 3)
              (of_bool (in_range m (re + len) (re + len + 2) s info))
       else match_set_loop m re re_len s info (len + op_len m (re + len))
              (match_op m (re + len) s info)
     else result)"
  by pat_completeness auto
termination
  by (relation "measure (\<lambda>(m, re, re_len, s, info, len, result). nat (re_len + 1 - len))")
     (auto simp: op_len_def)

definition match_set :: "bytes \<Rightarrow> int \<Rightarrow> int \<Rightarrow> int \<Rightarrow> regex_info \<Rightarrow> int" where
  "match_set m re re_len s info =
    (let invert = (m re = CHR ''^'');
         result = (if invert then match_set_loop m (re + 1) (re_len - 1) s info 0 (- 1)
                   else match_set_loop m re re_len s info 0 (- 1))
     in if \<not> invert \<and> result > 0 \<or> invert \<and> result \<le> 0 then 1 else - 1)"

definition set_cap :: "int \<Rightarrow> int \<Rightarrow> int \<Rightarrow> caps_array \<Rightarrow> caps_array" where
  "set_cap i p n c = map_option (\<lambda>a. a(i := \<lparr>c_ptr = p, c_len = n\<rparr>)) c"

definition chunk_len :: "bytes \<Rightarrow> regex_info \<Rightarrow> int \<Rightarrow> int \<Rightarrow> int \<Rightarrow> int \<Rightarrow> int" where
  "chunk_len m info re re_len bi i =
    (if m (re + i) = CHR ''('' then b_len (brackets info (bi + 1)) + 2
     else get_op_len m (re + i) (re_len - i))"

definition quantified :: "bytes \<Rightarrow> int \<Rightarrow> int \<Rightarrow> int \<Rightarrow> bool" where
  "quantified m re re_len i = (i < re_len \<and> is_quantifier m (re + i))"

definition lazy :: "bytes \<Rightarrow> int \<Rightarrow> int \<Rightarrow> int \<Rightarrow> bool" where
  "lazy m re re_len i = (i < re_len \<and> m (re + i) = CHR ''?'')"

lemma quantified_less: "quantified m re re_len i \<Longrightarrow> i < re_len"
  by (simp add: quantified_def)

definition branch_start :: "regex_info \<Rightarrow> int \<Rightarrow> int \<Rightarrow> int" where
  "branch_start info bi i =
    (let b = brackets info bi
     in if i = 0 then b_ptr b else schlong (branches info (b_branches b + i - 1)) + 1)"

definition branch_len :: "regex_info \<Rightarrow> int \<Rightarrow> int \<Rightarrow> int" where
  "branch_len info bi i =
    (let b = brackets info bi
     in if b_num_branches b = 0 then b_len b
        else if i = b_num_branches b then b_ptr b + b_len b - branch_start info bi i
        else schlong (branches info (b_branches b + i)) - branch_start info bi i)"

function bar_loop :: "bytes \<Rightarrow> regex_info \<Rightarrow> int \<Rightarrow> int \<Rightarrow> int \<Rightarrow> int \<Rightarrow> int \<Rightarrow> int \<Rightarrow> int \<Rightarrow> caps_array
    \<Rightarrow> int \<times> caps_array"
  and star_loop :: "bytes \<Rightarrow> regex_info \<Rightarrow> int \<Rightarrow> int \<Rightarrow> int \<Rightarrow> int \<Rightarrow> int \<Rightarrow> int \<Rightarrow> int \<Rightarrow> bool \<Rightarrow> int
    \<Rightarrow> int \<Rightarrow> int \<Rightarrow> int \<Rightarrow> caps_array \<Rightarrow> int \<times> int \<times> int \<times> caps_array"
  and cap_loop :: "bytes \<Rightarrow> regex_info \<Rightarrow> int \<Rightarrow> int \<Rightarrow> int \<Rightarrow> int \<Rightarrow> int \<Rightarrow> int \<Rightarrow> int \<Rightarrow> caps_array
    \<Rightarrow> int \<times> caps_array"
  and doh_loop :: "bytes \<Rightarrow> regex_info \<Rightarrow> int \<Rightarrow> int \<Rightarrow> int \<Rightarrow> int \<Rightarrow> caps_array \<Rightarrow> int \<times> caps_array"
where
  "bar_loop m info re re_len s s_len bi i j c =
    (if \<not> (i < re_len \<and> j \<le> s_len) then (j, c)
     else
       let step = chunk_len m info re re_len bi i in
       if is_quantifier m (re + i) then (SLRE_UNEXPECTED_QUANTIFIER, c)
       else if step \<le> 0 then (SLRE_INVALID_CHARACTER_SET, c)
       else if quantified m re re_len (i + step) then
         if m (re + i + step) = CHR ''?'' then
           (case bar_loop m info (re + i) step (s + j) (s_len - j) bi 0 0 c of (result, c1) \<Rightarrow>
              bar_loop m info re re_len s s_len bi (i + 1 + step)
                (if result > 0 then j + result else j) c1)
         else
           let non_greedy = lazy m re re_len (i + step + 1);
               ni = (if non_greedy then i + step + 2 else i + step + 1)
           in
           (case star_loop m info (re + i) step (re + ni) (re_len - ni) s s_len bi non_greedy j j j (- 1) c of
              (n1, n2, nj, c1) \<Rightarrow>
            (case (if n1 < 0 \<and> m (re + i + step) = CHR ''*'' then
                     case bar_loop m info (re + ni) (re_len - ni) (s + j) (s_len - j) bi 0 0 c1 of
                       (r, c2) \<Rightarrow> (r, if r > 0 then j + r else nj, c2)
                   else (n2, nj, c1)) of
              (n2', nj', c2) \<Rightarrow>
             if m (re + i + step) = CHR ''+'' \<and> nj' = j then (SLRE_NO_MATCH, c2)
             else if nj' = j \<and> ni < re_len \<and> n2' < 0 then (SLRE_NO_MATCH, c2)
             else (nj', c2)))
       else if m (re + i) = CHR ''['' then
         let n = match_set m (re + i + 1) (re_len - (i + 2)) (s + j) info in
         if n \<le> 0 then (SLRE_NO_MATCH, c)
         else bar_loop m info re re_len s s_len bi (i + step) (j + n) c
       else if m (re + i) = CHR ''('' then
         if bi + 1 \<ge> num_brackets info then (SLRE_INTERNAL_ERROR, c)
         else
           (case (if re_len - (i + step) \<le> 0 then doh_loop m info (s + j) (s_len - j) (bi + 1) 0 c
                  else cap_loop m info (re + i + step) (re_len - (i + step)) (s + j) (s_len - j)
                         (bi + 1) 0 SLRE_NO_MATCH c) of
              (n, c1) \<Rightarrow>
             if n < 0 then (n, c1)
             else bar_loop m info re re_len s s_len (bi + 1) (i + step) (j + n)
                    (set_cap bi (s + j) n c1))
       else if m (re + i) = CHR ''^'' then
         if j \<noteq> 0 then (SLRE_NO_MATCH, c)
         else bar_loop m info re re_len s s_len bi (i + step) j c
       else if m (re + i) = CHR ''$'' then
         if j \<noteq> s_len then (SLRE_NO_MATCH, c)
         else bar_loop m info re re_len s s_len bi (i + step) j c
       else if j \<ge> s_len then (SLRE_NO_MATCH, c)
       else
         let n = match_op m (re + i) (s + j) info in
         if n \<le> 0 then (n, c)
         else bar_loop m info re re_len s s_len bi (i + step) (j + n) c)"
| "star_loop m info re step rest rest_len s s_len bi non_greedy j j2 nj n2 c =
    (case bar_loop m info re step (s + j2) (s_len - j2) bi 0 0 c of (n1, c1) \<Rightarrow>
       let j2' = (if n1 > 0 then j2 + n1 else j2) in
       if m (re + step) = CHR ''+'' \<and> n1 < 0 then (n1, n2, nj, c1)
       else
         case (if rest_len \<le> 0 then (n2, j2', c1)
               else case bar_loop m info rest rest_len (s + j2') (s_len - j2') bi 0 0 c1 of
                 (r, c2) \<Rightarrow> (r, if r \<ge> 0 then j2' + r else nj, c2)) of
           (n2', nj', c2) \<Rightarrow>
           if nj' > j \<and> non_greedy then (n1, n2', nj', c2)
           else if n1 > 0 then
             star_loop m info re step rest rest_len s s_len bi non_greedy j j2' nj' n2' c2
           else (n1, n2', nj', c2))"
| "cap_loop m info re re_len s s_len bi j2 n c =
    (if j2 > s_len then (n, c)
     else
       case doh_loop m info s (s_len - j2) bi 0 c of (n', c1) \<Rightarrow>
         if n' \<ge> 0 then
           case bar_loop m info re re_len (s + n') (s_len - n') bi 0 0 c1 of (r, c2) \<Rightarrow>
             if r \<ge> 0 then (n', c2)
             else cap_loop m info re re_len s s_len bi (j2 + 1) n' c2
         else cap_loop m info re re_len s s_len bi (j2 + 1) n' c1)"
| "doh_loop m info s s_len bi i c =
    (case bar_loop m info (branch_start info bi i) (branch_len info bi i) s s_len bi 0 0 c of (result, c1) \<Rightarrow>
       if result \<le> 0 \<and> i < b_num_branches (brackets info bi) then doh_loop m info s s_len bi (i + 1) c1
       else (result, c1))"
  by pat_completeness auto

termination
proof -
  have past_end: "0 \<le> s_len"
    if "bar_loop_star_loop_cap_loop_doh_loop_dom (Inl (Inl (m, info, re, re_len, s, s_len, bi, 0, 0, c)))"
      and "(n, c') = bar_loop m info re re_len s s_len bi 0 0 c" and "0 < n"
    for m info re re_len s s_len bi c n c'
    using that by (cases "0 \<le> s_len") (auto simp: bar_loop.psimps)
  show ?thesis
    apply (relation "measures
      [case_sum (case_sum (\<lambda>(m, info, re, re_len, s, s_len, bi, i, j, c). nat (num_brackets info - bi))
         (\<lambda>(m, info, re, step, rest, rest_len, s, s_len, bi, g, j, j2, nj, n2, c). nat (num_brackets info - bi)))
        (case_sum (\<lambda>(m, info, re, re_len, s, s_len, bi, j2, n, c). nat (num_brackets info - bi))
         (\<lambda>(m, info, s, s_len, bi, i, c). nat (num_brackets info - bi))),
       case_sum (case_sum (\<lambda>_. 0) (\<lambda>_. 0)) (case_sum (\<lambda>_. 2) (\<lambda>_. 1)),
       case_sum (case_sum (\<lambda>(m, info, re, re_len, s, s_len, bi, i, j, c). nat (re_len - i))
         (\<lambda>(m, info, re, step, rest, rest_len, s, s_len, bi, g, j, j2, nj, n2, c). Suc (max (nat step) (nat rest_len))))
        (case_sum (\<lambda>(m, info, re, re_len, s, s_len, bi, j2, n, c). nat (s_len + 1 - j2))
         (\<lambda>(m, info, s, s_len, bi, i, c). nat (b_num_branches (brackets info bi) - i))),
       case_sum (case_sum (\<lambda>(m, info, re, re_len, s, s_len, bi, i, j, c). nat (s_len + 3 - j))
         (\<lambda>(m, info, re, step, rest, rest_len, s, s_len, bi, g, j, j2, nj, n2, c). nat (s_len + 2 - j2)))
        (case_sum (\<lambda>_. 0) (\<lambda>_. 0))]")
    apply (simp_all split: if_splits)
          apply (auto simp: max_def dest!: quantified_less)[5]
     apply (auto dest!: past_end)
    done
qed

declare bar_loop.simps [simp del] star_loop.simps [simp del] cap_loop.simps [simp del]
  doh_loop.simps [simp del] set_loop.simps [simp del] match_set_loop.simps [simp del]

lemmas matcher_induct = bar_loop_star_loop_cap_loop_doh_loop.induct

definition bar :: "bytes \<Rightarrow> int \<Rightarrow> int \<Rightarrow> int \<Rightarrow> int \<Rightarrow> regex_info \<Rightarrow> int \<Rightarrow> caps_array \<Rightarrow> int \<times> caps_array" where
  "bar m re re_len s s_len info bi c = bar_loop m info re re_len s s_len bi 0 0 c"

definition doh :: "bytes \<Rightarrow> int \<Rightarrow> int \<Rightarrow> regex_info \<Rightarrow> int \<Rightarrow> caps_array \<Rightarrow> int \<times> caps_array" where
  "doh m s s_len info bi c = doh_loop m info s s_len bi 0 c"

function baz_loop :: "bytes \<Rightarrow> int \<Rightarrow> int \<Rightarrow> regex_info \<Rightarrow> bool \<Rightarrow> int \<Rightarrow> int \<Rightarrow> caps_array \<Rightarrow> int \<times> caps_array" where
  "baz_loop m s s_len info is_anchored i result c =
    (if i \<le> s_len then
       case doh m (s + i) (s_len - i) info 0 c of (result', c1) \<Rightarrow>
         if result' \<ge> 0 then (result' + i, c1)
         else if is_anchored then (result', c1)
         else baz_loop m s s_len info is_anchored (i + 1) result' c1
     else (result, c))"
  by pat_completeness auto
termination
  by (relation "measure (\<lambda>(m, s, s_len, info, a, i, result, c). nat (s_len + 1 - i))") auto

declare baz_loop.simps [simp del]

definition baz :: "bytes \<Rightarrow> int \<Rightarrow> int \<Rightarrow> regex_info \<Rightarrow> int \<times> caps_array" where
  "baz m s s_len info =
    baz_loop m s s_len info (m (b_ptr (brackets info 0)) = CHR ''^'') 0 (- 1) (caps info)"

function sort_inner :: "int \<Rightarrow> int \<Rightarrow> regex_info \<Rightarrow> regex_info" where
  "sort_inner i j info =
    (if j < num_branches info then
       sort_inner i (j + 1)
         (if bracket_index (branches info i) > bracket_index (branches info j) then
            info\<lparr>branches := (branches info)(i := branches info j, j := branches info i)\<rparr>
          else info)
     else info)"
  by pat_completeness auto
termination
  by (relation "measure (\<lambda>(i, j, info). nat (num_branches info - j))") auto

declare sort_inner.simps [simp del]

lemma num_branches_sort_inner [simp]: "num_branches (sort_inner i j info) = num_branches info"
  by (induction i j info rule: sort_inner.induct) (subst sort_inner.simps, simp)

function sort_outer :: "int \<Rightarrow> regex_info \<Rightarrow> regex_info" where
  "sort_outer i info =
    (if i < num_branches info then sort_outer (i + 1) (sort_inner i (i + 1) info) else info)"
  by pat_completeness auto
termination
  by (relation "measure (\<lambda>(i, info). nat (num_branches info - i))") auto

declare sort_outer.simps [simp del]

function count_branches :: "int \<Rightarrow> int \<Rightarrow> regex_info \<Rightarrow> int \<times> regex_info" where
  "count_branches i j info =
    (if j < num_branches info \<and> bracket_index (branches info j) = i then
       count_branches i (j + 1)
         (info\<lparr>brackets := (brackets info)(i := (brackets info i)
            \<lparr>b_num_branches := b_num_branches (brackets info i) + 1\<rparr>)\<rparr>)
     else (j, info))"
  by pat_completeness auto
termination
  by (relation "measure (\<lambda>(i, j, info). nat (num_branches info - j))") auto

declare count_branches.simps [simp del]

lemma num_brackets_count_branches [simp]:
  "num_brackets (snd (count_branches i j info)) = num_brackets info"
  by (induction i j info rule: count_branches.induct) (subst count_branches.simps, simp)

function assign_branches :: "int \<Rightarrow> int \<Rightarrow> regex_info \<Rightarrow> regex_info" where
  "assign_branches i j info =
    (if i < num_brackets info then
       let r = count_branches i j
                 (info\<lparr>brackets := (brackets info)(i := (brackets info i)
                    \<lparr>b_num_branches := 0, b_branches := j\<rparr>)\<rparr>)
       in assign_branches (i + 1) (fst r) (snd r)
     else info)"
  by pat_completeness auto
termination
  by (relation "measure (\<lambda>(i, j, info). nat (num_brackets info - i))") (auto simp: split_beta)

declare assign_branches.simps [simp del]

definition setup_branch_points :: "regex_info \<Rightarrow> regex_info" where
  "setup_branch_points info = assign_branches 0 0 (sort_outer 0 info)"

definition last_open :: "regex_info \<Rightarrow> int \<Rightarrow> int" where
  "last_open info depth =
    (if b_len (brackets info (num_brackets info - 1)) = - 1 then num_brackets info - 1 else depth)"

definition foo_step :: "bytes \<Rightarrow> int \<Rightarrow> int \<Rightarrow> int \<Rightarrow> int \<Rightarrow> regex_info \<Rightarrow> int + int \<times> regex_info" where
  "foo_step m re re_len i depth info =
    (if m (re + i) = CHR ''|'' then
       if num_branches info \<ge> MAX_BRANCHES then Inl SLRE_TOO_MANY_BRANCHES
       else Inr (depth, info\<lparr>branches := (branches info)(num_branches info :=
                \<lparr>bracket_index = last_open info depth, schlong = re + i\<rparr>),
              num_branches := num_branches info + 1\<rparr>)
     else if m (re + i) = CHR 0x5C then
       if i \<ge> re_len - 1 then Inl SLRE_INVALID_METACHARACTER
       else if m (re + i + 1) = CHR ''x'' then
         if i \<ge> re_len - 3 then Inl SLRE_INVALID_METACHARACTER
         else if \<not> (isxdigit (schar (m (re + i + 2))) \<and> isxdigit (schar (m (re + i + 3))))
         then Inl SLRE_INVALID_METACHARACTER
         else Inr (depth, info)
       else if \<not> is_metacharacter m (re + i + 1) then Inl SLRE_INVALID_METACHARACTER
       else Inr (depth, info)
     else if m (re + i) = CHR ''('' then
       if num_brackets info \<ge> MAX_BRACKETS then Inl SLRE_TOO_MANY_BRACKETS
       else
         let info1 = info\<lparr>brackets := (brackets info)(num_brackets info :=
                  (brackets info (num_brackets info))\<lparr>b_ptr := re + i + 1, b_len := - 1\<rparr>),
                num_brackets := num_brackets info + 1\<rparr>
         in if num_caps info1 > 0 \<and> num_brackets info1 - 1 > num_caps info1
            then Inl SLRE_CAPS_ARRAY_TOO_SMALL
            else Inr (depth + 1, info1)
     else if m (re + i) = CHR '')'' then
       let ind = last_open info depth;
           info1 = info\<lparr>brackets := (brackets info)(ind := (brackets info ind)
                  \<lparr>b_len := re + i - b_ptr (brackets info ind)\<rparr>)\<rparr>
       in if depth - 1 < 0 then Inl SLRE_UNBALANCED_BRACKETS
          else if i > 0 \<and> m (re + i - 1) = CHR ''('' then Inl SLRE_NO_MATCH
          else Inr (depth - 1, info1)
     else Inr (depth, info))"

partial_function (option) foo_scan ::
  "bytes \<Rightarrow> int \<Rightarrow> int \<Rightarrow> int \<Rightarrow> int \<Rightarrow> regex_info \<Rightarrow> (int + int \<times> regex_info) option" where
  "foo_scan m re re_len i depth info =
    (if i < re_len then
       case foo_step m re re_len i depth info of
         Inl e \<Rightarrow> Some (Inl e)
       | Inr (depth', info') \<Rightarrow>
           foo_scan m re re_len (i + get_op_len m (re + i) (re_len - i)) depth' info'
     else Some (Inr (depth, info)))"

definition foo :: "bytes \<Rightarrow> int \<Rightarrow> int \<Rightarrow> int \<Rightarrow> int \<Rightarrow> regex_info \<Rightarrow> (int \<times> caps_array) option" where
  "foo m re re_len s s_len info =
    (let info1 = info\<lparr>brackets := (brackets info)(0 := (brackets info 0)\<lparr>b_ptr := re, b_len := re_len\<rparr>),
                 num_brackets := 1\<rparr>
     in case foo_scan m re re_len 0 0 info1 of
          None \<Rightarrow> None
        | Some (Inl e) \<Rightarrow> Some (e, caps info)
        | Some (Inr (depth, info2)) \<Rightarrow>
            Some (if depth \<noteq> 0 then (SLRE_UNBALANCED_BRACKETS, caps info)
                  else baz m s s_len (setup_branch_points info2)))"

partial_function (option) strlen :: "bytes \<Rightarrow> int \<Rightarrow> int \<Rightarrow> int option" where
  "strlen m p n = (if m (p + n) = CHR 0x00 then Some n else strlen m p (n + 1))"

definition slre_match :: "regex_info \<Rightarrow> bytes \<Rightarrow> int \<Rightarrow> int \<Rightarrow> int \<Rightarrow> caps_array \<Rightarrow> int \<Rightarrow> int
    \<Rightarrow> (int \<times> caps_array) option" where
  "slre_match info0 m regexp s s_len cs n fl =
    (let info = info0\<lparr>flags := fl, num_brackets := 0, num_branches := 0, num_caps := n, caps := cs\<rparr>
     in case strlen m regexp 0 of
          None \<Rightarrow> None
        | Some re_len \<Rightarrow> foo m regexp re_len s s_len info)"

declare foo_scan.simps [code] strlen.simps [code]

end
