(* ===== verification/SlreSpec.thy ===== *)
theory SlreSpec
  imports Slre
begin

text \<open>
  Properties of the regular expression library: when a match returns, that matches and captures lie
  in the text, and what a pattern of ordinary characters finds.
\<close>

section \<open>Termination\<close>

text \<open>The scan of the pattern moves on at every character if no set runs past the end.\<close>

definition sets_closed :: "bytes \<Rightarrow> int \<Rightarrow> int \<Rightarrow> bool" where
  "sets_closed m re re_len = list_all (\<lambda>k. 0 < get_op_len m (re + k) (re_len - k)) [0..re_len - 1]"

lemma sets_closedD: "sets_closed m re re_len \<Longrightarrow> 0 \<le> k \<Longrightarrow> k < re_len \<Longrightarrow> 0 < get_op_len m (re + k) (re_len - k)"
  by (simp add: sets_closed_def list_all_iff)

lemma foo_scan_returns:
  assumes "sets_closed m re re_len" "0 \<le> i"
  shows "\<exists>r. foo_scan m re re_len i depth info = Some r"
  using assms(2)
proof (induction "nat (re_len - i)" arbitrary: i depth info rule: less_induct)
  case less
  show ?case
  proof (cases "i < re_len")
    case True
    let ?i = "i + get_op_len m (re + i) (re_len - i)"
    have pos: "0 < get_op_len m (re + i) (re_len - i)"
      using sets_closedD [OF assms(1) less.prems True] .
    have "\<exists>r. foo_scan m re re_len ?i d f = Some r" for d f
      using less.hyps [of ?i d f] pos True less.prems by simp
    then show ?thesis
      by (subst foo_scan.simps) (auto simp: True split: sum.split)
  qed (simp add: foo_scan.simps)
qed

text \<open>A set that runs past the end of the pattern makes the scan loop in one place.\<close>

lemma foo_scan_stuck:
  assumes "i < re_len" "m (re + i) = CHR ''[''" "get_op_len m (re + i) (re_len - i) = 0"
  shows "foo_scan m re re_len i depth info = None"
proof -
  have "foo_scan m' re' re_len' i' depth' info' = Some r \<Longrightarrow>
      \<not> (i' < re_len' \<and> m' (re' + i') = CHR ''['' \<and> get_op_len m' (re' + i') (re_len' - i') = 0)"
    for m' re' re_len' i' depth' info' r
  proof (induction rule: foo_scan.raw_induct [rotated 1, consumes 1])
    case (1 foo_scan m re re_len i depth info r)
    have "foo_step m re re_len i depth info = Inr (depth, info)" if "m (re + i) = CHR ''[''"
      using that by (simp add: foo_step_def)
    then show ?case using 1 by (auto split: if_splits)
  qed
  then show ?thesis using assms by (cases "foo_scan m re re_len i depth info") auto
qed

lemma slre_match_stuck:
  assumes "m re = CHR ''[''" "m (re + 1) = CHR 0x5C" "m (re + 2) = CHR 0x00"
  shows "slre_match info0 m re s s_len cs n fl = None"
proof -
  have "strlen m re 0 = Some 2"
    using assms by (simp add: strlen.simps)
  moreover have "get_op_len m (re + 0) (2 - 0) = 0"
    using assms by (simp add: get_op_len_def set_len_def set_loop.simps op_len_def)
  then have "foo_scan m re 2 0 0 info = None" for info
    using foo_scan_stuck [of 0 2 m re] assms(1) by simp
  ultimately show ?thesis
    by (simp add: slre_match_def foo_def Let_def)
qed

text \<open>
  C29: Termination. A call of \<open>slre_match\<close> returns, for every text, every flag and every contents
  of the uninitialised bracket array, when the pattern is a C string in which no set runs past the
  end. The matcher itself needs no such condition: \<open>bar\<close> and \<open>doh\<close> are total.
\<close>

theorem slre_match_terminates:
  assumes "strlen m regexp 0 = Some re_len" "sets_closed m regexp re_len"
  shows "\<exists>r c. slre_match info0 m regexp s s_len cs n fl = Some (r, c)"
proof -
  have "\<exists>r. foo_scan m regexp re_len 0 0 info = Some r" for info
    using foo_scan_returns [OF assms(2)] by simp
  then show ?thesis
    by (auto simp: slre_match_def foo_def Let_def assms(1) split: option.split sum.split)
qed

definition text_at :: "int \<Rightarrow> string \<Rightarrow> int \<Rightarrow> string \<Rightarrow> bytes" where
  "text_at p xs q ys a =
    (if p \<le> a \<and> a < p + int (length xs) then xs ! nat (a - p)
     else if q \<le> a \<and> a < q + int (length ys) then ys ! nat (a - q) else CHR 0x00)"

definition no_info :: regex_info where
  "no_info = \<lparr>brackets = \<lambda>_. \<lparr>b_ptr = 0, b_len = 0, b_branches = 0, b_num_branches = 0\<rparr>, num_brackets = 0,
     branches = \<lambda>_. \<lparr>bracket_index = 0, schlong = 0\<rparr>, num_branches = 0, caps = None, num_caps = 0, flags = 0\<rparr>"

theorem slre_match_terminates_witness:
  "\<exists>r c. slre_match no_info (text_at 0 ''(a|b)*c'' 100 ''abbc'') 0 100 4 None 0 0 = Some (r, c)"
proof (rule slre_match_terminates)
  show "strlen (text_at 0 ''(a|b)*c'' 100 ''abbc'') 0 0 = Some 7"
    by code_simp
  show "sets_closed (text_at 0 ''(a|b)*c'' 100 ''abbc'') 0 7"
    by code_simp
qed

section \<open>Matches and captures lie in the text\<close>

definition cap_in :: "int \<Rightarrow> int \<Rightarrow> slre_cap \<Rightarrow> slre_cap \<Rightarrow> bool" where
  "cap_in lo hi x y \<longleftrightarrow> y = x \<or> lo \<le> c_ptr y \<and> 0 \<le> c_len y \<and> c_ptr y + c_len y \<le> hi"

fun caps_in :: "int \<Rightarrow> int \<Rightarrow> caps_array \<Rightarrow> caps_array \<Rightarrow> bool" where
  "caps_in lo hi (Some a) (Some b) \<longleftrightarrow> (\<forall>k. cap_in lo hi (a k) (b k))"
| "caps_in lo hi None None \<longleftrightarrow> True"
| "caps_in lo hi _ _ \<longleftrightarrow> False"

lemma caps_in_refl [simp]: "caps_in lo hi c c"
  by (cases c) (simp_all add: cap_in_def)

lemma caps_in_seq:
  assumes "caps_in lo hi c c1" "caps_in lo' hi' c1 c2" "lo \<le> lo'" "hi' \<le> hi"
  shows "caps_in lo hi c c2"
proof -
  have "cap_in lo hi x z" if "cap_in lo hi x y" "cap_in lo' hi' y z" for x y z
    using that assms(3,4) by (auto simp: cap_in_def)
  then show ?thesis
    using assms(1,2) by (cases c; cases c1; cases c2; simp) blast
qed

lemma caps_in_set_cap:
  "caps_in lo hi c0 c \<Longrightarrow> lo \<le> p \<Longrightarrow> 0 \<le> n \<Longrightarrow> p + n \<le> hi \<Longrightarrow> caps_in lo hi c0 (set_cap k p n c)"
  by (cases c0; cases c) (auto simp: set_cap_def cap_in_def)

lemma match_set_cases: "match_set m re re_len s info = 1 \<or> match_set m re re_len s info = - 1"
  by (simp add: match_set_def Let_def)

lemma if_mem: "x \<in> S \<Longrightarrow> y \<in> S \<Longrightarrow> (if b then x else y) \<in> S"
  by simp

lemma match_op_range: "match_op m re s info \<in> {- 4..1}"
  unfolding match_op_def fail_unless_def Let_def by (intro if_mem) (simp_all add: slre_codes)

definition match_in :: "int \<Rightarrow> int \<Rightarrow> caps_array \<Rightarrow> int \<times> caps_array \<Rightarrow> bool" where
  "match_in s s_len c r \<longleftrightarrow> - 9 \<le> fst r \<and> fst r \<le> s_len + 1 \<and> caps_in s (s + s_len + 1) c (snd r)"

lemma match_in_caps: "match_in s s_len c (n, c1) \<Longrightarrow> caps_in s (s + s_len + 1) c c1"
  by (simp add: match_in_def)

lemma match_in_seq:
  "caps_in s (s + s_len + 1) c c1 \<Longrightarrow> match_in s s_len c1 r \<Longrightarrow> match_in s s_len c r"
  by (auto simp: match_in_def elim: caps_in_seq)

lemma match_in_shift:
  assumes "match_in (s + j) l c (n, c1)" "0 \<le> j" "l \<le> s_len - j"
  shows "- 9 \<le> n" "n \<le> l + 1" "caps_in s (s + s_len + 1) c c1"
  using assms caps_in_seq [of s "s + s_len + 1" c c "s + j" "s + j + l + 1" c1] by (auto simp: match_in_def)

lemma match_in_error: "- 9 \<le> n \<Longrightarrow> n < 0 \<Longrightarrow> - 1 \<le> s_len \<Longrightarrow> caps_in s (s + s_len + 1) c c1 \<Longrightarrow> match_in s s_len c (n, c1)"
  by (simp add: match_in_def)

text \<open>The branches of the loop in \<open>bar\<close>.\<close>

lemma bar_out: "\<not> (i < re_len \<and> j \<le> s_len) \<Longrightarrow> bar_loop m info re re_len s s_len bi i j c = (j, c)"
  by (subst bar_loop.simps) simp

lemma bar_quantifier:
  "i < re_len \<Longrightarrow> j \<le> s_len \<Longrightarrow> is_quantifier m (re + i) \<Longrightarrow>
   bar_loop m info re re_len s s_len bi i j c = (SLRE_UNEXPECTED_QUANTIFIER, c)"
  by (subst bar_loop.simps) (simp add: Let_def)

lemma bar_bad_set:
  "i < re_len \<Longrightarrow> j \<le> s_len \<Longrightarrow> \<not> is_quantifier m (re + i) \<Longrightarrow> chunk_len m info re re_len bi i \<le> 0 \<Longrightarrow>
   bar_loop m info re re_len s s_len bi i j c = (SLRE_INVALID_CHARACTER_SET, c)"
  by (subst bar_loop.simps) (simp add: Let_def)

lemma bar_option:
  assumes "i < re_len" "j \<le> s_len" "\<not> is_quantifier m (re + i)" "chunk_len m info re re_len bi i = x"
    "\<not> x \<le> 0" "quantified m re re_len (i + x)" "m (re + i + x) = CHR ''?''"
    "bar_loop m info (re + i) x (s + j) (s_len - j) bi 0 0 c = (r, c1)"
  shows "bar_loop m info re re_len s s_len bi i j c =
    bar_loop m info re re_len s s_len bi (i + 1 + x) (if r > 0 then j + r else j) c1"
  using assms by (subst bar_loop.simps) (simp add: Let_def)

lemma bar_star:
  assumes "i < re_len" "j \<le> s_len" "\<not> is_quantifier m (re + i)" "chunk_len m info re re_len bi i = x"
    "\<not> x \<le> 0" "quantified m re re_len (i + x)" "m (re + i + x) \<noteq> CHR ''?''"
    "lazy m re re_len (i + x + 1) = g" "(if g then i + x + 2 else i + x + 1) = ni"
    "star_loop m info (re + i) x (re + ni) (re_len - ni) s s_len bi g j j j (- 1) c = (n1, n2, nj, c1)"
    "(if n1 < 0 \<and> m (re + i + x) = CHR ''*'' then
        case bar_loop m info (re + ni) (re_len - ni) (s + j) (s_len - j) bi 0 0 c1 of
          (r, c2) \<Rightarrow> (r, if r > 0 then j + r else nj, c2)
      else (n2, nj, c1)) = (n2', nj', c2)"
  shows "bar_loop m info re re_len s s_len bi i j c =
    (if m (re + i + x) = CHR ''+'' \<and> nj' = j \<or> nj' = j \<and> ni < re_len \<and> n2' < 0 then SLRE_NO_MATCH else nj', c2)"
  using assms(1-3,5-7)
  by (subst bar_loop.simps) (simp only: Let_def if_False if_True assms simp_thms prod.case if_cancel, simp)

lemma bar_set:
  assumes "i < re_len" "j \<le> s_len" "chunk_len m info re re_len bi i = x" "\<not> x \<le> 0"
    "\<not> quantified m re re_len (i + x)" "m (re + i) = CHR ''[''"
    "match_set m (re + i + 1) (re_len - (i + 2)) (s + j) info = n"
  shows "bar_loop m info re re_len s s_len bi i j c =
    (if n \<le> 0 then (SLRE_NO_MATCH, c) else bar_loop m info re re_len s s_len bi (i + x) (j + n) c)"
  using assms by (subst bar_loop.simps) (simp add: is_quantifier_def Let_def)

lemma bar_group:
  assumes "i < re_len" "j \<le> s_len" "chunk_len m info re re_len bi i = x" "\<not> x \<le> 0"
    "\<not> quantified m re re_len (i + x)" "m (re + i) = CHR ''(''"
    "(if re_len - (i + x) \<le> 0 then doh_loop m info (s + j) (s_len - j) (bi + 1) 0 c
      else cap_loop m info (re + i + x) (re_len - (i + x)) (s + j) (s_len - j) (bi + 1) 0 SLRE_NO_MATCH c) = (n, c1)"
  shows "bar_loop m info re re_len s s_len bi i j c =
    (if bi + 1 \<ge> num_brackets info then (SLRE_INTERNAL_ERROR, c)
     else if n < 0 then (n, c1)
     else bar_loop m info re re_len s s_len (bi + 1) (i + x) (j + n) (set_cap bi (s + j) n c1))"
  using assms(1-6) by (subst bar_loop.simps) (simp add: is_quantifier_def Let_def assms(7) del: diff_le_0_iff_le)

lemma bar_simple:
  assumes "i < re_len" "j \<le> s_len" "chunk_len m info re re_len bi i = x" "\<not> x \<le> 0"
    "\<not> is_quantifier m (re + i)" "\<not> quantified m re re_len (i + x)"
    "m (re + i) \<noteq> CHR ''[''" "m (re + i) \<noteq> CHR ''(''"
  shows "bar_loop m info re re_len s s_len bi i j c =
    (if m (re + i) = CHR ''^'' then
       if j \<noteq> 0 then (SLRE_NO_MATCH, c) else bar_loop m info re re_len s s_len bi (i + x) j c
     else if m (re + i) = CHR ''$'' then
       if j \<noteq> s_len then (SLRE_NO_MATCH, c) else bar_loop m info re re_len s s_len bi (i + x) j c
     else if j \<ge> s_len then (SLRE_NO_MATCH, c)
     else if match_op m (re + i) (s + j) info \<le> 0 then (match_op m (re + i) (s + j) info, c)
     else bar_loop m info re re_len s s_len bi (i + x) (j + match_op m (re + i) (s + j) info) c)"
  using assms by (subst bar_loop.simps) (simp add: Let_def)

text \<open>
  The four functions of the matcher, one after the other: each keeps the bound if the calls it makes
  do.
\<close>

lemma matcher_in:
  "0 \<le> j \<Longrightarrow> j \<le> s_len + 1 \<Longrightarrow>
    match_in s s_len c (bar_loop m info re re_len s s_len bi i j c)"
  "0 \<le> j \<Longrightarrow> j \<le> s_len \<Longrightarrow> j \<le> j2 \<Longrightarrow> j2 \<le> s_len + 1 \<Longrightarrow> j \<le> nj \<Longrightarrow> nj \<le> s_len + 1 \<Longrightarrow>
    (case star_loop m info re step rest rest_len s s_len bi g j j2 nj n2 c of
       (n1, n2', nj', c') \<Rightarrow> j \<le> nj' \<and> match_in s s_len c (nj', c'))"
  "0 \<le> s_len \<Longrightarrow> 0 \<le> j2 \<Longrightarrow> - 9 \<le> n \<Longrightarrow> n \<le> s_len + 1 \<Longrightarrow>
    match_in s s_len c (cap_loop m info re re_len s s_len bi j2 n c)"
  "0 \<le> s_len \<Longrightarrow> match_in s s_len c (doh_loop m info s s_len bi k c)"
proof (induction m info re re_len s s_len bi i j c and m info re step rest rest_len s s_len bi g j j2 nj n2 c
    and m info re re_len s s_len bi j2 n c and m info s s_len bi k c rule: matcher_induct)
  case (1 m info re re_len s s_len bi i j c)
  define x where "x = chunk_len m info re re_len bi i"
  consider (stop) "\<not> (i < re_len \<and> j \<le> s_len)"
    | (err) "i < re_len" "j \<le> s_len" "is_quantifier m (re + i) \<or> x \<le> 0"
    | (opt) "i < re_len" "j \<le> s_len" "\<not> is_quantifier m (re + i)" "\<not> x \<le> 0"
        "quantified m re re_len (i + x)" "m (re + i + x) = CHR ''?''"
    | (rep) "i < re_len" "j \<le> s_len" "\<not> is_quantifier m (re + i)" "\<not> x \<le> 0"
        "quantified m re re_len (i + x)" "m (re + i + x) \<noteq> CHR ''?''"
    | (grp) "i < re_len" "j \<le> s_len" "\<not> is_quantifier m (re + i)" "\<not> x \<le> 0"
        "\<not> quantified m re re_len (i + x)" "m (re + i) = CHR ''(''"
    | (rest) "i < re_len" "j \<le> s_len" "\<not> is_quantifier m (re + i)" "\<not> x \<le> 0"
        "\<not> quantified m re re_len (i + x)" "m (re + i) \<noteq> CHR ''(''"
    by blast
  then show ?case
  proof cases
    case stop
    then show ?thesis using "1.prems" by (simp add: bar_out match_in_def)
  next
    case err
    then show ?thesis using "1.prems"
      by (cases "is_quantifier m (re + i)")
         (simp_all add: bar_quantifier bar_bad_set x_def match_in_def slre_codes)
  next
    case opt
    have in_loop: "\<not> \<not> (i < re_len \<and> j \<le> s_len)" using opt by simp
    obtain r c1 where b: "bar_loop m info (re + i) x (s + j) (s_len - j) bi 0 0 c = (r, c1)" by force
    have "match_in (s + j) (s_len - j) c (r, c1)"
      using "1.IH"(1) [OF in_loop x_def opt(3-6)] opt by (simp add: b)
    note B = match_in_shift [OF this, of s_len]
    have "match_in s s_len c1 (bar_loop m info re re_len s s_len bi (i + 1 + x) (if r > 0 then j + r else j) c1)"
      using "1.IH"(2) [OF in_loop x_def opt(3-6) b [symmetric]] B "1.prems" opt by simp
    then show ?thesis
      using bar_option [OF opt(1-3) x_def [symmetric] opt(4-6) b] match_in_seq [of s s_len c c1] B(3) "1.prems" by simp
  next
    case rep
    have in_loop: "\<not> \<not> (i < re_len \<and> j \<le> s_len)" using rep by simp
    define g where "g = lazy m re re_len (i + x + 1)"
    define ni where "ni = (if g then i + x + 2 else i + x + 1)"
    obtain n1 n2 nj c1 where S:
      "star_loop m info (re + i) x (re + ni) (re_len - ni) s s_len bi g j j j (- 1) c = (n1, n2, nj, c1)"
      by (rule prod_cases4)
    obtain r c2 where b: "bar_loop m info (re + ni) (re_len - ni) (s + j) (s_len - j) bi 0 0 c1 = (r, c2)" by force
    have I: "j \<le> nj" "match_in s s_len c (nj, c1)"
      using "1.IH"(3) [OF in_loop x_def rep(3-6) g_def ni_def] rep "1.prems" by (simp_all add: S)
    have "match_in (s + j) (s_len - j) c1 (r, c2)" if "n1 < 0 \<and> m (re + i + x) = CHR ''*''"
      using "1.IH"(4) [OF in_loop x_def rep(3-6) g_def ni_def S [symmetric] refl refl that] rep by (simp add: b)
    note B = match_in_shift [OF this, of s_len]
    note eqs = rep(1-3) x_def [symmetric] rep(4-6) g_def [symmetric] ni_def [symmetric] S
    show ?thesis
    proof (cases "n1 < 0 \<and> m (re + i + x) = CHR ''*''")
      case True
      have "caps_in s (s + s_len + 1) c c2"
        using match_in_caps [OF I(2)] B(3) [OF True] "1.prems" by (auto elim: caps_in_seq)
      then show ?thesis
        using bar_star [OF eqs, of r "if r > 0 then j + r else nj" c2] True I B(2) [OF True] "1.prems" rep(2)
        by (simp add: b match_in_def slre_codes)
    next
      case False
      show ?thesis
        using bar_star [OF eqs, of n2 nj c1] False I "1.prems" rep(2) by (simp add: match_in_def slre_codes)
    qed
  next
    case grp
    have in_loop: "\<not> \<not> (i < re_len \<and> j \<le> s_len)" using grp by simp
    have ne: "m (re + i) \<noteq> CHR ''[''" using grp by simp
    obtain n c1 where b: "(if re_len - (i + x) \<le> 0 then doh_loop m info (s + j) (s_len - j) (bi + 1) 0 c
        else cap_loop m info (re + i + x) (re_len - (i + x)) (s + j) (s_len - j) (bi + 1) 0 SLRE_NO_MATCH c) = (n, c1)"
      by force
    have "match_in (s + j) (s_len - j) c (n, c1)" if nb: "\<not> num_brackets info \<le> bi + 1"
      using "1.IH"(6) [OF in_loop x_def grp(3-5) ne grp(6) nb] "1.IH"(7) [OF in_loop x_def grp(3-5) ne grp(6) nb] b grp
      by (cases "re_len - (i + x) \<le> 0") (simp_all add: slre_codes)
    note B = match_in_shift [OF this, of s_len]
    have "match_in s s_len (set_cap bi (s + j) n c1)
        (bar_loop m info re re_len s s_len (bi + 1) (i + x) (j + n) (set_cap bi (s + j) n c1))"
      if nb: "\<not> num_brackets info \<le> bi + 1" and "\<not> n < 0"
      using "1.IH"(8) [OF in_loop x_def grp(3-5) ne grp(6) nb b [symmetric] that(2)] B(2) [OF nb] that "1.prems" by simp
    moreover have "caps_in s (s + s_len + 1) c (set_cap bi (s + j) n c1)"
      if nb: "\<not> num_brackets info \<le> bi + 1" and "\<not> n < 0"
      using B(2,3) [OF nb] that "1.prems" by (intro caps_in_set_cap) simp_all
    ultimately show ?thesis
      using bar_group [OF grp(1,2) x_def [symmetric] grp(4-6) b] B "1.prems" grp(2)
        match_in_seq [of s s_len c "set_cap bi (s + j) n c1"]
      by (simp add: match_in_error slre_codes)
  next
    case rest
    have in_loop: "\<not> \<not> (i < re_len \<and> j \<le> s_len)" using rest by simp
    show ?thesis
    proof (cases "m (re + i) = CHR ''[''")
      case True
      define n where "n = match_set m (re + i + 1) (re_len - (i + 2)) (s + j) info"
      have "match_in s s_len c (bar_loop m info re re_len s s_len bi (i + x) (j + n) c)" if "\<not> n \<le> 0"
        using "1.IH"(5) [OF in_loop x_def rest(3-5) True n_def that] match_set_cases
          [of m "re + i + 1" "re_len - (i + 2)" "s + j" info] that "1.prems" rest(2) by (simp add: n_def [symmetric])
      then show ?thesis
        using bar_set [OF rest(1,2) x_def [symmetric] rest(4,5) True n_def [symmetric]] rest(2) "1.prems"
        by (simp add: match_in_error slre_codes)
    next
      case False
      note ih = "1.IH"(9-11) [OF in_loop x_def rest(3-5) False rest(6)]
      define n where "n = match_op m (re + i) (s + j) info"
      have n: "- 4 \<le> n" "n \<le> 1" using match_op_range [of m "re + i" "s + j" info] by (simp_all add: n_def)
      have "match_in s s_len c (bar_loop m info re re_len s s_len bi (i + x) (j + n) c)"
        if "m (re + i) \<noteq> CHR ''^''" "m (re + i) \<noteq> CHR ''$''" "\<not> s_len \<le> j" "\<not> n \<le> 0"
        using ih(3) [OF that(1-3) n_def that(4)] n that "1.prems" by simp
      moreover have "match_in s s_len c (n, c)" if "n \<le> 0"
        using n that rest(2) "1.prems" by (simp add: match_in_def)
      moreover have "match_in s s_len c (SLRE_NO_MATCH, c)"
        using rest(2) "1.prems" by (simp add: match_in_def slre_codes)
      ultimately show ?thesis
        unfolding bar_simple [OF rest(1,2) x_def [symmetric] rest(4,3,5) False rest(6)] n_def [symmetric]
        using ih(1,2) "1.prems" rest(2) by (cases "m (re + i) = CHR ''^''"; cases "m (re + i) = CHR ''$''") auto
    qed
  qed
next
  case (2 m info re step rest rest_len s s_len bi g j j2 nj n2 c)
  obtain n1 c1 where b: "bar_loop m info re step (s + j2) (s_len - j2) bi 0 0 c = (n1, c1)" by force
  define j2' where "j2' = (if n1 > 0 then j2 + n1 else j2)"
  obtain n2' nj' c2 where r: "(if rest_len \<le> 0 then (n2, j2', c1)
      else case bar_loop m info rest rest_len (s + j2') (s_len - j2') bi 0 0 c1 of
        (r, c2) \<Rightarrow> (r, if r \<ge> 0 then j2' + r else nj, c2)) = (n2', nj', c2)"
    by (rule prod_cases3)
  have "match_in (s + j2) (s_len - j2) c (n1, c1)" using "2.IH"(1) "2.prems" by (simp add: b)
  note B = match_in_shift [OF this, of s_len]
  have j2': "j2 \<le> j2'" "j2' \<le> s_len + 1" using B(2) "2.prems" by (simp_all add: j2'_def)
  have R: "j \<le> nj' \<and> nj' \<le> s_len + 1 \<and> caps_in s (s + s_len + 1) c c2"
    if "\<not> (m (re + step) = CHR ''+'' \<and> n1 < 0)"
  proof (cases "rest_len \<le> 0")
    case True
    then show ?thesis using r j2' B(3) "2.prems" by simp
  next
    case False
    obtain q c3 where q: "bar_loop m info rest rest_len (s + j2') (s_len - j2') bi 0 0 c1 = (q, c3)" by force
    have "match_in (s + j2') (s_len - j2') c1 (q, c3)"
      using "2.IH"(2) [OF b [symmetric] j2'_def that False] j2' by (simp add: q)
    note Q = match_in_shift [OF this, of s_len]
    show ?thesis using r Q False j2' B(3) "2.prems" caps_in_seq [of s "s + s_len + 1" c c1] by (auto simp: q)
  qed
  have I: "case star_loop m info re step rest rest_len s s_len bi g j j2' nj' n2' c2 of
       (n1, n2', nj', c') \<Rightarrow> j \<le> nj' \<and> match_in s s_len c2 (nj', c')"
    if "\<not> (m (re + step) = CHR ''+'' \<and> n1 < 0)" "\<not> (nj' > j \<and> g)" "0 < n1"
    using "2.IH"(3) [OF b [symmetric] j2'_def that(1) r [symmetric] refl that(2,3)] R [OF that(1)] j2' "2.prems" by simp
  obtain N1 N2 NJ C where S: "star_loop m info re step rest rest_len s s_len bi g j j2' nj' n2' c2 = (N1, N2, NJ, C)"
    by (rule prod_cases4)
  have U: "star_loop m info re step rest rest_len s s_len bi g j j2 nj n2 c =
    (if m (re + step) = CHR ''+'' \<and> n1 < 0 then (n1, n2, nj, c1)
     else if nj' > j \<and> g then (n1, n2', nj', c2)
     else if n1 > 0 then star_loop m info re step rest rest_len s s_len bi g j j2' nj' n2' c2
     else (n1, n2', nj', c2))"
    by (subst star_loop.simps) (simp only: Let_def b prod.case r flip: j2'_def)
  have P: "j \<le> NJ \<and> match_in s s_len c (NJ, C)"
    if "\<not> (m (re + step) = CHR ''+'' \<and> n1 < 0)" "\<not> (nj' > j \<and> g)" "0 < n1"
    using I [OF that] R [OF that(1)] match_in_seq [of s s_len c c2 "(NJ, C)"] by (simp add: S)
  have M: "match_in s s_len c (nj', c2)" if "\<not> (m (re + step) = CHR ''+'' \<and> n1 < 0)"
    using R [OF that] "2.prems" by (simp add: match_in_def)
  have Z: "match_in s s_len c (nj, c1)" using B(3) "2.prems" by (simp add: match_in_def)
  show ?case
    unfolding U S using P M R Z "2.prems" by (simp split: if_split)
next
  case (3 m info re re_len s s_len bi j2 n c)
  obtain n' c1 where d: "doh_loop m info s (s_len - j2) bi 0 c = (n', c1)" by force
  obtain r c2 where b: "bar_loop m info re re_len (s + n') (s_len - n') bi 0 0 c1 = (r, c2)" by force
  show ?case
  proof (cases "s_len < j2")
    case True
    then show ?thesis using "3.prems" by (subst cap_loop.simps) (simp add: match_in_def)
  next
    case False
    have D: "match_in s (s_len - j2) c (n', c1)" using "3.IH"(1) False by (simp add: d)
    have D': "- 9 \<le> n'" "n' \<le> s_len + 1" "caps_in s (s + s_len + 1) c c1"
      using match_in_shift [of s 0 "s_len - j2" c n' c1 s_len] D "3.prems" by simp_all
    have B: "match_in (s + n') (s_len - n') c1 (r, c2)" if "0 \<le> n'"
      using "3.IH"(2) [OF False d [symmetric] that] D' by (simp add: b)
    have C2: "caps_in s (s + s_len + 1) c c2" if "0 \<le> n'"
      using match_in_shift(3) [OF B [OF that] that, of s_len] D'(3) by (auto elim: caps_in_seq)
    have I: "match_in s s_len c2 (cap_loop m info re re_len s s_len bi (j2 + 1) n' c2)" if "0 \<le> n'" "r < 0"
      using "3.IH"(3) [OF False d [symmetric] that(1) b [symmetric]] that D' "3.prems" by simp
    have J: "match_in s s_len c1 (cap_loop m info re re_len s s_len bi (j2 + 1) n' c1)" if "n' < 0"
      using "3.IH"(4) [OF False d [symmetric]] that D' "3.prems" by simp
    show ?thesis
    proof (cases "0 \<le> n'")
      case n: True
      then show ?thesis
        using D' C2 [OF n] match_in_seq [OF C2 [OF n] I [OF n]] False
        by (subst cap_loop.simps) (simp add: d b match_in_def)
    next
      case n: False
      then have "match_in s s_len c (cap_loop m info re re_len s s_len bi (j2 + 1) n' c1)"
        using match_in_seq [OF D'(3) J] by simp
      then show ?thesis using n False by (subst cap_loop.simps) (simp add: d)
    qed
  qed
next
  case (4 m info s s_len bi k c)
  obtain r c1 where b: "bar_loop m info (branch_start info bi k) (branch_len info bi k) s s_len bi 0 0 c = (r, c1)"
    by force
  have B: "match_in s s_len c (r, c1)" using "4.IH"(1) "4.prems" by (simp add: b)
  have "match_in s s_len c (doh_loop m info s s_len bi (k + 1) c1)"
    if "r \<le> 0" "k < b_num_branches (brackets info bi)"
    using match_in_seq [OF match_in_caps [OF B] "4.IH"(2) [OF b [symmetric]]] that "4.prems" by simp
  then show ?case using B by (subst doh_loop.simps) (simp add: b)
qed

lemma baz_loop_in:
  "0 \<le> i \<Longrightarrow> - 9 \<le> r \<Longrightarrow> r \<le> s_len + 1 \<Longrightarrow> match_in s s_len c (baz_loop m s s_len info a i r c)"
proof (induction m s s_len info a i r c rule: baz_loop.induct)
  case (1 m s s_len info a i r c)
  obtain q c1 where d: "doh m (s + i) (s_len - i) info 0 c = (q, c1)" by force
  show ?case
  proof (cases "i \<le> s_len")
    case True
    have "match_in (s + i) (s_len - i) c (q, c1)"
      using matcher_in(4) [of "s_len - i" "s + i" c m info 0 0] True by (simp add: d [unfolded doh_def])
    note D = match_in_shift [OF this "1.prems"(1), of s_len]
    have "match_in s s_len c (baz_loop m s s_len info a (i + 1) q c1)" if "\<not> 0 \<le> q" "\<not> a"
      using match_in_seq [OF D(3) "1.IH" [OF True d [symmetric] that]] D "1.prems" that by simp
    then show ?thesis using True D "1.prems" by (subst baz_loop.simps) (auto simp: d match_in_def)
  next
    case False
    then show ?thesis using "1.prems" by (subst baz_loop.simps) (simp add: match_in_def)
  qed
qed

lemma foo_step_error: "foo_step m re re_len i depth info = Inl e \<Longrightarrow> - 9 \<le> e \<and> e < 0"
  by (auto simp: foo_step_def slre_codes Let_def split: if_splits)

lemma foo_scan_error: "foo_scan m re re_len i depth info = Some (Inl e) \<Longrightarrow> - 9 \<le> e \<and> e < 0"
proof -
  have "foo_scan m re re_len i depth info = Some r \<Longrightarrow> r = Inl e \<longrightarrow> - 9 \<le> e \<and> e < 0" for r
  proof (induction rule: foo_scan.raw_induct [rotated 1, consumes 1])
    case (1 foo_scan m re re_len i depth info r)
    then show ?case by (auto simp: foo_step_error split: if_splits sum.splits)
  qed
  then show "foo_scan m re re_len i depth info = Some (Inl e) \<Longrightarrow> - 9 \<le> e \<and> e < 0" by blast
qed

lemma caps_sort_inner [simp]: "caps (sort_inner i j info) = caps info"
  by (induction i j info rule: sort_inner.induct) (subst sort_inner.simps, simp)

lemma caps_sort_outer [simp]: "caps (sort_outer i info) = caps info"
  by (induction i info rule: sort_outer.induct) (subst sort_outer.simps, simp)

lemma caps_count_branches [simp]: "caps (snd (count_branches i j info)) = caps info"
  by (induction i j info rule: count_branches.induct) (subst count_branches.simps, simp)

lemma caps_assign_branches [simp]: "caps (assign_branches i j info) = caps info"
  by (induction i j info rule: assign_branches.induct) (subst assign_branches.simps, simp add: Let_def)

lemma foo_step_caps: "foo_step m re re_len i depth info = Inr (d, info') \<Longrightarrow> caps info' = caps info"
  by (auto simp: foo_step_def Let_def split: if_splits)

lemma foo_scan_caps: "foo_scan m re re_len i depth info = Some (Inr (d, info')) \<Longrightarrow> caps info' = caps info"
proof -
  have "foo_scan m re re_len i depth info = Some r \<Longrightarrow> r = Inr (d, info') \<longrightarrow> caps info' = caps info" for r
  proof (induction rule: foo_scan.raw_induct [rotated 1, consumes 1])
    case (1 foo_scan m re re_len i depth info r)
    then show ?case by (auto dest: foo_step_caps split: if_splits sum.splits)
  qed
  then show "foo_scan m re re_len i depth info = Some (Inr (d, info')) \<Longrightarrow> caps info' = caps info" by blast
qed

text \<open>
  C31: Bounds. The result of \<open>slre_match\<close> on a text of \<open>s_len\<close> bytes is one of the nine failure codes
  or the number of bytes up to the end of the match, and every capture it stores lies in the text,
  where the last byte may be the one after the text: a set is compared without looking at the end.
\<close>

theorem slre_match_within:
  assumes "slre_match info0 m regexp s s_len cs n fl = Some r" "0 \<le> s_len"
  shows "match_in s s_len cs r"
proof -
  have B: "match_in s s_len (caps info) (baz m s s_len info)" for info
    using baz_loop_in assms(2) by (simp add: baz_def)
  have S: "match_in s s_len (caps info) (baz m s s_len (setup_branch_points b))" if "caps b = caps info" for info b :: regex_info
    using B [of "setup_branch_points b"] that by (simp add: setup_branch_points_def)
  have E: "match_in s s_len c (e, c)" if "- 9 \<le> e \<and> e < 0" for e c
    using that assms(2) by (simp add: match_in_error)
  have "match_in s s_len (caps info) r" if "foo m regexp re_len s s_len info = Some r" for info re_len
    using that
    by (auto simp: foo_def Let_def SLRE_UNBALANCED_BRACKETS_def
        dest!: foo_scan_error foo_scan_caps intro!: E S split: option.splits sum.splits if_splits)
  from this [of _ "info0\<lparr>flags := fl, num_brackets := 0, num_branches := 0, num_caps := n, caps := cs\<rparr>"]
  show ?thesis using assms(1) by (auto simp: slre_match_def Let_def split: option.splits)
qed

theorem slre_match_within_witness:
  "\<exists>r. slre_match no_info (text_at 0 ''[^a]'' 100 []) 0 100 0 None 0 0 = Some r \<and> fst r = 1 \<and> match_in 100 0 None r"
proof -
  have "map_option fst (slre_match no_info (text_at 0 ''[^a]'' 100 []) 0 100 0 None 0 0) = Some 1"
    by code_simp
  then obtain r where r: "slre_match no_info (text_at 0 ''[^a]'' 100 []) 0 100 0 None 0 0 = Some r" "fst r = 1"
    by auto
  show ?thesis using slre_match_within [OF r(1)] r by auto
qed

section \<open>Patterns of ordinary characters\<close>

definition ordinary :: "char \<Rightarrow> bool" where
  "ordinary c = (c \<notin> set (CHR 0x00 # CHR 0x5C # ''^$().[]*+?|''))"

definition stored :: "bytes \<Rightarrow> int \<Rightarrow> string \<Rightarrow> bool" where
  "stored m p xs = (map (\<lambda>k. m (p + int k)) [0..<length xs] = xs)"

fun find_text :: "string \<Rightarrow> string \<Rightarrow> int option" where
  "find_text ps [] = (if ps = [] then Some 0 else None)"
| "find_text ps (x # xs) =
    (if take (length ps) (x # xs) = ps then Some 0 else map_option ((+) 1) (find_text ps xs))"

lemma stored_Nil [simp]: "stored m p []"
  by (simp add: stored_def)

lemma stored_Cons [simp]: "stored m p (x # xs) \<longleftrightarrow> m p = x \<and> stored m (p + 1) xs"
  by (simp add: stored_def upt_rec [of 0] map_Suc_upt [symmetric] comp_def algebra_simps del: upt_Suc)

lemma stored_append: "stored m p (xs @ ys) \<longleftrightarrow> stored m p xs \<and> stored m (p + int (length xs)) ys"
  by (induction xs arbitrary: p) (simp_all add: algebra_simps)

lemma ordinary_simps:
  "ordinary c \<Longrightarrow> c \<noteq> CHR ''('' \<and> c \<noteq> CHR ''['' \<and> c \<noteq> CHR ''^'' \<and> c \<noteq> CHR ''$'' \<and> c \<noteq> CHR ''.''
    \<and> c \<noteq> CHR ''|'' \<and> c \<noteq> CHR '')'' \<and> c \<noteq> CHR 0x5C \<and> c \<noteq> CHR 0x00 \<and> c \<noteq> CHR ''*'' \<and> c \<noteq> CHR ''+'' \<and> c \<noteq> CHR ''?''"
  by (simp add: ordinary_def)

lemma bar_literal:
  assumes "flags info AND SLRE_IGNORE_CASE = 0"
  shows "list_all ordinary qs \<Longrightarrow> stored m (re + i) qs \<Longrightarrow> stored m (s + j) ys \<Longrightarrow>
    bar_loop m info re (i + int (length qs)) s (j + int (length ys)) bi i j c =
      (if take (length qs) ys = qs then j + int (length qs) else SLRE_NO_MATCH, c)"
proof (induction qs arbitrary: i j ys)
  case Nil
  then show ?case by (simp add: bar_out)
next
  case (Cons q qs)
  have q: "m (re + i) = q" "ordinary q" using Cons.prems by simp_all
  note qs = ordinary_simps [OF q(2)]
  have step: "chunk_len m info re (i + int (length (q # qs))) bi i = 1"
    using q qs by (simp add: chunk_len_def get_op_len_def op_len_def)
  have nq: "\<not> is_quantifier m (re + i)" using q qs by (simp add: is_quantifier_def)
  have nx: "\<not> quantified m re (i + int (length (q # qs))) (i + 1)"
    using Cons.prems ordinary_simps by (cases qs) (auto simp: quantified_def is_quantifier_def add.assoc)
  have op: "match_op m (re + i) (s + j) info = fail_unless (q = m (s + j))"
    using q qs assms by (simp add: match_op_def)
  show ?case
  proof (cases ys)
    case Nil
    then show ?thesis
      using q qs by (subst bar_simple [OF _ _ step _ nq nx]) simp_all
  next
    case (Cons y ys')
    then have y: "m (s + j) = y" "stored m (s + (j + 1)) ys'" using Cons.prems by (simp_all add: add.assoc)
    have "bar_loop m info re (i + 1 + int (length qs)) s (j + 1 + int (length ys')) bi (i + 1) (j + 1) c =
      (if take (length qs) ys' = qs then j + 1 + int (length qs) else SLRE_NO_MATCH, c)"
      using Cons.prems y by (intro Cons.IH) (simp_all add: add.assoc)
    moreover have "i + int (length (q # qs)) = i + 1 + int (length qs)"
        "j + int (length ys) = j + 1 + int (length ys')" using Cons by simp_all
    ultimately show ?thesis
      using q qs Cons y(1) bar_simple [OF _ _ step _ nq nx, of j "j + int (length ys)" s c]
      by (simp only: op) (simp add: fail_unless_def slre_codes)
  qed
qed

lemma foo_scan_literal:
  "list_all ordinary qs \<Longrightarrow> stored m (re + i) qs \<Longrightarrow>
   foo_scan m re (i + int (length qs)) i depth info = Some (Inr (depth, info))"
proof (induction qs arbitrary: i)
  case (Cons q qs)
  have q: "m (re + i) = q" "ordinary q" using Cons.prems by simp_all
  note qs = ordinary_simps [OF q(2)]
  have "foo_scan m re (i + 1 + int (length qs)) (i + 1) depth info = Some (Inr (depth, info))"
    using Cons.prems by (intro Cons.IH) (simp_all add: add.assoc)
  moreover have "i + int (length (q # qs)) = i + 1 + int (length qs)" by simp
  ultimately show ?case
    using q qs by (subst foo_scan.simps) (simp add: foo_step_def get_op_len_def op_len_def add.assoc)
qed (simp add: foo_scan.simps)

lemma strlen_stored: "list_all ordinary qs \<Longrightarrow> stored m (p + i) (qs @ [CHR 0x00]) \<Longrightarrow> strlen m p i = Some (i + int (length qs))"
proof (induction qs arbitrary: i)
  case (Cons q qs)
  have "strlen m p (i + 1) = Some (i + 1 + int (length qs))"
    using Cons by (intro Cons.IH) (simp_all add: add.assoc)
  then show ?case using Cons.prems ordinary_simps by (subst strlen.simps) auto
qed (simp add: strlen.simps)

lemma setup_no_branches:
  "num_brackets info = 1 \<Longrightarrow> num_branches info = 0 \<Longrightarrow>
   setup_branch_points info = info\<lparr>brackets := (brackets info)(0 := (brackets info 0)\<lparr>b_num_branches := 0, b_branches := 0\<rparr>)\<rparr>"
  by (simp add: setup_branch_points_def sort_outer.simps assign_branches.simps count_branches.simps)

lemma baz_literal:
  assumes "flags info AND SLRE_IGNORE_CASE = 0" "list_all ordinary ps" "stored m re ps"
    "b_ptr (brackets info 0) = re" "b_len (brackets info 0) = int (length ps)" "b_num_branches (brackets info 0) = 0"
  shows "stored m (s + i) ys \<Longrightarrow>
    baz_loop m s (i + int (length ys)) info False i r c =
      (case find_text ps ys of None \<Rightarrow> SLRE_NO_MATCH | Some k \<Rightarrow> i + k + int (length ps), c)"
proof (induction ys arbitrary: i r)
  have D: "doh m (s + i) (int (length ys)) info 0 c =
      (if take (length ps) ys = ps then int (length ps) else SLRE_NO_MATCH, c)"
    if "stored m (s + i) ys" for i ys
    using bar_literal [OF assms(1,2), where i = 0 and j = 0] assms(3) that
    by (simp add: doh_def doh_loop.simps branch_start_def branch_len_def assms(4-6))
  {
    case Nil
    then show ?case using D [of i "[]"] by (simp add: baz_loop.simps slre_codes)
  next
    case (Cons y ys)
    have "baz_loop m s (i + 1 + int (length ys)) info False (i + 1) (- 1) c =
      (case find_text ps ys of None \<Rightarrow> SLRE_NO_MATCH | Some k \<Rightarrow> i + 1 + k + int (length ps), c)"
      using Cons by (intro Cons.IH) (simp add: add.assoc)
    then show ?case
      using D [of i "y # ys"] Cons.prems
      by (subst baz_loop.simps) (simp add: slre_codes algebra_simps split: option.split)
  }
qed

text \<open>
  C30: Functional correctness on ordinary patterns. A pattern without special characters is found
  exactly where it first occurs in the text as a substring: the result is the position after that
  occurrence, or the code for no match, and no capture is written.
\<close>

theorem slre_match_literal:
  assumes "list_all ordinary ps" "stored m regexp (ps @ [CHR 0x00])" "stored m s xs"
    "fl AND SLRE_IGNORE_CASE = 0"
  shows "slre_match info0 m regexp s (int (length xs)) cs n fl =
    Some (case find_text ps xs of None \<Rightarrow> SLRE_NO_MATCH | Some k \<Rightarrow> k + int (length ps), cs)"
proof -
  have h: "stored m regexp ps" using assms(2) by (simp add: stored_append)
  have na: "m regexp \<noteq> CHR ''^''"
    using assms(1,2) ordinary_simps by (cases ps) auto
  have "strlen m regexp 0 = Some (int (length ps))"
    using strlen_stored [of ps m regexp 0] assms by simp
  moreover have "foo_scan m regexp (int (length ps)) 0 0 info = Some (Inr (0, info))" for info
    using foo_scan_literal [OF assms(1), of m regexp 0] h by simp
  ultimately show ?thesis
    using baz_literal [OF _ assms(1) h, of _ s 0 xs] assms(3,4) na
    by (simp add: slre_match_def foo_def Let_def setup_no_branches baz_def split: option.split)
qed

theorem slre_match_literal_witness:
  "slre_match no_info (text_at 0 ''bc'' 100 ''abcd'') 0 100 4 None 0 0 = Some (3, None)"
proof -
  have "list_all ordinary ''bc''" "stored (text_at 0 ''bc'' 100 ''abcd'') 0 (''bc'' @ [CHR 0x00])"
    "stored (text_at 0 ''bc'' 100 ''abcd'') 100 ''abcd''" "(0::int) AND SLRE_IGNORE_CASE = 0"
    "find_text ''bc'' ''abcd'' = Some 1"
    by (code_simp | simp)+
  with slre_match_literal [of "''bc''" "text_at 0 ''bc'' 100 ''abcd''" 0 100 "''abcd''" 0 no_info None 0]
  show ?thesis by simp
qed

section \<open>Where the library departs from its description\<close>

text \<open>
  The exchange sort of \<open>setup_branch_points\<close> is meant to be stable and is not: with a branch outside
  the brackets after two branches inside, the two are swapped, and the second alternative is lost.
\<close>

lemma slre_alternative_lost:
  "map_option fst (slre_match no_info (text_at 0 ''(a|b|c)|d'' 100 ''b'') 0 100 1 None 0 0) = Some SLRE_NO_MATCH"
  by code_simp

lemma slre_alternative_found:
  "map_option fst (slre_match no_info (text_at 0 ''(a|b|c)'' 100 ''b'') 0 100 1 None 0 0) = Some 1"
  by code_simp

text \<open>
  The test of the flags in \<open>match_set\<close> is inverted: without \<open>SLRE_IGNORE_CASE\<close> a range of letters
  matches both cases, and with it only one.
\<close>

lemma slre_range_case:
  "map_option fst (slre_match no_info (text_at 0 ''[a-z]'' 100 ''B'') 0 100 1 None 0 0) = Some 1"
  "map_option fst (slre_match no_info (text_at 0 ''[a-z]'' 100 ''B'') 0 100 1 None 0 SLRE_IGNORE_CASE) = Some SLRE_NO_MATCH"
  by code_simp+

end
