(* ===== verification/Paging.thy ===== *)
theory Paging
  imports Pmm Spinlock "HOL-Library.Monad_Syntax"
begin

text \<open>
  Page tables and address spaces: kernel/src/paging.c and paging\_asm.s, and the allocators that
  kernel/src/kmem.c puts in front of the heap.

  A page directory and a page table are objects in a store, found by their address; a null pointer
  is address 0. Physical memory is a function from addresses to the 32 bit words there. The state
  has the frame bitmap of \<open>Pmm\<close>. Before \<open>heap_init\<close> memory comes from the placement allocator;
  afterwards it comes from the kernel heap, of which this theory knows only the blocks it hands out
  next, each with its virtual and its physical address. The buffer of the processor that caches page
  table entries is not part of the state, so \<open>invalidate_page\<close> has no effect in the model, and
  neither have \<open>disablei\<close> and \<open>restore\<close>.

  \<open>None\<close> is a call that does not return: a null pointer is used, a lock is taken twice, or the
  machine stops.
\<close>

definition KERNEL_VIRTUAL_BASE :: u32 where
  "KERNEL_VIRTUAL_BASE = 0xC0000000"

definition TASK_SIGNAL_STACK_SIZE :: u32 where "TASK_SIGNAL_STACK_SIZE = 0x1000"
definition TASK_STACK_START :: u32 where "TASK_STACK_START = KERNEL_VIRTUAL_BASE - TASK_SIGNAL_STACK_SIZE"
definition TASK_STACK_INIT_SIZE :: u32 where "TASK_STACK_INIT_SIZE = 0x4000"
definition TASK_STACK_INIT_BASE :: u32 where
  "TASK_STACK_INIT_BASE = KERNEL_VIRTUAL_BASE - TASK_STACK_INIT_SIZE"

definition VADDR :: "u32 \<Rightarrow> u32 \<Rightarrow> u32 \<Rightarrow> u32" where
  "VADDR t p off = push_bit 22 (0x3FF AND t) OR push_bit 12 (0x3FF AND p) OR (off AND 0xFFF)"

type_synonym page_table = "nat \<Rightarrow> page"

record page_dir =
  tablePhys :: "nat \<Rightarrow> u32"
  table :: "nat \<Rightarrow> u32"
  dir_phys :: u32
  dir_lock :: u32

record mm =
  kerndir :: u32
  curdir :: u32
  dirs :: "u32 \<Rightarrow> page_dir option"
  tables :: "u32 \<Rightarrow> page_table option"
  frames :: pmm
  pmem :: "u32 \<Rightarrow> u32"
  placement_address :: u32
  heap_ready :: bool
  heap_blocks :: "(u32 \<times> u32) list"

type_synonym page_ptr = "u32 \<times> nat"

definition zero_page :: page where
  "zero_page = \<lparr>present = False, rw = False, user = False, accessed = False, dirty = False,
     unused = 0, frame = 0\<rparr>"

definition zero_dir :: page_dir where
  "zero_dir = \<lparr>tablePhys = \<lambda>_. 0, table = \<lambda>_. 0, dir_phys = 0, dir_lock = 0\<rparr>"

definition sizeof_page_table :: u32 where "sizeof_page_table = 0x1000"
definition sizeof_page_dir :: u32 where "sizeof_page_dir = 0x2008"

section \<open>Allocation\<close>

definition placement_kmalloc :: "u32 \<Rightarrow> bool \<Rightarrow> mm \<Rightarrow> u32 \<times> u32 \<times> mm" where
  "placement_kmalloc sz align s =
    (let a = (if align \<and> placement_address s AND 0xFFFFF000 \<noteq> 0
              then (placement_address s AND 0xFFFFF000) + 0x1000 else placement_address s)
     in (a, a - KERNEL_VIRTUAL_BASE, s\<lparr>placement_address := a + sz\<rparr>))"

definition kmalloc_int :: "u32 \<Rightarrow> bool \<Rightarrow> mm \<Rightarrow> u32 \<times> u32 \<times> mm" where
  "kmalloc_int sz align s =
    (if heap_ready s then
       case heap_blocks s of [] \<Rightarrow> (0, 0, s) | (v, p) # bs \<Rightarrow> (v, p, s\<lparr>heap_blocks := bs\<rparr>)
     else placement_kmalloc sz align s)"

definition kmalloc :: "u32 \<Rightarrow> mm \<Rightarrow> u32 \<times> mm" where
  "kmalloc sz s = (let (v, p, s') = kmalloc_int sz False s in (v, s'))"

definition kmalloc_a :: "u32 \<Rightarrow> mm \<Rightarrow> u32 \<times> mm" where
  "kmalloc_a sz s = (let (v, p, s') = kmalloc_int sz True s in (v, s'))"

definition kmalloc_p :: "u32 \<Rightarrow> mm \<Rightarrow> u32 \<times> u32 \<times> mm" where
  "kmalloc_p sz s = kmalloc_int sz False s"

definition kmalloc_ap :: "u32 \<Rightarrow> mm \<Rightarrow> u32 \<times> u32 \<times> mm" where
  "kmalloc_ap sz s = kmalloc_int sz True s"

section \<open>Entries\<close>

definition upd_dir :: "u32 \<Rightarrow> (page_dir \<Rightarrow> page_dir) \<Rightarrow> mm \<Rightarrow> mm" where
  "upd_dir d f s = s\<lparr>dirs := (dirs s)(d := map_option f (dirs s d))\<rparr>"

definition set_table :: "u32 \<Rightarrow> nat \<Rightarrow> u32 \<Rightarrow> u32 \<Rightarrow> mm \<Rightarrow> mm" where
  "set_table d t a ph s =
    upd_dir d (\<lambda>x. x\<lparr>table := (table x)(t := a), tablePhys := (tablePhys x)(t := ph)\<rparr>) s"

definition read_page :: "page_ptr \<Rightarrow> mm \<Rightarrow> page option" where
  "read_page q s = map_option (\<lambda>T. T (snd q)) (tables s (fst q))"

definition write_page :: "page_ptr \<Rightarrow> page \<Rightarrow> mm \<Rightarrow> mm option" where
  "write_page q p s = map_option (\<lambda>T. s\<lparr>tables := (tables s)(fst q \<mapsto> T(snd q := p))\<rparr>) (tables s (fst q))"

text \<open>Clearing a new table faults if the allocation failed.\<close>

definition clear_table :: "u32 \<Rightarrow> mm \<Rightarrow> mm option" where
  "clear_table a s = (if a = 0 then None else Some (s\<lparr>tables := (tables s)(a \<mapsto> \<lambda>_. zero_page)\<rparr>))"

definition get_page :: "u32 \<Rightarrow> bool \<Rightarrow> u32 \<Rightarrow> mm \<Rightarrow> (page_ptr option \<times> mm) option" where
  "get_page vpaddress create dir s = do {
    let dir_idx = unat (PAGE_TABLE vpaddress);
    let tbl_idx = unat (PAGE_PAGE vpaddress);
    d \<leftarrow> dirs s dir;
    if table d dir_idx \<noteq> 0 then Some (Some (table d dir_idx, tbl_idx), s)
    else if create then do {
      let (a, tmp, s1) = kmalloc_ap sizeof_page_table s;
      s2 \<leftarrow> clear_table a s1;
      Some (Some (a, tbl_idx), set_table dir dir_idx a (tmp OR 7) s2)
    } else Some (None, s)
  }"

definition alloc_page :: "u32 \<Rightarrow> u32 \<Rightarrow> bool \<Rightarrow> bool \<Rightarrow> mm \<Rightarrow> mm option" where
  "alloc_page dir addr usr wr s = do {
    (q, s1) \<leftarrow> get_page addr True dir s;
    q \<leftarrow> q;
    p \<leftarrow> read_page q s1;
    if present p then write_page q (p\<lparr>rw := wr, user := usr\<rparr>) s1
    else do {
      (p', f) \<leftarrow> alloc_frame p usr wr (frames s1);
      write_page q p' (s1\<lparr>frames := f\<rparr>)
    }
  }"

definition page_phys :: "page \<Rightarrow> u32" where
  "page_phys p = push_bit 12 (ucast (frame p))"

definition get_physical_addr :: "u32 \<Rightarrow> u32 \<Rightarrow> mm \<Rightarrow> (u32 result \<times> mm) option" where
  "get_physical_addr dir virt s = do {
    (q, s1) \<leftarrow> get_page virt False dir s;
    case q of
      None \<Rightarrow> Some (Inl EFAULT, s1)
    | Some q \<Rightarrow> do {
        p \<leftarrow> read_page q s1;
        if \<not> present p then Some (Inl EFAULT, s1)
        else Some (Inr (page_phys p OR (virt AND 0xFFF)), s1)
      }
  }"

definition map_page :: "u32 \<Rightarrow> u32 \<Rightarrow> u32 \<Rightarrow> bool \<Rightarrow> bool \<Rightarrow> mm \<Rightarrow> mm option" where
  "map_page dir virt ph usr wr s = do {
    (q, s1) \<leftarrow> get_page virt True dir s;
    q \<leftarrow> q;
    p \<leftarrow> read_page q s1;
    write_page q (p\<lparr>present := True, rw := wr, user := usr, frame := ucast (drop_bit 12 ph)\<rparr>) s1
  }"

definition unmap_page :: "u32 \<Rightarrow> u32 \<Rightarrow> mm \<Rightarrow> mm option" where
  "unmap_page dir virt s = do {
    (q, s1) \<leftarrow> get_page virt False dir s;
    case q of
      None \<Rightarrow> Some s1
    | Some q \<Rightarrow> do {
        p \<leftarrow> read_page q s1;
        write_page q (p\<lparr>present := False, frame := 0\<rparr>) s1
      }
  }"

definition TEMP_PAGE :: u32 where "TEMP_PAGE = 0xFFFFF000"

definition temp_ptr :: "mm \<Rightarrow> page_ptr option" where
  "temp_ptr s = do {
    d \<leftarrow> dirs s (curdir s);
    if table d (unat (PAGE_TABLE TEMP_PAGE)) = 0 then None
    else Some (table d (unat (PAGE_TABLE TEMP_PAGE)), unat (PAGE_PAGE TEMP_PAGE))
  }"

definition temporary_map :: "u32 \<Rightarrow> u32 \<Rightarrow> mm \<Rightarrow> (u32 \<times> mm) option" where
  "temporary_map addr dir s = do {
    d \<leftarrow> dirs s dir;
    if table d (unat (PAGE_TABLE addr)) = 0 then Some (0, s)
    else do {
      src \<leftarrow> read_page (table d (unat (PAGE_TABLE addr)), unat (PAGE_PAGE addr)) s;
      q \<leftarrow> temp_ptr s;
      p \<leftarrow> read_page q s;
      s1 \<leftarrow> write_page q (p\<lparr>present := True, rw := True, user := False, frame := frame src\<rparr>) s;
      Some (TEMP_PAGE, s1)
    }
  }"

definition temporary_unmap :: "mm \<Rightarrow> mm option" where
  "temporary_unmap s = do {
    q \<leftarrow> temp_ptr s;
    p \<leftarrow> read_page q s;
    write_page q (p\<lparr>present := False, rw := False, user := False, frame := 0\<rparr>) s
  }"

definition switch_page_dir :: "u32 \<Rightarrow> mm \<Rightarrow> mm" where
  "switch_page_dir dir s = s\<lparr>curdir := dir\<rparr>"

text \<open>
  The handler of the page fault exception: \<open>err\<close> is the error code on the stack and \<open>address\<close> the
  contents of cr2. It returns only when it takes over a table of the kernel.
\<close>

definition page_fault :: "u32 \<Rightarrow> u32 \<Rightarrow> mm \<Rightarrow> mm option" where
  "page_fault err address s = do {
    let t = unat (PAGE_TABLE address);
    k \<leftarrow> dirs s (kerndir s);
    c \<leftarrow> dirs s (curdir s);
    if err AND 1 = 0 \<and> table k t \<noteq> 0 \<and> table c t \<noteq> 0
    then Some (upd_dir (curdir s) (\<lambda>x. x\<lparr>table := (table x)(t := table k t)\<rparr>) s)
    else None
  }"

section \<open>Copying and freeing address spaces\<close>

text \<open>The loop of paging\_asm.s over the words of a frame.\<close>

fun copy_words :: "nat \<Rightarrow> u32 \<Rightarrow> u32 \<Rightarrow> (u32 \<Rightarrow> u32) \<Rightarrow> u32 \<Rightarrow> u32" where
  "copy_words 0 dst src M = M"
| "copy_words (Suc n) dst src M =
    (let M' = copy_words n dst src M in M'(dst + 4 * word_of_nat n := M' (src + 4 * word_of_nat n)))"

definition copy_physical_frame :: "u32 \<Rightarrow> u32 \<Rightarrow> mm \<Rightarrow> mm" where
  "copy_physical_frame dst src s = s\<lparr>pmem := copy_words 1024 dst src (pmem s)\<rparr>"

definition copy_entry :: "u32 \<Rightarrow> u32 \<Rightarrow> nat \<Rightarrow> mm \<Rightarrow> mm option" where
  "copy_entry dt st p s = do {
    s1 \<leftarrow> write_page (dt, p) zero_page s;
    src \<leftarrow> read_page (st, p) s1;
    if \<not> present src then Some s1
    else do {
      (dst, f) \<leftarrow> alloc_frame zero_page (user src) (rw src) (frames s1);
      s2 \<leftarrow> write_page (dt, p) dst (s1\<lparr>frames := f\<rparr>);
      Some (copy_physical_frame (page_phys dst) (page_phys src) s2)
    }
  }"

fun copy_entries :: "u32 \<Rightarrow> u32 \<Rightarrow> nat list \<Rightarrow> mm \<Rightarrow> mm option" where
  "copy_entries dt st [] s = Some s"
| "copy_entries dt st (p # ps) s = do { s1 \<leftarrow> copy_entry dt st p s; copy_entries dt st ps s1 }"

definition copy_page_table :: "u32 \<Rightarrow> u32 \<Rightarrow> nat \<Rightarrow> mm \<Rightarrow> (bool \<times> mm) option" where
  "copy_page_table dstdir srcdir t s = do {
    d \<leftarrow> dirs s dstdir;
    (ok, s1) \<leftarrow>
      (if table d t \<noteq> 0 then Some (True, s)
       else do {
         let (a, ph, s1) = kmalloc_ap sizeof_page_table s;
         if a = 0 then Some (False, s1)
         else do { s2 \<leftarrow> clear_table a s1; Some (True, set_table dstdir t a (ph OR 7) s2) }
       });
    if \<not> ok then Some (False, s1)
    else do {
      d1 \<leftarrow> dirs s1 dstdir;
      d2 \<leftarrow> dirs s1 srcdir;
      s2 \<leftarrow> copy_entries (table d1 t) (table d2 t) [0..<1024] s1;
      Some (True, s2)
    }
  }"

definition copy_dir_entry :: "u32 \<Rightarrow> u32 \<Rightarrow> nat \<Rightarrow> mm \<Rightarrow> (bool \<times> mm) option" where
  "copy_dir_entry dst src t s = do {
    d \<leftarrow> dirs s src;
    k \<leftarrow> dirs s (kerndir s);
    if table d t = 0 then Some (True, set_table dst t 0 0 s)
    else if table k t \<noteq> 0 then Some (True, set_table dst t (table d t) (tablePhys d t) s)
    else copy_page_table dst src t s
  }"

fun copy_dir_entries :: "u32 \<Rightarrow> u32 \<Rightarrow> nat list \<Rightarrow> mm \<Rightarrow> (bool \<times> mm) option" where
  "copy_dir_entries dst src [] s = Some (True, s)"
| "copy_dir_entries dst src (t # ts) s = do {
    (ok, s1) \<leftarrow> copy_dir_entry dst src t s;
    if ok then copy_dir_entries dst src ts s1 else Some (False, s1)
  }"

definition lock_dir :: "u32 \<Rightarrow> mm \<Rightarrow> mm option" where
  "lock_dir d s = do {
    x \<leftarrow> dirs s d;
    l \<leftarrow> spin_lock (dir_lock x);
    Some (upd_dir d (\<lambda>x. x\<lparr>dir_lock := l\<rparr>) s)
  }"

definition unlock_dir :: "u32 \<Rightarrow> mm \<Rightarrow> mm" where
  "unlock_dir d s = upd_dir d (\<lambda>x. x\<lparr>dir_lock := spin_unlock (dir_lock x)\<rparr>) s"

definition copy_page_dir :: "u32 \<Rightarrow> mm \<Rightarrow> (u32 \<times> mm) option" where
  "copy_page_dir src s = do {
    let (dst, tmp, s1) = kmalloc_ap sizeof_page_dir s;
    if dst = 0 then Some (0, s1)
    else if dst AND 0xFFF \<noteq> 0 then None
    else do {
      let s2 = s1\<lparr>dirs := (dirs s1)(dst \<mapsto> zero_dir\<lparr>dir_phys := tmp\<rparr>)\<rparr>;
      s3 \<leftarrow> lock_dir src s2;
      s4 \<leftarrow> lock_dir dst s3;
      (ok, s5) \<leftarrow> copy_dir_entries dst src [0..<1024] s4;
      Some (if ok then dst else 0, unlock_dir dst (unlock_dir src s5))
    }
  }"

definition kept_page :: "u32 \<Rightarrow> bool" where
  "kept_page a \<longleftrightarrow>
    TASK_KSTACK_ADDR \<le> a \<and> a < TASK_KSTACK_ADDR + TASK_KSTACK_SIZE \<or>
    TASK_STACK_START - TASK_STACK_INIT_BASE \<le> a \<and> a < TASK_STACK_START"

definition free_entry :: "page_ptr \<Rightarrow> mm \<Rightarrow> mm option" where
  "free_entry q s = do {
    p \<leftarrow> read_page q s;
    (p', f) \<leftarrow> free_frame p (frames s);
    write_page q p' (s\<lparr>frames := f\<rparr>)
  }"

fun strip_entries :: "u32 \<Rightarrow> nat \<Rightarrow> nat list \<Rightarrow> bool \<Rightarrow> mm \<Rightarrow> (bool \<times> mm) option" where
  "strip_entries a t [] erase s = Some (erase, s)"
| "strip_entries a t (p # ps) erase s =
    (if kept_page (VADDR (word_of_nat t) (word_of_nat p) 0) then strip_entries a t ps False s
     else do { s1 \<leftarrow> free_entry (a, p) s; strip_entries a t ps erase s1 })"

definition kfree_table :: "u32 \<Rightarrow> mm \<Rightarrow> mm" where
  "kfree_table a s = s\<lparr>tables := (tables s)(a := None)\<rparr>"

definition strip_dir_entry :: "u32 \<Rightarrow> nat \<Rightarrow> mm \<Rightarrow> mm option" where
  "strip_dir_entry dir t s = do {
    d \<leftarrow> dirs s dir;
    k \<leftarrow> dirs s (kerndir s);
    if table d t = 0 \<or> table d t = table k t then Some s
    else do {
      (erase, s1) \<leftarrow> strip_entries (table d t) t [0..<1024] True s;
      Some (if erase then set_table dir t 0 0 (kfree_table (table d t) s1) else s1)
    }
  }"

fun for_tables :: "(nat \<Rightarrow> mm \<Rightarrow> mm option) \<Rightarrow> nat list \<Rightarrow> mm \<Rightarrow> mm option" where
  "for_tables f [] s = Some s"
| "for_tables f (t # ts) s = do { s1 \<leftarrow> f t s; for_tables f ts s1 }"

definition strip_page_dir :: "u32 \<Rightarrow> mm \<Rightarrow> mm option" where
  "strip_page_dir dir s = do {
    s1 \<leftarrow> lock_dir dir s;
    s2 \<leftarrow> for_tables (strip_dir_entry dir) [0..<1024] s1;
    Some (unlock_dir dir s2)
  }"

definition free_page :: "u32 \<Rightarrow> nat \<Rightarrow> mm \<Rightarrow> mm option" where
  "free_page a p s = do {
    x \<leftarrow> read_page (a, p) s;
    if present x then free_entry (a, p) s else Some s
  }"

definition free_dir_entry :: "u32 \<Rightarrow> nat \<Rightarrow> mm \<Rightarrow> mm option" where
  "free_dir_entry dir t s = do {
    d \<leftarrow> dirs s dir;
    k \<leftarrow> dirs s (kerndir s);
    if table d t = 0 \<or> table k t \<noteq> 0 then Some s
    else do {
      s1 \<leftarrow> for_tables (free_page (table d t)) [0..<1024] s;
      Some (set_table dir t 0 0 (kfree_table (table d t) s1))
    }
  }"

definition free_page_dir :: "u32 \<Rightarrow> mm \<Rightarrow> mm option" where
  "free_page_dir dir s =
    (if dir = curdir s then Some s
     else do {
       s1 \<leftarrow> lock_dir dir s;
       s2 \<leftarrow> for_tables (free_dir_entry dir) [0..<1024] s1;
       Some (s2\<lparr>dirs := (dirs s2)(dir := None)\<rparr>)
     })"

end
