(* ===== verification/PagingSpec.thy ===== *)
theory PagingSpec
  imports Paging
begin

text \<open>
  Properties of the address spaces: page table pointers stay valid, a mapping that was set is found
  again, and \<open>copy_page_dir\<close> makes a private copy of the user part of an address space and shares the
  kernel part.
\<close>

section \<open>Physical memory\<close>

definition fdata :: "mm \<Rightarrow> 20 word \<Rightarrow> nat \<Rightarrow> u32" where
  "fdata s f i = pmem s (push_bit 12 (ucast f) + 4 * word_of_nat i)"

lemma unat_ucast_20_32: "unat (ucast (f :: 20 word) :: u32) = unat f"
  using unsigned_less [of f, where 'a = nat] by (simp add: unsigned_ucast_eq take_bit_nat_eq_self)

lemma unat_phys:
  assumes "i < 1024"
  shows "unat (push_bit 12 (ucast (f :: 20 word)) + 4 * word_of_nat i :: u32) = unat f * 4096 + 4 * i"
proof -
  have f: "unat f < 2 ^ 20" using unsigned_less [of f, where 'a = nat] by simp
  have "ucast f = (word_of_nat (unat f) :: u32)"
    using f by (simp add: word_unat_eq_iff unat_ucast_20_32 unat_of_nat)
  then have "push_bit 12 (ucast f) + 4 * word_of_nat i = (word_of_nat (unat f * 4096 + 4 * i) :: u32)"
    by (simp only: push_bit_eq_mult) simp
  then show ?thesis using f assms by (simp only: unat_of_nat) simp
qed

lemma phys_inj:
  assumes "i < 1024" "j < 1024"
    "push_bit 12 (ucast (f :: 20 word)) + 4 * word_of_nat i = (push_bit 12 (ucast (g :: 20 word)) + 4 * word_of_nat j :: u32)"
  shows "f = g \<and> i = j"
proof -
  have e: "unat f * 4096 + 4 * i = unat g * 4096 + 4 * j"
    using unat_phys [OF assms(1), of f] unat_phys [OF assms(2), of g] assms(3) by metis
  have "(unat f * 4096 + 4 * i) div 4096 = unat f" "(unat g * 4096 + 4 * j) div 4096 = unat g"
    using assms(1,2) by simp_all
  with e have "unat f = unat g" by simp
  then have "unat f = unat g \<and> i = j" using e by simp
  then show ?thesis by (simp add: word_unat_eq_iff)
qed

lemma copy_words_data:
  assumes "f \<noteq> g" "n \<le> 1024" "i < 1024"
  shows "copy_words n (push_bit 12 (ucast (f :: 20 word))) (push_bit 12 (ucast (g :: 20 word))) M
      (push_bit 12 (ucast (h :: 20 word)) + 4 * word_of_nat i) =
    (if h = f \<and> i < n then M (push_bit 12 (ucast g) + 4 * word_of_nat i)
     else M (push_bit 12 (ucast h) + 4 * word_of_nat i))"
  using assms(2,3)
proof (induction n arbitrary: h i)
  case (Suc n)
  have eq: "(push_bit 12 (ucast h) + 4 * word_of_nat i = (push_bit 12 (ucast f) + 4 * word_of_nat n :: u32)) \<longleftrightarrow> h = f \<and> i = n"
    using phys_inj [of i n h f] Suc.prems by auto
  show ?case
    using Suc.IH [of n g] Suc.IH [of i h] Suc.prems assms(1)
    by (auto simp: Let_def eq less_Suc_eq)
qed simp

lemma copy_physical_frame_data:
  assumes "frame p \<noteq> frame q" "i < 1024"
  shows "fdata (copy_physical_frame (page_phys p) (page_phys q) s) f i =
    (if f = frame p then fdata s (frame q) i else fdata s f i)"
  using copy_words_data [OF assms(1), of 1024 i] assms(2)
  by (simp add: fdata_def copy_physical_frame_def page_phys_def)

lemma copy_physical_frame_simps [simp]:
  "frames (copy_physical_frame a b s) = frames s" "tables (copy_physical_frame a b s) = tables s"
  "dirs (copy_physical_frame a b s) = dirs s" "heap_blocks (copy_physical_frame a b s) = heap_blocks s"
  "heap_ready (copy_physical_frame a b s) = heap_ready s" "kerndir (copy_physical_frame a b s) = kerndir s"
  by (simp_all add: copy_physical_frame_def)

text \<open>Frames in use keep their contents while others are handed out.\<close>

definition grows :: "mm \<Rightarrow> mm \<Rightarrow> bool" where
  "grows s s' \<longleftrightarrow> used_frames (frames s) \<subseteq> used_frames (frames s')
    \<and> (\<forall>f i. unat f \<in> used_frames (frames s) \<longrightarrow> i < 1024 \<longrightarrow> fdata s' f i = fdata s f i)"

lemma grows_refl [simp]: "grows s s"
  by (simp add: grows_def)

lemma grows_trans: "grows s s1 \<Longrightarrow> grows s1 s2 \<Longrightarrow> grows s s2"
  unfolding grows_def by (metis subsetD subset_trans)

definition free_count :: "mm \<Rightarrow> nat" where
  "free_count s = card {f. free_idx (physical_frame (frames s)) f}"

lemma free_finite [simp]: "finite {f. free_idx fs f}"
  by (rule finite_subset [of _ "{..<32 * length fs}"]) (auto simp: free_idx_iff)

definition page_copy :: "mm \<Rightarrow> page \<Rightarrow> mm \<Rightarrow> page \<Rightarrow> bool" where
  "page_copy s p s' q \<longleftrightarrow>
    (if present p then present q \<and> user q = user p \<and> rw q = rw p
        \<and> unat (frame q) \<notin> used_frames (frames s) \<and> unat (frame q) \<in> used_frames (frames s')
        \<and> (\<forall>i < 1024. fdata s' (frame q) i = fdata s (frame p) i)
     else q = zero_page)"

lemma alloc_frame_count:
  assumes "pmm_inv m" "\<not> present p" "alloc_frame p usr wr m = Some (p', m')"
  shows "card {f. free_idx (physical_frame m) f} = Suc (card {f. free_idx (physical_frame m') f})"
proof -
  have A: "free_idx (physical_frame m) (unat (frame p'))" "used_frames m' = insert (unat (frame p')) (used_frames m)"
    "pmm_inv m'" "physical_frame_count m' = physical_frame_count m"
    using alloc_frame_spec [OF assms(1,2), of usr wr] assms(3) by auto
  then have len: "length (physical_frame m') = length (physical_frame m)"
    using pmm_inv_length(2) [OF assms(1)] pmm_inv_length(2) [OF A(3)] by simp
  then have "{f. free_idx (physical_frame m) f} = insert (unat (frame p')) {f. free_idx (physical_frame m') f}"
    using A(1,2) by (auto simp: free_idx_used)
  moreover have "unat (frame p') \<notin> {f. free_idx (physical_frame m') f}"
    using A(2) by (simp add: free_idx_used)
  ultimately show ?thesis by simp
qed

lemma copy_entry_correct:
  assumes "pmm_inv (frames s)" "tables s dt = Some T" "tables s st = Some S" "dt \<noteq> st"
    "present (S p) \<Longrightarrow> unat (frame (S p)) \<in> used_frames (frames s)"
    "present (S p) \<Longrightarrow> 0 < free_count s"
  shows "\<exists>s' e. copy_entry dt st p s = Some s' \<and> tables s' = (tables s)(dt \<mapsto> T(p := e))
    \<and> page_copy s (S p) s' e \<and> grows s s' \<and> pmm_inv (frames s')
    \<and> free_count s = free_count s' + of_bool (present (S p))
    \<and> dirs s' = dirs s \<and> heap_blocks s' = heap_blocks s \<and> heap_ready s' = heap_ready s \<and> kerndir s' = kerndir s"
proof (cases "present (S p)")
  case False
  then show ?thesis
    using assms(1-4)
    by (auto simp: copy_entry_def write_page_def read_page_def page_copy_def grows_def fdata_def free_count_def)
next
  case True
  have np: "\<not> present zero_page" by (simp add: zero_page_def)
  have "{f. free_idx (physical_frame (frames s)) f} \<noteq> {}"
    using assms(6) [OF True] unfolding free_count_def by (metis card.empty less_numeral_extra(3))
  then obtain e m where e: "alloc_frame zero_page (user (S p)) (rw (S p)) (frames s) = Some (e, m)" "pmm_inv m"
      "free_idx (physical_frame (frames s)) (unat (frame e))" "used_frames m = insert (unat (frame e)) (used_frames (frames s))"
      "e = zero_page\<lparr>present := True, user := user (S p), rw := rw (S p), frame := frame e\<rparr>"
    using alloc_frame_spec [OF assms(1) np, of "user (S p)" "rw (S p)"] by auto
  let ?s = "copy_physical_frame (page_phys e) (page_phys (S p)) (s\<lparr>frames := m, tables := (tables s)(dt \<mapsto> T(p := e))\<rparr>)"
  have fresh: "unat (frame e) \<notin> used_frames (frames s)" using e(3) by (simp add: free_idx_used)
  then have ne: "frame e \<noteq> frame (S p)" using assms(5) [OF True] by auto
  have D: "fdata ?s f i = (if f = frame e then fdata s (frame (S p)) i else fdata s f i)" if "i < 1024" for f i
    using copy_physical_frame_data [OF ne that] by (simp add: fdata_def)
  have "copy_entry dt st p s = Some ?s"
    using True assms(2-4) e(1) by (simp add: copy_entry_def write_page_def read_page_def)
  moreover have pe: "present e \<and> user e = user (S p) \<and> rw e = rw (S p)"
    by (subst (1 2 3) e(5)) simp
  moreover have "page_copy s (S p) ?s e"
    using True D e(4) fresh pe by (simp add: page_copy_def)
  moreover have "grows s ?s"
    using D e(4) fresh by (auto simp: grows_def)
  moreover have "free_count s = free_count ?s + 1"
    using alloc_frame_count [OF assms(1) np e(1)] by (simp add: free_count_def)
  ultimately show ?thesis using True e(2) by (intro exI [of _ ?s] exI [of _ e]) simp
qed

lemma page_copy_later:
  assumes "page_copy s p s1 q" "grows s1 s2"
  shows "page_copy s p s2 q"
  using assms by (auto simp: page_copy_def grows_def split: if_splits)

lemma page_copy_earlier:
  assumes "grows s s1" "page_copy s1 p s2 q" "present p \<Longrightarrow> unat (frame p) \<in> used_frames (frames s)"
  shows "page_copy s p s2 q"
  using assms by (auto simp: page_copy_def grows_def split: if_splits)

definition same_rest :: "mm \<Rightarrow> mm \<Rightarrow> bool" where
  "same_rest s s' \<longleftrightarrow> dirs s' = dirs s \<and> heap_blocks s' = heap_blocks s \<and> heap_ready s' = heap_ready s
    \<and> kerndir s' = kerndir s"

definition npages :: "page_table \<Rightarrow> nat list \<Rightarrow> nat" where
  "npages S ps = length (filter (\<lambda>p. present (S p)) ps)"

definition private_in :: "mm \<Rightarrow> page_table \<Rightarrow> nat list \<Rightarrow> page_table \<Rightarrow> bool" where
  "private_in s S ps T \<longleftrightarrow>
    (\<forall>p \<in> set ps. \<forall>q \<in> set ps. p \<noteq> q \<longrightarrow> present (S p) \<longrightarrow> present (S q) \<longrightarrow> frame (T p) \<noteq> frame (T q))"

lemma copy_entries_correct:
  assumes "pmm_inv (frames s)" "tables s dt = Some T" "tables s st = Some S" "dt \<noteq> st" "distinct ps"
    "\<And>p. p \<in> set ps \<Longrightarrow> present (S p) \<Longrightarrow> unat (frame (S p)) \<in> used_frames (frames s)"
    "npages S ps \<le> free_count s"
  shows "\<exists>s' T'. copy_entries dt st ps s = Some s' \<and> tables s' = (tables s)(dt \<mapsto> T')
    \<and> (\<forall>p \<in> set ps. page_copy s (S p) s' (T' p)) \<and> (\<forall>p. p \<notin> set ps \<longrightarrow> T' p = T p) \<and> private_in s S ps T'
    \<and> grows s s' \<and> pmm_inv (frames s') \<and> free_count s = free_count s' + npages S ps \<and> same_rest s s'"
  using assms
proof (induction ps arbitrary: s T)
  case Nil
  then show ?case
    by (intro exI [of _ s] exI [of _ T]) (simp add: npages_def private_in_def same_rest_def fun_upd_idem)
next
  case (Cons p ps)
  obtain s1 e where e: "copy_entry dt st p s = Some s1" "tables s1 = (tables s)(dt \<mapsto> T(p := e))"
    "page_copy s (S p) s1 e" "grows s s1" "pmm_inv (frames s1)" "free_count s = free_count s1 + of_bool (present (S p))"
    "same_rest s s1"
    using copy_entry_correct [OF Cons.prems(1-4), of p] Cons.prems(6,7)
    by (auto simp: npages_def same_rest_def split: if_splits)
  have used: "unat (frame (S q)) \<in> used_frames (frames s1)" if "q \<in> set ps" "present (S q)" for q
    using Cons.prems(6) [of q] that e(4) by (auto simp: grows_def)
  have tb: "tables s1 dt = Some (T(p := e))" "tables s1 st = Some S" and dis: "distinct ps"
    and cnt: "npages S ps \<le> free_count s1"
    using Cons.prems(3-5,7) e(2,6) by (auto simp: npages_def split: if_splits)
  obtain s2 T2 where t: "copy_entries dt st ps s1 = Some s2" "tables s2 = (tables s1)(dt \<mapsto> T2)"
    "\<forall>p \<in> set ps. page_copy s1 (S p) s2 (T2 p)" "\<forall>q. q \<notin> set ps \<longrightarrow> T2 q = (T(p := e)) q" "private_in s1 S ps T2"
    "grows s1 s2" "pmm_inv (frames s2)" "free_count s1 = free_count s2 + npages S ps" "same_rest s1 s2"
    using Cons.IH [OF e(5) tb Cons.prems(4) dis used cnt] by blast
  have Tp: "T2 p = e" using t(4) Cons.prems(5) by simp
  have P: "page_copy s (S q) s2 (T2 q)" if "q \<in> set (p # ps)" for q
  proof (cases "q = p")
    case True
    then show ?thesis using page_copy_later [OF e(3) t(6)] Tp by simp
  next
    case False
    then show ?thesis using page_copy_earlier [OF e(4)] t(3) Cons.prems(6) that by auto
  qed
  have N: "frame (T2 q) \<noteq> frame (T2 p)" "frame (T2 p) \<noteq> frame (T2 q)"
    if "q \<in> set ps" "present (S q)" "present (S p)" for q
    using t(3) e(3) that by (auto simp: page_copy_def Tp)
  have "private_in s S (p # ps) T2"
    using t(5) N by (auto simp: private_in_def)
  moreover have "copy_entries dt st (p # ps) s = Some s2" using e(1) t(1) by simp
  moreover have "tables s2 = (tables s)(dt \<mapsto> T2)" using t(2) e(2) by simp
  moreover have "free_count s = free_count s2 + npages S (p # ps)" using e(6) t(8) by (simp add: npages_def)
  moreover have "same_rest s s2" using e(7) t(9) by (simp add: same_rest_def)
  ultimately show ?case using P t(4,7) grows_trans [OF e(4) t(6)]
    by (intro exI [of _ s2] exI [of _ T2]) (simp del: copy_entries.simps)
qed

lemma copy_page_table_correct:
  assumes "pmm_inv (frames s)" "dirs s dst = Some d" "table d t = 0" "dirs s src = Some D" "src \<noteq> dst"
    "tables s (table D t) = Some S" "heap_ready s" "heap_blocks s = (a, ph) # bs" "a \<noteq> 0" "tables s a = None"
    "\<And>p. p < 1024 \<Longrightarrow> present (S p) \<Longrightarrow> unat (frame (S p)) \<in> used_frames (frames s)"
    "npages S [0..<1024] \<le> free_count s"
  shows "\<exists>s' T'. copy_page_table dst src t s = Some (True, s') \<and> tables s' = (tables s)(a \<mapsto> T')
    \<and> (\<forall>p < 1024. page_copy s (S p) s' (T' p)) \<and> private_in s S [0..<1024] T'
    \<and> dirs s' = (dirs s)(dst \<mapsto> d\<lparr>table := (table d)(t := a), tablePhys := (tablePhys d)(t := ph OR 7)\<rparr>)
    \<and> heap_blocks s' = bs \<and> heap_ready s' \<and> kerndir s' = kerndir s
    \<and> grows s s' \<and> pmm_inv (frames s') \<and> free_count s = free_count s' + npages S [0..<1024]"
proof -
  define s1 where "s1 = set_table dst t a (ph OR 7) (s\<lparr>heap_blocks := bs, tables := (tables s)(a \<mapsto> \<lambda>_. zero_page)\<rparr>)"
  have ne: "a \<noteq> table D t" using assms(6,10) by auto
  have fs: "frames s1 = frames s" "fdata s1 = fdata s" "free_count s1 = free_count s"
    by (simp_all add: s1_def set_table_def upd_dir_def fdata_def fun_eq_iff free_count_def)
  have g: "grows s s1" by (simp add: grows_def fs)
  have tb: "tables s1 = (tables s)(a \<mapsto> \<lambda>_. zero_page)"
    by (simp add: s1_def set_table_def upd_dir_def)
  obtain s2 T2 where c: "copy_entries a (table D t) [0..<1024] s1 = Some s2" "tables s2 = (tables s1)(a \<mapsto> T2)"
    "\<forall>p \<in> set [0..<1024]. page_copy s1 (S p) s2 (T2 p)" "private_in s1 S [0..<1024] T2"
    "grows s1 s2" "pmm_inv (frames s2)" "free_count s1 = free_count s2 + npages S [0..<1024]" "same_rest s1 s2"
    using copy_entries_correct [of s1 a "\<lambda>_. zero_page" "table D t" S "[0..<1024]"] assms(1,6,11,12) ne
    by (auto simp: fs tb simp del: upt.simps)
  have "copy_page_table dst src t s = Some (True, s2)"
    using assms(2-5,7-9) c(1) unfolding s1_def
    by (simp add: copy_page_table_def kmalloc_ap_def kmalloc_int_def clear_table_def set_table_def upd_dir_def Let_def
        del: upt.simps)
  moreover have "page_copy s (S p) s2 (T2 p)" if "p < 1024" for p
    using page_copy_earlier [OF g] c(3) assms(11) that by auto
  moreover have "dirs s2 = (dirs s)(dst \<mapsto> d\<lparr>table := (table d)(t := a), tablePhys := (tablePhys d)(t := ph OR 7)\<rparr>)
      \<and> heap_blocks s2 = bs \<and> heap_ready s2 \<and> kerndir s2 = kerndir s"
    using c(8) assms(2,7) by (simp add: same_rest_def s1_def set_table_def upd_dir_def)
  ultimately show ?thesis
    using c grows_trans [OF g c(5)] by (auto simp: fs tb private_in_def)
qed

section \<open>Copying a directory\<close>

definition user_table :: "page_dir \<Rightarrow> page_dir \<Rightarrow> nat \<Rightarrow> bool" where
  "user_table D K t \<longleftrightarrow> table D t \<noteq> 0 \<and> table K t = 0"

definition entry :: "mm \<Rightarrow> page_dir \<Rightarrow> nat \<Rightarrow> nat \<Rightarrow> page" where
  "entry s D t p = (case tables s (table D t) of Some T \<Rightarrow> T p | None \<Rightarrow> zero_page)"

text \<open>What the copy has at index \<open>t\<close> of the directory.\<close>

definition table_copy :: "mm \<Rightarrow> page_dir \<Rightarrow> page_dir \<Rightarrow> mm \<Rightarrow> page_dir \<Rightarrow> nat \<Rightarrow> bool" where
  "table_copy s D K s' d t \<longleftrightarrow>
    (if user_table D K t then table d t \<noteq> 0 \<and> tables s (table d t) = None \<and> tables s' (table d t) \<noteq> None
       \<and> (\<forall>p < 1024. page_copy s (entry s D t p) s' (entry s' d t p))
     else table d t = table D t)"

definition private_frames :: "page_dir \<Rightarrow> page_dir \<Rightarrow> mm \<Rightarrow> page_dir \<Rightarrow> nat list \<Rightarrow> bool" where
  "private_frames D K s' d ts \<longleftrightarrow>
    (\<forall>t \<in> set ts. \<forall>t' \<in> set ts. \<forall>p < 1024. \<forall>p' < 1024. user_table D K t \<longrightarrow> user_table D K t' \<longrightarrow> (t, p) \<noteq> (t', p') \<longrightarrow>
       present (entry s' d t p) \<longrightarrow> present (entry s' d t' p') \<longrightarrow> frame (entry s' d t p) \<noteq> frame (entry s' d t' p'))"

definition fresh_blocks :: "mm \<Rightarrow> bool" where
  "fresh_blocks s \<longleftrightarrow> heap_ready s \<and> distinct (map fst (heap_blocks s))
    \<and> (\<forall>a \<in> fst ` set (heap_blocks s). a \<noteq> 0 \<and> tables s a = None)"

definition user_pages :: "mm \<Rightarrow> page_dir \<Rightarrow> page_dir \<Rightarrow> nat list \<Rightarrow> nat" where
  "user_pages s D K ts = sum_list (map (\<lambda>t. npages (entry s D t) [0..<1024]) (filter (user_table D K) ts))"

definition tables_ok :: "mm \<Rightarrow> page_dir \<Rightarrow> page_dir \<Rightarrow> nat list \<Rightarrow> bool" where
  "tables_ok s D K ts \<longleftrightarrow> (\<forall>t \<in> set ts. user_table D K t \<longrightarrow> tables s (table D t) \<noteq> None
     \<and> (\<forall>p < 1024. present (entry s D t p) \<longrightarrow> unat (frame (entry s D t p)) \<in> used_frames (frames s)))"

definition keeps_tables :: "mm \<Rightarrow> mm \<Rightarrow> bool" where
  "keeps_tables s s' \<longleftrightarrow> (\<forall>a. tables s a \<noteq> None \<longrightarrow> tables s' a = tables s a)"

lemma keeps_entry: "keeps_tables s s' \<Longrightarrow> tables s (table D t) \<noteq> None \<Longrightarrow> entry s' D t = entry s D t"
  by (auto simp: keeps_tables_def entry_def fun_eq_iff)

lemma page_copy_present: "page_copy s p s' q \<Longrightarrow> present q = present p"
  by (simp add: page_copy_def zero_page_def split: if_splits)

lemma page_copy_frame:
  assumes "page_copy s p s' q" "present q"
  shows "unat (frame q) \<notin> used_frames (frames s)" "unat (frame q) \<in> used_frames (frames s')"
  using assms page_copy_present [OF assms(1)] by (simp_all add: page_copy_def)

lemma copy_dir_entry_correct:
  assumes "pmm_inv (frames s)" "dirs s dst = Some d" "table d t = 0" "dirs s src = Some D" "src \<noteq> dst"
    "dirs s (kerndir s) = Some K" "fresh_blocks s" "tables_ok s D K [t]"
    "length (filter (user_table D K) [t]) \<le> length (heap_blocks s)" "user_pages s D K [t] \<le> free_count s"
  shows "\<exists>s' d'. copy_dir_entry dst src t s = Some (True, s') \<and> dirs s' = (dirs s)(dst \<mapsto> d')
    \<and> (\<forall>u. u \<noteq> t \<longrightarrow> table d' u = table d u) \<and> table_copy s D K s' d' t \<and> private_frames D K s' d' [t]
    \<and> keeps_tables s s' \<and> grows s s' \<and> pmm_inv (frames s') \<and> fresh_blocks s' \<and> kerndir s' = kerndir s
    \<and> free_count s = free_count s' + user_pages s D K [t]
    \<and> length (heap_blocks s) = length (heap_blocks s') + length (filter (user_table D K) [t])"
proof (cases "user_table D K t")
  case False
  let ?s = "\<lambda>a ph. set_table dst t a ph s"
  have same: "grows s (?s a ph)" "keeps_tables s (?s a ph)" "fresh_blocks (?s a ph)" "free_count (?s a ph) = free_count s"
    "frames (?s a ph) = frames s" "heap_blocks (?s a ph) = heap_blocks s" "kerndir (?s a ph) = kerndir s" for a ph
    using assms(7) by (simp_all add: set_table_def upd_dir_def grows_def keeps_tables_def fresh_blocks_def free_count_def fdata_def)
  have "copy_dir_entry dst src t s = Some (True, ?s (table D t) (if table D t = 0 then 0 else tablePhys D t))"
    using assms(2-6) False by (auto simp: copy_dir_entry_def user_table_def)
  moreover have "dirs (?s a ph) = (dirs s)(dst \<mapsto> d\<lparr>table := (table d)(t := a), tablePhys := (tablePhys d)(t := ph)\<rparr>)" for a ph
    using assms(2) by (simp add: set_table_def upd_dir_def)
  ultimately show ?thesis
    using False same assms(1) by (auto simp: table_copy_def private_frames_def user_pages_def)
next
  case True
  obtain a ph bs where b: "heap_blocks s = (a, ph) # bs"
    using assms(9) True by (cases "heap_blocks s") auto
  have a: "a \<noteq> 0" "tables s a = None" "heap_ready s" using assms(7) b by (auto simp: fresh_blocks_def)
  obtain S where S: "tables s (table D t) = Some S" using assms(8) True by (auto simp: tables_ok_def)
  have E: "entry s D t = S" using S by (simp add: entry_def fun_eq_iff)
  obtain s' T' where c: "copy_page_table dst src t s = Some (True, s')" "tables s' = (tables s)(a \<mapsto> T')"
    "\<forall>p < 1024. page_copy s (S p) s' (T' p)" "private_in s S [0..<1024] T'"
    "dirs s' = (dirs s)(dst \<mapsto> d\<lparr>table := (table d)(t := a), tablePhys := (tablePhys d)(t := ph OR 7)\<rparr>)"
    "heap_blocks s' = bs" "heap_ready s'" "kerndir s' = kerndir s"
    "grows s s'" "pmm_inv (frames s')" "free_count s = free_count s' + npages S [0..<1024]"
    using copy_page_table_correct [OF assms(1-5) S a(3) b a(1,2)] assms(8,10) True E
    by (auto simp: tables_ok_def user_pages_def simp del: upt.simps)
  let ?d = "d\<lparr>table := (table d)(t := a), tablePhys := (tablePhys d)(t := ph OR 7)\<rparr>"
  have E': "entry s' ?d t = T'" using c(2) by (simp add: entry_def fun_eq_iff)
  have same: "present (T' p) = present (S p)" if "p < 1024" for p
    using c(3) page_copy_present that by blast
  have "copy_dir_entry dst src t s = Some (True, s')"
    using assms(4,6) True c(1) by (simp add: copy_dir_entry_def user_table_def)
  moreover have "table_copy s D K s' ?d t"
    using True c(2,3) a E E' by (simp add: table_copy_def)
  moreover have "private_frames D K s' ?d [t]"
    using c(4) same by (simp add: private_frames_def private_in_def E')
  moreover have "keeps_tables s s'" using c(2) a by (simp add: keeps_tables_def)
  moreover have "fresh_blocks s'" using assms(7) b c(2,6,7) by (auto simp: fresh_blocks_def)
  ultimately show ?thesis
    using c(5,6,8-11) True b E by (intro exI [of _ s'] exI [of _ ?d]) (simp add: user_pages_def del: upt.simps)
qed

lemma table_copy_later:
  assumes "table_copy s D K s1 d1 t" "grows s1 s2" "keeps_tables s1 s2" "table d2 t = table d1 t"
  shows "table_copy s D K s2 d2 t"
proof (cases "user_table D K t")
  case True
  then have "tables s1 (table d1 t) \<noteq> None" using assms(1) by (simp add: table_copy_def)
  then have "entry s2 d2 t = entry s1 d1 t" "tables s2 (table d2 t) \<noteq> None"
    using assms(3,4) by (auto simp: keeps_tables_def entry_def fun_eq_iff)
  then show ?thesis using assms True page_copy_later by (auto simp: table_copy_def)
qed (use assms in \<open>simp add: table_copy_def\<close>)

lemma table_copy_earlier:
  assumes "grows s s1" "keeps_tables s s1" "table_copy s1 D K s2 d t" "tables_ok s D K [t]"
  shows "table_copy s D K s2 d t"
proof (cases "user_table D K t")
  case True
  then have T: "tables s (table D t) \<noteq> None"
    "\<And>p. p < 1024 \<Longrightarrow> present (entry s D t p) \<Longrightarrow> unat (frame (entry s D t p)) \<in> used_frames (frames s)"
    using assms(4) by (auto simp: tables_ok_def)
  have "tables s (table d t) = None"
    using assms(2,3) True by (cases "tables s (table d t)") (auto simp: table_copy_def keeps_tables_def)
  then show ?thesis
    using assms(3) True page_copy_earlier [OF assms(1)] T(2) by (auto simp: table_copy_def keeps_entry [OF assms(2) T(1)])
qed (use assms in \<open>simp add: table_copy_def\<close>)

lemma tables_ok_later:
  assumes "tables_ok s D K ts" "grows s s1" "keeps_tables s s1"
  shows "tables_ok s1 D K ts"
  using assms keeps_entry [OF assms(3)] unfolding tables_ok_def grows_def keeps_tables_def by (metis subsetD)

lemma user_pages_later:
  assumes "tables_ok s D K ts" "keeps_tables s s1"
  shows "user_pages s1 D K ts = user_pages s D K ts"
proof -
  have "entry s1 D t = entry s D t" if "t \<in> set (filter (user_table D K) ts)" for t
    using assms(1) that by (intro keeps_entry [OF assms(2)]) (auto simp: tables_ok_def)
  then show ?thesis unfolding user_pages_def by (metis (mono_tags, lifting) map_cong)
qed

lemma copy_dir_entries_correct:
  assumes "pmm_inv (frames s)" "dirs s dst = Some d" "\<And>t. t \<in> set ts \<Longrightarrow> table d t = 0" "dirs s src = Some D"
    "src \<noteq> dst" "dirs s (kerndir s) = Some K" "kerndir s \<noteq> dst" "fresh_blocks s" "tables_ok s D K ts" "distinct ts"
    "length (filter (user_table D K) ts) \<le> length (heap_blocks s)" "user_pages s D K ts \<le> free_count s"
  shows "\<exists>s' d'. copy_dir_entries dst src ts s = Some (True, s') \<and> dirs s' = (dirs s)(dst \<mapsto> d')
    \<and> (\<forall>u. u \<notin> set ts \<longrightarrow> table d' u = table d u) \<and> (\<forall>t \<in> set ts. table_copy s D K s' d' t)
    \<and> private_frames D K s' d' ts \<and> keeps_tables s s' \<and> grows s s'"
  using assms
proof (induction ts arbitrary: s d)
  case Nil
  then show ?case
    by (intro exI [of _ s] exI [of _ d]) (simp add: private_frames_def keeps_tables_def fun_upd_idem)
next
  case (Cons t ts)
  have one: "tables_ok s D K [t]" "length (filter (user_table D K) [t]) \<le> length (heap_blocks s)"
    "user_pages s D K [t] \<le> free_count s" "tables_ok s D K ts"
    using Cons.prems(9,11,12) by (auto simp: tables_ok_def user_pages_def simp del: upt.simps split: if_splits)
  obtain s1 d1 where c: "copy_dir_entry dst src t s = Some (True, s1)" "dirs s1 = (dirs s)(dst \<mapsto> d1)"
    "\<forall>u. u \<noteq> t \<longrightarrow> table d1 u = table d u" "table_copy s D K s1 d1 t" "private_frames D K s1 d1 [t]"
    "keeps_tables s s1" "grows s s1" "pmm_inv (frames s1)" "fresh_blocks s1" "kerndir s1 = kerndir s"
    "free_count s = free_count s1 + user_pages s D K [t]"
    "length (heap_blocks s) = length (heap_blocks s1) + length (filter (user_table D K) [t])"
    using copy_dir_entry_correct [OF Cons.prems(1,2) _ Cons.prems(4-6,8) one(1-3)] Cons.prems(3) by auto
  have z: "table d1 u = 0" if "u \<in> set ts" for u
  proof -
    have "u \<noteq> t" using that Cons.prems(10) by auto
    then have "table d1 u = table d u" using c(3) by blast
    then show ?thesis using Cons.prems(3) [of u] that by simp
  qed
  have rest: "dirs s1 dst = Some d1" "dirs s1 src = Some D" "dirs s1 (kerndir s1) = Some K" "kerndir s1 \<noteq> dst"
    "tables_ok s1 D K ts" "distinct ts" "length (filter (user_table D K) ts) \<le> length (heap_blocks s1)"
    "user_pages s1 D K ts \<le> free_count s1"
    using Cons.prems c(2,10,11,12) tables_ok_later [OF one(4) c(7,6)] user_pages_later [OF one(4) c(6)]
    by (auto simp: user_pages_def simp del: upt.simps split: if_splits)
  obtain s2 d2 where i: "copy_dir_entries dst src ts s1 = Some (True, s2)" "dirs s2 = (dirs s1)(dst \<mapsto> d2)"
    "\<forall>u. u \<notin> set ts \<longrightarrow> table d2 u = table d1 u" "\<forall>t \<in> set ts. table_copy s1 D K s2 d2 t"
    "private_frames D K s2 d2 ts" "keeps_tables s1 s2" "grows s1 s2"
    using Cons.IH [OF c(8) rest(1) z rest(2) Cons.prems(5) rest(3,4) c(9) rest(5-8)] by blast
  have td: "table d2 t = table d1 t" using i(3) Cons.prems(10) by simp
  have T: "table_copy s D K s2 d2 u" if "u \<in> set (t # ts)" for u
  proof (cases "u = t")
    case True
    then show ?thesis using table_copy_later [OF c(4) i(7,6) td] by simp
  next
    case False
    then show ?thesis
      using table_copy_earlier [OF c(7,6)] i(4) one(4) that by (auto simp: tables_ok_def)
  qed
  have Et: "entry s2 d2 t = entry s1 d1 t" if "user_table D K t"
    using c(4) that i(6) td by (auto simp: table_copy_def keeps_tables_def entry_def fun_eq_iff)
  have old: "unat (frame (entry s1 d1 t p)) \<in> used_frames (frames s1)"
    if "user_table D K t" "p < 1024" "present (entry s1 d1 t p)" for p
    using c(4) that page_copy_frame(2) unfolding table_copy_def by metis
  have new: "unat (frame (entry s2 d2 u p)) \<notin> used_frames (frames s1)"
    if "u \<in> set ts" "user_table D K u" "p < 1024" "present (entry s2 d2 u p)" for u p
    using i(4) that page_copy_frame(1) unfolding table_copy_def by metis
  have cross: "frame (entry s2 d2 t p) \<noteq> frame (entry s2 d2 u q)"
    if "user_table D K t" "user_table D K u" "u \<in> set ts" "p < 1024" "q < 1024"
      "present (entry s2 d2 t p)" "present (entry s2 d2 u q)" for u p q
    using old [OF that(1,4)] new [OF that(3,2,5,7)] that(6) by (auto simp: Et [OF that(1)])
  have "private_frames D K s2 d2 (t # ts)"
    using i(5) c(5) cross cross [symmetric] Et by (simp add: private_frames_def)
  then show ?case
    using c(1,2) i(1,2,3) c(3) T grows_trans [OF c(7) i(7)] c(6) i(6)
    by (intro exI [of _ s2] exI [of _ d2]) (auto simp: keeps_tables_def)
qed

definition same_memory :: "mm \<Rightarrow> mm \<Rightarrow> bool" where
  "same_memory s s' \<longleftrightarrow> tables s' = tables s \<and> pmem s' = pmem s \<and> frames s' = frames s"

lemma same_memory_upd [simp]: "same_memory s (upd_dir d f s')  \<longleftrightarrow> same_memory s s'"
  by (simp add: same_memory_def upd_dir_def)

lemma same_memory_cong:
  assumes "same_memory s s1" "same_memory s' s2" "table D' = table D" "table K' = table K" "table d' = table d"
  shows "table_copy s1 D' K' s2 d' t = table_copy s D K s' d t"
    "private_frames D' K' s2 d' ts = private_frames D K s' d ts"
    "keeps_tables s1 s2 = keeps_tables s s'" "grows s1 s2 = grows s s'"
    "tables_ok s1 D' K' ts = tables_ok s D K ts" "user_pages s1 D' K' ts = user_pages s D K ts"
    "free_count s1 = free_count s" "user_table D' K' = user_table D K"
proof -
  have e: "entry s1 D' = entry s D" "entry s2 d' = entry s' d" "user_table D' K' = user_table D K"
    "fdata s1 = fdata s" "fdata s2 = fdata s'"
    using assms by (simp_all add: entry_def user_table_def same_memory_def fdata_def fun_eq_iff)
  show "table_copy s1 D' K' s2 d' t = table_copy s D K s' d t"
    "private_frames D' K' s2 d' ts = private_frames D K s' d ts"
    "keeps_tables s1 s2 = keeps_tables s s'" "grows s1 s2 = grows s s'"
    "tables_ok s1 D' K' ts = tables_ok s D K ts" "user_pages s1 D' K' ts = user_pages s D K ts"
    "free_count s1 = free_count s" "user_table D' K' = user_table D K"
    using assms by (simp_all add: table_copy_def private_frames_def keeps_tables_def grows_def tables_ok_def
        user_pages_def free_count_def page_copy_def e same_memory_def)
qed

text \<open>
  C32: The address space of a new process. With enough free frames and heap blocks, \<open>copy_page_dir\<close>
  returns a new directory. Where the kernel directory has a table the copy shares the table of the
  source. Every other table is copied: the new table has a present page exactly where the old one
  has, with the same access bits, in a frame that was free before and that no other page of the copy
  has, with the same contents. The tables of the source and the contents of all frames in use are
  left as they were.
\<close>

theorem copy_page_dir_correct:
  assumes "dirs s src = Some D" "dirs s (kerndir s) = Some K" "dir_lock D = 0"
    "pmm_inv (frames s)" "fresh_blocks s"
    "\<forall>a \<in> fst ` set (heap_blocks s). a AND 0xFFF = 0 \<and> dirs s a = None"
    "tables_ok s D K [0..<1024]" "length (filter (user_table D K) [0..<1024]) < length (heap_blocks s)"
    "user_pages s D K [0..<1024] \<le> free_count s"
  shows "\<exists>dst s' d. copy_page_dir src s = Some (dst, s') \<and> dst \<noteq> 0 \<and> dirs s' dst = Some d
    \<and> (\<forall>t < 1024. table_copy s D K s' d t) \<and> private_frames D K s' d [0..<1024]
    \<and> keeps_tables s s' \<and> grows s s'"
proof -
  obtain dst ph bs where b: "heap_blocks s = (dst, ph) # bs" using assms(8) by (cases "heap_blocks s") auto
  have dst: "dst \<noteq> 0" "dst AND 0xFFF = 0" "dirs s dst = None" "heap_ready s"
    using assms(5,6) b by (auto simp: fresh_blocks_def)
  then have ne: "src \<noteq> dst" "kerndir s \<noteq> dst" using assms(1,2) by auto
  define s2 where "s2 = s\<lparr>heap_blocks := bs, dirs := (dirs s)(dst \<mapsto> zero_dir\<lparr>dir_phys := ph\<rparr>)\<rparr>"
  define s4 where "s4 = upd_dir dst (\<lambda>x. x\<lparr>dir_lock := 1\<rparr>) (upd_dir src (\<lambda>x. x\<lparr>dir_lock := 1\<rparr>) s2)"
  let ?D = "D\<lparr>dir_lock := 1\<rparr>" and ?K = "if kerndir s = src then D\<lparr>dir_lock := 1\<rparr> else K"
  have K: "table ?K = table K" using assms(1,2) by auto
  have sm: "same_memory s s4" by (simp add: s4_def s2_def) (simp add: same_memory_def)
  note cong = same_memory_cong [OF sm, of _ _ ?D D ?K K, simplified, OF _ K]
  have D4: "dirs s4 dst = Some (zero_dir\<lparr>dir_phys := ph, dir_lock := 1\<rparr>)" "dirs s4 src = Some ?D"
    "dirs s4 (kerndir s4) = Some ?K" "kerndir s4 = kerndir s" "heap_blocks s4 = bs"
    using ne assms(1,2) by (simp_all add: s4_def s2_def upd_dir_def)
  have fb: "fresh_blocks s4"
    using assms(5) b by (simp add: fresh_blocks_def s4_def s2_def upd_dir_def)
  have pre: "tables_ok s4 ?D ?K [0..<1024]" "user_pages s4 ?D ?K [0..<1024] \<le> free_count s4"
      "length (filter (user_table ?D ?K) [0..<1024]) \<le> length (heap_blocks s4)" "pmm_inv (frames s4)"
    using assms(4,7-9) b cong(5-8) [of s s _ _, OF _ refl] sm D4(5)
    by (simp_all add: same_memory_def del: upt.simps)
  obtain s5 d where c: "copy_dir_entries dst src [0..<1024] s4 = Some (True, s5)" "dirs s5 = (dirs s4)(dst \<mapsto> d)"
    "\<forall>t \<in> set [0..<1024]. table_copy s4 ?D ?K s5 d t" "private_frames ?D ?K s5 d [0..<1024]" "keeps_tables s4 s5" "grows s4 s5"
    using copy_dir_entries_correct [OF pre(4) D4(1) _ D4(2) ne(1) D4(3) _ fb pre(1) _ pre(3,2)] ne D4(4)
    by (auto simp: zero_dir_def)
  define s6 where "s6 = unlock_dir dst (unlock_dir src s5)"
  have "copy_page_dir src s = Some (dst, s6)"
    using dst c(1) assms(1,3) ne b
    by (simp add: copy_page_dir_def kmalloc_ap_def kmalloc_int_def lock_dir_def spin_lock_free s6_def
        flip: s2_def, simp add: s2_def upd_dir_def zero_dir_def s4_def)
  moreover have "dirs s6 dst = Some (d\<lparr>dir_lock := 0\<rparr>)"
    using c(2) ne by (simp add: s6_def unlock_dir_def upd_dir_def)
  moreover have sm6: "same_memory s6 s5" by (simp add: s6_def unlock_dir_def same_memory_def upd_dir_def)
  note eqs = same_memory_cong [OF sm sm6, of ?D D ?K K d "d\<lparr>dir_lock := 0\<rparr>"]
  moreover have "(\<forall>t < 1024. table_copy s D K s6 (d\<lparr>dir_lock := 0\<rparr>) t) \<and> private_frames D K s6 (d\<lparr>dir_lock := 0\<rparr>) [0..<1024]
      \<and> keeps_tables s s6 \<and> grows s s6"
    using c(3-6) eqs(1-4) K by simp
  ultimately show ?thesis using dst(1) by blast
qed

definition demo_table :: page_table where
  "demo_table = (\<lambda>_. zero_page)(0 := zero_page\<lparr>present := True, rw := True, user := True, frame := 5\<rparr>)"

definition demo_mm :: mm where
  "demo_mm = \<lparr>kerndir = 0x5000, curdir = 0x1000,
     dirs = [0x1000 \<mapsto> zero_dir\<lparr>table := (\<lambda>_. 0)(0 := 0x4000)\<rparr>, 0x5000 \<mapsto> zero_dir],
     tables = [0x4000 \<mapsto> demo_table], frames = demo_pmm, pmem = \<lambda>a. a, placement_address = 0,
     heap_ready = True, heap_blocks = [(0x10000, 0x210000), (0x20000, 0x220000)]\<rparr>"

lemma filter_zero: "filter (\<lambda>t. t = (0::nat)) [0..<1024] = [0]"
proof -
  have "[0..<1024] = 0 # [Suc 0..<1024]" by (rule upt_conv_Cons) simp
  moreover have "filter (\<lambda>t. t = (0::nat)) [Suc 0..<1024] = []" by (simp add: filter_empty_conv)
  ultimately show ?thesis by simp
qed

theorem copy_page_dir_correct_witness:
  "\<exists>dst s' d. copy_page_dir 0x1000 demo_mm = Some (dst, s') \<and> dirs s' dst = Some d
    \<and> table_copy demo_mm (zero_dir\<lparr>table := (\<lambda>_. 0)(0 := 0x4000)\<rparr>) zero_dir s' d 0 \<and> grows demo_mm s'"
proof -
  let ?D = "zero_dir\<lparr>table := (\<lambda>_. 0)(0 := 0x4000)\<rparr>"
  have D: "dirs demo_mm 0x1000 = Some ?D" "dirs demo_mm (kerndir demo_mm) = Some zero_dir" "dir_lock ?D = 0"
    "pmm_inv (frames demo_mm)" "fresh_blocks demo_mm"
    "\<forall>a \<in> fst ` set (heap_blocks demo_mm). a AND 0xFFF = 0 \<and> dirs demo_mm a = None"
    using demo_pmm_inv by (simp_all add: demo_mm_def zero_dir_def fresh_blocks_def)
  have u: "user_table ?D zero_dir = (\<lambda>t. t = 0)" by (auto simp: user_table_def zero_dir_def fun_eq_iff)
  have e: "entry demo_mm ?D 0 = demo_table" by (simp add: entry_def demo_mm_def fun_eq_iff)
  have pr: "(\<lambda>p. present (demo_table p)) = (\<lambda>p. p = 0)" by (simp add: demo_table_def zero_page_def fun_eq_iff)
  have "frame_used demo_pmm 5" by code_simp
  then have "unat (frame (demo_table 0)) \<in> used_frames (frames demo_mm)"
    by (simp add: used_frames_def demo_table_def demo_mm_def) (simp add: demo_pmm_def)
  moreover have "tables demo_mm (table ?D 0) \<noteq> None" by (simp add: demo_mm_def)
  ultimately have ok: "tables_ok demo_mm ?D zero_dir [0..<1024]"
    using fun_cong [OF pr] by (simp add: tables_ok_def u e)
  have "free_idx (physical_frame (frames demo_mm)) 33" using demo_pmm_free by (simp add: demo_mm_def)
  then have "0 < free_count demo_mm" by (auto simp: free_count_def card_gt_0_iff)
  then have cnt: "length (filter (user_table ?D zero_dir) [0..<1024]) < length (heap_blocks demo_mm)"
      "user_pages demo_mm ?D zero_dir [0..<1024] \<le> free_count demo_mm"
    unfolding u filter_zero user_pages_def by (simp_all only: list.map e npages_def pr filter_zero) (simp_all add: demo_mm_def)
  show ?thesis using copy_page_dir_correct [OF D ok cnt] by force
qed

section \<open>Page table pointers stay valid\<close>

definition mm_typed :: "mm \<Rightarrow> bool" where
  "mm_typed s \<longleftrightarrow> fresh_blocks s
    \<and> (\<forall>d D t. dirs s d = Some D \<longrightarrow> table D t \<noteq> 0 \<longrightarrow> tables s (table D t) \<noteq> None)
    \<and> (\<forall>d d' D D' t t'. dirs s d = Some D \<longrightarrow> dirs s d' = Some D' \<longrightarrow> table D t = table D' t' \<longrightarrow> table D t \<noteq> 0 \<longrightarrow> t = t')"

lemma typed_table: "mm_typed s \<Longrightarrow> dirs s d = Some D \<Longrightarrow> table D t \<noteq> 0 \<Longrightarrow> \<exists>T. tables s (table D t) = Some T"
  unfolding mm_typed_def by blast

lemma typed_cong:
  assumes "dirs s' = dirs s" "\<And>a. (tables s' a = None) = (tables s a = None)" "heap_blocks s' = heap_blocks s" "heap_ready s' = heap_ready s"
  shows "mm_typed s' = mm_typed s"
  using assms by (simp add: mm_typed_def fresh_blocks_def)

definition table_at :: "mm \<Rightarrow> nat \<Rightarrow> u32 \<Rightarrow> bool" where
  "table_at s t a \<longleftrightarrow> a = 0 \<or> (\<exists>d D. dirs s d = Some D \<and> table D t = a)"

lemma table_atI [intro]: "dirs s d = Some D \<Longrightarrow> table_at s t (table D t)"
  by (auto simp: table_at_def)

lemma table_at_0 [simp]: "table_at s t 0"
  by (simp add: table_at_def)

lemma typed_dirs:
  assumes "mm_typed s" "\<And>d D t. D' d = Some D \<Longrightarrow> table_at s t (table D t)"
  shows "mm_typed (s\<lparr>dirs := D'\<rparr>)"
proof -
  have L: "\<exists>d1 D1. dirs s d1 = Some D1 \<and> table D1 t = table D t" if "D' d = Some D" "table D t \<noteq> 0" for d D t
    using assms(2) [OF that(1), of t] that(2) by (simp add: table_at_def)
  have V: "tables s (table D t) \<noteq> None" if "D' d = Some D" "table D t \<noteq> 0" for d D t
    using L [OF that] assms(1) that(2) unfolding mm_typed_def by metis
  have I: "t = t'" if "D' d = Some D" "D' d' = Some E" "table D t = table E t'" "table D t \<noteq> 0" for d d' D E t t'
    using L [OF that(1,4)] L [OF that(2), of t'] that assms(1) unfolding mm_typed_def by metis
  show ?thesis using assms(1) V I by (auto simp: mm_typed_def fresh_blocks_def)
qed

lemma typed_set_table: "mm_typed s \<Longrightarrow> table_at s t a \<Longrightarrow> mm_typed (set_table d t a ph s)"
  unfolding set_table_def upd_dir_def by (erule typed_dirs) (auto split: if_splits)

lemma typed_upd_dir: "mm_typed s \<Longrightarrow> (\<And>x. table (f x) = table x) \<Longrightarrow> mm_typed (upd_dir d f s)"
  unfolding upd_dir_def by (erule typed_dirs) (auto split: if_splits)

lemma typed_new_dir: "mm_typed s \<Longrightarrow> (\<And>t. table x t = 0) \<Longrightarrow> mm_typed (s\<lparr>dirs := (dirs s)(d \<mapsto> x)\<rparr>)"
  by (erule typed_dirs) (auto split: if_splits)

lemma typed_new_table:
  assumes "mm_typed s" "heap_blocks s = (a, p) # bs"
  shows "mm_typed (set_table d t a ph (s\<lparr>heap_blocks := bs, tables := (tables s)(a \<mapsto> T)\<rparr>))"
proof -
  let ?u = "\<lambda>x. x\<lparr>table := (table x)(t := a), tablePhys := (tablePhys x)(t := ph)\<rparr>"
  have a: "a \<noteq> 0" "tables s a = None" using assms by (auto simp: mm_typed_def fresh_blocks_def)
  have fb: "fresh_blocks (set_table d t a ph (s\<lparr>heap_blocks := bs, tables := (tables s)(a \<mapsto> T)\<rparr>))"
    using assms by (auto simp: mm_typed_def fresh_blocks_def set_table_def upd_dir_def)
  have old: "table D u \<noteq> a" if "dirs s e = Some D" for e D u
    using assms(1) a that unfolding mm_typed_def by metis
  have new: "\<exists>D0. dirs s e = Some D0 \<and> (table D u = table D0 u \<or> u = t \<and> table D u = a)"
    if "((dirs s)(d := map_option ?u (dirs s d))) e = Some D" for e D u
    using that by (auto split: if_splits)
  have V: "((tables s)(a \<mapsto> T)) (table D u) \<noteq> None"
    if "((dirs s)(d := map_option ?u (dirs s d))) e = Some D" "table D u \<noteq> 0" for e D u
    using new [OF that(1), of u] that(2) assms(1) unfolding mm_typed_def by (metis fun_upd_apply option.distinct(1))
  have I: "u = u'" if "((dirs s)(d := map_option ?u (dirs s d))) e = Some D"
    "((dirs s)(d := map_option ?u (dirs s d))) e' = Some D'" "table D u = table D' u'" "table D u \<noteq> 0" for e e' D D' u u'
    using new [OF that(1), of u] new [OF that(2), of u'] that(3,4) old assms(1) unfolding mm_typed_def by metis
  show ?thesis using fb V I by (simp add: mm_typed_def set_table_def upd_dir_def)
qed

lemma get_page_typed:
  assumes "get_page v cr d s = Some (q, s')" "mm_typed s"
  shows "mm_typed s'"
proof -
  have hr: "heap_ready s" using assms(2) by (simp add: mm_typed_def fresh_blocks_def)
  show ?thesis
    using assms typed_new_table [OF assms(2)] hr
    by (auto simp: get_page_def Let_def kmalloc_ap_def kmalloc_int_def clear_table_def bind_eq_Some_iff
        split: if_splits list.splits option.splits)
qed

lemma write_page_typed: "write_page q p s = Some s' \<Longrightarrow> mm_typed s' = mm_typed s"
  by (rule typed_cong) (auto simp: write_page_def split: if_splits)

lemma typed_frames [simp]: "mm_typed (s\<lparr>frames := m\<rparr>) = mm_typed s" "mm_typed (copy_physical_frame a b s) = mm_typed s"
  by (rule typed_cong; simp)+

lemma copy_entry_typed: "copy_entry dt st p s = Some s' \<Longrightarrow> mm_typed s' = mm_typed s"
  by (auto simp: copy_entry_def bind_eq_Some_iff dest!: write_page_typed split: if_splits)

lemma copy_entries_typed: "copy_entries dt st ps s = Some s' \<Longrightarrow> mm_typed s' = mm_typed s"
  by (induction ps arbitrary: s) (auto simp: bind_eq_Some_iff dest!: copy_entry_typed)

lemma copy_page_table_typed:
  assumes "copy_page_table dst src t s = Some (ok, s')" "mm_typed s"
  shows "mm_typed s'"
proof -
  have hr: "heap_ready s" using assms(2) by (simp add: mm_typed_def fresh_blocks_def)
  have nb: "mm_typed (s\<lparr>heap_blocks := bs\<rparr>)" if "heap_blocks s = (0, p) # bs" for p bs
    using assms(2) that by (auto simp: mm_typed_def fresh_blocks_def)
  show ?thesis
    using assms typed_new_table [OF assms(2)] hr nb
    by (auto simp: copy_page_table_def Let_def kmalloc_ap_def kmalloc_int_def clear_table_def bind_eq_Some_iff
        dest!: copy_entries_typed split: if_splits list.splits)
qed

lemma copy_dir_entry_typed:
  assumes "copy_dir_entry dst src t s = Some (ok, s')" "mm_typed s"
  shows "mm_typed s'"
  using assms copy_page_table_typed
  by (auto simp: copy_dir_entry_def bind_eq_Some_iff intro!: typed_set_table split: if_splits)

lemma copy_dir_entries_typed: "copy_dir_entries dst src ts s = Some (ok, s') \<Longrightarrow> mm_typed s \<Longrightarrow> mm_typed s'"
  by (induction ts arbitrary: s) (auto simp: bind_eq_Some_iff dest: copy_dir_entry_typed split: if_splits)

lemma lock_dir_typed: "lock_dir d s = Some s' \<Longrightarrow> mm_typed s \<Longrightarrow> mm_typed s'"
  by (auto simp: lock_dir_def bind_eq_Some_iff intro!: typed_upd_dir)

lemma copy_page_dir_typed:
  assumes "copy_page_dir src s = Some (dst, s')" "mm_typed s"
  shows "mm_typed s'"
proof -
  have hr: "heap_ready s" using assms(2) by (simp add: mm_typed_def fresh_blocks_def)
  have nb: "mm_typed (s\<lparr>heap_blocks := bs\<rparr>)" if "heap_blocks s = (a, p) # bs" for a p bs
    using assms(2) that by (auto simp: mm_typed_def fresh_blocks_def)
  have nd: "mm_typed (s\<lparr>heap_blocks := bs, dirs := (dirs s)(a \<mapsto> zero_dir\<lparr>dir_phys := p\<rparr>)\<rparr>)" if "heap_blocks s = (a, p) # bs" for a p bs
    using typed_new_dir [OF nb [OF that]] by (simp add: zero_dir_def)
  have run: "mm_typed (unlock_dir a (unlock_dir src s3))"
    if "mm_typed s0" "lock_dir src s0 = Some s1" "lock_dir a s1 = Some s2" "copy_dir_entries a src ts s2 = Some (ok, s3)"
    for a s0 s1 s2 s3 ts ok
    using that by (auto simp: unlock_dir_def intro!: typed_upd_dir dest!: lock_dir_typed copy_dir_entries_typed)
  show ?thesis
    using assms(1,2) hr nb nd run
    by (auto simp: copy_page_dir_def Let_def kmalloc_ap_def kmalloc_int_def bind_eq_Some_iff split: if_splits list.splits)
qed

subsection \<open>Tables in two directories\<close>

text \<open>
  What makes it safe to free the tables of a directory: a table that two directories point to is at an
  index where the kernel has a table, and the directory of the kernel stays where it is.
\<close>

definition kern_shared :: "mm \<Rightarrow> bool" where
  "kern_shared s \<longleftrightarrow> kerndir s \<notin> fst ` set (heap_blocks s)
    \<and> (\<forall>K d D e E t. dirs s (kerndir s) = Some K \<longrightarrow> dirs s d = Some D \<longrightarrow> dirs s e = Some E \<longrightarrow> d \<noteq> e
        \<longrightarrow> table D t \<noteq> 0 \<longrightarrow> table D t = table E t \<longrightarrow> table K t \<noteq> 0)"

lemma kern_sharedD:
  "kern_shared s \<Longrightarrow> dirs s (kerndir s) = Some K \<Longrightarrow> dirs s d = Some D \<Longrightarrow> dirs s e = Some E \<Longrightarrow> d \<noteq> e
    \<Longrightarrow> table D t \<noteq> 0 \<Longrightarrow> table D t = table E t \<Longrightarrow> table K t \<noteq> 0"
  unfolding kern_shared_def by blast

lemma kshared_cong:
  assumes "kern_shared s" "dirs s' = dirs s" "kerndir s' = kerndir s" "set (heap_blocks s') \<subseteq> set (heap_blocks s)"
  shows "kern_shared s'"
  using assms unfolding kern_shared_def by auto

lemma kshared_dirs:
  assumes s: "kern_shared s"
    and K: "\<And>K'. D' (kerndir s) = Some K' \<Longrightarrow> \<exists>K. dirs s (kerndir s) = Some K \<and> (\<forall>t. table K t \<noteq> 0 \<longrightarrow> table K' t \<noteq> 0)"
    and D: "\<And>d D t. D' d = Some D \<Longrightarrow> table D t \<noteq> 0 \<Longrightarrow>
      (\<exists>D0. dirs s d = Some D0 \<and> table D0 t = table D t) \<or> (\<forall>K'. D' (kerndir s) = Some K' \<longrightarrow> table K' t \<noteq> 0)
      \<or> (\<forall>e E. D' e = Some E \<longrightarrow> e \<noteq> d \<longrightarrow> table E t \<noteq> table D t)"
  shows "kern_shared (s\<lparr>dirs := D'\<rparr>)"
proof -
  have "table K' t \<noteq> 0" if "D' (kerndir s) = Some K'" "D' d = Some E" "D' e = Some F" "d \<noteq> e" "table E t \<noteq> 0"
    "table E t = table F t" for K' d E e F t
  proof -
    from K [OF that(1)] obtain K0 where
      k: "dirs s (kerndir s) = Some K0" "\<forall>t. table K0 t \<noteq> 0 \<longrightarrow> table K' t \<noteq> 0" by blast
    have "table F t \<noteq> 0" using that by simp
    from D [OF that(2,5)] D [OF that(3) this] k kern_sharedD [OF s k(1), of d _ e _ t] that show ?thesis by metis
  qed
  then show ?thesis using s by (auto simp: kern_shared_def)
qed

lemma kshared_set_table:
  assumes s: "kern_shared s"
    and k: "d = kerndir s \<Longrightarrow> a \<noteq> 0"
    and a: "a = 0 \<or> (\<forall>K. dirs s (kerndir s) = Some K \<longrightarrow> table K t \<noteq> 0) \<or> (\<forall>e E. dirs s e = Some E \<longrightarrow> table E t \<noteq> a)"
  shows "kern_shared (set_table d t a ph s)"
  unfolding set_table_def upd_dir_def
proof (rule kshared_dirs [OF s], goal_cases)
  case (1 K')
  then show ?case using k by (auto split: if_splits)
next
  case (2 e E u)
  show ?case
  proof (cases "e = d \<and> u = t")
    case True
    then show ?thesis using 2 a k by (auto split: if_splits)
  next
    case False
    then show ?thesis using 2 by (auto split: if_splits)
  qed
qed

lemma kshared_upd_dir:
  "kern_shared s \<Longrightarrow> (\<And>x. table (f x) = table x) \<Longrightarrow> kern_shared (upd_dir d f s)"
  unfolding upd_dir_def by (erule kshared_dirs) (auto split: if_splits)

lemma kshared_new_dir:
  assumes "kern_shared s" "a \<noteq> kerndir s" "\<And>t. table x t = 0"
  shows "kern_shared (s\<lparr>dirs := (dirs s)(a \<mapsto> x)\<rparr>)"
  by (rule kshared_dirs [OF assms(1)]) (use assms(2,3) in \<open>auto split: if_splits\<close>)

lemma kshared_locks:
  "lock_dir d s = Some s' \<Longrightarrow> kern_shared s \<Longrightarrow> kern_shared s' \<and> kerndir s' = kerndir s"
  "kern_shared s \<Longrightarrow> kern_shared (unlock_dir d s)"
  by (auto simp: lock_dir_def unlock_dir_def bind_eq_Some_iff upd_dir_def [of _ _ s] intro!: kshared_upd_dir [unfolded upd_dir_def])

lemma kshared_fresh:
  assumes "kern_shared s" "mm_typed s" "heap_blocks s = (a, p) # bs"
  shows "kern_shared (set_table d t a ph (s\<lparr>heap_blocks := bs, tables := T\<rparr>))"
proof (rule kshared_set_table)
  show "kern_shared (s\<lparr>heap_blocks := bs, tables := T\<rparr>)" by (rule kshared_cong [OF assms(1)]) (use assms in auto)
  have a: "a \<noteq> 0" "tables s a = None" using assms by (auto simp: mm_typed_def fresh_blocks_def)
  then show "a \<noteq> 0" by simp
  have "table E t \<noteq> a" if "dirs s e = Some E" for e E
    using assms(2) a that unfolding mm_typed_def by metis
  then show "a = 0 \<or> (\<forall>K. dirs (s\<lparr>heap_blocks := bs, tables := T\<rparr>) (kerndir (s\<lparr>heap_blocks := bs, tables := T\<rparr>)) = Some K
      \<longrightarrow> table K t \<noteq> 0) \<or> (\<forall>e E. dirs (s\<lparr>heap_blocks := bs, tables := T\<rparr>) e = Some E \<longrightarrow> table E t \<noteq> a)" by simp
qed

lemma get_page_shared:
  assumes "get_page v cr d s = Some (q, s')" "mm_typed s" "kern_shared s"
  shows "kern_shared s'"
proof -
  have hr: "heap_ready s" using assms(2) by (simp add: mm_typed_def fresh_blocks_def)
  show ?thesis
    using assms kshared_fresh [OF assms(3,2)] hr
    by (auto simp: get_page_def Let_def kmalloc_ap_def kmalloc_int_def clear_table_def bind_eq_Some_iff
        split: if_splits list.splits option.splits)
qed

lemma write_page_same:
  "write_page q p s = Some s' \<Longrightarrow> dirs s' = dirs s \<and> kerndir s' = kerndir s \<and> heap_blocks s' = heap_blocks s"
  by (auto simp: write_page_def split: if_splits)

lemma write_page_shared: "write_page q p s = Some s' \<Longrightarrow> kern_shared s' = kern_shared s"
  by (drule write_page_same) (simp add: kern_shared_def)

lemma shared_frames [simp]:
  "kern_shared (s\<lparr>frames := m\<rparr>) = kern_shared s" "kern_shared (s\<lparr>curdir := d\<rparr>) = kern_shared s"
  "kern_shared (copy_physical_frame a b s) = kern_shared s"
  by (simp_all add: kern_shared_def copy_physical_frame_def)

lemma copy_entries_same:
  "copy_entries dt st ps s = Some s' \<Longrightarrow> dirs s' = dirs s \<and> kerndir s' = kerndir s \<and> heap_blocks s' = heap_blocks s"
proof (induction ps arbitrary: s)
  case (Cons p ps)
  obtain s1 where "copy_entry dt st p s = Some s1" "copy_entries dt st ps s1 = Some s'"
    using Cons(2) by (auto simp: bind_eq_Some_iff)
  then show ?case
    using Cons(1) [of s1]
    by (auto simp: copy_entry_def copy_physical_frame_def bind_eq_Some_iff dest!: write_page_same split: if_splits)
qed simp

lemma set_table_same [simp]:
  "kerndir (set_table d t a ph s) = kerndir s" "heap_blocks (set_table d t a ph s) = heap_blocks s"
  "kerndir (upd_dir d f s) = kerndir s" "heap_blocks (upd_dir d f s) = heap_blocks s"
  by (simp_all add: set_table_def upd_dir_def)

lemma copy_page_table_shared:
  assumes "copy_page_table dst src t s = Some (ok, s')" "mm_typed s" "kern_shared s"
  shows "kern_shared s' \<and> kerndir s' = kerndir s"
proof -
  have hr: "heap_ready s" using assms(2) by (simp add: mm_typed_def fresh_blocks_def)
  have c: "kern_shared s2 \<and> kerndir s2 = kerndir s1"
    if "copy_entries dt st ps s1 = Some s2" "kern_shared s1" for dt st ps s1 s2
    using copy_entries_same [OF that(1)] that(2) by (simp add: kern_shared_def)
  have nb: "kern_shared (s\<lparr>heap_blocks := bs\<rparr>)" if "heap_blocks s = b # bs" for b bs
    by (rule kshared_cong [OF assms(3)]) (use that in auto)
  show ?thesis
    using assms kshared_fresh [OF assms(3,2)] hr nb
    by (auto simp: copy_page_table_def Let_def kmalloc_ap_def kmalloc_int_def clear_table_def bind_eq_Some_iff
        dest!: c split: if_splits list.splits simp del: upt_rec_numeral)
qed

lemma copy_dir_entry_shared:
  assumes "copy_dir_entry dst src t s = Some (ok, s')" "mm_typed s" "kern_shared s" "dst \<noteq> kerndir s"
  shows "kern_shared s' \<and> kerndir s' = kerndir s"
  using assms copy_page_table_shared
  by (auto simp: copy_dir_entry_def bind_eq_Some_iff intro!: kshared_set_table split: if_splits)

lemma copy_dir_entries_shared:
  "copy_dir_entries dst src ts s = Some (ok, s') \<Longrightarrow> mm_typed s \<Longrightarrow> kern_shared s \<Longrightarrow> dst \<noteq> kerndir s \<Longrightarrow> kern_shared s'"
proof (induction ts arbitrary: s)
  case (Cons t ts)
  obtain ok1 s1 where e: "copy_dir_entry dst src t s = Some (ok1, s1)"
    "(if ok1 then copy_dir_entries dst src ts s1 else Some (False, s1)) = Some (ok, s')"
    using Cons(2) by (auto simp: bind_eq_Some_iff)
  then show ?case
    using Cons(1) [of s1] copy_dir_entry_shared [OF e(1) Cons(3-5)] copy_dir_entry_typed [OF e(1) Cons(3)] Cons(5)
    by (auto split: if_splits)
qed simp

lemma copy_page_dir_shared:
  assumes "copy_page_dir src s = Some (dst, s')" "mm_typed s" "kern_shared s"
  shows "kern_shared s'"
proof -
  have hr: "heap_ready s" using assms(2) by (simp add: mm_typed_def fresh_blocks_def)
  have nb: "kern_shared (s\<lparr>heap_blocks := bs\<rparr>)" "mm_typed (s\<lparr>heap_blocks := bs\<rparr>)" "a \<noteq> kerndir s"
    if "heap_blocks s = (a, p) # bs" for a p bs
    using assms(2,3) that by (auto simp: mm_typed_def fresh_blocks_def kern_shared_def)
  have nd: "kern_shared (s\<lparr>heap_blocks := bs, dirs := (dirs s)(a \<mapsto> zero_dir\<lparr>dir_phys := p\<rparr>)\<rparr>)"
    "mm_typed (s\<lparr>heap_blocks := bs, dirs := (dirs s)(a \<mapsto> zero_dir\<lparr>dir_phys := p\<rparr>)\<rparr>)"
    if "heap_blocks s = (a, p) # bs" for a p bs
    using kshared_new_dir [OF nb(1) [OF that], of a "zero_dir\<lparr>dir_phys := p\<rparr>"]
      typed_new_dir [OF nb(2) [OF that], of "zero_dir\<lparr>dir_phys := p\<rparr>" a] nb(3) [OF that]
    by (simp_all add: zero_dir_def)
  have run: "kern_shared (unlock_dir a (unlock_dir src s3))"
    if "mm_typed s0" "kern_shared s0" "a \<noteq> kerndir s0" "lock_dir src s0 = Some s1" "lock_dir a s1 = Some s2"
      "copy_dir_entries a src ts s2 = Some (ok, s3)" for a s0 s1 s2 s3 ts ok
    using that kshared_locks(1) [OF that(4)] kshared_locks(1) [OF that(5)] lock_dir_typed [OF that(4)] lock_dir_typed [OF that(5)]
      copy_dir_entries_shared [OF that(6)] by (auto intro!: kshared_locks(2))
  show ?thesis
    using assms hr nb nd run
    by (auto simp: copy_page_dir_def Let_def kmalloc_ap_def kmalloc_int_def bind_eq_Some_iff split: if_splits list.splits
        simp del: upt_rec_numeral)
qed

subsection \<open>Freeing tables\<close>

text \<open>
  A directory may be stripped when, at every index where the kernel has a table, it has that table or
  none. \<open>strip_page_dir\<close> frees the tables other than those of the kernel, while \<open>copy_page_dir\<close> shares
  every table at an index where the kernel has one, so that without this the table may be in use by
  another directory.
\<close>

definition strip_ready :: "u32 \<Rightarrow> mm \<Rightarrow> bool" where
  "strip_ready dir s \<longleftrightarrow>
    (case (dirs s dir, dirs s (kerndir s)) of
       (Some D, Some K) \<Rightarrow> \<forall>t. table K t \<noteq> 0 \<longrightarrow> table D t = 0 \<or> table D t = table K t
     | _ \<Rightarrow> True)"

definition mm_inv :: "mm \<Rightarrow> bool" where
  "mm_inv s \<longleftrightarrow> mm_typed s \<and> kern_shared s"

lemma mm_inv_cong:
  assumes "mm_inv s" "dirs s' = dirs s" "kerndir s' = kerndir s" "heap_blocks s' = heap_blocks s"
    "heap_ready s' = heap_ready s" "\<And>a. (tables s' a = None) = (tables s a = None)"
  shows "mm_inv s'"
  using assms typed_cong [of s' s] kshared_cong [of s s'] by (simp add: mm_inv_def)

definition same_dirs :: "mm \<Rightarrow> mm \<Rightarrow> bool" where
  "same_dirs s s' \<longleftrightarrow> dirs s' = dirs s \<and> kerndir s' = kerndir s \<and> heap_blocks s' = heap_blocks s
    \<and> heap_ready s' = heap_ready s \<and> (\<forall>a. (tables s' a = None) = (tables s a = None))"

lemma same_dirs_trans: "same_dirs s s1 \<Longrightarrow> same_dirs s1 s2 \<Longrightarrow> same_dirs s s2"
  by (simp add: same_dirs_def)

lemma same_dirs_inv: "same_dirs s s' \<Longrightarrow> mm_inv s \<Longrightarrow> mm_inv s'"
  unfolding same_dirs_def by (rule mm_inv_cong) auto

lemma free_entry_same: "free_entry q s = Some s' \<Longrightarrow> same_dirs s s'"
  by (auto simp: free_entry_def write_page_def same_dirs_def bind_eq_Some_iff split: if_splits)

lemma strip_entries_same: "strip_entries a t ps b s = Some (b', s') \<Longrightarrow> same_dirs s s'"
proof (induction a t ps b s rule: strip_entries.induct)
  case (2 a t p ps b s)
  then show ?case
    using free_entry_same same_dirs_trans by (auto simp: bind_eq_Some_iff split: if_splits) blast
qed (simp add: same_dirs_def)

lemma free_pages_same: "for_tables (free_page a) ps s = Some s' \<Longrightarrow> same_dirs s s'"
proof (induction ps arbitrary: s)
  case (Cons p ps)
  obtain s1 where s1: "free_page a p s = Some s1" "for_tables (free_page a) ps s1 = Some s'"
    using Cons(2) by (auto simp: bind_eq_Some_iff)
  have "same_dirs s s1"
    using s1(1) by (auto simp: free_page_def bind_eq_Some_iff same_dirs_def split: if_splits dest!: free_entry_same)
  then show ?case using Cons(1) [OF s1(2)] same_dirs_trans by blast
qed (simp add: same_dirs_def)

lemma inv_kfree_table:
  assumes "mm_inv s" "dirs s dir = Some D" "dirs s (kerndir s) = Some K" "table D t \<noteq> 0" "dir \<noteq> kerndir s"
    and own: "\<And>e E. dirs s e = Some E \<Longrightarrow> e \<noteq> dir \<Longrightarrow> table E t \<noteq> table D t"
  shows "mm_inv (set_table dir t 0 0 (kfree_table (table D t) s))"
proof -
  have ty: "mm_typed s" and ks: "kern_shared s" using assms(1) by (simp_all add: mm_inv_def)
  have new: "\<exists>E0. dirs s e = Some E0 \<and> table E0 u = table E u \<and> table E u \<noteq> table D t"
    if "dirs (set_table dir t 0 0 (kfree_table (table D t) s)) e = Some E" "table E u \<noteq> 0" for e E u
  proof -
    have "\<exists>E0. dirs s e = Some E0 \<and> table E0 u = table E u \<and> (e = dir \<longrightarrow> u \<noteq> t)"
      using that assms(2) by (cases "e = dir") (auto simp: set_table_def upd_dir_def kfree_table_def split: if_splits)
    then obtain E0 where E0: "dirs s e = Some E0" "table E0 u = table E u" "e = dir \<longrightarrow> u \<noteq> t" by blast
    moreover have "u = t" if "table E0 u = table D t"
      using ty E0(1) assms(2,4) that unfolding mm_typed_def by metis
    ultimately show ?thesis using own [OF E0(1)] by metis
  qed
  have "fresh_blocks (set_table dir t 0 0 (kfree_table (table D t) s))"
    using ty by (auto simp: mm_typed_def fresh_blocks_def set_table_def upd_dir_def kfree_table_def)
  moreover have "tables (set_table dir t 0 0 (kfree_table (table D t) s)) = (tables s)(table D t := None)"
    by (simp add: set_table_def upd_dir_def kfree_table_def)
  moreover have V: "((tables s)(table D t := None)) (table E u) \<noteq> None"
    if "dirs (set_table dir t 0 0 (kfree_table (table D t) s)) e = Some E" "table E u \<noteq> 0" for e E u
    using new [OF that] ty that(2) unfolding mm_typed_def by (metis fun_upd_apply)
  moreover have I: "u = u'"
    if "dirs (set_table dir t 0 0 (kfree_table (table D t) s)) e = Some E"
      "dirs (set_table dir t 0 0 (kfree_table (table D t) s)) e' = Some E'" "table E u = table E' u'" "table E u \<noteq> 0"
    for e e' E E' u u'
  proof -
    have "table E' u' \<noteq> 0" using that by simp
    with new [OF that(1,4)] new [OF that(2)] ty that(3,4) show ?thesis unfolding mm_typed_def by metis
  qed
  ultimately have "mm_typed (set_table dir t 0 0 (kfree_table (table D t) s))"
    unfolding mm_typed_def by simp
  moreover have "kern_shared (set_table dir t 0 0 (kfree_table (table D t) s))"
    using ks assms(5) by (intro kshared_set_table) (auto simp: kfree_table_def kern_shared_def)
  ultimately show ?thesis by (simp add: mm_inv_def)
qed

lemma inv_kfree_same:
  assumes "same_dirs s s1" "mm_inv s" "dirs s dir = Some D" "dirs s (kerndir s) = Some K" "table D t \<noteq> 0"
    "dir \<noteq> kerndir s" "\<And>e E. dirs s e = Some E \<Longrightarrow> e \<noteq> dir \<Longrightarrow> table E t \<noteq> table D t"
  shows "mm_inv (set_table dir t 0 0 (kfree_table (table D t) s1))"
proof -
  have "dirs s1 = dirs s" "kerndir s1 = kerndir s" using assms(1) by (simp_all add: same_dirs_def)
  then show ?thesis using inv_kfree_table [OF same_dirs_inv [OF assms(1,2)], of dir D K t] assms(3-7) by metis
qed

lemma not_shared:
  assumes "mm_inv s" "dirs s dir = Some D" "dirs s (kerndir s) = Some K" "dirs s e = Some E" "e \<noteq> dir"
    "table K t = 0" "table D t \<noteq> 0"
  shows "table E t \<noteq> table D t"
  using kern_sharedD [of s K dir D e E t] assms unfolding mm_inv_def by metis

lemma free_dir_entry_inv:
  assumes "free_dir_entry dir t s = Some s'" "mm_inv s"
  shows "mm_inv s'"
proof -
  obtain D K where D: "dirs s dir = Some D" "dirs s (kerndir s) = Some K"
    using assms(1) by (auto simp: free_dir_entry_def bind_eq_Some_iff simp del: upt_rec_numeral)
  show ?thesis
  proof (cases "table D t = 0 \<or> table K t \<noteq> 0")
    case False
    then obtain s1 where s1: "for_tables (free_page (table D t)) [0..<1024] s = Some s1"
      "s' = set_table dir t 0 0 (kfree_table (table D t) s1)"
      using assms(1) D by (auto simp: free_dir_entry_def bind_eq_Some_iff simp del: upt_rec_numeral)
    note sd = free_pages_same [OF s1(1)]
    have own: "table E t \<noteq> table D t" if "dirs s e = Some E" "e \<noteq> dir" for e E
      using not_shared [OF assms(2) D that] False by blast
    have k: "dir \<noteq> kerndir s" using D False by auto
    show ?thesis
      unfolding s1(2) by (rule inv_kfree_same [OF sd assms(2) D _ k]) (use False own in blast)+
  qed (use assms D in \<open>auto simp: free_dir_entry_def simp del: upt_rec_numeral\<close>)
qed

lemma strip_dir_entry_inv:
  assumes "strip_dir_entry dir t s = Some s'" "mm_inv s" "strip_ready dir s"
  shows "mm_inv s' \<and> strip_ready dir s'"
proof -
  obtain D K where D: "dirs s dir = Some D" "dirs s (kerndir s) = Some K"
    using assms(1) by (auto simp: strip_dir_entry_def bind_eq_Some_iff simp del: upt_rec_numeral)
  show ?thesis
  proof (cases "table D t = 0 \<or> table D t = table K t")
    case False
    then obtain b s1 where s1: "strip_entries (table D t) t [0..<1024] True s = Some (b, s1)"
      "s' = (if b then set_table dir t 0 0 (kfree_table (table D t) s1) else s1)"
      using assms(1) D by (auto simp: strip_dir_entry_def bind_eq_Some_iff simp del: upt_rec_numeral)
    note sd = strip_entries_same [OF s1(1)]
    have k: "table K t = 0" "dir \<noteq> kerndir s" using assms(3) D False by (auto simp: strip_ready_def)
    have own: "table E t \<noteq> table D t" if "dirs s e = Some E" "e \<noteq> dir" for e E
      using not_shared [OF assms(2) D that] False k by blast
    have "mm_inv (set_table dir t 0 0 (kfree_table (table D t) s1))"
      by (rule inv_kfree_same [OF sd assms(2) D _ k(2)]) (use False own in blast)+
    moreover have "strip_ready dir s'"
      using s1(2) sd assms(3) D k
      by (auto simp: strip_ready_def same_dirs_def set_table_def upd_dir_def kfree_table_def)
    ultimately show ?thesis using s1(2) same_dirs_inv [OF sd assms(2)] by simp
  qed (use assms D in \<open>auto simp: strip_dir_entry_def simp del: upt_rec_numeral\<close>)
qed

lemma for_tables_inv:
  assumes "for_tables f ts s = Some s'" "P s" "\<And>t s s'. f t s = Some s' \<Longrightarrow> P s \<Longrightarrow> P s'"
  shows "P s'"
  using assms by (induction ts arbitrary: s) (auto simp: bind_eq_Some_iff)

lemma lock_dir_inv: "lock_dir d s = Some s' \<Longrightarrow> mm_inv s \<Longrightarrow> mm_inv s'"
  using lock_dir_typed kshared_locks(1) unfolding mm_inv_def by blast

lemma lock_dir_ready: "lock_dir d s = Some s' \<Longrightarrow> strip_ready e s \<Longrightarrow> strip_ready e s'"
  by (auto simp: lock_dir_def strip_ready_def upd_dir_def bind_eq_Some_iff split: option.splits if_splits) metis+

lemma strip_page_dir_inv:
  assumes "strip_page_dir dir s = Some s'" "mm_inv s" "strip_ready dir s"
  shows "mm_inv s'"
proof -
  obtain s1 s2 where s: "lock_dir dir s = Some s1" "for_tables (strip_dir_entry dir) [0..<1024] s1 = Some s2"
    "s' = unlock_dir dir s2"
    using assms(1) by (auto simp: strip_page_dir_def bind_eq_Some_iff simp del: upt_rec_numeral)
  have "mm_inv s2 \<and> strip_ready dir s2"
    by (rule for_tables_inv [OF s(2)])
       (use lock_dir_inv [OF s(1)] lock_dir_ready [OF s(1)] assms strip_dir_entry_inv in blast)+
  then show ?thesis
    using s(3) kshared_locks(2) typed_upd_dir [of s2 "\<lambda>x. x\<lparr>dir_lock := spin_unlock (dir_lock x)\<rparr>"]
    by (simp add: mm_inv_def unlock_dir_def)
qed

lemma free_page_dir_inv:
  assumes "free_page_dir dir s = Some s'" "mm_inv s"
  shows "mm_inv s'"
proof (cases "dir = curdir s")
  case False
  then obtain s1 s2 where s: "lock_dir dir s = Some s1" "for_tables (free_dir_entry dir) [0..<1024] s1 = Some s2"
    "s' = s2\<lparr>dirs := (dirs s2)(dir := None)\<rparr>"
    using assms(1) by (auto simp: free_page_dir_def bind_eq_Some_iff simp del: upt_rec_numeral)
  have "mm_inv s2"
    by (rule for_tables_inv [OF s(2)]) (use lock_dir_inv [OF s(1)] assms free_dir_entry_inv in blast)+
  then show ?thesis
    unfolding s(3) mm_inv_def
    by (auto intro!: typed_dirs kshared_dirs split: if_splits)
qed (use assms in \<open>simp add: free_page_dir_def\<close>)

subsection \<open>Sequences of operations\<close>

datatype mm_op =
    AllocPage u32 u32 bool bool
  | MapPage u32 u32 u32 bool bool
  | UnmapPage u32 u32
  | TemporaryMap u32 u32
  | TemporaryUnmap
  | SwitchDir u32
  | PageFault u32 u32
  | CopyDir u32
  | StripDir u32
  | FreeDir u32

fun mm_step :: "mm_op \<Rightarrow> mm \<Rightarrow> mm option" where
  "mm_step (AllocPage d a u w) s = alloc_page d a u w s"
| "mm_step (MapPage d a ph u w) s = map_page d a ph u w s"
| "mm_step (UnmapPage d a) s = unmap_page d a s"
| "mm_step (TemporaryMap a d) s = map_option snd (temporary_map a d s)"
| "mm_step TemporaryUnmap s = temporary_unmap s"
| "mm_step (SwitchDir d) s = Some (switch_page_dir d s)"
| "mm_step (PageFault err a) s = page_fault err a s"
| "mm_step (CopyDir src) s = map_option snd (copy_page_dir src s)"
| "mm_step (StripDir d) s = strip_page_dir d s"
| "mm_step (FreeDir d) s = free_page_dir d s"

inductive mm_runs :: "mm \<Rightarrow> mm \<Rightarrow> bool" where
  mm_runs_refl: "mm_runs s s"
| mm_runs_step: "mm_runs s s1 \<Longrightarrow> mm_step x s1 = Some s2 \<Longrightarrow> (\<And>d. x = StripDir d \<Longrightarrow> strip_ready d s1) \<Longrightarrow> mm_runs s s2"

lemma typed_switch [simp]: "mm_typed (s\<lparr>curdir := d\<rparr>) = mm_typed s"
  by (rule typed_cong) simp_all

lemma page_fault_inv:
  assumes "page_fault err a s = Some s'" "mm_inv s"
  shows "mm_inv s'"
proof -
  have s: "mm_typed s" "kern_shared s" using assms(2) by (simp_all add: mm_inv_def)
  have "mm_typed (upd_dir d (\<lambda>x. x\<lparr>table := (table x)(t := table k t)\<rparr>) s)" if "dirs s e = Some k" for d e t k
    unfolding upd_dir_def using that by (intro typed_dirs [OF s(1)]) (auto split: if_splits)
  moreover have "kern_shared (upd_dir d (\<lambda>x. x\<lparr>table := (table x)(t := table k t)\<rparr>) s)"
    if "dirs s (kerndir s) = Some k" "table k t \<noteq> 0" for d t k
    unfolding upd_dir_def using that by (intro kshared_dirs [OF s(2)]) (auto split: if_splits)
  ultimately show ?thesis
    using assms(1) by (auto simp: mm_inv_def page_fault_def Let_def bind_eq_Some_iff split: if_splits)
qed

lemma get_page_inv: "get_page v cr d s = Some (q, s') \<Longrightarrow> mm_inv s \<Longrightarrow> mm_inv s'"
  using get_page_typed get_page_shared unfolding mm_inv_def by blast

lemma write_page_inv: "write_page q p s = Some s' \<Longrightarrow> mm_inv s' = mm_inv s"
  using write_page_typed write_page_shared unfolding mm_inv_def by blast

lemma copy_page_dir_inv: "copy_page_dir src s = Some (dst, s') \<Longrightarrow> mm_inv s \<Longrightarrow> mm_inv s'"
  using copy_page_dir_typed copy_page_dir_shared unfolding mm_inv_def by blast

lemma inv_frames [simp]: "mm_inv (s\<lparr>frames := m\<rparr>) = mm_inv s" "mm_inv (s\<lparr>curdir := d\<rparr>) = mm_inv s"
  by (simp_all add: mm_inv_def)

lemma mm_step_inv:
  assumes "mm_step x s = Some s'" "mm_inv s" "\<And>d. x = StripDir d \<Longrightarrow> strip_ready d s"
  shows "mm_inv s'"
  using assms
  by (cases x)
     (auto simp: alloc_page_def map_page_def unmap_page_def temporary_map_def temporary_unmap_def switch_page_dir_def
        bind_eq_Some_iff dest: get_page_inv copy_page_dir_inv page_fault_inv strip_page_dir_inv free_page_dir_inv
        dest!: write_page_inv split: if_splits option.splits)

lemma mm_runs_inv: "mm_runs s s' \<Longrightarrow> mm_inv s \<Longrightarrow> mm_inv s'"
  by (induction rule: mm_runs.induct) (auto intro: mm_step_inv)


lemma demo_mm_typed: "mm_typed demo_mm"
  by (auto simp: mm_typed_def demo_mm_def fresh_blocks_def zero_dir_def split: if_splits)

lemma demo_mm_shared: "kern_shared demo_mm"
  by (auto simp: kern_shared_def demo_mm_def zero_dir_def split: if_splits)


section \<open>Mapping and translation\<close>

lemma page_phys_map: "page_phys p = PAGE_ALIGN ph" if "frame p = ucast (drop_bit 12 ph)"
  unfolding PAGE_ALIGN_push_bit page_phys_def that
  by (rule bit_word_eqI) (auto simp: bit_simps)

lemma same_page_iff:
  "drop_bit 12 (v :: u32) = drop_bit 12 w \<longleftrightarrow> PAGE_TABLE v = PAGE_TABLE w \<and> PAGE_PAGE v = PAGE_PAGE w"
proof
  assume "PAGE_TABLE v = PAGE_TABLE w \<and> PAGE_PAGE v = PAGE_PAGE w"
  then have t: "bit (drop_bit 22 v AND mask 10) n = bit (drop_bit 22 w AND mask 10) n"
    and p: "bit (drop_bit 12 v AND mask 10) n = bit (drop_bit 12 w AND mask 10) n" for n
    by (simp_all add: PAGE_TABLE_def PAGE_PAGE_def mask_eq_exp_minus_1)
  show "drop_bit 12 v = drop_bit 12 w"
  proof (rule bit_word_eqI)
    fix n :: nat
    assume "n < LENGTH(32)"
    then show "bit (drop_bit 12 v) n = bit (drop_bit 12 w) n"
      using p [of n] t [of "n - 10"] by (cases "n < 10") (auto simp: bit_simps dest: bit_imp_le_length)
  qed
next
  assume "drop_bit 12 v = drop_bit 12 w"
  moreover have "drop_bit 22 x = drop_bit 10 (drop_bit 12 x)" for x :: u32 by simp
  ultimately show "PAGE_TABLE v = PAGE_TABLE w \<and> PAGE_PAGE v = PAGE_PAGE w"
    by (simp only: PAGE_TABLE_def PAGE_PAGE_def)
qed

definition translate :: "page_table \<Rightarrow> u32 \<Rightarrow> u32 result" where
  "translate T v = (if present (T (unat (PAGE_PAGE v)))
     then Inr (page_phys (T (unat (PAGE_PAGE v))) OR PAGE_OFFSET v) else Inl EFAULT)"

lemma get_physical_addr_eq:
  "dirs s dir = Some D \<Longrightarrow> map_option fst (get_physical_addr dir v s) =
    (if table D (unat (PAGE_TABLE v)) = 0 then Some (Inl EFAULT)
     else map_option (\<lambda>T. translate T v) (tables s (table D (unat (PAGE_TABLE v)))))"
  by (cases "tables s (table D (unat (PAGE_TABLE v)))")
     (simp_all add: get_physical_addr_def get_page_def read_page_def translate_def PAGE_OFFSET_def)

text \<open>
  C34: After \<open>map_page\<close> the addresses of the page translate to the frame of the physical address, each
  with its own offset, and every other address of the directory translates as before.
\<close>

theorem map_page_translate:
  assumes "mm_typed s" "map_page dir virt ph usr wr s = Some s'"
  shows "map_option fst (get_physical_addr dir v s') =
    (if drop_bit 12 v = drop_bit 12 virt then Some (Inr (PAGE_ALIGN ph OR PAGE_OFFSET v))
     else map_option fst (get_physical_addr dir v s))"
proof -
  let ?t = "unat (PAGE_TABLE virt)" and ?p = "unat (PAGE_PAGE virt)"
  define upd where "upd p = p\<lparr>present := True, rw := wr, user := usr, frame := ucast (drop_bit 12 ph)\<rparr>" for p :: page
  obtain D where D: "dirs s dir = Some D" using assms(2) by (auto simp: map_page_def get_page_def Let_def bind_eq_Some_iff)
  have hit: "translate (T(?p := upd q)) v = Inr (PAGE_ALIGN ph OR PAGE_OFFSET v)" if "PAGE_PAGE v = PAGE_PAGE virt" for T q
    using that page_phys_map [of "upd q" ph] by (simp add: translate_def upd_def)
  have miss: "translate (T(?p := q)) v = translate T v" if "PAGE_PAGE v \<noteq> PAGE_PAGE virt" for T q
    using that by (simp add: translate_def word_unat_eq_iff)
  have tne: "unat (PAGE_TABLE v) \<noteq> ?t" if "PAGE_TABLE v \<noteq> PAGE_TABLE virt"
    using that by (simp add: word_unat_eq_iff)
  show ?thesis
  proof (cases "table D ?t = 0")
    case False
    then obtain T where T: "tables s (table D ?t) = Some T" using typed_table [OF assms(1) D] by blast
    have s': "s' = s\<lparr>tables := (tables s)(table D ?t \<mapsto> T(?p := upd (T ?p)))\<rparr>"
      using assms(2) D False T by (simp add: map_page_def get_page_def read_page_def write_page_def upd_def)
    have "table D (unat (PAGE_TABLE v)) \<noteq> table D ?t" if "PAGE_TABLE v \<noteq> PAGE_TABLE virt"
      using tne [OF that] assms(1) D False unfolding mm_typed_def by metis
    then show ?thesis
      using D T False hit [of T "T ?p"] miss [of T "upd (T ?p)"]
      by (cases "PAGE_TABLE v = PAGE_TABLE virt") (auto simp: get_physical_addr_eq same_page_iff s')
  next
    case True
    obtain a q bs where b: "heap_blocks s = (a, q) # bs" "a \<noteq> 0" "tables s a = None"
      "s' = (set_table dir ?t a (q OR 7) (s\<lparr>heap_blocks := bs\<rparr>))\<lparr>tables := (tables s)(a \<mapsto> (\<lambda>_. zero_page)(?p := upd zero_page))\<rparr>"
      using assms D True
      by (auto simp: map_page_def get_page_def read_page_def write_page_def upd_def kmalloc_ap_def kmalloc_int_def
          clear_table_def set_table_def upd_dir_def mm_typed_def fresh_blocks_def Let_def split: list.splits if_splits)
    have D': "dirs s' dir = Some (D\<lparr>table := (table D)(?t := a), tablePhys := (tablePhys D)(?t := q OR 7)\<rparr>)"
      using D by (simp add: b(4) set_table_def upd_dir_def)
    have "table D u \<noteq> a" for u using assms(1) D b(2,3) unfolding mm_typed_def by metis
    moreover have "translate (\<lambda>_. zero_page) v = Inl EFAULT" by (simp add: translate_def zero_page_def)
    ultimately show ?thesis
      using D D' True b(2) hit [of "\<lambda>_. zero_page" zero_page] miss [of "\<lambda>_. zero_page" "upd zero_page"] tne
      by (cases "PAGE_TABLE v = PAGE_TABLE virt") (auto simp: get_physical_addr_eq same_page_iff b(4))
  qed
qed

theorem map_page_translate_witness:
  "\<exists>s'. map_page 0x1000 0x800123 0x3000 True True demo_mm = Some s'
    \<and> map_option fst (get_physical_addr 0x1000 0x800456 s') = Some (Inr 0x3456)"
proof -
  obtain s' where s': "map_page 0x1000 0x800123 0x3000 True True demo_mm = Some s'"
    by (simp add: map_page_def get_page_def demo_mm_def zero_dir_def PAGE_TABLE_def PAGE_PAGE_def
        kmalloc_ap_def kmalloc_int_def clear_table_def set_table_def upd_dir_def read_page_def write_page_def)
  show ?thesis
    using map_page_translate [OF demo_mm_typed s', where v = "0x800456"] s' by (simp add: PAGE_ALIGN_def PAGE_OFFSET_def)
qed

section \<open>Stripping an address space\<close>

text \<open>
  The lower bound of the initial user stack in \<open>strip_page_dir\<close> is the difference of two addresses
  where an address was meant. It is 0x3000, so every page of the program above it counts as stack and
  is kept.
\<close>

lemma kept_user_pages: "0x3000 \<le> a \<Longrightarrow> a < 0xBFFFF000 \<Longrightarrow> kept_page a"
  by (simp add: kept_page_def TASK_STACK_START_def TASK_STACK_INIT_BASE_def KERNEL_VIRTUAL_BASE_def
      TASK_SIGNAL_STACK_SIZE_def TASK_STACK_INIT_SIZE_def)

lemma free_entry_other: "free_entry (a, p) s = Some s' \<Longrightarrow> q \<noteq> (a, p) \<Longrightarrow> read_page q s' = read_page q s"
  by (cases q) (auto simp: free_entry_def bind_eq_Some_iff write_page_def read_page_def)

lemma strip_entries_kept:
  "strip_entries a t ps e s = Some (e', s') \<Longrightarrow> kept_page (VADDR (word_of_nat t) (word_of_nat p) 0) \<Longrightarrow>
    read_page (a, p) s' = read_page (a, p) s"
proof (induction ps arbitrary: e s)
  case (Cons q ps)
  show ?case
  proof (cases "kept_page (VADDR (word_of_nat t) (word_of_nat q) 0)")
    case False
    then have "(a, p) \<noteq> (a, q)" using Cons.prems(2) by auto
    then show ?thesis using Cons False by (auto simp: bind_eq_Some_iff dest: free_entry_other)
  qed (use Cons in simp)
qed simp

end
