(* ===== verification/Elf.thy ===== *)
theory Elf
  imports PagingSpec
begin

text \<open>
  The loader for ELF executables and kernel modules, kernel/src/elf32.c with the data structures of
  kernel/include/elf/elf32.h.

  The state has the address spaces of \<open>Paging\<close> and the bytes of the current virtual address space.
  Buffers from the kernel heap are in the same memory, and the loader reads the tables of the file
  from there. A file is its list of bytes: a seek followed by a read copies the bytes from the given
  offset, as many as the file has. The kernel symbols that \<open>elf_register\<close> finds in the image of the
  kernel are an argument, a list of names and values in the order of the symbol table.
\<close>

record ld =
  space :: mm
  ram :: "u32 \<Rightarrow> u8"

section \<open>Bytes in memory\<close>

definition poke :: "u32 \<Rightarrow> u8 list \<Rightarrow> (u32 \<Rightarrow> u8) \<Rightarrow> u32 \<Rightarrow> u8" where
  "poke a bs R = (\<lambda>x. if unat (x - a) < length bs then bs ! unat (x - a) else R x)"

definition memset :: "u32 \<Rightarrow> u8 \<Rightarrow> u32 \<Rightarrow> (u32 \<Rightarrow> u8) \<Rightarrow> u32 \<Rightarrow> u8" where
  "memset a v n R = (\<lambda>x. if x - a < n then v else R x)"

definition le16 :: "(u32 \<Rightarrow> u8) \<Rightarrow> u32 \<Rightarrow> u16" where
  "le16 R a = ucast (R a) OR push_bit 8 (ucast (R (a + 1)))"

definition le32 :: "(u32 \<Rightarrow> u8) \<Rightarrow> u32 \<Rightarrow> u32" where
  "le32 R a = ucast (R a) OR push_bit 8 (ucast (R (a + 1))) OR push_bit 16 (ucast (R (a + 2)))
     OR push_bit 24 (ucast (R (a + 3)))"

definition poke32 :: "u32 \<Rightarrow> u32 \<Rightarrow> (u32 \<Rightarrow> u8) \<Rightarrow> u32 \<Rightarrow> u8" where
  "poke32 a w R = R(a := ucast w, a + 1 := ucast (drop_bit 8 w), a + 2 := ucast (drop_bit 16 w),
     a + 3 := ucast (drop_bit 24 w))"

definition file_part :: "u8 list \<Rightarrow> u32 \<Rightarrow> u32 \<Rightarrow> u8 list" where
  "file_part f off n = take (unat n) (drop (unat off) f)"

definition read_file :: "u8 list \<Rightarrow> u32 \<Rightarrow> u32 \<Rightarrow> u32 \<Rightarrow> ld \<Rightarrow> ld" where
  "read_file f off a n s = s\<lparr>ram := poke a (file_part f off n) (ram s)\<rparr>"

definition ld_kmalloc :: "u32 \<Rightarrow> ld \<Rightarrow> u32 \<times> ld" where
  "ld_kmalloc n s = (let (a, m) = kmalloc n (space s) in (a, s\<lparr>space := m\<rparr>))"

section \<open>Headers\<close>

text \<open>The records have the fields that the loader reads, and the offsets are those of the C structures.\<close>

record Elf32_Ehdr =
  e_ident :: "u8 list"
  e_type :: u16
  e_entry :: u32
  e_phoff :: u32
  e_shoff :: u32
  e_phentsize :: u16
  e_phnum :: u16
  e_shentsize :: u16
  e_shnum :: u16
  e_shstrndx :: u16

record Elf32_Phdr =
  p_type :: u32
  p_offset :: u32
  p_vaddr :: u32
  p_filesz :: u32
  p_memsz :: u32
  p_flags :: u32

record Elf32_Shdr =
  sh_name :: u32
  sh_type :: u32
  sh_flags :: u32
  sh_addr :: u32
  sh_offset :: u32
  sh_size :: u32
  sh_link :: u32
  sh_info :: u32

record Elf32_Sym =
  st_name :: u32
  st_value :: u32
  st_shndx :: u16

abbreviation (input) ET_REL :: u16 where "ET_REL \<equiv> 1"
abbreviation (input) ET_EXEC :: u16 where "ET_EXEC \<equiv> 2"
abbreviation (input) PT_LOAD :: u32 where "PT_LOAD \<equiv> 1"
abbreviation (input) PF_W :: u32 where "PF_W \<equiv> 2"
abbreviation (input) PF_R :: u32 where "PF_R \<equiv> 4"
abbreviation (input) SHF_ALLOC :: u32 where "SHF_ALLOC \<equiv> 2"
abbreviation (input) SHT_RELA :: u32 where "SHT_RELA \<equiv> 4"
abbreviation (input) SHT_NOBITS :: u32 where "SHT_NOBITS \<equiv> 8"
abbreviation (input) SHT_REL :: u32 where "SHT_REL \<equiv> 9"
abbreviation (input) SHN_UNDEF :: u16 where "SHN_UNDEF \<equiv> 0"
abbreviation (input) SHN_ABS :: u16 where "SHN_ABS \<equiv> 0xFFF1"
abbreviation (input) SHN_COMMON :: u16 where "SHN_COMMON \<equiv> 0xFFF2"

abbreviation (input) sizeof_Ehdr :: u32 where "sizeof_Ehdr \<equiv> 52"
abbreviation (input) sizeof_Phdr :: u32 where "sizeof_Phdr \<equiv> 32"
abbreviation (input) sizeof_Shdr :: u32 where "sizeof_Shdr \<equiv> 40"
abbreviation (input) sizeof_Sym :: u32 where "sizeof_Sym \<equiv> 16"
abbreviation (input) sizeof_Rel :: u32 where "sizeof_Rel \<equiv> 8"
abbreviation (input) sizeof_Rela :: u32 where "sizeof_Rela \<equiv> 12"

definition get_ehdr :: "(u32 \<Rightarrow> u8) \<Rightarrow> u32 \<Rightarrow> Elf32_Ehdr" where
  "get_ehdr R a = \<lparr>e_ident = map (\<lambda>i. R (a + word_of_nat i)) [0..<16], e_type = le16 R (a + 16),
     e_entry = le32 R (a + 24), e_phoff = le32 R (a + 28), e_shoff = le32 R (a + 32),
     e_phentsize = le16 R (a + 42), e_phnum = le16 R (a + 44), e_shentsize = le16 R (a + 46),
     e_shnum = le16 R (a + 48), e_shstrndx = le16 R (a + 50)\<rparr>"

definition get_phdr :: "(u32 \<Rightarrow> u8) \<Rightarrow> u32 \<Rightarrow> Elf32_Phdr" where
  "get_phdr R a = \<lparr>p_type = le32 R a, p_offset = le32 R (a + 4), p_vaddr = le32 R (a + 8),
     p_filesz = le32 R (a + 16), p_memsz = le32 R (a + 20), p_flags = le32 R (a + 24)\<rparr>"

definition get_shdr :: "(u32 \<Rightarrow> u8) \<Rightarrow> u32 \<Rightarrow> Elf32_Shdr" where
  "get_shdr R a = \<lparr>sh_name = le32 R a, sh_type = le32 R (a + 4), sh_flags = le32 R (a + 8),
     sh_addr = le32 R (a + 12), sh_offset = le32 R (a + 16), sh_size = le32 R (a + 20),
     sh_link = le32 R (a + 24), sh_info = le32 R (a + 28)\<rparr>"

definition get_sym :: "(u32 \<Rightarrow> u8) \<Rightarrow> u32 \<Rightarrow> Elf32_Sym" where
  "get_sym R a = \<lparr>st_name = le32 R a, st_value = le32 R (a + 4), st_shndx = le16 R (a + 14)\<rparr>"

definition elf_check_ident :: "Elf32_Ehdr \<Rightarrow> u16 \<Rightarrow> bool" where
  "elf_check_ident e t \<longleftrightarrow> e_ident e ! 0 = 0x7F \<and> e_ident e ! 1 = 0x45 \<and> e_ident e ! 2 = 0x4C
     \<and> e_ident e ! 3 = 0x46 \<and> e_ident e ! 4 = 1 \<and> e_ident e ! 5 = 1 \<and> e_type e = t"

section \<open>Executables\<close>

partial_function (option) elf_allocate_range :: "u32 \<Rightarrow> u32 \<Rightarrow> bool \<Rightarrow> bool \<Rightarrow> mm \<Rightarrow> mm option" where
  "elf_allocate_range start stop usr wr s =
    (if start \<le> stop then do {
       s1 \<leftarrow> alloc_page (curdir s) start usr wr s;
       elf_allocate_range (start + 0x1000) stop usr wr s1
     } else Some s)"

partial_function (option) elf_modify_range :: "u32 \<Rightarrow> u32 \<Rightarrow> bool \<Rightarrow> bool \<Rightarrow> mm \<Rightarrow> mm option" where
  "elf_modify_range start stop usr wr s =
    (if start \<le> stop then do {
       (q, s1) \<leftarrow> get_page start True (curdir s) s;
       q \<leftarrow> q;
       p \<leftarrow> read_page q s1;
       s2 \<leftarrow> write_page q (p\<lparr>rw := wr, user := usr\<rparr>) s1;
       elf_modify_range (start + 0x1000) stop usr wr s2
     } else Some s)"

record exec =
  buffer :: u32
  ex_file :: "u8 list"
  entry_point :: u32
  bssend :: u32

abbreviation (input) EXEC_VALID :: nat where "EXEC_VALID \<equiv> 0"
abbreviation (input) EXEC_INTERP :: nat where "EXEC_INTERP \<equiv> 1"
abbreviation (input) EXEC_INVALID :: nat where "EXEC_INVALID \<equiv> 2"

definition elf_check_exec :: "exec \<Rightarrow> ld \<Rightarrow> nat" where
  "elf_check_exec x s =
    (if elf_check_ident (get_ehdr (ram s) (buffer x)) ET_EXEC then EXEC_VALID else EXEC_INVALID)"

definition seg_end :: "Elf32_Phdr \<Rightarrow> u32" where
  "seg_end ph = p_vaddr ph + p_memsz ph"

definition load_segment :: "Elf32_Phdr \<Rightarrow> exec \<Rightarrow> ld \<Rightarrow> (exec \<times> ld) option" where
  "load_segment ph x s = do {
    m1 \<leftarrow> elf_allocate_range (p_vaddr ph AND 0xFFFFF000) (seg_end ph AND 0xFFFFF000) True True (space s);
    let s1 = read_file (ex_file x) (p_offset ph) (p_vaddr ph) (p_filesz ph) (s\<lparr>space := m1\<rparr>);
    let s2 = (if p_memsz ph - p_filesz ph > 0
              then s1\<lparr>ram := memset (p_vaddr ph + p_filesz ph) 0 (p_memsz ph - p_filesz ph) (ram s1)\<rparr>
              else s1);
    m2 \<leftarrow> elf_modify_range (p_vaddr ph AND 0xFFFFF000) (seg_end ph AND 0xFFFFF000)
            (p_flags ph AND PF_R \<noteq> 0) (p_flags ph AND PF_W \<noteq> 0) (space s2);
    Some (if bssend x < seg_end ph then x\<lparr>bssend := seg_end ph\<rparr> else x, s2\<lparr>space := m2\<rparr>)
  }"

fun load_segments :: "u32 \<Rightarrow> nat list \<Rightarrow> exec \<Rightarrow> ld \<Rightarrow> (exec \<times> ld) option" where
  "load_segments tab [] x s = Some (x, s)"
| "load_segments tab (i # is) x s = do {
    let ph = get_phdr (ram s) (tab + word_of_nat i * sizeof_Phdr);
    (x1, s1) \<leftarrow> (if p_type ph = PT_LOAD then load_segment ph x s else Some (x, s));
    load_segments tab is x1 s1
  }"

definition elf_load_exec :: "exec \<Rightarrow> ld \<Rightarrow> ((errno option \<times> exec) \<times> ld) option" where
  "elf_load_exec x s =
    (let e = get_ehdr (ram s) (buffer x) in
     if \<not> elf_check_ident e ET_EXEC then Some ((None, x), s)
     else
       let n = ucast (e_phnum e) * ucast (e_phentsize e);
           (tab, s1) = ld_kmalloc n s
       in if tab = 0 then Some ((Some ENOMEM, x), s1)
          else do {
            let s2 = read_file (ex_file x) (e_phoff e) tab n s1;
            (x1, s3) \<leftarrow> load_segments tab [0..<unat (e_phnum e)] (x\<lparr>bssend := 0\<rparr>) s2;
            Some ((None, x1\<lparr>entry_point := e_entry (get_ehdr (ram s3) (buffer x))\<rparr>), s3)
          })"

section \<open>Modules\<close>

fun cstr_is :: "(u32 \<Rightarrow> u8) \<Rightarrow> u32 \<Rightarrow> u8 list \<Rightarrow> bool" where
  "cstr_is R a [] \<longleftrightarrow> R a = 0"
| "cstr_is R a (c # cs) \<longleftrightarrow> R a = c \<and> cstr_is R (a + 1) cs"

abbreviation (input) R_386_NONE :: u8 where "R_386_NONE \<equiv> 0"
abbreviation (input) R_386_32 :: u8 where "R_386_32 \<equiv> 1"
abbreviation (input) R_386_PC32 :: u8 where "R_386_PC32 \<equiv> 2"
abbreviation (input) R_386_COPY :: u8 where "R_386_COPY \<equiv> 5"
abbreviation (input) R_386_GLOB_DAT :: u8 where "R_386_GLOB_DAT \<equiv> 6"
abbreviation (input) R_386_JMP_SLOT :: u8 where "R_386_JMP_SLOT \<equiv> 7"

definition ELF32_R_SYM :: "u32 \<Rightarrow> u32" where "ELF32_R_SYM i = drop_bit 8 i"
definition ELF32_R_TYPE :: "u32 \<Rightarrow> u8" where "ELF32_R_TYPE i = ucast i"

definition poke16 :: "u32 \<Rightarrow> u16 \<Rightarrow> (u32 \<Rightarrow> u8) \<Rightarrow> u32 \<Rightarrow> u8" where
  "poke16 a w R = R(a := ucast w, a + 1 := ucast (drop_bit 8 w))"

type_synonym ksyms = "(u8 list \<times> u32) list"

definition elf_resolve :: "ksyms \<Rightarrow> u32 \<Rightarrow> u32 \<Rightarrow> u32 \<Rightarrow> (u32 \<Rightarrow> u8) \<Rightarrow> errno option \<times> (u32 \<Rightarrow> u8)" where
  "elf_resolve ks symbol strtab strtablen R =
    (let y = get_sym R symbol in
     if st_shndx y = SHN_UNDEF then
       case find (\<lambda>k. st_name y < strtablen \<and> cstr_is R (strtab + st_name y) (fst k)) ks of
         Some k \<Rightarrow> (None, poke16 (symbol + 14) SHN_ABS (poke32 (symbol + 4) (snd k) R))
       | None \<Rightarrow> (Some EINVAL, R)
     else if st_shndx y = SHN_COMMON then (Some EINVAL, R)
     else (None, R))"

definition elf_relocate :: "ksyms \<Rightarrow> Elf32_Ehdr \<Rightarrow> u32 \<Rightarrow> u32 \<Rightarrow> u32 \<Rightarrow> u32 \<Rightarrow> u32 \<Rightarrow> u32 \<Rightarrow> u32 \<Rightarrow>
    u32 option \<Rightarrow> (u32 \<Rightarrow> u8) \<Rightarrow> errno option \<times> (u32 \<Rightarrow> u8)" where
  "elf_relocate ks e shtab rel B target stab symstr symstrlen pA R =
    (let r_offset = le32 R rel; r_info = le32 R (rel + 4);
         P = (if e_type e = ET_REL then target + B + r_offset else r_offset);
         A = (case pA of None \<Rightarrow> P | Some a \<Rightarrow> a);
         symbol = stab + ELF32_R_SYM r_info * sizeof_Sym;
         (err, R1) = elf_resolve ks symbol symstr symstrlen R
     in case err of Some x \<Rightarrow> (Some x, R1) | None \<Rightarrow>
       let y = get_sym R1 symbol;
           S = (if st_shndx y \<noteq> SHN_ABS
                then st_value y + sh_offset (get_shdr R1 (shtab + ucast (st_shndx y) * sizeof_Shdr))
                  - sizeof_Ehdr + B
                else st_value y);
           t = ELF32_R_TYPE (le32 R1 (rel + 4))
       in if t = R_386_COPY \<or> t = R_386_NONE then (None, R1)
          else if t = R_386_32 then (None, poke32 P (S + le32 R1 A) R1)
          else if t = R_386_PC32 then (None, poke32 P (S + le32 R1 A - P) R1)
          else if t = R_386_GLOB_DAT \<or> t = R_386_JMP_SLOT then (None, poke32 P S R1)
          else (Some EINVAL, R1))"

definition module_info_name :: "u8 list" where
  "module_info_name = map of_char ''.module_info''"

text \<open>The size of the module, and its \<open>.module_info\<close> section.\<close>

fun scan_sections :: "u32 \<Rightarrow> u32 \<Rightarrow> (u32 \<Rightarrow> u8) \<Rightarrow> nat list \<Rightarrow> u32 option \<Rightarrow> u32 \<Rightarrow> u32 option \<times> u32" where
  "scan_sections shtab shstrtab R [] mi len = (mi, len)"
| "scan_sections shtab shstrtab R (i # is) mi len =
    (let a = shtab + word_of_nat i * sizeof_Shdr; h = get_shdr R a in
     if sh_flags h AND SHF_ALLOC = 0 then scan_sections shtab shstrtab R is mi len
     else
       scan_sections shtab shstrtab R is
         (if cstr_is R (shstrtab + sh_name h) module_info_name then Some a else mi)
         (if sh_offset h + sh_size h - sizeof_Ehdr > len then sh_offset h + sh_size h - sizeof_Ehdr
          else len))"

fun load_sections :: "u8 list \<Rightarrow> u32 \<Rightarrow> u32 \<Rightarrow> nat list \<Rightarrow> ld \<Rightarrow> ld" where
  "load_sections f shtab base [] s = s"
| "load_sections f shtab base (i # is) s =
    (let h = get_shdr (ram s) (shtab + word_of_nat i * sizeof_Shdr) in
     if sh_flags h AND SHF_ALLOC = 0 then load_sections f shtab base is s
     else load_sections f shtab base is
       (if sh_type h = SHT_NOBITS
        then s\<lparr>ram := memset (sh_offset h + base - sizeof_Ehdr) 0 (sh_size h) (ram s)\<rparr>
        else read_file f (sh_offset h) (sh_offset h + base - sizeof_Ehdr) (sh_size h) s))"

text \<open>The entries of one relocation section, with implicit or explicit addends.\<close>

fun relocate_rel :: "ksyms \<Rightarrow> Elf32_Ehdr \<Rightarrow> u32 \<Rightarrow> u32 \<Rightarrow> u32 \<Rightarrow> u32 \<Rightarrow> u32 \<Rightarrow> u32 \<Rightarrow> u32 \<Rightarrow> nat list \<Rightarrow>
    (u32 \<Rightarrow> u8) \<Rightarrow> errno option \<times> (u32 \<Rightarrow> u8)" where
  "relocate_rel ks e shtab rtab B target stab symstr len [] R = (None, R)"
| "relocate_rel ks e shtab rtab B target stab symstr len (r # rs) R =
    (case elf_relocate ks e shtab (rtab + word_of_nat r * sizeof_Rel) B target stab symstr len None R of
       (None, R1) \<Rightarrow> relocate_rel ks e shtab rtab B target stab symstr len rs R1
     | (Some x, R1) \<Rightarrow> (Some x, R1))"

fun relocate_rela :: "ksyms \<Rightarrow> Elf32_Ehdr \<Rightarrow> u32 \<Rightarrow> u32 \<Rightarrow> u32 \<Rightarrow> u32 \<Rightarrow> u32 \<Rightarrow> u32 \<Rightarrow> u32 \<Rightarrow> nat list \<Rightarrow>
    (u32 \<Rightarrow> u8) \<Rightarrow> errno option \<times> (u32 \<Rightarrow> u8)" where
  "relocate_rela ks e shtab rtab B target stab symstr len [] R = (None, R)"
| "relocate_rela ks e shtab rtab B target stab symstr len (r # rs) R =
    (let rel = rtab + word_of_nat r * sizeof_Rela in
     case elf_relocate ks e shtab rel B target stab symstr len (Some (rel + 8)) R of
       (None, R1) \<Rightarrow> relocate_rela ks e shtab rtab B target stab symstr len rs R1
     | (Some x, R1) \<Rightarrow> (Some x, R1))"

definition relocate_section :: "ksyms \<Rightarrow> u8 list \<Rightarrow> Elf32_Ehdr \<Rightarrow> u32 \<Rightarrow> u32 \<Rightarrow> Elf32_Shdr \<Rightarrow> ld \<Rightarrow>
    errno option \<times> ld" where
  "relocate_section ks f e shtab base h s =
    (let (rtab, s1) = ld_kmalloc (sh_size h) s in
     if rtab = 0 then (Some ENOMEM, s1)
     else
       let symhdr = get_shdr (ram s1) (shtab + sh_link h * sizeof_Shdr);
           (stab, s2) = ld_kmalloc (sh_size symhdr) s1
       in if stab = 0 then (Some ENOMEM, s2)
       else
         let strhdr = get_shdr (ram s2) (shtab + sh_link symhdr * sizeof_Shdr);
             (symstr, s3) = ld_kmalloc (sh_size strhdr) s2;
             s4 = read_file f (sh_offset h) rtab (sh_size h) s3;
             s5 = read_file f (sh_offset symhdr) stab (sh_size symhdr) s4;
             s6 = read_file f (sh_offset strhdr) symstr (sh_size strhdr) s5;
             target = sh_offset (get_shdr (ram s6) (shtab + sh_info h * sizeof_Shdr)) - sizeof_Ehdr;
             (err, R) =
               (if sh_type h = SHT_REL
                then relocate_rel ks e shtab rtab base target stab symstr (sh_size strhdr)
                       [0..<unat (sh_size h) div 8] (ram s6)
                else relocate_rela ks e shtab rtab base target stab symstr (sh_size strhdr)
                       [0..<unat (sh_size h) div 12] (ram s6))
         in (err, s6\<lparr>ram := R\<rparr>))"

fun relocate_sections :: "ksyms \<Rightarrow> u8 list \<Rightarrow> Elf32_Ehdr \<Rightarrow> u32 \<Rightarrow> u32 \<Rightarrow> nat list \<Rightarrow> ld \<Rightarrow>
    errno option \<times> ld" where
  "relocate_sections ks f e shtab base [] s = (None, s)"
| "relocate_sections ks f e shtab base (i # is) s =
    (let h = get_shdr (ram s) (shtab + word_of_nat i * sizeof_Shdr) in
     if sh_type h = SHT_REL \<or> sh_type h = SHT_RELA then
       case relocate_section ks f e shtab base h s of
         (None, s1) \<Rightarrow> relocate_sections ks f e shtab base is s1
       | (Some x, s1) \<Rightarrow> (Some x, s1)
     else relocate_sections ks f e shtab base is s)"

text \<open>
  The result is the address of the module's description, 0 when the file is not a relocatable
  object, or an error. \<open>stk\<close> is the address of the local \<open>ehdr\<close> on the stack.
\<close>

definition elf_load_module :: "ksyms \<Rightarrow> u32 \<Rightarrow> u8 list \<Rightarrow> ld \<Rightarrow> u32 result \<times> ld" where
  "elf_load_module ks stk f s =
    (let s0 = read_file f 0 stk sizeof_Ehdr s;
         e = get_ehdr (ram s0) stk;
         n = ucast (e_shnum e) * ucast (e_shentsize e)
     in if \<not> elf_check_ident e ET_REL then (Inr 0, s0)
     else let (shtab, s1) = ld_kmalloc n s0 in
     if shtab = 0 then (Inl ENOMEM, s1)
     else let s2 = read_file f (e_shoff e) shtab n s1;
              h = get_shdr (ram s2) (shtab + ucast (e_shstrndx e) * sizeof_Shdr);
              (shstrtab, s3) = ld_kmalloc (sh_size h) s2 in
     if shstrtab = 0 then (Inl ENOMEM, s3)
     else let s4 = read_file f (sh_offset h) shstrtab (sh_size h) s3;
              secs = [0..<unat (e_shnum e)];
              (mi, len) = scan_sections shtab shstrtab (ram s4) secs None 0 in
     case mi of None \<Rightarrow> (Inl EINVAL, s4) | Some m \<Rightarrow>
     let info = sh_offset (get_shdr (ram s4) m) - sizeof_Ehdr;
         (base, s5) = ld_kmalloc len s4 in
     if base = 0 then (Inl ENOMEM, s5)
     else let s6 = load_sections f shtab base secs s5;
              (err, s7) = relocate_sections ks f e shtab base secs s6 in
     case err of Some x \<Rightarrow> (Inl x, s7)
     | None \<Rightarrow> (Inr (info + base), s7\<lparr>ram := poke32 (info + base + 12) base (ram s7)\<rparr>))"

end
