(* ===== verification/ElfSpec.thy ===== *)
theory ElfSpec
  imports Elf
begin

text \<open>
  What loading an executable does to the address space: the bytes of the segments and the cleared
  memory behind them, the mapped pages, the entry point and the end of the data. The module loader
  puts a section without bytes on top of the next section.
\<close>

section \<open>Reading and writing bytes\<close>

definition inside :: "u32 \<Rightarrow> nat \<Rightarrow> u32 \<Rightarrow> bool" where
  "inside a n x \<longleftrightarrow> unat (x - a) < n"

lemma poke_out: "\<not> inside a (length bs) x \<Longrightarrow> poke a bs R x = R x"
  by (simp add: inside_def poke_def)

lemma memset_out: "\<not> inside a (unat n) x \<Longrightarrow> memset a v n R x = R x"
  by (simp add: inside_def memset_def word_less_nat_alt)

lemma offset_of_nat: "k < 2 ^ 32 \<Longrightarrow> unat (a + word_of_nat k - a :: u32) = k"
  by (simp add: unat_of_nat)

lemma poke_in: "k < length bs \<Longrightarrow> length bs \<le> 2 ^ 32 \<Longrightarrow> poke a bs R (a + word_of_nat k) = bs ! k"
  using offset_of_nat [of k a] by (simp add: poke_def)

definition apart :: "u32 \<Rightarrow> nat \<Rightarrow> u32 \<Rightarrow> nat \<Rightarrow> bool" where
  "apart a n b m \<longleftrightarrow> unat a + n \<le> unat b \<or> unat b + m \<le> unat a"

lemma unat_add_nat: "unat a + k < 2 ^ 32 \<Longrightarrow> unat (a + word_of_nat k :: u32) = unat a + k"
  by (simp add: unat_word_ariths unat_of_nat)

lemma unat_minus: "unat (x - a :: u32) = (if a \<le> x then unat x - unat a else unat x + 2 ^ 32 - unat a)"
proof (cases "a \<le> x")
  case False
  then have "x < a" by simp
  then show ?thesis using unat_sub_if_size [of x a] by (simp add: word_size word_le_nat_alt word_less_nat_alt)
qed (simp add: unat_sub)

lemma inside_iff:
  assumes "unat a + n \<le> 2 ^ 32"
  shows "inside a n x \<longleftrightarrow> unat a \<le> unat x \<and> unat x < unat a + n"
  using assms unsigned_less [of a, where 'a = nat]
  by (auto simp: inside_def unat_minus word_le_nat_alt)

lemma apart_out: "apart a n b m \<Longrightarrow> unat a + n \<le> 2 ^ 32 \<Longrightarrow> unat b + m \<le> 2 ^ 32 \<Longrightarrow> inside b m x \<Longrightarrow> \<not> inside a n x"
  by (auto simp: inside_iff apart_def)

lemma le32_cong:
  assumes "\<And>k. k < 4 \<Longrightarrow> R (a + word_of_nat k) = R' (b + word_of_nat k)"
  shows "le32 R a = le32 R' b"
  using assms [of 0] assms [of 1] assms [of 2] assms [of 3] by (simp add: le32_def)

lemma le16_cong:
  assumes "\<And>k. k < 2 \<Longrightarrow> R (a + word_of_nat k) = R' (b + word_of_nat k)"
  shows "le16 R a = le16 R' b"
  using assms [of 0] assms [of 1] by (simp add: le16_def)

lemma le32_field:
  assumes "\<And>k. k < n \<Longrightarrow> R (a + word_of_nat k) = R' (b + word_of_nat k)" "j + 4 \<le> n"
  shows "le32 R (a + word_of_nat j) = le32 R' (b + word_of_nat j)"
proof (rule le32_cong)
  fix k :: nat assume "k < 4"
  then show "R (a + word_of_nat j + word_of_nat k) = R' (b + word_of_nat j + word_of_nat k)"
    using assms(1) [of "j + k"] assms(2) by (simp add: add.assoc)
qed

lemma le16_field:
  assumes "\<And>k. k < n \<Longrightarrow> R (a + word_of_nat k) = R' (b + word_of_nat k)" "j + 2 \<le> n"
  shows "le16 R (a + word_of_nat j) = le16 R' (b + word_of_nat j)"
proof (rule le16_cong)
  fix k :: nat assume "k < 2"
  then show "R (a + word_of_nat j + word_of_nat k) = R' (b + word_of_nat j + word_of_nat k)"
    using assms(1) [of "j + k"] assms(2) by (simp add: add.assoc)
qed

lemma get_phdr_cong:
  assumes "\<And>k. k < 32 \<Longrightarrow> R (a + word_of_nat k) = R' (b + word_of_nat k)"
  shows "get_phdr R a = get_phdr R' b"
proof -
  have w: "le32 R (a + word_of_nat j) = le32 R' (b + word_of_nat j)" if "j + 4 \<le> 32" for j
    by (rule le32_field [where n = 32]) (use assms that in auto)
  show ?thesis
    using w [of 0] w [of 4] w [of 8] w [of 16] w [of 20] w [of 24] by (simp add: get_phdr_def)
qed

lemma get_ehdr_cong:
  assumes "\<And>k. k < 52 \<Longrightarrow> R (a + word_of_nat k) = R' (b + word_of_nat k)"
  shows "get_ehdr R a = get_ehdr R' b"
proof -
  have w: "le32 R (a + word_of_nat j) = le32 R' (b + word_of_nat j)" if "j + 4 \<le> 52" for j
    by (rule le32_field [where n = 52]) (use assms that in auto)
  have h: "le16 R (a + word_of_nat j) = le16 R' (b + word_of_nat j)" if "j + 2 \<le> 52" for j
    by (rule le16_field [where n = 52]) (use assms that in auto)
  have "map (\<lambda>i. R (a + word_of_nat i)) [0..<16] = map (\<lambda>i. R' (b + word_of_nat i)) [0..<16]"
    using assms by (intro map_cong) auto
  then show ?thesis
    using w [of 24] w [of 28] w [of 32] h [of 16] h [of 42] h [of 44] h [of 46] h [of 48] h [of 50]
    by (simp add: get_ehdr_def)
qed

section \<open>The segments of a file\<close>

definition file_ram :: "u8 list \<Rightarrow> u32 \<Rightarrow> u8" where
  "file_ram f x = (if unat x < length f then f ! unat x else 0)"

definition seg_list :: "u8 list \<Rightarrow> Elf32_Ehdr \<Rightarrow> Elf32_Phdr list" where
  "seg_list f e = map (\<lambda>i. get_phdr (file_ram f) (e_phoff e + word_of_nat i * sizeof_Phdr)) [0..<unat (e_phnum e)]"

definition loadable :: "Elf32_Phdr list \<Rightarrow> Elf32_Phdr list" where
  "loadable phs = filter (\<lambda>ph. p_type ph = PT_LOAD) phs"

definition seg_ok :: "u8 list \<Rightarrow> Elf32_Phdr \<Rightarrow> bool" where
  "seg_ok f ph \<longleftrightarrow> p_filesz ph \<le> p_memsz ph \<and> unat (p_offset ph) + unat (p_filesz ph) \<le> length f
     \<and> unat (p_vaddr ph) + unat (p_memsz ph) < 2 ^ 32"

definition seg_apart :: "Elf32_Phdr \<Rightarrow> u32 \<Rightarrow> nat \<Rightarrow> bool" where
  "seg_apart ph a n \<longleftrightarrow> apart (p_vaddr ph) (unat (p_memsz ph)) a n"

fun segs_apart :: "Elf32_Phdr list \<Rightarrow> bool" where
  "segs_apart [] \<longleftrightarrow> True"
| "segs_apart (ph # phs) \<longleftrightarrow> list_all (\<lambda>q. seg_apart ph (p_vaddr q) (unat (p_memsz q))) phs \<and> segs_apart phs"

text \<open>The page operations of the loader alone.\<close>

fun load_pages :: "Elf32_Phdr list \<Rightarrow> mm \<Rightarrow> mm option" where
  "load_pages [] m = Some m"
| "load_pages (ph # phs) m = do {
    m1 \<leftarrow> elf_allocate_range (p_vaddr ph AND 0xFFFFF000) (seg_end ph AND 0xFFFFF000) True True m;
    m2 \<leftarrow> elf_modify_range (p_vaddr ph AND 0xFFFFF000) (seg_end ph AND 0xFFFFF000)
            (p_flags ph AND PF_R \<noteq> 0) (p_flags ph AND PF_W \<noteq> 0) m1;
    load_pages phs m2
  }"

text \<open>The memory of a loaded segment: its bytes of the file, then zeros.\<close>

definition seg_byte :: "u8 list \<Rightarrow> Elf32_Phdr \<Rightarrow> nat \<Rightarrow> u8" where
  "seg_byte f ph k = (if k < unat (p_filesz ph) then f ! (unat (p_offset ph) + k) else 0)"

definition seg_loaded :: "u8 list \<Rightarrow> Elf32_Phdr \<Rightarrow> (u32 \<Rightarrow> u8) \<Rightarrow> bool" where
  "seg_loaded f ph R \<longleftrightarrow> (\<forall>k < unat (p_memsz ph). R (p_vaddr ph + word_of_nat k) = seg_byte f ph k)"

definition in_segment :: "Elf32_Phdr \<Rightarrow> u32 \<Rightarrow> bool" where
  "in_segment ph x \<longleftrightarrow> inside (p_vaddr ph) (unat (p_memsz ph)) x"

definition image_end :: "Elf32_Phdr list \<Rightarrow> u32" where
  "image_end phs = fold max (map seg_end phs) 0"

lemma file_part_length: "unat off + unat n \<le> length f \<Longrightarrow> length (file_part f off n) = unat n"
  by (simp add: file_part_def)

definition seg_mem :: "u8 list \<Rightarrow> Elf32_Phdr \<Rightarrow> (u32 \<Rightarrow> u8) \<Rightarrow> u32 \<Rightarrow> u8" where
  "seg_mem f ph R = memset (p_vaddr ph + p_filesz ph) 0 (p_memsz ph - p_filesz ph)
     (poke (p_vaddr ph) (file_part f (p_offset ph) (p_filesz ph)) R)"

lemma seg_write:
  assumes "seg_ok f ph"
  shows "seg_loaded f ph (seg_mem f ph R)" "\<not> in_segment ph x \<Longrightarrow> seg_mem f ph R x = R x"
proof -
  let ?R = "seg_mem f ph R"
  let ?v = "p_vaddr ph" and ?n = "unat (p_filesz ph)" and ?m = "unat (p_memsz ph)"
  have le: "?n \<le> ?m" and f: "unat (p_offset ph) + ?n \<le> length f" and w: "unat ?v + ?m < 2 ^ 32"
    and le': "p_filesz ph \<le> p_memsz ph" using assms by (auto simp: seg_ok_def word_le_nat_alt)
  have len: "length (file_part f (p_offset ph) (p_filesz ph)) = ?n" by (rule file_part_length [OF f])
  have sub: "unat (p_memsz ph - p_filesz ph) = ?m - ?n" by (rule unat_sub [OF le'])
  have vn: "unat (?v + p_filesz ph) = unat ?v + ?n" using unat_add_nat [of ?v ?n] w le by simp
  have ins: "inside (?v + p_filesz ph) (unat (p_memsz ph - p_filesz ph)) y
      \<longleftrightarrow> unat ?v + ?n \<le> unat y \<and> unat y < unat ?v + ?m" for y
    using inside_iff [of "?v + p_filesz ph" "?m - ?n" y] w le unfolding sub vn by simp
  show "seg_loaded f ph ?R" unfolding seg_loaded_def
  proof (intro allI impI)
    fix k assume k: "k < ?m"
    have u: "unat (?v + word_of_nat k) = unat ?v + k" using unat_add_nat [of ?v k] k w by simp
    show "?R (?v + word_of_nat k) = seg_byte f ph k"
    proof (cases "k < ?n")
      case True
      then have "\<not> inside (?v + p_filesz ph) (unat (p_memsz ph - p_filesz ph)) (?v + word_of_nat k)"
        unfolding ins u by simp
      then show ?thesis using True f w le by (simp add: seg_mem_def memset_out poke_in len seg_byte_def) (simp add: file_part_def)
    next
      case False
      then have "inside (?v + p_filesz ph) (unat (p_memsz ph - p_filesz ph)) (?v + word_of_nat k)"
        unfolding ins u using k by simp
      then show ?thesis using False by (simp add: seg_mem_def memset_def inside_def word_less_nat_alt seg_byte_def)
    qed
  qed
  assume "\<not> in_segment ph x"
  then have o: "\<not> (unat ?v \<le> unat x \<and> unat x < unat ?v + ?m)" using inside_iff [of ?v ?m x] w by (simp add: in_segment_def)
  have "\<not> inside (?v + p_filesz ph) (unat (p_memsz ph - p_filesz ph)) x" unfolding ins using o by simp
  moreover have "\<not> inside ?v (length (file_part f (p_offset ph) (p_filesz ph))) x"
    unfolding len using o le w inside_iff [of ?v ?n x] by auto
  ultimately show "?R x = R x" by (simp add: seg_mem_def memset_out poke_out)
qed

section \<open>The loop over the segments\<close>

lemma load_segment_eq:
  "load_segment ph x s =
    map_option (\<lambda>m. (x\<lparr>bssend := max (bssend x) (seg_end ph)\<rparr>, s\<lparr>space := m, ram := seg_mem (ex_file x) ph (ram s)\<rparr>))
      (load_pages [ph] (space s))"
proof -
  have z: "memset a 0 n R = R" if "\<not> 0 < n" for a n R
    using that by (simp add: memset_def fun_eq_iff word_gt_0)
  show ?thesis
    by (cases "0 < p_memsz ph - p_filesz ph")
      (auto simp: load_segment_def read_file_def seg_mem_def z Let_def max_def split: Option.bind_splits)
qed

lemma seg_mem_table:
  assumes "seg_ok f ph" "seg_apart ph tab (32 * n)" "unat tab + 32 * n < 2 ^ 32" "j < n"
  shows "get_phdr (seg_mem f ph R) (tab + word_of_nat j * sizeof_Phdr) = get_phdr R (tab + word_of_nat j * sizeof_Phdr)"
proof (rule get_phdr_cong)
  fix k :: nat assume k: "k < 32"
  have e: "tab + word_of_nat j * sizeof_Phdr + word_of_nat k = tab + word_of_nat (32 * j + k)"
    by (simp add: add.assoc mult.commute)
  have "inside tab (32 * n) (tab + word_of_nat (32 * j + k))"
    unfolding inside_def using offset_of_nat [of "32 * j + k" tab] assms(3,4) k by simp
  then have "\<not> in_segment ph (tab + word_of_nat (32 * j + k))"
    using apart_out [of "p_vaddr ph" "unat (p_memsz ph)" tab "32 * n"] assms(1-3)
    by (simp add: in_segment_def seg_apart_def seg_ok_def)
  then show "seg_mem f ph R (tab + word_of_nat j * sizeof_Phdr + word_of_nat k) = R (tab + word_of_nat j * sizeof_Phdr + word_of_nat k)"
    unfolding e by (rule seg_write(2) [OF assms(1)])
qed

lemma load_segments_eq:
  assumes "\<forall>i \<in> set is. i < n \<and> get_phdr (ram s) (tab + word_of_nat i * sizeof_Phdr) = P i"
    "\<forall>ph \<in> set (loadable (map P is)). seg_ok (ex_file x) ph \<and> seg_apart ph tab (32 * n)"
    "unat tab + 32 * n < 2 ^ 32"
  shows "load_segments tab is x s =
    map_option (\<lambda>m. (x\<lparr>bssend := fold max (map seg_end (loadable (map P is))) (bssend x)\<rparr>,
        s\<lparr>space := m, ram := fold (seg_mem (ex_file x)) (loadable (map P is)) (ram s)\<rparr>))
      (load_pages (loadable (map P is)) (space s))"
  using assms(1,2)
proof (induction "is" arbitrary: x s)
  case (Cons i "is")
  have ph: "get_phdr (ram s) (tab + word_of_nat i * sizeof_Phdr) = P i" using Cons.prems(1) by simp
  show ?case
  proof (cases "p_type (P i) = PT_LOAD")
    case True
    then have l: "loadable (map P (i # is)) = P i # loadable (map P is)" by (simp add: loadable_def)
    have ok: "seg_ok (ex_file x) (P i)" and ap: "seg_apart (P i) tab (32 * n)"
      using Cons.prems(2) unfolding l by auto
    let ?x = "x\<lparr>bssend := max (bssend x) (seg_end (P i))\<rparr>"
    let ?s = "\<lambda>m. s\<lparr>space := m, ram := seg_mem (ex_file x) (P i) (ram s)\<rparr>"
    have tab_kept: "get_phdr (ram (?s m)) (tab + word_of_nat j * sizeof_Phdr) = get_phdr (ram s) (tab + word_of_nat j * sizeof_Phdr)"
      if "j < n" for j m using seg_mem_table [OF ok ap assms(3) that] by simp
    have IH: "load_segments tab is ?x (?s m) =
        map_option (\<lambda>m'. (?x\<lparr>bssend := fold max (map seg_end (loadable (map P is))) (bssend ?x)\<rparr>,
            (?s m)\<lparr>space := m', ram := fold (seg_mem (ex_file ?x)) (loadable (map P is)) (ram (?s m))\<rparr>))
          (load_pages (loadable (map P is)) (space (?s m)))" for m
      by (rule Cons.IH) (use Cons.prems tab_kept l in auto)
    have pages: "load_pages (P i # phs) m = Option.bind (load_pages [P i] m) (load_pages phs)" for phs m
      by (auto split: Option.bind_splits)
    have step: "load_segments tab (i # is) x s = do {
        (x1, s1) \<leftarrow> load_segment (P i) x s;
        load_segments tab is x1 s1 }"
      using ph True by (simp add: Let_def)
    show ?thesis
    proof (cases "load_pages [P i] (space s)")
      case None
      then show ?thesis using pages [of "loadable (map P is)"] by (simp only: step l load_segment_eq) simp
    next
      case (Some m)
      then have "load_segment (P i) x s = Some (?x, ?s m)" by (simp add: load_segment_eq)
      then show ?thesis using IH [of m] Some pages [of "loadable (map P is)"]
        by (simp only: step l) (simp add: max.commute option.map_comp comp_def del: load_pages.simps)
    qed
  next
    case False
    then have l: "loadable (map P (i # is)) = loadable (map P is)" by (simp add: loadable_def)
    show ?thesis using Cons.IH [of s x] Cons.prems ph False unfolding l by (simp add: Let_def)
  qed
qed (simp add: loadable_def)

lemma fold_seg_mem_out:
  assumes "\<forall>ph \<in> set phs. seg_ok f ph \<and> \<not> in_segment ph x"
  shows "fold (seg_mem f) phs R x = R x"
  using assms by (induction phs arbitrary: R) (simp_all add: seg_write(2))

lemma fold_seg_mem:
  assumes "segs_apart phs" "\<forall>ph \<in> set phs. seg_ok f ph" "ph \<in> set phs"
  shows "seg_loaded f ph (fold (seg_mem f) phs R)"
  using assms
proof (induction phs arbitrary: R)
  case (Cons p phs)
  show ?case
  proof (cases "ph \<in> set phs")
    case False
    then have [simp]: "ph = p" using Cons.prems by simp
    have "fold (seg_mem f) phs (seg_mem f p R) (p_vaddr p + word_of_nat k) = seg_mem f p R (p_vaddr p + word_of_nat k)"
      if k: "k < unat (p_memsz p)" for k
    proof (rule fold_seg_mem_out, rule ballI)
      fix q assume q: "q \<in> set phs"
      then have ap: "seg_apart p (p_vaddr q) (unat (p_memsz q))" using Cons.prems(1) by (simp add: list_all_iff)
      have ok: "seg_ok f p" "seg_ok f q" using Cons.prems(2) q by auto
      have "in_segment p (p_vaddr p + word_of_nat k)"
        using offset_of_nat [of k "p_vaddr p"] k unsigned_less [of "p_memsz p", where 'a = nat]
        by (simp add: in_segment_def inside_def)
      then have "\<not> in_segment q (p_vaddr p + word_of_nat k)"
        using apart_out [of "p_vaddr p" "unat (p_memsz p)" "p_vaddr q" "unat (p_memsz q)"] ap ok
        by (auto simp: in_segment_def seg_apart_def seg_ok_def)
      then show "seg_ok f q \<and> \<not> in_segment q (p_vaddr p + word_of_nat k)" using ok by simp
    qed
    then show ?thesis using seg_write(1) [of f p R] Cons.prems(2) by (simp add: seg_loaded_def)
  qed (use Cons in simp)
qed simp

section \<open>The mapped pages\<close>

definition mapped :: "mm \<Rightarrow> u32 \<Rightarrow> bool" where
  "mapped m v \<longleftrightarrow> (case dirs m (curdir m) of None \<Rightarrow> False | Some D \<Rightarrow>
     table D (unat (PAGE_TABLE v)) \<noteq> 0 \<and> present (entry m D (unat (PAGE_TABLE v)) (unat (PAGE_PAGE v))))"

definition keeps_mapped :: "mm \<Rightarrow> mm \<Rightarrow> bool" where
  "keeps_mapped m m' \<longleftrightarrow> curdir m' = curdir m \<and> (\<forall>v. mapped m v \<longrightarrow> mapped m' v)"

lemma keeps_mapped_trans: "keeps_mapped m m1 \<Longrightarrow> keeps_mapped m1 m2 \<Longrightarrow> keeps_mapped m m2"
  by (simp add: keeps_mapped_def)

lemma get_page_mapped:
  assumes "get_page v True (curdir m) m = Some (q, m')" "mm_typed m"
  shows "keeps_mapped m m'" "\<exists>D T. dirs m' (curdir m') = Some D \<and> table D (unat (PAGE_TABLE v)) \<noteq> 0
    \<and> q = Some (table D (unat (PAGE_TABLE v)), unat (PAGE_PAGE v)) \<and> tables m' (table D (unat (PAGE_TABLE v))) = Some T"
proof -
  obtain D where D: "dirs m (curdir m) = Some D" using assms(1) by (cases "dirs m (curdir m)") (auto simp: get_page_def)
  have "keeps_mapped m m' \<and> (\<exists>D T. dirs m' (curdir m') = Some D \<and> table D (unat (PAGE_TABLE v)) \<noteq> 0
    \<and> q = Some (table D (unat (PAGE_TABLE v)), unat (PAGE_PAGE v)) \<and> tables m' (table D (unat (PAGE_TABLE v))) = Some T)"
  proof (cases "table D (unat (PAGE_TABLE v)) = 0")
    case False
    then show ?thesis using assms D typed_table [OF assms(2) D False] by (auto simp: get_page_def keeps_mapped_def)
  next
    case True
    obtain a ph bs where b: "heap_blocks m = (a, ph) # bs" "heap_ready m" "a \<noteq> 0"
      using assms D True
      by (auto simp: get_page_def kmalloc_ap_def kmalloc_int_def clear_table_def mm_typed_def fresh_blocks_def
          split: list.splits if_splits Option.bind_splits)
    have fresh: "tables m a = None" using assms(2) b by (auto simp: mm_typed_def fresh_blocks_def)
    show ?thesis using assms(1) D True b fresh
      by (auto simp: Let_def get_page_def kmalloc_ap_def kmalloc_int_def clear_table_def set_table_def upd_dir_def
          keeps_mapped_def mapped_def entry_def zero_page_def split: if_splits option.splits)
  qed
  then show "keeps_mapped m m'" "\<exists>D T. dirs m' (curdir m') = Some D \<and> table D (unat (PAGE_TABLE v)) \<noteq> 0
    \<and> q = Some (table D (unat (PAGE_TABLE v)), unat (PAGE_PAGE v)) \<and> tables m' (table D (unat (PAGE_TABLE v))) = Some T"
    by blast+
qed

lemma write_page_mapped:
  assumes "write_page q p m = Some m'" "read_page q m = Some p0" "present p0 \<longrightarrow> present p"
  shows "keeps_mapped m m'"
  using assms by (auto simp: write_page_def read_page_def keeps_mapped_def mapped_def entry_def split: option.splits if_splits)

lemma alloc_frame_present: "alloc_frame p usr wr f = Some (p', f') \<Longrightarrow> present p'"
  by (auto simp: alloc_frame_def split: if_splits Option.bind_splits)

lemma alloc_page_typed:
  assumes "alloc_page d v usr wr m = Some m'" "mm_typed m"
  shows "mm_typed m'"
proof -
  obtain q m1 where g: "get_page v True d m = Some (q, m1)"
    using assms(1) by (auto simp: alloc_page_def split: Option.bind_splits)
  have "mm_typed m1" by (rule get_page_typed [OF g assms(2)])
  moreover obtain q p f where "write_page q p (m1\<lparr>frames := f\<rparr>) = Some m'"
    using assms(1) g that [of _ _ "frames m1"] that
    by (auto simp: alloc_page_def split: Option.bind_splits if_splits)
  ultimately show ?thesis using write_page_typed by fastforce
qed

lemma alloc_page_mapped:
  assumes "alloc_page (curdir m) v usr wr m = Some m'" "mm_typed m"
  shows "keeps_mapped m m'" "mapped m' v"
proof -
  obtain q m1 where g: "get_page v True (curdir m) m = Some (q, m1)"
    using assms(1) by (auto simp: alloc_page_def split: Option.bind_splits)
  obtain D T where D: "dirs m1 (curdir m1) = Some D" "table D (unat (PAGE_TABLE v)) \<noteq> 0"
      "tables m1 (table D (unat (PAGE_TABLE v))) = Some T"
    and q: "q = Some (table D (unat (PAGE_TABLE v)), unat (PAGE_PAGE v))"
    using get_page_mapped(2) [OF g assms(2)] by blast
  obtain p f where w: "write_page (table D (unat (PAGE_TABLE v)), unat (PAGE_PAGE v)) p (m1\<lparr>frames := f\<rparr>) = Some m'"
    and p: "present p"
  proof (cases "present (T (unat (PAGE_PAGE v)))")
    case True
    then show thesis using that [of _ "frames m1"] assms(1) g q D by (auto simp: alloc_page_def read_page_def)
  next
    case False
    then show thesis using that assms(1) g q D alloc_frame_present
      by (fastforce simp: alloc_page_def read_page_def split: Option.bind_splits)
  qed
  have "keeps_mapped m1 m'"
    using w p D by (auto simp: write_page_def keeps_mapped_def mapped_def entry_def split: option.splits if_splits)
  then show "keeps_mapped m m'" using get_page_mapped(1) [OF g assms(2)] keeps_mapped_trans by blast
  show "mapped m' v" using w p D by (auto simp: write_page_def mapped_def entry_def)
qed

lemma unat_32: "unat (x :: u32) < 2 ^ 32"
  using unsigned_less [of x, where 'a = nat] by simp

lemma range_step:
  assumes "unat start + 4096 * k \<le> unat (stop :: u32)" "0 < k"
  shows "unat (start + 0x1000 :: u32) + 4096 * (k - 1) \<le> unat stop"
    "start + 0x1000 * word_of_nat k = start + 0x1000 + 0x1000 * word_of_nat (k - 1)"
proof -
  obtain j where k: "k = Suc j" using assms(2) by (cases k) auto
  have "unat start + 4096 < 2 ^ 32" using assms k unat_32 [of stop] by linarith
  then have "unat (start + 0x1000) = unat start + 4096" using unat_add_nat [of start 4096] by simp
  then show "unat (start + 0x1000 :: u32) + 4096 * (k - 1) \<le> unat stop" using assms k by simp
  show "start + 0x1000 * word_of_nat k = start + 0x1000 + 0x1000 * word_of_nat (k - 1)"
    by (simp add: k algebra_simps)
qed

lemma elf_allocate_range_mapped:
  "elf_allocate_range start stop usr wr m = Some m' \<Longrightarrow> mm_typed m \<Longrightarrow>
   mm_typed m' \<and> keeps_mapped m m' \<and>
    (\<forall>k. unat start + 4096 * k \<le> unat stop \<longrightarrow> mapped m' (start + 0x1000 * word_of_nat k))"
proof (induction rule: elf_allocate_range.raw_induct [rotated 1, consumes 1])
  case (1 rec start stop usr wr m m')
  show ?case
  proof (cases "start \<le> stop")
    case True
    then obtain m1 where m1: "alloc_page (curdir m) start usr wr m = Some m1" and r: "rec (start + 0x1000) stop usr wr m1 = Some m'"
      using 1(2) by (auto split: Option.bind_splits)
    have t: "mm_typed m1" by (rule alloc_page_typed [OF m1 1(3)])
    note IH = 1(1) [OF r t]
    have km: "keeps_mapped m m'" using alloc_page_mapped(1) [OF m1 1(3)] IH keeps_mapped_trans by blast
    have "mapped m' (start + 0x1000 * word_of_nat k)" if k: "unat start + 4096 * k \<le> unat stop" for k
    proof (cases "k = 0")
      case True
      then show ?thesis using alloc_page_mapped(2) [OF m1 1(3)] IH by (simp add: keeps_mapped_def)
    next
      case False
      then have "0 < k" by simp
      then show ?thesis using range_step(1) [OF k] IH unfolding range_step(2) [OF k \<open>0 < k\<close>] by blast
    qed
    then show ?thesis using IH km by blast
  next
    case False
    then show ?thesis using 1 by (auto simp: keeps_mapped_def word_le_nat_alt)
  qed
qed

lemma elf_modify_range_mapped:
  "elf_modify_range start stop usr wr m = Some m' \<Longrightarrow> mm_typed m \<Longrightarrow> mm_typed m' \<and> keeps_mapped m m'"
proof (induction rule: elf_modify_range.raw_induct [rotated 1, consumes 1])
  case (1 rec start stop usr wr m m')
  show ?case
  proof (cases "start \<le> stop")
    case True
    then obtain q m1 p m2 where g: "get_page start True (curdir m) m = Some (Some q, m1)" and p: "read_page q m1 = Some p"
      and w: "write_page q (p\<lparr>rw := wr, user := usr\<rparr>) m1 = Some m2" and r: "rec (start + 0x1000) stop usr wr m2 = Some m'"
      using 1(2) by (auto split: Option.bind_splits)
    have t: "mm_typed m2" using get_page_typed [OF g 1(3)] write_page_typed [OF w] by simp
    have "keeps_mapped m1 m2" by (rule write_page_mapped [OF w p]) simp
    then show ?thesis using 1(1) [OF r t] get_page_mapped(1) [OF g 1(3)] keeps_mapped_trans by blast
  next
    case False
    then show ?thesis using 1 by (auto simp: keeps_mapped_def)
  qed
qed

lemma page_base: "unat (v AND 0xFFFFF000 :: u32) = 4096 * (unat v div 4096)"
proof -
  have "v AND 0xFFFFF000 = push_bit 12 (drop_bit 12 v)"
    using PAGE_ALIGN_push_bit [of v] by (simp only: PAGE_ALIGN_def)
  moreover have "4096 * (unat v div 4096) < 2 ^ 32" using unat_32 [of v] by (meson le_less_trans times_div_less_eq_dividend)
  ultimately show ?thesis
    by (simp add: push_bit_eq_mult unat_word_ariths unat_drop_bit_eq drop_bit_eq_div mult.commute)
qed

lemma mapped_page:
  assumes "unat x div 4096 = unat y div 4096"
  shows "mapped m x = mapped m y"
proof -
  have "drop_bit 12 x = drop_bit 12 y"
    by (rule word_unat_eq_iff [THEN iffD2]) (simp add: drop_bit_eq_div unat_div assms)
  then show ?thesis by (auto simp: mapped_def same_page_iff split: option.splits)
qed

lemma load_pages_mapped:
  assumes "load_pages phs m = Some m'" "mm_typed m" "\<forall>ph \<in> set phs. seg_ok f ph"
  shows "mm_typed m' \<and> keeps_mapped m m' \<and> (\<forall>ph \<in> set phs. \<forall>x. in_segment ph x \<longrightarrow> mapped m' x)"
  using assms
proof (induction phs arbitrary: m)
  case (Cons ph phs)
  let ?a = "p_vaddr ph AND 0xFFFFF000" and ?b = "seg_end ph AND 0xFFFFF000"
  obtain m1 m2 where al: "elf_allocate_range ?a ?b True True m = Some m1"
    and mo: "elf_modify_range ?a ?b (p_flags ph AND PF_R \<noteq> 0) (p_flags ph AND PF_W \<noteq> 0) m1 = Some m2"
    and l: "load_pages phs m2 = Some m'" using Cons.prems(1) by (auto split: Option.bind_splits)
  note 1 = elf_allocate_range_mapped [OF al Cons.prems(2)]
  then have 2: "mm_typed m2 \<and> keeps_mapped m1 m2" using elf_modify_range_mapped [OF mo] by blast
  have 3: "mm_typed m' \<and> keeps_mapped m2 m' \<and> (\<forall>ph \<in> set phs. \<forall>x. in_segment ph x \<longrightarrow> mapped m' x)"
    using Cons.IH [OF l] 2 Cons.prems(3) by simp
  have w: "unat (p_vaddr ph) + unat (p_memsz ph) < 2 ^ 32" using Cons.prems(3) by (simp add: seg_ok_def)
  have e: "unat (seg_end ph) = unat (p_vaddr ph) + unat (p_memsz ph)"
    using unat_add_nat [of "p_vaddr ph" "unat (p_memsz ph)"] w by (simp add: seg_end_def)
  have "mapped m1 x" if x: "in_segment ph x" for x
  proof -
    have r: "unat (p_vaddr ph) \<le> unat x" "unat x < unat (seg_end ph)"
      using x inside_iff [of "p_vaddr ph" "unat (p_memsz ph)" x] w by (auto simp: in_segment_def e)
    obtain k where k: "unat x div 4096 = unat (p_vaddr ph) div 4096 + k"
      using div_le_mono [OF r(1), of 4096] le_Suc_ex by blast
    have le: "unat x div 4096 \<le> unat (seg_end ph) div 4096" using r(2) by (simp add: div_le_mono)
    have "unat ?a + 4096 * k \<le> unat ?b" using k le by (simp add: page_base)
    then have m: "mapped m1 (?a + 0x1000 * word_of_nat k)" using 1 by blast
    have "unat ?a + 4096 * k \<le> unat x" unfolding page_base using k by (simp add: algebra_simps flip: k) 
    then have "unat (?a + 0x1000 * word_of_nat k) = unat ?a + 4096 * k"
      using unat_add_nat [of ?a "4096 * k"] unsigned_less [of x, where 'a = nat] by simp
    then have "unat (?a + 0x1000 * word_of_nat k) div 4096 = unat x div 4096" using k by (simp add: page_base)
    then show ?thesis using mapped_page m by blast
  qed
  then show ?case using 1 2 3 keeps_mapped_trans by (auto simp: keeps_mapped_def)
qed (simp add: keeps_mapped_def)

section \<open>Loading an executable\<close>

text \<open>What the loader needs: the table of the file and a buffer for it.\<close>

definition table_ok :: "u8 list \<Rightarrow> Elf32_Ehdr \<Rightarrow> u32 \<Rightarrow> bool" where
  "table_ok f e tab \<longleftrightarrow> e_phentsize e = 32 \<and> unat (e_phoff e) + 32 * unat (e_phnum e) \<le> length f
     \<and> length f < 2 ^ 32 \<and> tab \<noteq> 0 \<and> unat tab + 32 * unat (e_phnum e) < 2 ^ 32"

definition segments_ok :: "u8 list \<Rightarrow> Elf32_Ehdr \<Rightarrow> u32 \<Rightarrow> u32 \<Rightarrow> bool" where
  "segments_ok f e tab buf \<longleftrightarrow> segs_apart (loadable (seg_list f e))
     \<and> list_all (\<lambda>ph. seg_ok f ph \<and> seg_apart ph tab (32 * unat (e_phnum e)) \<and> seg_apart ph buf 52) (loadable (seg_list f e))
     \<and> apart buf 52 tab (32 * unat (e_phnum e)) \<and> unat buf + 52 < 2 ^ 32"

lemma unat_ucast_16: "unat (ucast (w :: u16) :: u32) = unat w"
  using unsigned_less [of w, where 'a = nat] by (simp add: unsigned_ucast_eq take_bit_nat_eq_self)

lemma table_bytes:
  assumes "table_ok f e tab"
  shows "unat (ucast (e_phnum e) * ucast (e_phentsize e) :: u32) = 32 * unat (e_phnum e)"
proof -
  have "unat (e_phnum e) < 65536" using unsigned_less [of "e_phnum e", where 'a = nat] by simp
  then show ?thesis using assms by (simp add: table_ok_def unat_word_ariths unat_ucast_16)
qed

lemma table_read:
  assumes "table_ok f e tab" "i < unat (e_phnum e)" "n = ucast (e_phnum e) * ucast (e_phentsize e)"
  shows "get_phdr (poke tab (file_part f (e_phoff e) n) R) (tab + word_of_nat i * sizeof_Phdr)
    = get_phdr (file_ram f) (e_phoff e + word_of_nat i * sizeof_Phdr)"
proof (rule get_phdr_cong)
  fix k :: nat assume k: "k < 32"
  have n: "unat n = 32 * unat (e_phnum e)" using table_bytes [OF assms(1)] assms(3) by simp
  have t: "unat (e_phoff e) + 32 * unat (e_phnum e) \<le> length f" "length f < 2 ^ 32"
    using assms(1) by (auto simp: table_ok_def)
  have len: "length (file_part f (e_phoff e) n) = 32 * unat (e_phnum e)"
    using file_part_length [of "e_phoff e" n f] n t by simp
  have a: "b + word_of_nat i * sizeof_Phdr + word_of_nat k = b + word_of_nat (32 * i + k)" for b :: u32
    by (simp add: add.assoc mult.commute)
  have j: "32 * i + k < 32 * unat (e_phnum e)" using assms(2) k by linarith
  have u: "unat (e_phoff e + word_of_nat (32 * i + k)) = unat (e_phoff e) + (32 * i + k)"
    by (rule unat_add_nat) (use j t in linarith)
  have "poke tab (file_part f (e_phoff e) n) R (tab + word_of_nat (32 * i + k)) = file_part f (e_phoff e) n ! (32 * i + k)"
    by (rule poke_in) (use j len t in linarith)+
  also have "\<dots> = f ! (unat (e_phoff e) + (32 * i + k))" using j n t by (simp add: file_part_def)
  also have "\<dots> = file_ram f (e_phoff e + word_of_nat (32 * i + k))"
    unfolding file_ram_def u using j t by simp
  finally show "poke tab (file_part f (e_phoff e) n) R (tab + word_of_nat i * sizeof_Phdr + word_of_nat k)
      = file_ram f (e_phoff e + word_of_nat i * sizeof_Phdr + word_of_nat k)" unfolding a .
qed

lemma kmalloc_typed: "mm_typed s \<Longrightarrow> heap_ready s \<Longrightarrow> mm_typed (snd (kmalloc n s))"
  by (auto simp: kmalloc_def kmalloc_int_def mm_typed_def fresh_blocks_def split: list.splits)

text \<open>
  C35: Loading an executable. When the header is valid, the program headers are in the file and the
  segments fit, overlap neither each other nor the loader's buffers, and the page operations find
  frames and tables, \<open>elf_load_exec\<close> succeeds: every loadable segment has its bytes of the file
  followed by zeros, every page of it is mapped, the entry point is the one of the header, the end
  of the data is the highest segment end, and no other byte of the memory outside the table's buffer changes.
\<close>

theorem elf_load_exec_correct:
  assumes "get_ehdr (ram s) (buffer x) = e" "elf_check_ident e ET_EXEC"
    "kmalloc (ucast (e_phnum e) * ucast (e_phentsize e)) (space s) = (tab, m1)"
    "table_ok (ex_file x) e tab" "segments_ok (ex_file x) e tab (buffer x)"
    "heap_ready (space s)" "mm_typed (space s)"
    "load_pages (loadable (seg_list (ex_file x) e)) m1 = Some m2"
  shows "\<exists>x' s'. elf_load_exec x s = Some ((None, x'), s') \<and> space s' = m2 \<and> mm_typed m2
    \<and> entry_point x' = e_entry e \<and> bssend x' = image_end (loadable (seg_list (ex_file x) e))
    \<and> (\<forall>ph \<in> set (loadable (seg_list (ex_file x) e)). seg_loaded (ex_file x) ph (ram s')
         \<and> (\<forall>a. in_segment ph a \<longrightarrow> mapped m2 a))
    \<and> (\<forall>a. (\<forall>ph \<in> set (loadable (seg_list (ex_file x) e)). \<not> in_segment ph a)
         \<longrightarrow> \<not> inside tab (32 * unat (e_phnum e)) a \<longrightarrow> ram s' a = ram s a)"
proof -
  let ?f = "ex_file x" and ?n = "ucast (e_phnum e) * ucast (e_phentsize e) :: u32"
  let ?P = "\<lambda>i. get_phdr (file_ram ?f) (e_phoff e + word_of_nat i * sizeof_Phdr)"
  let ?N = "unat (e_phnum e)" and ?L = "loadable (seg_list ?f e)"
  let ?R = "poke tab (file_part ?f (e_phoff e) ?n) (ram s)"
  let ?R' = "fold (seg_mem ?f) ?L ?R"
  have L: "?L = loadable (map ?P [0..<?N])" by (simp add: seg_list_def)
  have ok: "\<forall>ph \<in> set ?L. seg_ok ?f ph" and ap: "segs_apart ?L"
    using assms(5) by (auto simp: segments_ok_def list_all_iff)
  have plen: "length (file_part ?f (e_phoff e) ?n) = 32 * ?N"
    using table_bytes [OF assms(4)] assms(4) by (simp add: file_part_length table_ok_def)
  have run: "load_segments tab [0..<?N] (x\<lparr>bssend := 0\<rparr>) (s\<lparr>space := m1, ram := ?R\<rparr>)
      = Some (x\<lparr>bssend := image_end ?L\<rparr>, s\<lparr>space := m2, ram := ?R'\<rparr>)"
    using load_segments_eq [of "[0..<?N]" ?N "s\<lparr>space := m1, ram := ?R\<rparr>" tab ?P "x\<lparr>bssend := 0\<rparr>"]
      table_read [OF assms(4)] assms(4,5,8)
    by (simp add: L [symmetric] image_end_def segments_ok_def list_all_iff table_ok_def)
  have out: "?R' a = ram s a" if "\<forall>ph \<in> set ?L. \<not> in_segment ph a" "\<not> inside tab (32 * ?N) a" for a
    using fold_seg_mem_out [of ?L ?f a ?R] ok that poke_out [of tab "file_part ?f (e_phoff e) ?n"] plen by simp
  have hdr: "get_ehdr ?R' (buffer x) = e"
  proof -
    have "?R' (buffer x + word_of_nat k) = ram s (buffer x + word_of_nat k)" if k: "k < 52" for k
    proof (rule out)
      have i: "inside (buffer x) 52 (buffer x + word_of_nat k)" using offset_of_nat [of k "buffer x"] k by (simp add: inside_def)
      show "\<not> inside tab (32 * ?N) (buffer x + word_of_nat k)"
        using apart_out [of "buffer x" 52 tab "32 * ?N"] i assms(4,5) by (auto simp: segments_ok_def table_ok_def)
      show "\<forall>ph \<in> set ?L. \<not> in_segment ph (buffer x + word_of_nat k)"
        using apart_out [of _ _ "buffer x" 52] i assms(5)
        by (fastforce simp: segments_ok_def list_all_iff seg_apart_def seg_ok_def in_segment_def)
    qed
    then have "get_ehdr ?R' (buffer x) = get_ehdr (ram s) (buffer x)" by (rule get_ehdr_cong)
    then show ?thesis using assms(1) by simp
  qed
  have t: "mm_typed m1" using kmalloc_typed [OF assms(7,6), of ?n] assms(3) by simp
  have tab0: "tab \<noteq> 0" using assms(4) by (simp add: table_ok_def)
  have "elf_load_exec x s = Some ((None, x\<lparr>bssend := image_end ?L, entry_point := e_entry e\<rparr>), s\<lparr>space := m2, ram := ?R'\<rparr>)"
    using assms(1-3) tab0 run hdr by (simp add: elf_load_exec_def ld_kmalloc_def read_file_def Let_def)
  then show ?thesis
    using load_pages_mapped [OF assms(8) t ok] fold_seg_mem [OF ap ok] out by auto
qed

definition demo_elf :: "u8 list" where
  "demo_elf = [0x7F, 0x45, 0x4C, 0x46, 1, 1, 1, 0, 0, 0, 0, 0, 0, 0, 0, 0, 2, 0, 3, 0, 1, 0, 0, 0,
     0x04, 0x10, 0, 0, 52, 0, 0, 0, 0, 0, 0, 0, 0, 0, 0, 0, 52, 0, 32, 0, 1, 0, 40, 0, 0, 0, 0, 0,
     1, 0, 0, 0, 84, 0, 0, 0, 0x04, 0x10, 0, 0, 0, 0, 0, 0, 2, 0, 0, 0, 4, 0, 0, 0, 5, 0, 0, 0, 0, 0x10, 0, 0,
     0xEB, 0xFE]"

definition demo_exec :: exec where
  "demo_exec = \<lparr>buffer = 0xD0000000, ex_file = demo_elf, entry_point = 0, bssend = 0\<rparr>"

definition demo_ld :: ld where
  "demo_ld = \<lparr>space = demo_mm, ram = poke 0xD0000000 demo_elf (\<lambda>_. 0)\<rparr>"

definition demo_phdr :: Elf32_Phdr where
  "demo_phdr = \<lparr>p_type = 1, p_offset = 84, p_vaddr = 0x1004, p_filesz = 2, p_memsz = 4, p_flags = 5\<rparr>"

lemma demo_ehdr: "get_ehdr (ram demo_ld) 0xD0000000 =
  \<lparr>e_ident = [0x7F, 0x45, 0x4C, 0x46, 1, 1, 1, 0, 0, 0, 0, 0, 0, 0, 0, 0], e_type = 2, e_entry = 0x1004,
   e_phoff = 52, e_shoff = 0, e_phentsize = 32, e_phnum = 1, e_shentsize = 40, e_shnum = 0, e_shstrndx = 0\<rparr>"
  by (simp add: get_ehdr_def demo_ld_def poke_def demo_elf_def le16_def le32_def upt_rec)

lemma demo_segments: "loadable (seg_list demo_elf (get_ehdr (ram demo_ld) 0xD0000000)) = [demo_phdr]"
proof -
  have "[0..<unat (1 :: u16)] = [0]" by simp
  then show ?thesis
    by (simp add: demo_ehdr seg_list_def get_phdr_def file_ram_def le32_def demo_elf_def demo_phdr_def loadable_def)
qed

definition demo_mm1 :: mm where
  "demo_mm1 = demo_mm\<lparr>heap_blocks := [(0x20000, 0x220000)]\<rparr>"

lemma demo_pages: "\<exists>m. load_pages [demo_phdr] demo_mm1 = Some m"
proof -
  have "\<not> Option.is_none (alloc_frame zero_page True True demo_pmm)" by code_simp
  then obtain p f where a: "alloc_frame zero_page True True demo_pmm = Some (p, f)" by (auto simp: Option.is_none_def)
  have z: "\<not> present zero_page" by (simp add: zero_page_def)
  show ?thesis
    using a z
    by (simp add: demo_phdr_def seg_end_def elf_allocate_range.simps elf_modify_range.simps alloc_page_def
        get_page_def demo_mm1_def demo_mm_def demo_table_def PAGE_TABLE_def PAGE_PAGE_def read_page_def write_page_def zero_dir_def)
qed

theorem elf_load_exec_correct_witness:
  "\<exists>x' s'. elf_load_exec demo_exec demo_ld = Some ((None, x'), s') \<and> entry_point x' = 0x1004
    \<and> seg_loaded demo_elf demo_phdr (ram s')"
proof -
  let ?e = "get_ehdr (ram demo_ld) (buffer demo_exec)"
  have b [simp]: "buffer demo_exec = 0xD0000000" "ex_file demo_exec = demo_elf" by (simp_all add: demo_exec_def)
  have id: "elf_check_ident ?e ET_EXEC" by (simp add: demo_ehdr elf_check_ident_def)
  have k: "kmalloc (ucast (e_phnum ?e) * ucast (e_phentsize ?e)) (space demo_ld) = (0x10000, demo_mm1)"
    by (simp add: kmalloc_def kmalloc_int_def demo_ld_def demo_mm_def demo_mm1_def)
  have t: "table_ok (ex_file demo_exec) ?e 0x10000" by (simp add: demo_ehdr table_ok_def demo_elf_def)
  have s: "segments_ok (ex_file demo_exec) ?e 0x10000 (buffer demo_exec)"
    unfolding segments_ok_def b demo_segments
    by (simp add: demo_ehdr demo_phdr_def seg_ok_def seg_apart_def apart_def) (simp add: demo_elf_def)
  have h: "heap_ready (space demo_ld)" "mm_typed (space demo_ld)" using demo_mm_typed by (simp_all add: demo_ld_def) (simp add: demo_mm_def)
  obtain m where m: "load_pages (loadable (seg_list (ex_file demo_exec) ?e)) demo_mm1 = Some m"
    using demo_pages unfolding b demo_segments by blast
  show ?thesis
    using elf_load_exec_correct [OF refl id k t s h m] unfolding b demo_segments by (auto simp: demo_ehdr)
qed

section \<open>Sections without bytes\<close>

text \<open>
  The module loader puts a section at its file offset. A section without bytes has the offset of the
  section that follows it in the file, and both are loaded to the same address.
\<close>

lemma module_bss_overlap:
  assumes "get_shdr (ram s) (shtab + word_of_nat i * sizeof_Shdr) = h"
    "sh_flags h AND SHF_ALLOC \<noteq> 0" "sh_type h \<noteq> SHT_NOBITS"
    "get_shdr (ram (read_file f (sh_offset h) (sh_offset h + base - sizeof_Ehdr) (sh_size h) s))
       (shtab + word_of_nat j * sizeof_Shdr) = h'"
    "sh_flags h' AND SHF_ALLOC \<noteq> 0" "sh_type h' = SHT_NOBITS" "sh_offset h' = sh_offset h" "k < sh_size h'"
  shows "ram (load_sections f shtab base [i, j] s) (sh_offset h + base - sizeof_Ehdr + k) = 0"
  using assms by (simp add: Let_def memset_def)

end
