(* ===== verification/Block.thy ===== *)
theory Block
  imports Prelude
begin

text \<open>
  Block devices, kernel/src/block.c and kernel/include/stewieos/block.h: the table of devices and the
  transfers of bytes at any offset over a driver that transfers whole blocks.

  A device number is the pair of its major and minor number. The driver is an argument: a record of
  functions on a state of its own, \<open>None\<close> where the C structure has NULL. The lock of a device is
  never taken, so releasing it changes nothing, and the block buffer of a device is filled before
  each use; neither is part of the state. A read gives the bytes that it stores in the caller's buffer.
\<close>

type_synonym dev_t = "nat \<times> nat"

record 'd block_operations =
  bo_read :: "('d \<Rightarrow> dev_t \<Rightarrow> nat \<Rightarrow> nat \<Rightarrow> u8 list result \<times> 'd) option"
  bo_write :: "('d \<Rightarrow> dev_t \<Rightarrow> nat \<Rightarrow> nat \<Rightarrow> u8 list \<Rightarrow> errno option \<times> 'd) option"
  bo_ioctl :: "('d \<Rightarrow> dev_t \<Rightarrow> int \<Rightarrow> u32 \<Rightarrow> int \<times> 'd) option"
  bo_open :: "('d \<Rightarrow> dev_t \<Rightarrow> int \<times> 'd) option"
  bo_close :: "('d \<Rightarrow> dev_t \<Rightarrow> int \<times> 'd) option"
  bo_exist :: "('d \<Rightarrow> dev_t \<Rightarrow> bool) option"
  bo_attach :: "('d \<Rightarrow> nat \<Rightarrow> int \<times> 'd) option"
  bo_detach :: "('d \<Rightarrow> nat \<Rightarrow> int \<times> 'd) option"

record 'd block_device =
  bd_ops :: "'d block_operations"
  blksz :: nat
  nminors :: nat
  bd_refs :: nat

record 'd blk =
  vfs_dev :: "nat \<Rightarrow> 'd block_device option"
  drv :: 'd

section \<open>The table of devices\<close>

definition get_block_device :: "dev_t \<Rightarrow> 'd blk \<Rightarrow> 'd block_device option" where
  "get_block_device devid s =
    (case vfs_dev s (fst devid) of
       None \<Rightarrow> None
     | Some d \<Rightarrow>
         if nminors d \<le> snd devid then None
         else case bo_exist (bd_ops d) of
           None \<Rightarrow> Some d
         | Some ex \<Rightarrow> if ex (drv s) devid then Some d else None)"

text \<open>The results of the functions that only pass on the answer of the driver are the C integers.\<close>

abbreviation (input) C_ENODEV :: int where "C_ENODEV \<equiv> - 19"
abbreviation (input) C_EINVAL :: int where "C_EINVAL \<equiv> - 22"
abbreviation (input) C_EBUSY :: int where "C_EBUSY \<equiv> - 16"
abbreviation (input) C_ENOMEM :: int where "C_ENOMEM \<equiv> - 12"

definition block_attach :: "dev_t \<Rightarrow> 'd blk \<Rightarrow> int \<times> 'd blk" where
  "block_attach devid s =
    (case get_block_device devid s of
       None \<Rightarrow> (C_ENODEV, s)
     | Some d \<Rightarrow> (case bo_attach (bd_ops d) of
           None \<Rightarrow> (0, s)
         | Some f \<Rightarrow> let (r, x) = f (drv s) (fst devid) in (r, s\<lparr>drv := x\<rparr>)))"

definition block_detach :: "dev_t \<Rightarrow> 'd blk \<Rightarrow> int \<times> 'd blk" where
  "block_detach devid s =
    (case get_block_device devid s of
       None \<Rightarrow> (- 1, s)
     | Some d \<Rightarrow> (case bo_detach (bd_ops d) of
           None \<Rightarrow> (0, s)
         | Some f \<Rightarrow> let (r, x) = f (drv s) (fst devid) in (r, s\<lparr>drv := x\<rparr>)))"

fun free_major :: "(nat \<Rightarrow> 'd block_device option) \<Rightarrow> nat list \<Rightarrow> nat" where
  "free_major t [] = 256"
| "free_major t (m # ms) = (if t m = None then m else free_major t ms)"

definition register_block_device :: "bool \<Rightarrow> nat \<Rightarrow> nat \<Rightarrow> 'd block_operations \<Rightarrow> 'd blk \<Rightarrow> int \<times> 'd blk" where
  "register_block_device got mj n ops s =
    (let m = (if 256 \<le> mj then free_major (vfs_dev s) [0..<256] else mj) in
     if 256 \<le> m then (C_EINVAL, s)
     else if vfs_dev s m \<noteq> None then (C_EBUSY, s)
     else if \<not> got then (C_ENOMEM, s)
     else
       let dev = \<lparr>bd_ops = ops, blksz = 512, nminors = n, bd_refs = 0\<rparr>;
           (r, s1) = block_attach (m, 0) (s\<lparr>vfs_dev := (vfs_dev s)(m \<mapsto> dev)\<rparr>)
       in if r \<noteq> 0 then (r, s1\<lparr>vfs_dev := (vfs_dev s1)(m := None)\<rparr>) else (0, s1))"

definition unregister_block_device :: "nat \<Rightarrow> 'd blk \<Rightarrow> int \<times> 'd blk" where
  "unregister_block_device m s =
    (if 256 \<le> m \<or> vfs_dev s m = None then (0, s)
     else if bd_refs (the (vfs_dev s m)) \<noteq> 0 then (C_EBUSY, s)
     else
       let dev = the (vfs_dev s m);
           (r, s1) = block_detach (m, 0) (s\<lparr>vfs_dev := (vfs_dev s)(m := None)\<rparr>)
       in if r \<noteq> 0 then (r, s1\<lparr>vfs_dev := (vfs_dev s1)(m \<mapsto> dev)\<rparr>) else (0, s1))"

section \<open>Transfers\<close>

text \<open>The whole blocks of a transfer, and what remains of it in the last block.\<close>

definition read_tail :: "('d \<Rightarrow> dev_t \<Rightarrow> nat \<Rightarrow> nat \<Rightarrow> u8 list result \<times> 'd) \<Rightarrow> dev_t \<Rightarrow> nat \<Rightarrow> nat \<Rightarrow> u8 list \<Rightarrow> 'd \<Rightarrow>
    u8 list result \<times> 'd" where
  "read_tail rd devid lba count acc x =
    (if count \<noteq> 0 then
       case rd x devid lba 1 of
         (Inl e, x1) \<Rightarrow> (Inl e, x1)
       | (Inr bs, x1) \<Rightarrow> (Inr (acc @ take count bs), x1)
     else (Inr acc, x))"

definition read_body :: "('d \<Rightarrow> dev_t \<Rightarrow> nat \<Rightarrow> nat \<Rightarrow> u8 list result \<times> 'd) \<Rightarrow> nat \<Rightarrow> dev_t \<Rightarrow> nat \<Rightarrow> nat \<Rightarrow> u8 list \<Rightarrow> 'd \<Rightarrow>
    u8 list result \<times> 'd" where
  "read_body rd b devid lba count acc x =
    (if b \<le> count then
       case rd x devid lba (count div b) of
         (Inl e, x1) \<Rightarrow> (Inl e, x1)
       | (Inr bs, x1) \<Rightarrow> read_tail rd devid (lba + count div b) (count - count div b * b) (acc @ bs) x1
     else read_tail rd devid lba count acc x)"

definition block_read :: "dev_t \<Rightarrow> u32 \<Rightarrow> u32 \<Rightarrow> 'd blk \<Rightarrow> u8 list result \<times> 'd blk" where
  "block_read devid off cnt s =
    (case get_block_device devid s of
       None \<Rightarrow> (Inl ENODEV, s)
     | Some d \<Rightarrow> (case bo_read (bd_ops d) of
         None \<Rightarrow> (Inl ENOSYS, s)
       | Some rd \<Rightarrow>
           let b = blksz d; lba = unat off div b; r = unat off mod b; count = unat cnt;
               (res, x) =
                 (if r \<noteq> 0 then
                    case rd (drv s) devid lba 1 of
                      (Inl e, x1) \<Rightarrow> (Inl e, x1)
                    | (Inr bs, x1) \<Rightarrow>
                        if b - r < count then
                          read_body rd b devid (lba + 1) (count - (b - r)) (take (b - r) (drop r bs)) x1
                        else (Inr (take count (drop r bs)), x1)
                  else read_body rd b devid lba count [] (drv s))
           in (res, s\<lparr>drv := x\<rparr>)))"

definition write_part :: "('d \<Rightarrow> dev_t \<Rightarrow> nat \<Rightarrow> nat \<Rightarrow> u8 list result \<times> 'd) \<Rightarrow>
    ('d \<Rightarrow> dev_t \<Rightarrow> nat \<Rightarrow> nat \<Rightarrow> u8 list \<Rightarrow> errno option \<times> 'd) \<Rightarrow> dev_t \<Rightarrow> nat \<Rightarrow> nat \<Rightarrow> u8 list \<Rightarrow> 'd \<Rightarrow>
    errno option \<times> 'd" where
  "write_part rd wr devid lba at part x =
    (case rd x devid lba 1 of
       (Inl e, x1) \<Rightarrow> (Some e, x1)
     | (Inr bs, x1) \<Rightarrow> wr x1 devid lba 1 (take at bs @ part @ drop (at + length part) bs))"

definition write_tail :: "('d \<Rightarrow> dev_t \<Rightarrow> nat \<Rightarrow> nat \<Rightarrow> u8 list result \<times> 'd) \<Rightarrow>
    ('d \<Rightarrow> dev_t \<Rightarrow> nat \<Rightarrow> nat \<Rightarrow> u8 list \<Rightarrow> errno option \<times> 'd) \<Rightarrow> dev_t \<Rightarrow> nat \<Rightarrow> u8 list \<Rightarrow> 'd \<Rightarrow>
    errno option \<times> 'd" where
  "write_tail rd wr devid lba buf x =
    (if length buf \<noteq> 0 then write_part rd wr devid lba 0 buf x else (None, x))"

definition write_body :: "('d \<Rightarrow> dev_t \<Rightarrow> nat \<Rightarrow> nat \<Rightarrow> u8 list result \<times> 'd) \<Rightarrow>
    ('d \<Rightarrow> dev_t \<Rightarrow> nat \<Rightarrow> nat \<Rightarrow> u8 list \<Rightarrow> errno option \<times> 'd) \<Rightarrow> nat \<Rightarrow> dev_t \<Rightarrow> nat \<Rightarrow> u8 list \<Rightarrow> 'd \<Rightarrow>
    errno option \<times> 'd" where
  "write_body rd wr b devid lba buf x =
    (let count = length buf in
     if b \<le> count then
       case wr x devid lba (count div b) buf of
         (Some e, x1) \<Rightarrow> (Some e, x1)
       | (None, x1) \<Rightarrow> write_tail rd wr devid (lba + count div b) (drop (count div b * b) buf) x1
     else write_tail rd wr devid lba buf x)"

text \<open>
  A write calls \<open>ops->read\<close> without testing the pointer; \<open>None\<close> is that fault. The buffer has
  \<open>count\<close> bytes.
\<close>

definition block_write :: "dev_t \<Rightarrow> u32 \<Rightarrow> u8 list \<Rightarrow> 'd blk \<Rightarrow> (nat result \<times> 'd blk) option" where
  "block_write devid off buf s =
    (case get_block_device devid s of
       None \<Rightarrow> Some (Inl ENODEV, s)
     | Some d \<Rightarrow> (case bo_write (bd_ops d) of
         None \<Rightarrow> Some (Inl ENOSYS, s)
       | Some wr \<Rightarrow>
           if length buf = 0 then Some (Inr 0, s)
           else
             let b = blksz d; lba = unat off div b; r = unat off mod b; count = length buf;
                 finish = (\<lambda>(e, x). (case e of Some e \<Rightarrow> Inl e | None \<Rightarrow> Inr count, s\<lparr>drv := x\<rparr>))
             in case bo_read (bd_ops d) of
               None \<Rightarrow>
                 if r = 0 \<and> count mod b = 0 then Some (finish (wr (drv s) devid lba (count div b) buf))
                 else None
             | Some rd \<Rightarrow>
                 Some (finish
                   (if r \<noteq> 0 then
                      case write_part rd wr devid lba r (take (b - r) buf) (drv s) of
                        (Some e, x1) \<Rightarrow> (Some e, x1)
                      | (None, x1) \<Rightarrow> write_body rd wr b devid (lba + 1) (drop (b - r) buf) x1
                    else write_body rd wr b devid lba buf (drv s)))))"

section \<open>Control, and the device as a file\<close>

definition block_ioctl :: "dev_t \<Rightarrow> int \<Rightarrow> u32 \<Rightarrow> 'd blk \<Rightarrow> int \<times> 'd blk" where
  "block_ioctl devid cmd argp s =
    (case get_block_device devid s of
       None \<Rightarrow> (- 1, s)
     | Some d \<Rightarrow> (case bo_ioctl (bd_ops d) of
           None \<Rightarrow> (- 1, s)
         | Some f \<Rightarrow> let (r, x) = f (drv s) devid cmd argp in (r, s\<lparr>drv := x\<rparr>)))"

definition block_open :: "dev_t \<Rightarrow> 'd blk \<Rightarrow> int \<times> 'd blk" where
  "block_open devid s =
    (case get_block_device devid s of
       None \<Rightarrow> (C_ENODEV, s)
     | Some d \<Rightarrow> (case bo_open (bd_ops d) of
           None \<Rightarrow> (0, s)
         | Some f \<Rightarrow> let (r, x) = f (drv s) devid in (r, s\<lparr>drv := x\<rparr>)))"

definition block_close :: "dev_t \<Rightarrow> 'd blk \<Rightarrow> int \<times> 'd blk" where
  "block_close devid s =
    (case get_block_device devid s of
       None \<Rightarrow> (C_ENODEV, s)
     | Some d \<Rightarrow> (case bo_close (bd_ops d) of
           None \<Rightarrow> (0, s)
         | Some f \<Rightarrow> let (r, x) = f (drv s) devid in (r, s\<lparr>drv := x\<rparr>)))"

text \<open>An open block device: the device of its inode and the offset of the file.\<close>

record block_file =
  bf_dev :: dev_t
  bf_off :: u32

definition block_file_open :: "block_file \<Rightarrow> 'd blk \<Rightarrow> int \<times> 'd blk" where
  "block_file_open f s = block_open (bf_dev f) s"

definition block_file_close :: "block_file \<Rightarrow> 'd blk \<Rightarrow> int \<times> 'd blk" where
  "block_file_close f s = block_close (bf_dev f) s"

definition block_file_ioctl :: "block_file \<Rightarrow> int \<Rightarrow> u32 \<Rightarrow> 'd blk \<Rightarrow> int \<times> 'd blk" where
  "block_file_ioctl f cmd parm s = block_ioctl (bf_dev f) cmd parm s"

definition block_file_read :: "block_file \<Rightarrow> u32 \<Rightarrow> 'd blk \<Rightarrow> u8 list result \<times> block_file \<times> 'd blk" where
  "block_file_read f cnt s =
    (case block_read (bf_dev f) (bf_off f) cnt s of
       (Inl e, s1) \<Rightarrow> (Inl e, f, s1)
     | (Inr bs, s1) \<Rightarrow> (Inr bs, if 0 < sint cnt then f\<lparr>bf_off := bf_off f + cnt\<rparr> else f, s1))"

definition block_file_write :: "block_file \<Rightarrow> u8 list \<Rightarrow> 'd blk \<Rightarrow> (nat result \<times> block_file \<times> 'd blk) option" where
  "block_file_write f buf s =
    (case block_write (bf_dev f) (bf_off f) buf s of
       None \<Rightarrow> None
     | Some (Inl e, s1) \<Rightarrow> Some (Inl e, f, s1)
     | Some (Inr n, s1) \<Rightarrow>
         Some (Inr n, if 0 < sint (word_of_nat n :: u32) then f\<lparr>bf_off := bf_off f + word_of_nat n\<rparr> else f, s1))"

section \<open>Bytes of a device\<close>

text \<open>
  What a driver promises while the device exists: a read of whole blocks on the device gives their bytes
  and changes nothing, and a write replaces their bytes and leaves the device in existence. A driver
  transfers at most \<open>m\<close> blocks in one call: the one for ATA disks keeps the number in a byte.
\<close>

definition device_exists :: "'d block_device \<Rightarrow> dev_t \<Rightarrow> 'd \<Rightarrow> bool" where
  "device_exists d devid x \<longleftrightarrow> (case bo_exist (bd_ops d) of None \<Rightarrow> True | Some ex \<Rightarrow> ex x devid)"

definition patch :: "(nat \<Rightarrow> u8) \<Rightarrow> nat \<Rightarrow> u8 list \<Rightarrow> nat \<Rightarrow> u8" where
  "patch c p bs = (\<lambda>i. if p \<le> i \<and> i < p + length bs then bs ! (i - p) else c i)"

definition bytes :: "(nat \<Rightarrow> u8) \<Rightarrow> nat \<Rightarrow> nat \<Rightarrow> u8 list" where
  "bytes c p n = map c [p..<p + n]"

definition reads_blocks :: "('d \<Rightarrow> bool) \<Rightarrow> nat \<Rightarrow> ('d \<Rightarrow> dev_t \<Rightarrow> nat \<Rightarrow> nat \<Rightarrow> u8 list result \<times> 'd) \<Rightarrow> dev_t \<Rightarrow> nat \<Rightarrow> nat \<Rightarrow>
    ('d \<Rightarrow> nat \<Rightarrow> u8) \<Rightarrow> bool" where
  "reads_blocks P m rd devid b N content \<longleftrightarrow>
    (\<forall>x lba n. P x \<longrightarrow> 0 < n \<longrightarrow> n \<le> m \<longrightarrow> lba + n \<le> N \<longrightarrow>
       rd x devid lba n = (Inr (bytes (content x) (lba * b) (n * b)), x))"

definition writes_blocks :: "('d \<Rightarrow> bool) \<Rightarrow> nat \<Rightarrow> ('d \<Rightarrow> dev_t \<Rightarrow> nat \<Rightarrow> nat \<Rightarrow> u8 list \<Rightarrow> errno option \<times> 'd) \<Rightarrow> dev_t \<Rightarrow> nat \<Rightarrow> nat \<Rightarrow>
    ('d \<Rightarrow> nat \<Rightarrow> u8) \<Rightarrow> bool" where
  "writes_blocks P m wr devid b N content \<longleftrightarrow>
    (\<forall>x lba n buf. P x \<longrightarrow> 0 < n \<longrightarrow> n \<le> m \<longrightarrow> lba + n \<le> N \<longrightarrow> n * b \<le> length buf \<longrightarrow>
       (\<exists>x'. wr x devid lba n buf = (None, x') \<and> P x'
         \<and> content x' = patch (content x) (lba * b) (take (n * b) buf)))"

lemma reads_blocksD:
  "reads_blocks P m rd devid b N content \<Longrightarrow> P x \<Longrightarrow> 0 < n \<Longrightarrow> n \<le> m \<Longrightarrow> lba + n \<le> N
    \<Longrightarrow> rd x devid lba n = (Inr (bytes (content x) (lba * b) (n * b)), x)"
  by (simp add: reads_blocks_def)

lemma writes_blocksE:
  assumes "writes_blocks P m wr devid b N content" "P x" "0 < n" "n \<le> m" "lba + n \<le> N" "n * b \<le> length buf"
  obtains x' where "wr x devid lba n buf = (None, x')" "P x'"
    "content x' = patch (content x) (lba * b) (take (n * b) buf)"
  using assms unfolding writes_blocks_def by blast

lemma length_bytes [simp]: "length (bytes c p n) = n"
  by (simp add: bytes_def)

lemma bytes_append: "bytes c p n @ bytes c (p + n) m = bytes c p (n + m)"
  using upt_add_eq_append [of p "p + n" m] by (simp add: bytes_def add.assoc flip: map_append)

lemma take_bytes: "m \<le> n \<Longrightarrow> take m (bytes c p n) = bytes c p m"
  by (simp add: bytes_def take_map)

lemma drop_bytes: "drop m (bytes c p n) = bytes c (p + m) (n - m)"
  by (rule nth_equalityI) (auto simp: bytes_def add.assoc)

lemma patch_Nil [simp]: "patch c p [] = c"
  by (auto simp: patch_def fun_eq_iff)

lemma patch_patch: "patch (patch c p bs) (p + length bs) cs = patch c p (bs @ cs)"
  by (auto simp: patch_def nth_append fun_eq_iff)

text \<open>Rewriting one block with a part replaced changes just that part.\<close>

lemma patch_block:
  assumes "at + length part \<le> b"
  shows "patch c p (take at (bytes c p b) @ part @ drop (at + length part) (bytes c p b)) = patch c (p + at) part"
  using assms by (auto simp: patch_def bytes_def nth_append fun_eq_iff)

lemma bytes_patch_same: "bytes (patch c p bs) p (length bs) = bs"
  by (rule nth_equalityI) (auto simp: bytes_def patch_def)

lemma block_inside:
  assumes "lba * b + n \<le> N * b" "0 < n"
  shows "lba + 1 \<le> (N :: nat)"
proof -
  have "lba * b < N * b" using assms by linarith
  then show ?thesis by (simp add: mult_less_cancel2)
qed

lemma blocks_inside:
  assumes "lba * b + n \<le> N * b" "0 < b"
  shows "lba + n div b \<le> (N :: nat)"
proof -
  have "(lba + n div b) * b \<le> lba * b + n" by (simp add: distrib_right)
  then have "(lba + n div b) * b \<le> N * b" using assms(1) by linarith
  then show ?thesis using assms(2) by simp
qed

lemma read_tail_ok:
  assumes "reads_blocks P m rd devid b N content" "P x" "1 \<le> m" "count < b" "lba * b + count \<le> N * b"
  shows "read_tail rd devid lba count acc x = (Inr (acc @ bytes (content x) (lba * b) count), x)"
proof (cases "count = 0")
  case False
  then show ?thesis
    using assms(4) block_inside [OF assms(5)] reads_blocksD [OF assms(1,2) _ assms(3), of lba]
    by (simp add: read_tail_def take_bytes)
qed (simp add: read_tail_def bytes_def)

lemma read_body_ok:
  assumes "reads_blocks P m rd devid b N content" "P x" "1 \<le> m" "0 < b" "lba * b + count \<le> N * b" "count div b \<le> m"
  shows "read_body rd b devid lba count acc x = (Inr (acc @ bytes (content x) (lba * b) count), x)"
proof (cases "b \<le> count")
  case True
  have n: "0 < count div b" using True assms(4) by (simp add: div_greater_zero_iff)
  have q: "count - count div b * b = count mod b" by (simp add: minus_div_mult_eq_mod)
  have e: "(lba + count div b) * b = lba * b + count div b * b" by (simp add: distrib_right)
  have le: "(lba + count div b) * b + count mod b \<le> N * b" using assms(5) by (simp add: e add.assoc)
  show ?thesis
    using True reads_blocksD [OF assms(1,2) n assms(6) blocks_inside [OF assms(5,4)]]
      read_tail_ok [OF assms(1-3) mod_less_divisor [OF assms(4)] le]
    by (simp add: read_body_def q e bytes_append)
next
  case False
  then show ?thesis using read_tail_ok [OF assms(1-3) _ assms(5)] by (simp add: read_body_def)
qed

lemma next_block: "0 < b \<Longrightarrow> (p div b + 1) * b = p + (b - p mod b)" for p b :: nat
proof -
  assume "0 < b"
  then have "p mod b < b" by simp
  moreover have "p div b * b + p mod b = p" by simp
  moreover have "(p div b + 1) * b = p div b * b + b" by (simp add: distrib_right)
  ultimately show "(p div b + 1) * b = p + (b - p mod b)" by linarith
qed

lemma block_read_ok:
  assumes "get_block_device devid s = Some d" "bo_read (bd_ops d) = Some rd"
    "reads_blocks P m rd devid (blksz d) N content" "P (drv s)" "1 \<le> m" "0 < blksz d"
    "unat off + unat cnt \<le> N * blksz d" "unat cnt div blksz d \<le> m"
  shows "block_read devid off cnt s = (Inr (bytes (content (drv s)) (unat off) (unat cnt)), s)"
proof -
  let ?b = "blksz d" and ?o = "unat off" and ?c = "unat cnt"
  let ?l = "?o div ?b" and ?r = "?o mod ?b"
  have o: "?l * ?b + ?r = ?o" by simp
  have r: "?r < ?b" using assms(6) by simp
  show ?thesis
  proof (cases "?r = 0")
    case True
    then have "?l * ?b = ?o" using o by simp
    then show ?thesis using True assms(1,2) read_body_ok [OF assms(3-6), of ?l ?c] assms(7,8)
      by (simp add: block_read_def Let_def)
  next
    case False
    have "?l * ?b + ?r \<le> N * ?b" using assms(7) o by linarith
    then have l: "?l + 1 \<le> N" using block_inside False by blast
    have hd: "rd (drv s) devid ?l 1 = (Inr (bytes (content (drv s)) (?l * ?b) ?b), drv s)"
      using reads_blocksD [OF assms(3,4) _ assms(5) l] by simp
    have dr: "drop ?r (bytes (content (drv s)) (?l * ?b) ?b) = bytes (content (drv s)) ?o (?b - ?r)"
      by (simp add: drop_bytes o)
    show ?thesis
    proof (cases "?b - ?r < ?c")
      case True
      have e: "(?l + 1) * ?b = ?o + (?b - ?r)" using next_block [OF assms(6)] .
      have i: "(?l + 1) * ?b + (?c - (?b - ?r)) \<le> N * ?b" unfolding e using assms(7) True by linarith
      have "(?c - (?b - ?r)) div ?b \<le> m" using div_le_mono [of "?c - (?b - ?r)" ?c ?b] assms(8) by simp
      note body = read_body_ok [OF assms(3-6) i this]
      have "bytes (content (drv s)) ?o (?b - ?r) @ bytes (content (drv s)) ((?l + 1) * ?b) (?c - (?b - ?r)) = bytes (content (drv s)) ?o ?c"
        unfolding e bytes_append using True by simp
      then show ?thesis using False True assms(1,2) hd dr body
        by (simp add: block_read_def Let_def take_bytes)
    next
      case c: False
      then show ?thesis using False assms(1,2) hd dr by (simp add: block_read_def Let_def take_bytes)
    qed
  qed
qed

lemma write_part_ok:
  assumes "reads_blocks P m rd devid b N content" "writes_blocks P m wr devid b N content" "P x" "1 \<le> m" "lba + 1 \<le> N"
    "at + length part \<le> b"
  shows "\<exists>x'. write_part rd wr devid lba at part x = (None, x') \<and> P x' \<and> content x' = patch (content x) (lba * b + at) part"
proof -
  let ?c = "bytes (content x) (lba * b) b"
  let ?buf = "take at ?c @ part @ drop (at + length part) ?c"
  have "1 * b \<le> length ?buf" using assms(6) by simp
  from writes_blocksE [OF assms(2,3) _ assms(4,5) this] obtain x'
    where "wr x devid lba 1 ?buf = (None, x')" "P x'" "content x' = patch (content x) (lba * b) (take (1 * b) ?buf)" by auto
  moreover have "take (1 * b) ?buf = ?buf" using assms(6) by simp
  ultimately show ?thesis
    using reads_blocksD [OF assms(1,3) _ assms(4,5)] patch_block [OF assms(6), of "content x" "lba * b"]
    by (simp add: write_part_def)
qed

lemma write_tail_ok:
  assumes "reads_blocks P m rd devid b N content" "writes_blocks P m wr devid b N content" "P x" "1 \<le> m" "length buf < b"
    "lba * b + length buf \<le> N * b"
  shows "\<exists>x'. write_tail rd wr devid lba buf x = (None, x') \<and> P x' \<and> content x' = patch (content x) (lba * b) buf"
proof (cases "buf = []")
  case False
  then have "lba + 1 \<le> N" using block_inside [OF assms(6)] by simp
  then show ?thesis using write_part_ok [OF assms(1-4), of lba 0 buf] assms(5) False by (simp add: write_tail_def)
qed (simp add: write_tail_def assms(3))

lemma write_body_ok:
  assumes "reads_blocks P m rd devid b N content" "writes_blocks P m wr devid b N content" "P x" "1 \<le> m" "0 < b"
    "lba * b + length buf \<le> N * b" "length buf div b \<le> m"
  shows "\<exists>x'. write_body rd wr b devid lba buf x = (None, x') \<and> P x' \<and> content x' = patch (content x) (lba * b) buf"
proof (cases "b \<le> length buf")
  case True
  let ?n = "length buf div b"
  have n: "?n * b \<le> length buf" by simp
  have n0: "0 < ?n" using True assms(5) by (simp add: div_greater_zero_iff)
  obtain x1 where x1: "wr x devid lba ?n buf = (None, x1)" "P x1" "content x1 = patch (content x) (lba * b) (take (?n * b) buf)"
    by (rule writes_blocksE [OF assms(2,3) n0 assms(7) blocks_inside [OF assms(6,5)] n])
  have e: "(lba + ?n) * b = lba * b + length (take (?n * b) buf)" by (simp add: distrib_right min_absorb2)
  have len: "length (drop (?n * b) buf) < b" using assms(5) by (simp add: minus_div_mult_eq_mod)
  have "(lba + ?n) * b + length (drop (?n * b) buf) \<le> N * b" using assms(6) n by (simp add: distrib_right)
  from write_tail_ok [OF assms(1,2) x1(2) assms(4) len this] obtain x2
    where x2: "write_tail rd wr devid (lba + ?n) (drop (?n * b) buf) x1 = (None, x2)" "P x2"
      "content x2 = patch (content x1) ((lba + ?n) * b) (drop (?n * b) buf)" by blast
  have "content x2 = patch (content x) (lba * b) buf" unfolding x2(3) x1(3) e patch_patch by simp
  then show ?thesis using True x1(1) x2(1,2) by (simp add: write_body_def Let_def)
next
  case False
  then show ?thesis using write_tail_ok [OF assms(1-4) _ assms(6)] by (simp add: write_body_def)
qed

lemma block_write_ok:
  assumes "get_block_device devid s = Some d" "bo_read (bd_ops d) = Some rd" "bo_write (bd_ops d) = Some wr"
    "reads_blocks P m rd devid (blksz d) N content" "writes_blocks P m wr devid (blksz d) N content" "P (drv s)" "1 \<le> m"
    "0 < blksz d" "unat off + length buf \<le> N * blksz d" "length buf div blksz d \<le> m"
  shows "\<exists>x'. block_write devid off buf s = Some (Inr (length buf), s\<lparr>drv := x'\<rparr>) \<and> P x'
    \<and> content x' = patch (content (drv s)) (unat off) buf"
proof (cases "buf = []")
  case True
  then show ?thesis using assms(1,3,6) by (auto simp: block_write_def intro!: exI [of _ "drv s"])
next
  case ne: False
  let ?b = "blksz d" and ?o = "unat off"
  let ?l = "?o div ?b" and ?r = "?o mod ?b"
  have o: "?l * ?b + ?r = ?o" by simp
  show ?thesis
  proof (cases "?r = 0")
    case True
    then have "?l * ?b = ?o" using o by simp
    then show ?thesis using True ne assms(1-3) write_body_ok [OF assms(4-8), of ?l buf] assms(9,10)
      by (auto simp: block_write_def Let_def)
  next
    case False
    have "?l * ?b + ?r \<le> N * ?b" using assms(9) o by linarith
    then have l: "?l + 1 \<le> N" using block_inside False by blast
    have r: "?r + length (take (?b - ?r) buf) \<le> ?b" using mod_less_divisor [OF assms(8), of ?o] by simp
    obtain x1 where x1: "write_part rd wr devid ?l ?r (take (?b - ?r) buf) (drv s) = (None, x1)" "P x1"
      "content x1 = patch (content (drv s)) ?o (take (?b - ?r) buf)"
      using write_part_ok [OF assms(4-7) l r] unfolding o by blast
    note e = next_block [OF assms(8), of ?o]
    show ?thesis
    proof (cases "?b - ?r \<le> length buf")
      case True
      have "(?l + 1) * ?b + length (drop (?b - ?r) buf) \<le> N * ?b" unfolding e using assms(9) True by simp
      moreover have "length (drop (?b - ?r) buf) div ?b \<le> m"
        using div_le_mono [of "length buf - (?b - ?r)" "length buf" ?b] assms(10) by simp
      ultimately obtain x2
        where x2: "write_body rd wr ?b devid (?l + 1) (drop (?b - ?r) buf) x1 = (None, x2)" "P x2"
          "content x2 = patch (content x1) ((?l + 1) * ?b) (drop (?b - ?r) buf)"
        using write_body_ok [OF assms(4,5) x1(2) assms(7,8)] by blast
      have "?o + (?b - ?r) = ?o + length (take (?b - ?r) buf)" using True by simp
      then have "content x2 = patch (content (drv s)) ?o buf" unfolding x2(3) x1(3) e by (simp only: patch_patch append_take_drop_id)
      then show ?thesis using ne False assms(1-3) x1(1) x2(1,2) by (auto simp: block_write_def Let_def)
    next
      case short: False
      then have "write_body rd wr ?b devid (?l + 1) (drop (?b - ?r) buf) x1 = (None, x1)"
        using assms(8) by (simp add: write_body_def write_tail_def)
      then show ?thesis using ne False short assms(1-3) x1 by (auto simp: block_write_def Let_def)
    qed
  qed
qed

section \<open>Properties\<close>

text \<open>
  C36: Bytes written to a block device are the bytes read. Over a driver that transfers up to \<open>m\<close> whole
  blocks at a time while the device exists, a write at any offset within the device, of a length that
  has at most \<open>m\<close> whole blocks, succeeds, and afterwards a read of any such range gives the bytes of
  the device from before with the written ones in their place; the rest of the state is unchanged.
\<close>

theorem block_io_correct:
  assumes "get_block_device devid s = Some d" "bo_read (bd_ops d) = Some rd" "bo_write (bd_ops d) = Some wr"
    "reads_blocks (device_exists d devid) m rd devid (blksz d) N content"
    "writes_blocks (device_exists d devid) m wr devid (blksz d) N content" "1 \<le> m" "0 < blksz d"
    "unat off + length buf \<le> N * blksz d" "length buf div blksz d \<le> m"
    "unat p + unat cnt \<le> N * blksz d" "unat cnt div blksz d \<le> m"
  shows "\<exists>s'. block_write devid off buf s = Some (Inr (length buf), s') \<and> vfs_dev s' = vfs_dev s
    \<and> block_read devid p cnt s' = (Inr (bytes (patch (content (drv s)) (unat off) buf) (unat p) (unat cnt)), s')"
proof -
  have ex: "device_exists d devid (drv s)"
    using assms(1) by (auto simp: get_block_device_def device_exists_def split: option.splits if_splits)
  obtain x' where x': "block_write devid off buf s = Some (Inr (length buf), s\<lparr>drv := x'\<rparr>)" "device_exists d devid x'"
    "content x' = patch (content (drv s)) (unat off) buf"
    using block_write_ok [OF assms(1-5) ex assms(6-9)] by blast
  have "get_block_device devid (s\<lparr>drv := x'\<rparr>) = Some d"
    using assms(1) x'(2) by (auto simp: get_block_device_def device_exists_def split: option.splits if_splits)
  from block_read_ok [OF this assms(2,4) _ assms(6,7,10,11)] show ?thesis using x' by simp
qed

text \<open>A memory as a device with two blocks of two bytes, which may be absent.\<close>

definition demo_read :: "bool \<times> (nat \<Rightarrow> u8) \<Rightarrow> dev_t \<Rightarrow> nat \<Rightarrow> nat \<Rightarrow> u8 list result \<times> bool \<times> (nat \<Rightarrow> u8)" where
  "demo_read x devid lba n = (if fst x \<and> n < 256 then (Inr (bytes (snd x) (lba * 2) (n * 2)), x) else (Inl EIO, x))"

definition demo_write :: "bool \<times> (nat \<Rightarrow> u8) \<Rightarrow> dev_t \<Rightarrow> nat \<Rightarrow> nat \<Rightarrow> u8 list \<Rightarrow> errno option \<times> bool \<times> (nat \<Rightarrow> u8)" where
  "demo_write x devid lba n buf =
    (if fst x \<and> n < 256 then (None, True, patch (snd x) (lba * 2) (take (n * 2) buf)) else (Some EIO, x))"

definition demo_ops :: "(bool \<times> (nat \<Rightarrow> u8)) block_operations" where
  "demo_ops = \<lparr>bo_read = Some demo_read, bo_write = Some demo_write,
     bo_ioctl = None, bo_open = None, bo_close = None, bo_exist = Some (\<lambda>x _. fst x), bo_attach = None, bo_detach = None\<rparr>"

definition demo_blk :: "(bool \<times> (nat \<Rightarrow> u8)) blk" where
  "demo_blk = \<lparr>vfs_dev = [8 \<mapsto> \<lparr>bd_ops = demo_ops, blksz = 2, nminors = 1, bd_refs = 0\<rparr>], drv = (True, \<lambda>_. 0)\<rparr>"

theorem block_io_correct_witness:
  "\<exists>s'. block_write (8, 0) 1 [5, 6] demo_blk = Some (Inr 2, s') \<and> fst (block_read (8, 0) 0 4 s') = Inr [0, 5, 6, 0]"
proof -
  let ?d = "\<lparr>bd_ops = demo_ops, blksz = 2, nminors = 1, bd_refs = 0\<rparr>"
  have d: "get_block_device (8, 0) demo_blk = Some ?d" by (simp add: get_block_device_def demo_blk_def demo_ops_def)
  have ops: "bo_read (bd_ops ?d) = Some demo_read" "bo_write (bd_ops ?d) = Some demo_write"
    by (simp_all add: demo_ops_def)
  have r: "reads_blocks (device_exists ?d (8, 0)) 255 demo_read (8, 0) (blksz ?d) 2 snd"
    by (simp add: reads_blocks_def demo_read_def device_exists_def demo_ops_def)
  have w: "writes_blocks (device_exists ?d (8, 0)) 255 demo_write (8, 0) (blksz ?d) 2 snd"
    by (simp add: writes_blocks_def demo_write_def device_exists_def demo_ops_def)
  have "bytes (patch (\<lambda>_. 0) 1 [5, 6]) 0 4 = [0, 5, 6, 0 :: u8]" by code_simp
  then show ?thesis
    using block_io_correct [OF d ops r w, of 1 "[5, 6]" 0 4] by (auto simp: demo_blk_def)
qed

text \<open>
  A registered device cannot be removed: its entry is cleared before \<open>block_detach\<close> looks the device up,
  so that fails and the entry is put back.
\<close>

lemma unregister_block_device_fails:
  assumes "m < 256" "vfs_dev s m = Some d" "bd_refs d = 0"
  shows "unregister_block_device m s = (- 1, s)"
proof -
  have "(vfs_dev s)(m \<mapsto> d) = vfs_dev s" using assms(2) by (auto simp: fun_eq_iff)
  then show ?thesis using assms by (simp add: unregister_block_device_def block_detach_def get_block_device_def Let_def)
qed

end
