(* ===== verification/Ext2.thy ===== *)
theory Ext2
  imports Block VfsFile
begin

text \<open>
  The ext2 file system driver, kernel/src/ext2fs with kernel/include/ext2fs/ext2.h: the superblock and
  the group descriptors, allocation of blocks and inodes from the bitmaps, the block map of an inode,
  reading, writing and resizing of files, and directories.

  The state has the bytes of the device, the superblock and the group table in memory, and the inodes
  in memory by number, with their references. A transfer on the device succeeds exactly when it lies
  inside the device; for those the results are the ones of \<open>block_read\<close> and \<open>block_write\<close> over a
  driver that keeps its promise, and the errors of a device that is absent or defective are left out. The
  structures in memory keep all their bytes, so that writing them back gives the fields the driver
  does not use. \<open>mem\<close> lists the answers of the next allocations, success when it is empty, and
  \<open>fresh\<close> is the contents of memory that nobody has written. \<open>None\<close> is an operation that does not
  return (a lock that is held, a loop without end) or one that leaves the bounds of an array.

  The lock of the superblock is taken and released within one function and is not part of the state;
  the lock of an inode is.
\<close>

section \<open>Bytes of structures\<close>

definition byte :: "u8 list \<Rightarrow> nat \<Rightarrow> u8" where
  "byte bs i = (if i < length bs then bs ! i else 0)"

definition b16 :: "u8 list \<Rightarrow> nat \<Rightarrow> u16" where
  "b16 bs i = ucast (byte bs i) OR push_bit 8 (ucast (byte bs (i + 1)))"

definition b32 :: "u8 list \<Rightarrow> nat \<Rightarrow> u32" where
  "b32 bs i = ucast (byte bs i) OR push_bit 8 (ucast (byte bs (i + 1))) OR push_bit 16 (ucast (byte bs (i + 2)))
     OR push_bit 24 (ucast (byte bs (i + 3)))"

definition bytes16 :: "u16 \<Rightarrow> u8 list" where
  "bytes16 w = [ucast w, ucast (drop_bit 8 w)]"

definition bytes32 :: "u32 \<Rightarrow> u8 list" where
  "bytes32 w = [ucast w, ucast (drop_bit 8 w), ucast (drop_bit 16 w), ucast (drop_bit 24 w)]"

text \<open>Storing bytes into a buffer, which keeps its length.\<close>

definition put :: "nat \<Rightarrow> u8 list \<Rightarrow> u8 list \<Rightarrow> u8 list" where
  "put i cs bs = take (length bs) (take i bs @ cs @ drop (i + length cs) bs)"

definition words :: "u8 list \<Rightarrow> u32 list" where
  "words bs = map (\<lambda>i. b32 bs (4 * i)) [0..<length bs div 4]"

definition unwords :: "u32 list \<Rightarrow> u8 list" where
  "unwords ws = concat (map bytes32 ws)"

section \<open>Data\<close>

abbreviation (input) EXT2_SUPER_MAGIC :: u16 where "EXT2_SUPER_MAGIC \<equiv> 0xEF53"
abbreviation (input) EXT2_BAD_INO :: u32 where "EXT2_BAD_INO \<equiv> 1"
abbreviation (input) EXT2_ROOT_INO :: u32 where "EXT2_ROOT_INO \<equiv> 2"
abbreviation (input) sizeof_e2_superblock :: nat where "sizeof_e2_superblock \<equiv> 268"
abbreviation (input) sizeof_e2_bg_descr :: nat where "sizeof_e2_bg_descr \<equiv> 32"
abbreviation (input) sizeof_e2_inode :: nat where "sizeof_e2_inode \<equiv> 156"

record e2_superblock =
  s_inodes_count :: u32
  s_blocks_count :: u32
  s_free_blocks_count :: u32
  s_free_inodes_count :: u32
  s_log_block_size :: u32
  s_blocks_per_group :: u32
  s_inodes_per_group :: u32
  s_mtime :: u32
  s_wtime :: u32
  s_magic :: u16
  s_inode_size :: u16
  s_bytes :: "u8 list"

record e2_bg_descr =
  bg_block_bitmap :: u32
  bg_inode_bitmap :: u32
  bg_inode_table :: u32
  bg_free_blocks_count :: u16
  bg_free_inodes_count :: u16
  bg_bytes :: "u8 list"

record e2_inode =
  e_mode :: u16
  e_uid :: u16
  e_size :: u32
  e_atime :: u32
  e_ctime :: u32
  e_mtime :: u32
  e_dtime :: u32
  e_gid :: u16
  e_links_count :: u16
  e_blocks :: u32
  e_block :: "u32 list"
  e_bytes :: "u8 list"

definition get_super :: "u8 list \<Rightarrow> e2_superblock" where
  "get_super bs = \<lparr>s_inodes_count = b32 bs 0, s_blocks_count = b32 bs 4, s_free_blocks_count = b32 bs 12,
     s_free_inodes_count = b32 bs 16, s_log_block_size = b32 bs 24, s_blocks_per_group = b32 bs 32,
     s_inodes_per_group = b32 bs 40, s_mtime = b32 bs 44, s_wtime = b32 bs 48, s_magic = b16 bs 56,
     s_inode_size = b16 bs 88, s_bytes = bs\<rparr>"

text \<open>Only the two counts of the superblock are ever changed.\<close>

definition super_bytes :: "e2_superblock \<Rightarrow> u8 list" where
  "super_bytes x = put 16 (bytes32 (s_free_inodes_count x)) (put 12 (bytes32 (s_free_blocks_count x)) (s_bytes x))"

definition get_bg :: "u8 list \<Rightarrow> e2_bg_descr" where
  "get_bg bs = \<lparr>bg_block_bitmap = b32 bs 0, bg_inode_bitmap = b32 bs 4, bg_inode_table = b32 bs 8,
     bg_free_blocks_count = b16 bs 12, bg_free_inodes_count = b16 bs 14, bg_bytes = bs\<rparr>"

definition bg_to_bytes :: "e2_bg_descr \<Rightarrow> u8 list" where
  "bg_to_bytes x = put 14 (bytes16 (bg_free_inodes_count x)) (put 12 (bytes16 (bg_free_blocks_count x)) (bg_bytes x))"

definition get_inode :: "u8 list \<Rightarrow> e2_inode" where
  "get_inode bs = \<lparr>e_mode = b16 bs 0, e_uid = b16 bs 2, e_size = b32 bs 4, e_atime = b32 bs 8, e_ctime = b32 bs 12,
     e_mtime = b32 bs 16, e_dtime = b32 bs 20, e_gid = b16 bs 24, e_links_count = b16 bs 26, e_blocks = b32 bs 28,
     e_block = map (\<lambda>i. b32 bs (40 + 4 * i)) [0..<15], e_bytes = bs\<rparr>"

text \<open>The fields that the driver changes in an inode that is in memory.\<close>

definition inode_bytes :: "e2_inode \<Rightarrow> u8 list" where
  "inode_bytes x = put 40 (unwords (e_block x)) (put 28 (bytes32 (e_blocks x))
     (put 26 (bytes16 (e_links_count x)) (put 4 (bytes32 (e_size x)) (e_bytes x))))"

text \<open>The inode of the VFS, and the private data that it points to.\<close>

record vinode =
  v_mode :: u32
  v_uid :: u16
  v_size :: u32
  v_gid :: u16
  v_nlinks :: u16
  v_dev :: u32

record e2_inode_private =
  vnode :: vinode
  ind :: e2_inode
  rw_lock :: bool
  rw_buf :: "u8 list"
  bmap :: "u32 list"
  idirty :: bool

record superblock_info =
  sb_blocksize :: u32
  sb_inode_count :: u32
  sb_block_count :: u32
  sb_free_block_count :: u32
  sb_free_inode_count :: u32
  sb_root :: "u32 option"

record e2 =
  disk :: "nat \<Rightarrow> u8"
  disk_size :: nat
  mem :: "bool list"
  fresh :: "nat \<Rightarrow> u8"
  rtc :: u32
  sb :: superblock_info
  sup :: e2_superblock
  bgtable :: "e2_bg_descr list"
  sdirty :: bool
  icache :: "u32 \<Rightarrow> e2_inode_private option"
  irefs :: "u32 \<Rightarrow> nat"

definition nth_opt :: "'a list \<Rightarrow> nat \<Rightarrow> 'a option" where
  "nth_opt xs i = (if i < length xs then Some (xs ! i) else None)"

abbreviation bsz :: "e2 \<Rightarrow> nat" where
  "bsz s \<equiv> unat (sb_blocksize (sb s))"

definition e2_kmalloc :: "e2 \<Rightarrow> bool \<times> e2" where
  "e2_kmalloc s = (case mem s of [] \<Rightarrow> (True, s) | b # bs \<Rightarrow> (b, s\<lparr>mem := bs\<rparr>))"

definition fresh_bytes :: "nat \<Rightarrow> e2 \<Rightarrow> u8 list" where
  "fresh_bytes n s = bytes (fresh s) 0 n"

definition upd_priv :: "u32 \<Rightarrow> (e2_inode_private \<Rightarrow> e2_inode_private) \<Rightarrow> e2 \<Rightarrow> e2" where
  "upd_priv ino f s = s\<lparr>icache := (icache s)(ino := map_option f (icache s ino))\<rparr>"

definition upd_ind :: "u32 \<Rightarrow> (e2_inode \<Rightarrow> e2_inode) \<Rightarrow> e2 \<Rightarrow> e2" where
  "upd_ind ino f s = upd_priv ino (\<lambda>p. p\<lparr>ind := f (ind p)\<rparr>) s"

definition lock_inode :: "u32 \<Rightarrow> e2 \<Rightarrow> e2 option" where
  "lock_inode ino s =
    (case icache s ino of
       None \<Rightarrow> None
     | Some p \<Rightarrow> if rw_lock p then None else Some (upd_priv ino (\<lambda>p. p\<lparr>rw_lock := True\<rparr>) s))"

definition unlock_inode :: "u32 \<Rightarrow> e2 \<Rightarrow> e2" where
  "unlock_inode ino s = upd_priv ino (\<lambda>p. p\<lparr>rw_lock := False\<rparr>) s"

section \<open>Transfers of blocks\<close>

definition dev_read :: "u32 \<Rightarrow> nat \<Rightarrow> e2 \<Rightarrow> u8 list result" where
  "dev_read off n s = (if unat off + n \<le> disk_size s then Inr (bytes (disk s) (unat off) n) else Inl EIO)"

definition dev_write :: "u32 \<Rightarrow> u8 list \<Rightarrow> e2 \<Rightarrow> errno option \<times> e2" where
  "dev_write off buf s =
    (if unat off + length buf \<le> disk_size s then (None, s\<lparr>disk := patch (disk s) (unat off) buf\<rparr>)
     else (Some EIO, s))"

text \<open>No caller looks at the result: after a failed read the buffer has its old contents.\<close>

definition e2_read_block :: "u32 \<Rightarrow> u8 list \<Rightarrow> e2 \<Rightarrow> u8 list" where
  "e2_read_block blk old s =
    (case dev_read (blk * sb_blocksize (sb s)) (bsz s) s of Inr bs \<Rightarrow> bs | Inl _ \<Rightarrow> old)"

definition e2_write_block :: "u32 \<Rightarrow> u8 list \<Rightarrow> e2 \<Rightarrow> e2" where
  "e2_write_block blk buf s = snd (dev_write (blk * sb_blocksize (sb s)) buf s)"

section \<open>Blocks\<close>

definition EXT2_BGCOUNT :: "e2 \<Rightarrow> nat option" where
  "EXT2_BGCOUNT s =
    (if s_blocks_per_group (sup s) = 0 then None
     else Some (unat (s_blocks_count (sup s)) div unat (s_blocks_per_group (sup s))))"

definition bm_bit :: "u8 list \<Rightarrow> nat \<Rightarrow> bool" where
  "bm_bit bm b \<longleftrightarrow> b32 bm (4 * (b div 32)) AND push_bit (b mod 32) 1 \<noteq> 0"

definition bm_set :: "nat \<Rightarrow> u8 list \<Rightarrow> u8 list" where
  "bm_set b bm = put (4 * (b div 32)) (bytes32 (b32 bm (4 * (b div 32)) OR push_bit (b mod 32) 1)) bm"

definition bm_clear :: "nat \<Rightarrow> u8 list \<Rightarrow> u8 list" where
  "bm_clear b bm = put (4 * (b div 32)) (bytes32 (b32 bm (4 * (b div 32)) AND NOT (push_bit (b mod 32) 1))) bm"

definition upd_bg :: "nat \<Rightarrow> (e2_bg_descr \<Rightarrow> e2_bg_descr) \<Rightarrow> e2 \<Rightarrow> e2" where
  "upd_bg g f s = s\<lparr>bgtable := (bgtable s)[g := f (bgtable s ! g)]\<rparr>"

definition take_block :: "nat \<Rightarrow> nat \<Rightarrow> e2_bg_descr \<Rightarrow> u8 list \<Rightarrow> e2 \<Rightarrow> u32 \<times> e2" where
  "take_block g b d bm s =
    (let s1 = e2_write_block (bg_block_bitmap d) (bm_set b bm) s;
         s2 = upd_bg g (\<lambda>x. x\<lparr>bg_free_blocks_count := bg_free_blocks_count x - 1\<rparr>) s1
     in (word_of_nat b + word_of_nat g * s_blocks_per_group (sup s),
         s2\<lparr>sup := (sup s2)\<lparr>s_free_blocks_count := s_free_blocks_count (sup s2) - 1\<rparr>, sdirty := True\<rparr>))"

fun alloc_in_groups :: "nat list \<Rightarrow> u8 list \<Rightarrow> e2 \<Rightarrow> (u32 \<times> e2) option" where
  "alloc_in_groups [] bm s = Some (0, s)"
| "alloc_in_groups (g # gs) bm s = do {
    d \<leftarrow> nth_opt (bgtable s) g;
    if bg_free_blocks_count d = 0 then alloc_in_groups gs bm s
    else
      let bm1 = e2_read_block (bg_block_bitmap d) bm s in
      case find (\<lambda>b. \<not> bm_bit bm1 b) [0..<unat (s_blocks_per_group (sup s))] of
        Some b \<Rightarrow> Some (take_block g b d bm1 s)
      | None \<Rightarrow> alloc_in_groups gs bm1 s
  }"

definition e2_alloc_block :: "e2 \<Rightarrow> (u32 \<times> e2) option" where
  "e2_alloc_block s =
    (if s_free_blocks_count (sup s) = 0 then Some (0, s)
     else
       let (got, s1) = e2_kmalloc s in
       if \<not> got then Some (- 12, s1)
       else do {
         n \<leftarrow> EXT2_BGCOUNT s1;
         alloc_in_groups [0..<n] (fresh_bytes (bsz s1) s1) s1
       })"

definition e2_free_block :: "u32 \<Rightarrow> e2 \<Rightarrow> (errno option \<times> e2) option" where
  "e2_free_block blk s =
    (let (got, s1) = e2_kmalloc s in
     if \<not> got then Some (Some ENOMEM, s1)
     else if s_blocks_per_group (sup s1) = 0 then None
     else do {
       let bg = unat blk div unat (s_blocks_per_group (sup s1));
       let loc = unat blk mod unat (s_blocks_per_group (sup s1));
       d \<leftarrow> nth_opt (bgtable s1) bg;
       let bm = e2_read_block (bg_block_bitmap d) (fresh_bytes (bsz s1) s1) s1;
       let s2 = e2_write_block (bg_block_bitmap d) (bm_clear loc bm) s1;
       let s3 = s2\<lparr>sup := (sup s2)\<lparr>s_free_blocks_count := s_free_blocks_count (sup s2) + 1\<rparr>, sdirty := True\<rparr>;
       Some (None, upd_bg bg (\<lambda>x. x\<lparr>bg_free_blocks_count := bg_free_blocks_count x + 1\<rparr>) s3)
     })"

section \<open>The superblock\<close>

definition bg_loc :: "e2 \<Rightarrow> u32" where
  "bg_loc s = (if sb_blocksize (sb s) = 1024 then 2 else 1)"

definition e2_super_flush :: "e2 \<Rightarrow> e2" where
  "e2_super_flush s =
    (if \<not> sdirty s then s
     else
       let s1 = snd (dev_write 1024 (super_bytes (sup s)) (s\<lparr>sdirty := False\<rparr>))
       in snd (dev_write (bg_loc s1 * sb_blocksize (sb s1)) (concat (map bg_to_bytes (bgtable s1))) s1))"

section \<open>The block map of an inode\<close>

definition nblocks :: "e2_inode \<Rightarrow> e2 \<Rightarrow> nat" where
  "nblocks i s = unat (e_blocks i * 512) div bsz s"

definition block_at :: "e2_inode \<Rightarrow> nat \<Rightarrow> u32" where
  "block_at i k = (if k < length (e_block i) then e_block i ! k else 0)"

text \<open>
  The loops over indirect blocks: \<open>n\<close> entries are still missing, and \<open>ib\<close> is the buffer for the
  blocks of the lowest level.
\<close>

fun map_indirect :: "u32 list \<Rightarrow> nat \<Rightarrow> u8 list \<Rightarrow> e2 \<Rightarrow> u32 list \<times> u8 list" where
  "map_indirect [] n ib s = ([], ib)"
| "map_indirect (d # ds) n ib s =
    (if n = 0 then ([], ib)
     else
       let ib1 = e2_read_block d ib s; ws = take n (words ib1);
           (rest, ib2) = map_indirect ds (n - length ws) ib1 s
       in (ws @ rest, ib2))"

text \<open>The triply indirect level reads the entries of \<open>buffer\<close>, its own block, instead of those of \<open>doubly\<close>.\<close>

fun map_triply :: "u32 list \<Rightarrow> u32 list \<Rightarrow> nat \<Rightarrow> u8 list \<Rightarrow> e2 \<Rightarrow> u32 list" where
  "map_triply buffer [] n ib s = []"
| "map_triply buffer (t # ts) n ib s =
    (if n = 0 then []
     else
       let (ws, ib1) = map_indirect buffer n ib s
       in ws @ map_triply buffer ts (n - length ws) ib1 s)"

text \<open>
  The entries that are stored in \<open>map\<close>, which \<open>mapped\<close> tells to be other than NULL. For a file without
  blocks the first entry is stored as well; when the array has been allocated for no entries at all, it
  is stored behind its end, and what that does to the heap is not part of the state.
\<close>

definition e2_inode_read_block_map :: "bool \<Rightarrow> u32 \<Rightarrow> e2 \<Rightarrow> ((errno option \<times> u32 list) \<times> e2) option" where
  "e2_inode_read_block_map mapped ino s = do {
    p \<leftarrow> icache s ino;
    let i = ind p;
    let n = nblocks i s;
    let m1 = map (block_at i) [0..<min 12 n];
    if n = 0 then Some ((None, if mapped then [0] else []), s)
    else if n \<le> 12 then Some ((None, m1), s)
    else do {
      s1 \<leftarrow> lock_inode ino s;
      let buf = e2_read_block (block_at i 12) (rw_buf p) s1;
      let m2 = m1 @ take (n - 12) (words buf);
      if length m2 = n then Some ((None, m2), unlock_inode ino (upd_priv ino (\<lambda>p. p\<lparr>rw_buf := buf\<rparr>) s1))
      else
        let (got, s2) = e2_kmalloc s1 in
        if \<not> got then Some ((Some ENOMEM, m2), unlock_inode ino (upd_priv ino (\<lambda>p. p\<lparr>rw_buf := buf\<rparr>) s2))
        else
          let buf2 = e2_read_block (block_at i 13) buf s2;
              (ws, ib) = map_indirect (words buf2) (n - length m2) (fresh_bytes (bsz s2) s2) s2;
              m3 = m2 @ ws
          in if length m3 = n then Some ((None, m3), unlock_inode ino (upd_priv ino (\<lambda>p. p\<lparr>rw_buf := buf2\<rparr>) s2))
             else
               let (got, s3) = e2_kmalloc s2;
                   buf3 = e2_read_block (block_at i 14) buf2 s3;
                   m4 = m3 @ map_triply (words buf3) (words buf3) (n - length m3) ib s3
               in if \<not> got then None
                  else Some ((None, m4), unlock_inode ino (upd_priv ino (\<lambda>p. p\<lparr>rw_buf := buf3\<rparr>) s3))
    }
  }"

text \<open>
  Writing the map stores whole blocks of entries; past the end of the map they are what follows in memory.
\<close>

definition map_entry :: "u32 list \<Rightarrow> e2 \<Rightarrow> nat \<Rightarrow> u32" where
  "map_entry m s k = (if k < length m then m ! k else b32 (fresh_bytes (4 * k + 4) s) (4 * k))"

definition map_chunk :: "u32 list \<Rightarrow> nat \<Rightarrow> e2 \<Rightarrow> u8 list" where
  "map_chunk m idx s = unwords (map (map_entry m s) [idx..<idx + bsz s div 4])"

definition alloc_if_zero :: "u32 \<Rightarrow> e2 \<Rightarrow> (u32 \<times> e2) option" where
  "alloc_if_zero b s = (if b = 0 then e2_alloc_block s else Some (b, s))"

text \<open>
  One pass over the entries \<open>ds\<close> of an indirect block: missing blocks are allocated and filled.
  The result has the entries, the next index, and whether an allocation failed.
\<close>

fun write_indirect :: "u32 list \<Rightarrow> nat \<Rightarrow> u32 list \<Rightarrow> nat \<Rightarrow> e2 \<Rightarrow> ((u32 list \<times> nat \<times> bool) \<times> e2) option" where
  "write_indirect m n [] idx s = Some (([], idx, False), s)"
| "write_indirect m n (d # ds) idx s =
    (if n \<le> idx then Some ((d # ds, idx, False), s)
     else do {
       (b, s1) \<leftarrow> alloc_if_zero d s;
       if b = 0 then Some ((b # ds, idx, True), s1)
       else do {
         ((ds', idx', full), s2) \<leftarrow> write_indirect m n ds (idx + bsz s1 div 4) (e2_write_block b (map_chunk m idx s1) s1);
         Some ((b # ds', idx', full), s2)
       }
     })"

text \<open>
  The loop over the triply indirect block. The inner loop again works on \<open>buffer\<close>, and \<open>doubly\<close> is
  written back as it was read.
\<close>

fun write_triply :: "u32 list \<Rightarrow> nat \<Rightarrow> nat list \<Rightarrow> u32 list \<Rightarrow> u8 list \<Rightarrow> nat \<Rightarrow> e2 \<Rightarrow> ((u32 list \<times> bool) \<times> e2) option" where
  "write_triply m n [] buffer dbl idx s = Some ((buffer, False), s)"
| "write_triply m n (t # ts) buffer dbl idx s =
    (if n \<le> idx then Some ((buffer, False), s)
     else do {
       (b, s1) \<leftarrow> alloc_if_zero (buffer ! t) s;
       if b = 0 then Some ((buffer[t := b], True), s1)
       else do {
         let dbl1 = (if buffer ! t = 0 then replicate (bsz s1) 0 else e2_read_block b dbl s1);
         ((buffer', idx', full), s2) \<leftarrow> write_indirect m n (buffer[t := b]) idx s1;
         if full then Some ((buffer', True), s2)
         else write_triply m n ts buffer' dbl1 idx' (e2_write_block (buffer' ! t) dbl1 s2)
       }
     })"

definition set_block :: "u32 \<Rightarrow> nat \<Rightarrow> u32 \<Rightarrow> e2 \<Rightarrow> e2" where
  "set_block ino k b s = upd_ind ino (\<lambda>i. i\<lparr>e_block := (e_block i)[k := b]\<rparr>) s"

definition set_rw :: "u32 \<Rightarrow> u8 list \<Rightarrow> e2 \<Rightarrow> e2" where
  "set_rw ino buf s = upd_priv ino (\<lambda>p. p\<lparr>rw_buf := buf\<rparr>) s"

text \<open>The block that holds a level of the map, and its contents in the buffer of the inode.\<close>

definition level_block :: "u32 \<Rightarrow> nat \<Rightarrow> e2 \<Rightarrow> (u32 \<times> u8 list \<times> e2) option" where
  "level_block ino k s = do {
    p \<leftarrow> icache s ino;
    if block_at (ind p) k = 0 then do {
      (b, s1) \<leftarrow> e2_alloc_block s;
      Some (b, if b = 0 then rw_buf p else replicate (bsz s1) 0, set_block ino k b s1)
    } else Some (block_at (ind p) k, e2_read_block (block_at (ind p) k) (rw_buf p) s, s)
  }"

definition write_map_triply :: "u32 \<Rightarrow> u32 list \<Rightarrow> nat \<Rightarrow> nat \<Rightarrow> e2 \<Rightarrow> (errno option \<times> e2) option" where
  "write_map_triply ino m n idx s = do {
    let (got, s1) = e2_kmalloc s;
    (b, buf, s2) \<leftarrow> level_block ino 14 s1;
    if b = 0 then Some (Some ENOSPC, unlock_inode ino s2)
    else if \<not> got \<and> idx < n then None
    else do {
      ((ws, full), s3) \<leftarrow> write_triply m n [0..<length (words buf)] (words buf) (fresh_bytes (bsz s2) s2) idx s2;
      let s4 = set_rw ino (unwords ws) s3;
      if full then Some (Some ENOSPC, unlock_inode ino s4)
      else Some (None, unlock_inode ino (e2_write_block b (unwords ws) s4))
    }
  }"

definition write_map_doubly :: "u32 \<Rightarrow> u32 list \<Rightarrow> nat \<Rightarrow> nat \<Rightarrow> e2 \<Rightarrow> (errno option \<times> e2) option" where
  "write_map_doubly ino m n idx s = do {
    let (got, s1) = e2_kmalloc s;
    if \<not> got then Some (Some ENOMEM, unlock_inode ino s1)
    else do {
      (b, buf, s2) \<leftarrow> level_block ino 13 s1;
      if b = 0 then Some (Some ENOSPC, unlock_inode ino s2)
      else do {
        ((ws, idx', full), s3) \<leftarrow> write_indirect m n (words buf) idx s2;
        let s4 = set_rw ino (unwords ws) s3;
        if full then Some (Some ENOSPC, unlock_inode ino s4)
        else
          let s5 = e2_write_block b (unwords ws) s4 in
          if idx' = n then Some (None, unlock_inode ino s5) else write_map_triply ino m n idx' s5
      }
    }
  }"

definition e2_inode_write_block_map :: "u32 \<Rightarrow> e2 \<Rightarrow> (errno option \<times> e2) option" where
  "e2_inode_write_block_map ino s = do {
    p \<leftarrow> icache s ino;
    let n = nblocks (ind p) s;
    let md = ucast (e_mode (ind p));
    if S_ISBLK md \<or> S_ISCHR md \<or> S_ISFIFO md then Some (None, s)
    else if n = 0 then Some (None, upd_ind ino (\<lambda>i. i\<lparr>e_block := replicate 15 0\<rparr>) s)
    else do {
      let m = bmap p;
      let s1 = upd_priv ino (\<lambda>p. p\<lparr>idirty := True,
                 ind := (ind p)\<lparr>e_block := map (map_entry m s) [0..<min 12 n] @ drop (min 12 n) (e_block (ind p))\<rparr>\<rparr>) s;
      if n \<le> 12 then Some (None, upd_ind ino (\<lambda>i. i\<lparr>e_block := take 12 (e_block i) @ [0, 0, 0]\<rparr>) s1)
      else do {
        s2 \<leftarrow> lock_inode ino s1;
        (b, s3) \<leftarrow> alloc_if_zero (block_at (ind p) 12) s2;
        let s4 = e2_write_block b (map_chunk m 12 s3) (set_block ino 12 b s3);
        let idx = 12 + bsz s4 div 4;
        if n \<le> idx then Some (None, unlock_inode ino s4)
        else write_map_doubly ino m n idx s4
      }
    }
  }"

section \<open>Writing an inode back\<close>

definition inode_location :: "u32 \<Rightarrow> e2 \<Rightarrow> u32 option" where
  "inode_location ino s =
    (if s_inodes_per_group (sup s) = 0 then None
     else do {
       d \<leftarrow> nth_opt (bgtable s) (unat (ino - 1) div unat (s_inodes_per_group (sup s)));
       Some (bg_inode_table d * sb_blocksize (sb s)
         + word_of_nat (unat (ino - 1) mod unat (s_inodes_per_group (sup s))) * ucast (s_inode_size (sup s)))
     })"

definition e2_inode_flush :: "u32 \<Rightarrow> e2 \<Rightarrow> (errno option \<times> e2) option" where
  "e2_inode_flush ino s = do {
    p \<leftarrow> icache s ino;
    if \<not> idirty p then Some (None, s)
    else do {
      (_, s1) \<leftarrow> e2_inode_write_block_map ino s;
      let s2 = upd_priv ino (\<lambda>p. p\<lparr>idirty := False\<rparr>) (e2_super_flush s1);
      loc \<leftarrow> inode_location ino s2;
      p2 \<leftarrow> icache s2 ino;
      Some (dev_write loc (inode_bytes (ind p2)) s2)
    }
  }"

section \<open>Resizing\<close>

fun free_blocks :: "u32 list \<Rightarrow> e2 \<Rightarrow> e2 option" where
  "free_blocks [] s = Some s"
| "free_blocks (b # bs) s = do {
    (_, s1) \<leftarrow> e2_free_block b s;
    free_blocks bs s1
  }"

text \<open>The loop that adds blocks; the result tells whether the device ran full.\<close>

fun grow_blocks :: "u32 \<Rightarrow> nat \<Rightarrow> e2 \<Rightarrow> (bool \<times> e2) option" where
  "grow_blocks ino 0 s = Some (False, s)"
| "grow_blocks ino (Suc k) s = do {
    (b, s1) \<leftarrow> e2_alloc_block s;
    let s2 = upd_priv ino (\<lambda>p. p\<lparr>bmap := bmap p @ [b]\<rparr>) s1;
    if b = 0 then Some (True, s2)
    else grow_blocks ino k (upd_ind ino (\<lambda>i. i\<lparr>e_blocks := e_blocks i + sb_blocksize (sb s2) div 512,
           e_size := e_size i + sb_blocksize (sb s2)\<rparr>) s2)
  }"

definition flush_as :: "u32 result \<Rightarrow> u32 \<Rightarrow> e2 \<Rightarrow> (u32 result \<times> e2) option" where
  "flush_as r ino s = do {
    (_, s1) \<leftarrow> e2_inode_flush ino s;
    Some (r, s1)
  }"

definition shrink_inode :: "u32 \<Rightarrow> u32 \<Rightarrow> e2_inode_private \<Rightarrow> e2 \<Rightarrow> (u32 result \<times> e2) option" where
  "shrink_inode ino newsize p s =
    (let n = nblocks (ind p) s; k = unat newsize div bsz s + (if unat newsize mod bsz s \<noteq> 0 then 1 else 0) in
     if k = n then
       flush_as (Inr newsize) ino (upd_priv ino (\<lambda>p. p\<lparr>idirty := True, ind := (ind p)\<lparr>e_size := newsize\<rparr>\<rparr>) s)
     else
       let (got, s1) = e2_kmalloc s in
       if \<not> got then Some (Inl ENOMEM, s1)
       else do {
         s2 \<leftarrow> free_blocks (map (map_entry (bmap p) s1) [k..<n]) s1;
         flush_as (Inr 0) ino (upd_priv ino (\<lambda>p. p\<lparr>bmap := take k (bmap p) @ replicate (15 - k) 0, idirty := True,
           ind := (ind p)\<lparr>e_size := newsize, e_blocks := word_of_nat k * sb_blocksize (sb s2) div 512\<rparr>\<rparr>) s2)
       })"

definition grow_inode :: "u32 \<Rightarrow> u32 \<Rightarrow> e2_inode_private \<Rightarrow> e2 \<Rightarrow> (u32 result \<times> e2) option" where
  "grow_inode ino newsize p s =
    (let d = newsize - e_size (ind p);
         extra = unat d div bsz s + (if unat d mod bsz s \<noteq> 0 then 1 else 0);
         (got, s1) = e2_kmalloc s
     in if \<not> got then Some (Inl ENOMEM, s1)
        else do {
          (full, s2) \<leftarrow> grow_blocks ino extra (upd_priv ino (\<lambda>p. p\<lparr>bmap := take (nblocks (ind p) s1) (bmap p), idirty := True\<rparr>) s1);
          if full then do {
            (_, s3) \<leftarrow> e2_inode_flush ino s2;
            p3 \<leftarrow> icache s3 ino;
            Some (Inr (e_size (ind p3)), s3)
          } else flush_as (Inr 0) ino (upd_ind ino (\<lambda>i. i\<lparr>e_size := newsize\<rparr>) s2)
        })"

definition e2_inode_resize :: "u32 \<Rightarrow> u32 \<Rightarrow> e2 \<Rightarrow> (u32 result \<times> e2) option" where
  "e2_inode_resize ino newsize s = do {
    p \<leftarrow> icache s ino;
    if newsize = e_size (ind p) then Some (Inr newsize, s)
    else if newsize < e_size (ind p) then shrink_inode ino newsize p s
    else if e_size (ind p) div sb_blocksize (sb s) = newsize div sb_blocksize (sb s) \<and> e_size (ind p) \<noteq> 0 then
      flush_as (Inr newsize) ino (upd_priv ino (\<lambda>p. p\<lparr>idirty := True, ind := (ind p)\<lparr>e_size := newsize\<rparr>\<rparr>) s)
    else grow_inode ino newsize p s
  }"

definition e2_inode_truncate :: "u32 \<Rightarrow> e2 \<Rightarrow> e2 option" where
  "e2_inode_truncate ino s = do {
    (_, s1) \<leftarrow> e2_inode_resize ino 0 s;
    (_, s2) \<leftarrow> e2_inode_flush ino (upd_priv ino (\<lambda>p. p\<lparr>idirty := True\<rparr>) s1);
    Some s2
  }"

section \<open>Reading and writing\<close>

datatype e2_cmd = EXT2_READ | EXT2_WRITE

text \<open>A piece of a block goes through the buffer of the inode, a whole block does not.\<close>

definition io_part :: "e2_cmd \<Rightarrow> u32 \<Rightarrow> nat \<Rightarrow> nat \<Rightarrow> u8 list \<Rightarrow> e2 \<Rightarrow> (u8 list \<times> e2) option" where
  "io_part cmd ino k at buf s = do {
    p \<leftarrow> icache s ino;
    b \<leftarrow> nth_opt (bmap p) k;
    let rw = e2_read_block b (rw_buf p) s;
    case cmd of
      EXT2_READ \<Rightarrow> Some (take (length buf) (drop at rw), set_rw ino rw s)
    | EXT2_WRITE \<Rightarrow>
        let rw1 = put at buf rw in Some (buf, e2_write_block b rw1 (set_rw ino rw1 s))
  }"

fun io_blocks :: "e2_cmd \<Rightarrow> u32 \<Rightarrow> nat \<Rightarrow> nat \<Rightarrow> u8 list \<Rightarrow> e2 \<Rightarrow> (u8 list \<times> e2) option" where
  "io_blocks cmd ino k 0 buf s = Some ([], s)"
| "io_blocks cmd ino k (Suc n) buf s = do {
    p \<leftarrow> icache s ino;
    b \<leftarrow> nth_opt (bmap p) k;
    let chunk = take (bsz s) buf;
    let (out, s1) = (case cmd of
        EXT2_READ \<Rightarrow> (e2_read_block b chunk s, s)
      | EXT2_WRITE \<Rightarrow> (chunk, e2_write_block b chunk s));
    (rest, s2) \<leftarrow> io_blocks cmd ino (k + 1) n (drop (bsz s) buf) s1;
    Some (out @ rest, s2)
  }"

text \<open>From a block boundary on: the whole blocks, then the piece of the last block.\<close>

definition io_rest :: "e2_cmd \<Rightarrow> u32 \<Rightarrow> nat \<Rightarrow> u8 list \<Rightarrow> e2 \<Rightarrow> (u8 list \<times> e2) option" where
  "io_rest cmd ino k buf s = do {
    let n = length buf div bsz s;
    (out, s1) \<leftarrow> io_blocks cmd ino k n (take (n * bsz s) buf) s;
    let tl = drop (n * bsz s) buf;
    if tl \<noteq> [] then do {
      (out2, s2) \<leftarrow> io_part cmd ino (k + n) 0 tl s1;
      Some (out @ out2, s2)
    } else Some (out, s1)
  }"

definition io_transfer :: "e2_cmd \<Rightarrow> u32 \<Rightarrow> nat \<Rightarrow> u8 list \<Rightarrow> e2 \<Rightarrow> (u8 list \<times> e2) option" where
  "io_transfer cmd ino off buf s =
    (let r = off mod bsz s; k = off div bsz s in
     if r \<noteq> 0 then
       if length buf \<le> bsz s - r then io_part cmd ino k r buf s
       else do {
         (out, s1) \<leftarrow> io_part cmd ino k r (take (bsz s - r) buf) s;
         (rest, s2) \<leftarrow> io_rest cmd ino (k + 1) (drop (bsz s - r) buf) s1;
         Some (out @ rest, s2)
       }
     else io_rest cmd ino k buf s)"

text \<open>
  The result of a read is the bytes stored at the start of the caller's buffer \<open>buf\<close>; the number of
  bytes is their number.
\<close>

definition e2_inode_io :: "u32 \<Rightarrow> e2_cmd \<Rightarrow> u32 \<Rightarrow> u8 list \<Rightarrow> e2 \<Rightarrow> (u8 list \<times> e2) option" where
  "e2_inode_io ino cmd off buf s = do {
    p \<leftarrow> icache s ino;
    case cmd of
      EXT2_READ \<Rightarrow>
        if e_size (ind p) \<le> off then Some ([], s)
        else io_transfer cmd ino (unat off)
          (if e_size (ind p) < off + word_of_nat (length buf) then take (unat (e_size (ind p) - off)) buf else buf) s
    | EXT2_WRITE \<Rightarrow>
        if e_size (ind p) < off + word_of_nat (length buf) then do {
          (_, s1) \<leftarrow> e2_inode_resize ino (off + word_of_nat (length buf)) s;
          io_transfer cmd ino (unat off) buf s1
        } else io_transfer cmd ino (unat off) buf s
  }"

section \<open>Inodes\<close>

definition new_private :: "e2_inode \<Rightarrow> e2 \<Rightarrow> e2_inode_private" where
  "new_private i s =
    \<lparr>vnode = \<lparr>v_mode = ucast (e_mode i), v_uid = e_uid i, v_size = e_size i, v_gid = e_gid i,
       v_nlinks = e_links_count i,
       v_dev = (if S_ISBLK (ucast (e_mode i)) \<or> S_ISCHR (ucast (e_mode i)) then block_at i 0 else 0)\<rparr>,
     ind = i, rw_lock = False, rw_buf = fresh_bytes (bsz s) s, bmap = [], idirty = False\<rparr>"

text \<open>An array of \<open>n\<close> bytes whose first entries have been stored; the others are what memory held.\<close>

definition block_array :: "u32 list \<Rightarrow> nat \<Rightarrow> e2 \<Rightarrow> u32 list" where
  "block_array m n s = m @ drop (length m) (words (fresh_bytes n s))"

definition e2_read_inode :: "u32 \<Rightarrow> e2 \<Rightarrow> (errno option \<times> e2) option" where
  "e2_read_inode ino s =
    (if ino = 0 \<or> ino = EXT2_BAD_INO \<or> sb_inode_count (sb s) < ino then Some (Some ENOENT, s)
     else
       let (got, s1) = e2_kmalloc s in
       if \<not> got then Some (Some ENOMEM, s1)
       else
         let (got, s2) = e2_kmalloc s1 in
         if \<not> got then Some (Some ENOMEM, s2)
         else do {
           loc \<leftarrow> inode_location ino s2;
           case dev_read loc (unat (s_inode_size (sup s2))) s2 of
             Inl e \<Rightarrow> Some (Some e, s2)
           | Inr bs \<Rightarrow>
               let i = get_inode bs; (got, s3) = e2_kmalloc s2 in
               if \<not> got \<and> e_blocks i \<noteq> 0 then Some (Some ENOMEM, s3)
               else do {
                 ((_, m), s4) \<leftarrow> e2_inode_read_block_map got ino (s3\<lparr>icache := (icache s3)(ino \<mapsto> new_private i s3)\<rparr>);
                 Some (None, upd_priv ino (\<lambda>p. p\<lparr>bmap := block_array m (unat (4 * e_blocks i)) s4\<rparr>) s4)
               }
         })"

definition ceil8 :: "nat \<Rightarrow> nat" where
  "ceil8 n = n div 8 + (if n mod 8 \<noteq> 0 then 1 else 0)"

text \<open>The first zero bit of the bitmap, byte by byte.\<close>

definition free_bit :: "u8 list \<Rightarrow> nat \<Rightarrow> (nat \<times> nat) option" where
  "free_bit bm n =
    (case find (\<lambda>k. byte bm k \<noteq> 0xFF) [0..<n] of
       None \<Rightarrow> None
     | Some k \<Rightarrow> (case find (\<lambda>j. byte bm k AND push_bit j 1 = 0) [0..<8] of
           None \<Rightarrow> None
         | Some j \<Rightarrow> Some (k, j)))"

definition new_inode_bytes :: "u8 list \<Rightarrow> u32 \<Rightarrow> u8 list" where
  "new_inode_bytes bs now = put 128 (bytes16 28) (put 144 (bytes32 now) (put 16 (bytes32 now)
     (put 12 (bytes32 now) (put 8 (bytes32 now) bs))))"

text \<open>The number of the new inode, \<open>EXT2_BAD_INO\<close> when there is none. \<open>bs\<close> is the inode to store.\<close>

definition e2_alloc_inode :: "u8 list \<Rightarrow> e2 \<Rightarrow> (u32 \<times> e2) option" where
  "e2_alloc_inode bs s =
    (if s_free_inodes_count (sup s) = 0 then Some (EXT2_BAD_INO, s)
     else do {
       n \<leftarrow> EXT2_BGCOUNT s;
       case find (\<lambda>g. bg_free_inodes_count (bgtable s ! g) \<noteq> 0) [0..<n] of
         None \<Rightarrow> Some (EXT2_BAD_INO, s)
       | Some g \<Rightarrow>
           let (got, s1) = e2_kmalloc s in
           if \<not> got then Some (EXT2_BAD_INO, s1)
           else
             let d = bgtable s1 ! g; ipg = s_inodes_per_group (sup s1);
                 bm = e2_read_block (bg_inode_bitmap d) (fresh_bytes (bsz s1) s1) s1
             in case free_bit bm (ceil8 (unat ipg)) of
               None \<Rightarrow> Some (EXT2_BAD_INO, s1)
             | Some (k, j) \<Rightarrow>
                 let s2 = e2_write_block (bg_inode_bitmap d) (put k [byte bm k OR push_bit j 1] bm) s1;
                     s3 = upd_bg g (\<lambda>x. x\<lparr>bg_free_inodes_count := bg_free_inodes_count x - 1\<rparr>) s2;
                     s4 = s3\<lparr>sup := (sup s3)\<lparr>s_free_inodes_count := s_free_inodes_count (sup s3) - 1\<rparr>, sdirty := True\<rparr>;
                     s5 = snd (dev_write (bg_inode_table d * sb_blocksize (sb s4)
                            + ucast (s_inode_size (sup s4)) * word_of_nat (k * 8 + j)) (new_inode_bytes bs (rtc s4)) s4)
                 in Some (word_of_nat g * ipg + word_of_nat (k * 8 + j) + 1, e2_super_flush s5)
     })"

definition e2_free_inode :: "u32 \<Rightarrow> e2 \<Rightarrow> (errno option \<times> e2) option" where
  "e2_free_inode ino s =
    (let (got, s1) = e2_kmalloc s in
     if s_inodes_per_group (sup s) = 0 then None
     else if \<not> got then Some (Some ENOMEM, s1)
     else do {
       (r, s2) \<leftarrow> e2_inode_resize ino 0 s1;
       case r of Inl e \<Rightarrow> Some (Some e, s2)
       | Inr _ \<Rightarrow> do {
           let ipg = unat (s_inodes_per_group (sup s2));
           let g = unat (ino - 1) div ipg;
           let loc = unat (ino - 1) mod ipg;
           d \<leftarrow> nth_opt (bgtable s2) g;
           let bm = (case dev_read (bg_inode_bitmap d * sb_blocksize (sb s2)) (ipg div 8) s2 of
                       Inr bs \<Rightarrow> bs | Inl _ \<Rightarrow> fresh_bytes (ipg div 8) s2);
           let s3 = snd (dev_write (bg_inode_bitmap d * sb_blocksize (sb s2)) (bm_clear loc bm) s2);
           let s4 = upd_bg g (\<lambda>x. x\<lparr>bg_free_inodes_count := bg_free_inodes_count x + 1\<rparr>) s3;
           Some (None, e2_super_flush
             (s4\<lparr>sup := (sup s4)\<lparr>s_free_inodes_count := s_free_inodes_count (sup s4) + 1\<rparr>, sdirty := True\<rparr>))
         }
     })"

definition e2_put_inode :: "u32 \<Rightarrow> e2 \<Rightarrow> e2 option" where
  "e2_put_inode ino s = do {
    p \<leftarrow> icache s ino;
    (_, s1) \<leftarrow> (if e_links_count (ind p) = 0 then e2_free_inode ino s else e2_inode_flush ino s);
    Some (s1\<lparr>icache := (icache s1)(ino := None)\<rparr>)
  }"

text \<open>References to inodes, as \<open>i_get\<close> and \<open>i_put\<close> of the VFS count them.\<close>

definition e2_iget :: "u32 \<Rightarrow> e2 \<Rightarrow> (errno option \<times> e2) option" where
  "e2_iget ino s =
    (case icache s ino of
       Some _ \<Rightarrow> Some (None, s\<lparr>irefs := (irefs s)(ino := irefs s ino + 1)\<rparr>)
     | None \<Rightarrow> do {
         (e, s1) \<leftarrow> e2_read_inode ino s;
         case e of
           Some e \<Rightarrow> Some (Some e, s1)
         | None \<Rightarrow> Some (None, s1\<lparr>irefs := (irefs s1)(ino := 1)\<rparr>)
       })"

definition e2_iput :: "u32 \<Rightarrow> e2 \<Rightarrow> e2 option" where
  "e2_iput ino s =
    (if irefs s ino = 1 then e2_put_inode ino (s\<lparr>irefs := (irefs s)(ino := 0)\<rparr>)
     else Some (s\<lparr>irefs := (irefs s)(ino := irefs s ino - 1)\<rparr>))"

section \<open>Mounting\<close>

definition e2_read_super :: "e2 \<Rightarrow> (errno option \<times> e2) option" where
  "e2_read_super s =
    (let (got, s1) = e2_kmalloc s in
     if \<not> got then Some (Some ENOMEM, s1)
     else case dev_read 1024 sizeof_e2_superblock s1 of
       Inl e \<Rightarrow> Some (Some e, s1)
     | Inr bs \<Rightarrow>
         let x = get_super bs in
         if s_magic x \<noteq> EXT2_SUPER_MAGIC then Some (Some EINVAL, s1)
         else do {
           let s2 = s1\<lparr>sup := x, sdirty := False,
                 sb := \<lparr>sb_blocksize = push_bit (unat (s_log_block_size x)) 1024, sb_inode_count = s_inodes_count x,
                   sb_block_count = s_blocks_count x, sb_free_block_count = s_free_blocks_count x,
                   sb_free_inode_count = s_free_inodes_count x, sb_root = None\<rparr>\<rparr>;
           n \<leftarrow> EXT2_BGCOUNT s2;
           let (got, s3) = e2_kmalloc s2;
           if \<not> got then Some (Some EINVAL, s3)
           else do {
             let tab = (case dev_read (bg_loc s3 * sb_blocksize (sb s3)) (sizeof_e2_bg_descr * n) s3 of
                          Inr bs \<Rightarrow> bs | Inl _ \<Rightarrow> fresh_bytes (sizeof_e2_bg_descr * n) s3);
             let s4 = s3\<lparr>bgtable := map (\<lambda>g. get_bg (take 32 (drop (32 * g) tab))) [0..<n]\<rparr>;
             (e, s5) \<leftarrow> e2_iget EXT2_ROOT_INO s4;
             case e of Some _ \<Rightarrow> None
             | None \<Rightarrow> Some (None, s5\<lparr>sb := (sb s5)\<lparr>sb_root := Some EXT2_ROOT_INO\<rparr>\<rparr>)
           }
         })"

definition e2_put_super :: "e2 \<Rightarrow> e2" where
  "e2_put_super s = (e2_super_flush s)\<lparr>bgtable := []\<rparr>"

section \<open>Directories\<close>

definition de_inode :: "u8 list \<Rightarrow> nat \<Rightarrow> u32" where "de_inode bs k = b32 bs k"
definition de_rec_len :: "u8 list \<Rightarrow> nat \<Rightarrow> nat" where "de_rec_len bs k = unat (b16 bs (k + 4))"
definition de_name :: "u8 list \<Rightarrow> nat \<Rightarrow> u8 list" where
  "de_name bs k = map (\<lambda>j. byte bs (k + 8 + j)) [0..<unat (byte bs (k + 6))]"

definition de_matches :: "u8 list \<Rightarrow> u8 list \<Rightarrow> nat \<Rightarrow> bool" where
  "de_matches name bs k \<longleftrightarrow> de_inode bs k \<noteq> 0 \<and> de_name bs k = name"

text \<open>The search of a name in one block; a record of length 0 ends it.\<close>

function lookup_block :: "u8 list \<Rightarrow> u8 list \<Rightarrow> nat \<Rightarrow> nat option" where
  "lookup_block name bs k =
    (if k < length bs then
       if de_matches name bs k then Some k
       else if de_rec_len bs k = 0 then None
       else lookup_block name bs (k + de_rec_len bs k)
     else None)"
  by pat_completeness auto
termination by (relation "measure (\<lambda>(_, bs, k). length bs - k)") auto

declare lookup_block.simps [simp del]

fun lookup_blocks :: "u8 list \<Rightarrow> u32 \<Rightarrow> nat list \<Rightarrow> e2 \<Rightarrow> (u32 option \<times> e2) option" where
  "lookup_blocks name dir [] s = Some (None, s)"
| "lookup_blocks name dir (i # is) s = do {
    p \<leftarrow> icache s dir;
    (out, s1) \<leftarrow> e2_inode_io dir EXT2_READ (word_of_nat i * sb_blocksize (sb s)) (rw_buf p) s;
    p1 \<leftarrow> icache s1 dir;
    let rw = out @ drop (length out) (rw_buf p1);
    let s2 = set_rw dir rw s1;
    case lookup_block name rw 0 of
      Some k \<Rightarrow> Some (Some (de_inode rw k), s2)
    | None \<Rightarrow> lookup_blocks name dir is s2
  }"

text \<open>The number of the inode with this name; the caller gets a reference to it.\<close>

definition e2_inode_lookup :: "u32 \<Rightarrow> u8 list \<Rightarrow> e2 \<Rightarrow> (u32 result \<times> e2) option" where
  "e2_inode_lookup dir name s = do {
    p \<leftarrow> icache s dir;
    s1 \<leftarrow> lock_inode dir s;
    (hit, s2) \<leftarrow> lookup_blocks name dir [0..<nblocks (ind p) s1] s1;
    case hit of
      None \<Rightarrow> Some (Inl ENOENT, unlock_inode dir s2)
    | Some ino \<Rightarrow> do {
        (e, s3) \<leftarrow> e2_iget ino s2;
        case e of
          None \<Rightarrow> Some (Inr ino, unlock_inode dir s3)
        | Some _ \<Rightarrow> Some (Inl EIO, unlock_inode dir s3)
      }
  }"

text \<open>The search for an unused record that is long enough; a record of length 0 makes it endless.\<close>

partial_function (option) find_room :: "nat \<Rightarrow> u8 list \<Rightarrow> nat \<Rightarrow> nat option option" where
  "find_room len bs k =
    (if k < length bs then
       if de_inode bs k = 0 \<and> len \<le> unat (ucast (b16 bs (k + 4)) - 8 :: u32) then Some (Some k)
       else find_room len bs (k + de_rec_len bs k)
     else Some None)"

fun room_in_blocks :: "nat \<Rightarrow> u32 \<Rightarrow> nat list \<Rightarrow> e2 \<Rightarrow> ((u32 \<times> nat) option \<times> e2) option" where
  "room_in_blocks len dir [] s = Some (None, s)"
| "room_in_blocks len dir (i # is) s = do {
    p \<leftarrow> icache s dir;
    b \<leftarrow> nth_opt (bmap p) i;
    let rw = e2_read_block b (rw_buf p) s;
    let s1 = set_rw dir rw s;
    hit \<leftarrow> find_room len rw 0;
    case hit of
      Some k \<Rightarrow> Some (Some (b, k), s1)
    | None \<Rightarrow> room_in_blocks len dir is s1
  }"

definition needed_size :: "nat \<Rightarrow> nat" where
  "needed_size len = (8 + len + 3) div 4 * 4"

text \<open>
  The record at \<open>k\<close> gets the name; what is left of it becomes an unused record. Copying the name
  stores its terminator, too: \<open>None\<close> when that is outside of the block.
\<close>

definition fill_dirent :: "u32 \<Rightarrow> u8 \<Rightarrow> u8 list \<Rightarrow> nat \<Rightarrow> u8 list \<Rightarrow> u8 list option" where
  "fill_dirent ino ft name k bs =
    (let need = needed_size (length name);
         left = ucast (b16 bs (k + 4)) - word_of_nat need :: u32;
         bs1 = (if 8 < left then
                  put (k + 4) (bytes16 (word_of_nat need))
                    (put (k + need) (bytes32 0) (put (k + need + 4) (bytes16 (ucast left)) bs))
                else bs)
     in if length bs < k + 8 + length name + 1 then None
        else Some (put (k + 8) (name @ [0]) (put (k + 6) [word_of_nat (length name), ft] (put k (bytes32 ino) bs1))))"

text \<open>\<open>dt\<close> gives the type of a directory entry for a mode, from the constants of the C library.\<close>

definition e2_inode_link :: "(u32 \<Rightarrow> u8) \<Rightarrow> u32 \<Rightarrow> u8 list \<Rightarrow> u32 \<Rightarrow> e2 \<Rightarrow> (errno option \<times> e2) option" where
  "e2_inode_link dt dir name ino s = do {
    p \<leftarrow> icache s dir;
    q \<leftarrow> icache s ino;
    if \<not> S_ISDIR (v_mode (vnode p)) then Some (Some ENOTDIR, s)
    else do {
      s1 \<leftarrow> lock_inode dir s;
      s2 \<leftarrow> lock_inode ino s1;
      let n = nblocks (ind p) s2;
      (hit, s3) \<leftarrow> room_in_blocks (length name) dir [0..<n] s2;
      (r, s4) \<leftarrow> (case hit of
          Some (b, k) \<Rightarrow> Some (Inr (b, k), s3)
        | None \<Rightarrow> do {
            p3 \<leftarrow> icache s3 dir;
            (r, t) \<leftarrow> e2_inode_resize dir (e_size (ind p3) + sb_blocksize (sb s3)) s3;
            case r of Inl _ \<Rightarrow> Some (Inl ENOSPC, t)
            | Inr _ \<Rightarrow> do {
                pt \<leftarrow> icache t dir;
                b \<leftarrow> nth_opt (bmap pt) n;
                (_, t1) \<leftarrow> e2_inode_flush dir (set_rw dir (put 4 (bytes16 (ucast (sb_blocksize (sb t)))) (replicate (bsz t) 0)) t);
                Some (Inr (b, 0), t1)
              }
          });
      case r of
        Inl e \<Rightarrow> Some (Some e, unlock_inode dir (unlock_inode ino s4))
      | Inr (b, k) \<Rightarrow> do {
          p4 \<leftarrow> icache s4 dir;
          rw \<leftarrow> fill_dirent ino (dt (v_mode (vnode q))) name k (rw_buf p4);
          let s5 = upd_priv ino (\<lambda>q. q\<lparr>idirty := True, ind := (ind q)\<lparr>e_links_count := e_links_count (ind q) + 1\<rparr>\<rparr>)
                     (set_rw dir rw s4);
          let s6 = unlock_inode dir (unlock_inode ino (e2_write_block b rw s5));
          (_, s7) \<leftarrow> e2_inode_flush ino s6;
          (_, s8) \<leftarrow> e2_inode_flush dir s7;
          Some (None, s8)
        }
    }
  }"

partial_function (option) find_entry :: "u8 list \<Rightarrow> u8 list \<Rightarrow> nat \<Rightarrow> nat option option" where
  "find_entry name bs k =
    (if k < length bs then
       if de_inode bs k = 0 \<or> length name \<noteq> unat (byte bs (k + 6)) then find_entry name bs (k + de_rec_len bs k)
       else if de_name bs k = name then Some (Some k)
       else if de_rec_len bs k = 0 then Some None
       else find_entry name bs (k + de_rec_len bs k)
     else Some None)"

fun unlink_blocks :: "u8 list \<Rightarrow> u32 \<Rightarrow> u32 \<Rightarrow> nat list \<Rightarrow> e2 \<Rightarrow> (bool \<times> e2) option" where
  "unlink_blocks name dir child [] s = Some (False, s)"
| "unlink_blocks name dir child (i # is) s = do {
    p \<leftarrow> icache s dir;
    b \<leftarrow> nth_opt (bmap p) i;
    let rw = e2_read_block b (rw_buf p) s;
    hit \<leftarrow> find_entry name rw 0;
    case hit of
      None \<Rightarrow> unlink_blocks name dir child is (set_rw dir rw s)
    | Some k \<Rightarrow> do {
        let rw1 = put k (bytes32 0) rw;
        s1 \<leftarrow> lock_inode child (e2_write_block b rw1 (set_rw dir rw1 s));
        let s2 = upd_priv child (\<lambda>q. q\<lparr>idirty := True, ind := (ind q)\<lparr>e_links_count := e_links_count (ind q) - 1\<rparr>\<rparr>) s1;
        (_, s3) \<leftarrow> e2_inode_flush child (unlock_inode child s2);
        (_, s4) \<leftarrow> e2_inode_flush dir (unlock_inode dir s3);
        Some (True, s4)
      }
  }"

definition e2_inode_unlink :: "u32 \<Rightarrow> u8 list \<Rightarrow> u32 \<Rightarrow> e2 \<Rightarrow> (errno option \<times> e2) option" where
  "e2_inode_unlink dir name child s = do {
    p \<leftarrow> icache s dir;
    s1 \<leftarrow> lock_inode dir s;
    (found, s2) \<leftarrow> unlink_blocks name dir child [0..<nblocks (ind p) s1] s1;
    if found then Some (None, s2) else Some (Some ENOENT, unlock_inode dir s2)
  }"

definition mknod_bytes :: "u32 \<Rightarrow> u32 \<Rightarrow> u16 \<Rightarrow> u16 \<Rightarrow> u8 list" where
  "mknod_bytes mode dev uid gid =
    (let bs = put 24 (bytes16 gid) (put 2 (bytes16 uid) (put 0 (bytes16 (ucast mode)) (replicate sizeof_e2_inode 0)))
     in if S_ISBLK mode \<or> S_ISCHR mode then put 40 (bytes32 dev) bs else bs)"

definition e2_inode_mknod :: "(u32 \<Rightarrow> u8) \<Rightarrow> u16 \<Rightarrow> u16 \<Rightarrow> u32 \<Rightarrow> u8 list \<Rightarrow> u32 \<Rightarrow> u32 \<Rightarrow> e2 \<Rightarrow> (errno option \<times> e2) option" where
  "e2_inode_mknod dt uid gid dir name mode dev s = do {
    (ino, s1) \<leftarrow> e2_alloc_inode (mknod_bytes mode dev uid gid) s;
    if ino = EXT2_BAD_INO then Some (Some ENOSPC, s1)
    else do {
      (e, s2) \<leftarrow> e2_iget ino s1;
      case e of Some _ \<Rightarrow> None
      | None \<Rightarrow> do {
          (r, s3) \<leftarrow> e2_inode_link dt dir name ino s2;
          case r of
            Some e \<Rightarrow> do { (_, s4) \<leftarrow> e2_free_inode ino s3; Some (Some e, s4) }
          | None \<Rightarrow> do {
              (_, s4) \<leftarrow> e2_inode_flush dir s3;
              (_, s5) \<leftarrow> e2_inode_flush ino s4;
              s6 \<leftarrow> e2_iput ino s5;
              Some (None, s6)
            }
        }
    }
  }"

section \<open>Open files\<close>

definition e2_file_read :: "u32 \<Rightarrow> u32 \<Rightarrow> u8 list \<Rightarrow> e2 \<Rightarrow> ((u8 list \<times> u32) \<times> e2) option" where
  "e2_file_read ino off buf s = do {
    (out, s1) \<leftarrow> e2_inode_io ino EXT2_READ off buf s;
    (_, s2) \<leftarrow> e2_inode_flush ino s1;
    Some ((out, off + word_of_nat (length out)), s2)
  }"

definition e2_file_write :: "u32 \<Rightarrow> u32 \<Rightarrow> u8 list \<Rightarrow> e2 \<Rightarrow> ((nat \<times> u32) \<times> e2) option" where
  "e2_file_write ino off buf s = do {
    (out, s1) \<leftarrow> e2_inode_io ino EXT2_WRITE off buf s;
    (_, s2) \<leftarrow> e2_inode_flush ino s1;
    Some ((length out, off + word_of_nat (length out)), s2)
  }"

definition e2_file_close :: "u32 \<Rightarrow> e2 \<Rightarrow> e2 option" where
  "e2_file_close ino s = do { (_, s1) \<leftarrow> e2_inode_flush ino s; Some s1 }"

record e2_dirent =
  d_ino :: u32
  d_type :: u8
  d_name :: "u8 list"

text \<open>\<open>tmp\<close> is the buffer of 264 bytes on the stack; an unused record does not count.\<close>

partial_function (option) readdir_loop :: "u32 \<Rightarrow> nat \<Rightarrow> u32 \<Rightarrow> u8 list \<Rightarrow> e2 \<Rightarrow> ((e2_dirent list \<times> u32) \<times> e2) option" where
  "readdir_loop ino n off tmp s =
    (if n = 0 then Some (([], off), s)
     else do {
       (out, s1) \<leftarrow> e2_inode_io ino EXT2_READ off tmp s;
       if out = [] then Some (([], off), s1)
       else do {
         let ent = out @ drop (length out) tmp;
         let off1 = off + ucast (b16 ent 4);
         if de_inode ent 0 \<noteq> 0 then do {
           ((rest, off2), s2) \<leftarrow> readdir_loop ino (n - 1) off1 ent s1;
           Some ((\<lparr>d_ino = de_inode ent 0, d_type = byte ent 7, d_name = de_name ent 0\<rparr> # rest, off2), s2)
         } else readdir_loop ino n off1 ent s1
       }
     })"

definition e2_file_readdir :: "u32 \<Rightarrow> nat \<Rightarrow> u32 \<Rightarrow> e2 \<Rightarrow> ((e2_dirent list \<times> u32) \<times> e2) option" where
  "e2_file_readdir ino n off s = do {
    (r, s1) \<leftarrow> readdir_loop ino n off (replicate 264 0) s;
    (_, s2) \<leftarrow> e2_inode_flush ino s1;
    Some (r, s2)
  }"

end
