(* ===== verification/Ext2Spec.thy ===== *)
theory Ext2Spec
  imports Ext2
begin

text \<open>
  Properties of the ext2 driver: allocation and release of blocks, the bytes of a file, the directory
  records in a block, and where the code leaves its block map.
\<close>

section \<open>Buffers\<close>

lemma length_put [simp]: "length (put i cs bs) = length bs"
  by (simp add: put_def)

lemma byte_put:
  assumes "i + length cs \<le> length bs"
  shows "byte (put i cs bs) j = (if i \<le> j \<and> j < i + length cs then cs ! (j - i) else byte bs j)"
  using assms by (auto simp: byte_def put_def nth_append)

lemma length_bytes32 [simp]: "length (bytes32 w) = 4"
  by (simp add: bytes32_def)

lemma length_bytes16 [simp]: "length (bytes16 w) = 2"
  by (simp add: bytes16_def)

lemma bytes32_value:
  "ucast (ucast w :: u8) OR push_bit 8 (ucast (ucast (drop_bit 8 w) :: u8)) OR push_bit 16 (ucast (ucast (drop_bit 16 w) :: u8))
     OR push_bit 24 (ucast (ucast (drop_bit 24 w) :: u8)) = (w :: u32)"
proof (rule bit_word_eqI)
  fix n assume "n < LENGTH(32)"
  then consider "n < 8" | "8 \<le> n" "n < 16" | "16 \<le> n" "n < 24" | "24 \<le> n" "n < 32" by fastforce
  then show "bit (ucast (ucast w :: u8) OR push_bit 8 (ucast (ucast (drop_bit 8 w) :: u8)) OR push_bit 16 (ucast (ucast (drop_bit 16 w) :: u8))
     OR push_bit 24 (ucast (ucast (drop_bit 24 w) :: u8)) :: u32) n = bit w n"
    by cases (auto simp: bit_simps)
qed

lemma bytes16_value: "ucast (ucast w :: u8) OR push_bit 8 (ucast (ucast (drop_bit 8 w) :: u8)) = (w :: u16)"
proof (rule bit_word_eqI)
  fix n assume "n < LENGTH(16)"
  then consider "n < 8" | "8 \<le> n" "n < 16" by fastforce
  then show "bit (ucast (ucast w :: u8) OR push_bit 8 (ucast (ucast (drop_bit 8 w) :: u8)) :: u16) n = bit w n"
    by cases (auto simp: bit_simps)
qed

lemma b32_put: "i + 4 \<le> length bs \<Longrightarrow> b32 (put i (bytes32 w) bs) i = w"
  by (simp add: b32_def byte_put) (simp add: bytes32_def bytes32_value)

lemma b16_put: "i + 2 \<le> length bs \<Longrightarrow> b16 (put i (bytes16 w) bs) i = w"
  by (simp add: b16_def byte_put) (simp add: bytes16_def bytes16_value)

lemma b32_put_other: "i + length cs \<le> length bs \<Longrightarrow> j + 4 \<le> i \<or> i + length cs \<le> j \<Longrightarrow> b32 (put i cs bs) j = b32 bs j"
  by (auto simp: b32_def byte_put)

lemma b16_put_other: "i + length cs \<le> length bs \<Longrightarrow> j + 2 \<le> i \<or> i + length cs \<le> j \<Longrightarrow> b16 (put i cs bs) j = b16 bs j"
  by (auto simp: b16_def byte_put)

lemma put_id: "i + length cs \<le> length bs \<Longrightarrow> (\<And>j. j < length cs \<Longrightarrow> cs ! j = byte bs (i + j)) \<Longrightarrow> put i cs bs = bs"
  by (rule nth_equalityI) (auto simp: put_def nth_append byte_def)

lemma bit_u8: "bit (x :: u8) k \<Longrightarrow> k < 8"
  using bit_imp_le_length [of x k] by simp

lemma bit_u8_big [simp]: "\<not> bit (x :: u8) (8 + n)" "\<not> bit (x :: u8) (16 + n)" "\<not> bit (x :: u8) (24 + n)"
  using bit_u8 [of x "8 + n"] bit_u8 [of x "16 + n"] bit_u8 [of x "24 + n"] by auto

lemma bytes32_b32: "j < 4 \<Longrightarrow> bytes32 (b32 bs i) ! j = byte bs (i + j)"
proof -
  assume "j < 4"
  then consider "j = 0" | "j = 1" | "j = 2" | "j = 3" by linarith
  then show "bytes32 (b32 bs i) ! j = byte bs (i + j)"
    by cases (auto simp: bytes32_def b32_def bit_simps intro!: bit_word_eqI dest: bit_u8)
qed

lemma put_b32: "i + 4 \<le> length bs \<Longrightarrow> put i (bytes32 (b32 bs i)) bs = bs"
  by (rule put_id) (auto simp: bytes32_b32)

lemma put_put: "i + length cs \<le> length bs \<Longrightarrow> length ds = length cs \<Longrightarrow> put i ds (put i cs bs) = put i ds bs"
  by (rule nth_equalityI) (auto simp: put_def nth_append)

section \<open>Bitmaps\<close>

definition bm_ok :: "u8 list \<Rightarrow> nat \<Rightarrow> bool" where
  "bm_ok bm n \<longleftrightarrow> n \<le> 8 * length bm \<and> length bm mod 4 = 0"

lemma bm_range:
  assumes "bm_ok bm n" "b < n"
  shows "4 * (b div 32) + 4 \<le> length bm"
proof -
  obtain q where q: "length bm = 4 * q" using assms(1) by (auto simp: bm_ok_def mod_eq_0_iff_dvd)
  have "b < 32 * q" using assms by (simp add: bm_ok_def q)
  then have "b div 32 < q" by (simp add: less_mult_imp_div_less mult.commute)
  then show ?thesis by (simp add: q)
qed

lemma bit_test: "k < 32 \<Longrightarrow> w AND push_bit k 1 \<noteq> 0 \<longleftrightarrow> bit (w :: u32) k"
  by (metis bit_push_bit_iff bit_1_iff and_exp_eq_0_iff_not_bit push_bit_of_1)

lemma bm_bit_iff: "bm_bit bm b \<longleftrightarrow> bit (b32 bm (4 * (b div 32))) (b mod 32)"
  using bit_test [of "b mod 32"] by (simp add: bm_bit_def del: push_bit_of_1)

lemma length_bm [simp]: "length (bm_set b bm) = length bm" "length (bm_clear b bm) = length bm"
  by (simp_all add: bm_set_def bm_clear_def)

lemma bm_set_bit:
  assumes "bm_ok bm n" "b < n" "c < n"
  shows "bm_bit (bm_set b bm) c \<longleftrightarrow> c = b \<or> bm_bit bm c"
proof (cases "c div 32 = b div 32")
  case True
  then have "c = b \<longleftrightarrow> c mod 32 = b mod 32" by (metis div_mult_mod_eq)
  then show ?thesis using True bm_range [OF assms(1,2)]
    by (auto simp: bm_bit_iff bm_set_def b32_put bit_simps)
next
  case False
  then have "4 * (c div 32) + 4 \<le> 4 * (b div 32) \<or> 4 * (b div 32) + 4 \<le> 4 * (c div 32)" by linarith
  then show ?thesis using False bm_range [OF assms(1,2)] by (auto simp: bm_bit_iff bm_set_def b32_put_other)
qed

lemma bm_clear_set:
  assumes "bm_ok bm n" "b < n" "\<not> bm_bit bm b"
  shows "bm_clear b (bm_set b bm) = bm"
proof -
  let ?i = "4 * (b div 32)" and ?m = "push_bit (b mod 32) 1 :: u32"
  have r: "?i + 4 \<le> length bm" by (rule bm_range [OF assms(1,2)])
  have "(b32 bm ?i OR ?m) AND NOT ?m = b32 bm ?i"
    using assms(3) by (intro bit_word_eqI) (auto simp: bm_bit_iff bit_simps)
  then show ?thesis using r by (simp add: bm_clear_def bm_set_def b32_put put_put put_b32)
qed

section \<open>Blocks on the device\<close>

definition block_in :: "e2 \<Rightarrow> u32 \<Rightarrow> bool" where
  "block_in s b \<longleftrightarrow> unat b * bsz s + bsz s \<le> disk_size s \<and> disk_size s < 2 ^ 32"

definition block_pos :: "e2 \<Rightarrow> u32 \<Rightarrow> nat" where
  "block_pos s b = unat b * bsz s"

lemma block_offset: "block_in s b \<Longrightarrow> unat (b * sb_blocksize (sb s)) = block_pos s b"
  by (simp add: block_in_def block_pos_def unat_word_ariths)

lemma read_block_in: "block_in s b \<Longrightarrow> e2_read_block b old s = bytes (disk s) (block_pos s b) (bsz s)"
  by (simp add: e2_read_block_def dev_read_def block_offset) (simp add: block_in_def block_pos_def)

lemma write_block_in:
  "block_in s b \<Longrightarrow> length buf = bsz s \<Longrightarrow> e2_write_block b buf s = s\<lparr>disk := patch (disk s) (block_pos s b) buf\<rparr>"
  by (simp add: e2_write_block_def dev_write_def block_offset) (simp add: block_in_def block_pos_def)

lemma patch_back: "patch (patch c p bs) p (bytes c p (length bs)) = c"
  by (auto simp: patch_def bytes_def fun_eq_iff)

section \<open>Allocating and freeing blocks\<close>

definition bitmap_of :: "e2 \<Rightarrow> e2_bg_descr \<Rightarrow> u8 list" where
  "bitmap_of s d = bytes (disk s) (block_pos s (bg_block_bitmap d)) (bsz s)"

definition groups_ok :: "e2 \<Rightarrow> bool" where
  "groups_ok s \<longleftrightarrow> s_blocks_per_group (sup s) \<noteq> 0 \<and> unat (s_blocks_per_group (sup s)) \<le> 8 * bsz s \<and> bsz s mod 4 = 0
     \<and> EXT2_BGCOUNT s = Some (length (bgtable s))
     \<and> length (bgtable s) * unat (s_blocks_per_group (sup s)) < 2 ^ 32
     \<and> (\<forall>d \<in> set (bgtable s). block_in s (bg_block_bitmap d))"

definition took :: "nat \<Rightarrow> nat \<Rightarrow> e2 \<Rightarrow> bool" where
  "took g b s \<longleftrightarrow> g < length (bgtable s) \<and> bg_free_blocks_count (bgtable s ! g) \<noteq> 0
     \<and> b < unat (s_blocks_per_group (sup s)) \<and> \<not> bm_bit (bitmap_of s (bgtable s ! g)) b
     \<and> (\<forall>c < b. bm_bit (bitmap_of s (bgtable s ! g)) c)"

lemma alloc_in_groups_found:
  assumes "alloc_in_groups gs bm s = Some (blk, s')" "blk \<noteq> 0" "\<forall>d \<in> set (bgtable s). block_in s (bg_block_bitmap d)"
    "\<forall>g \<in> set gs. g < length (bgtable s)"
  shows "\<exists>g b. took g b s \<and> (blk, s') = take_block g b (bgtable s ! g) (bitmap_of s (bgtable s ! g)) s"
  using assms(1,4)
proof (induction gs arbitrary: bm)
  case (Cons g gs)
  let ?d = "bgtable s ! g" and ?n = "unat (s_blocks_per_group (sup s))"
  have g: "nth_opt (bgtable s) g = Some ?d" "g < length (bgtable s)" using Cons.prems(2) by (auto simp: nth_opt_def)
  have bm: "e2_read_block (bg_block_bitmap ?d) bm s = bitmap_of s ?d"
    using assms(3) g(2) by (simp add: read_block_in bitmap_of_def)
  show ?case
  proof (cases "bg_free_blocks_count ?d = 0")
    case True
    then show ?thesis using Cons g by simp
  next
    case False
    show ?thesis
    proof (cases "find (\<lambda>b. \<not> bm_bit (bitmap_of s ?d) b) [0..<?n]")
      case None
      then show ?thesis using Cons g False bm by simp
    next
      case (Some b)
      then have "b < ?n" "\<not> bm_bit (bitmap_of s ?d) b" "\<forall>c < b. bm_bit (bitmap_of s ?d) c"
        by (auto simp: find_Some_iff)
      then have "took g b s" using g False by (simp add: took_def)
      moreover have "take_block g b ?d (bitmap_of s ?d) s = (blk, s')" using Cons.prems(1) g False bm Some by simp
      ultimately show ?thesis by metis
    qed
  qed
qed (use assms(2) in simp)

lemma e2_alloc_block_found:
  assumes "e2_alloc_block s = Some (blk, s')" "blk \<noteq> 0" "groups_ok s" "mem s = []"
  shows "\<exists>g b. took g b s \<and> (blk, s') = take_block g b (bgtable s ! g) (bitmap_of s (bgtable s ! g)) s"
  using assms alloc_in_groups_found [of "[0..<length (bgtable s)]" "fresh_bytes (bsz s) s" s blk s']
  by (auto simp: e2_alloc_block_def e2_kmalloc_def groups_ok_def split: if_splits)

lemma group_number:
  assumes "g < n" "b < m" "n * m < 2 ^ 32" "unat (M :: u32) = m"
  shows "unat (word_of_nat b + word_of_nat g * M) = g * m + b" "(g * m + b) div m = g" "(g * m + b) mod m = b"
proof -
  have "g * m + b < n * m"
  proof -
    have "g * m + m \<le> n * m" using assms(1) mult_le_mono1 [of "g + 1" n m] by simp
    then show ?thesis using assms(2) by linarith
  qed
  then have "g * m + b < 2 ^ 32" using assms(3) by linarith
  moreover have "word_of_nat b + word_of_nat g * M = (word_of_nat (g * m + b) :: u32)" using assms(4) by auto
  ultimately show "unat (word_of_nat b + word_of_nat g * M) = g * m + b" by (simp add: unat_of_nat del: of_nat_add of_nat_mult)
qed (use assms(2) in auto)

lemma nth_upd: "g < length xs \<Longrightarrow> xs[g := xs ! g] = xs"
  by simp

lemma free_after_take:
  assumes "groups_ok s" "mem s = []" "took g b s"
    "(blk, s') = take_block g b (bgtable s ! g) (bitmap_of s (bgtable s ! g)) s"
  shows "\<exists>s''. e2_free_block blk s' = Some (None, s'') \<and> disk s'' = disk s \<and> sup s'' = sup s \<and> bgtable s'' = bgtable s \<and> icache s'' = icache s"
    "unat blk = g * unat (s_blocks_per_group (sup s)) + b"
    "disk s' = patch (disk s) (block_pos s (bg_block_bitmap (bgtable s ! g))) (bm_set b (bitmap_of s (bgtable s ! g)))"
proof -
  let ?d = "bgtable s ! g" and ?m = "unat (s_blocks_per_group (sup s))"
  let ?pos = "block_pos s (bg_block_bitmap ?d)" and ?bm = "bitmap_of s (bgtable s ! g)"
  have g: "g < length (bgtable s)" and b: "b < ?m" and clear: "\<not> bm_bit ?bm b" using assms(3) by (auto simp: took_def)
  have bin: "block_in s (bg_block_bitmap ?d)" using assms(1) g by (simp add: groups_ok_def)
  have bm: "bm_ok ?bm ?m" using assms(1) by (simp add: groups_ok_def bm_ok_def bitmap_of_def)
  have m0: "0 < ?m" using assms(1) by (simp add: groups_ok_def unat_gt_0)
  have num: "unat blk = g * ?m + b" "(g * ?m + b) div ?m = g" "(g * ?m + b) mod ?m = b"
    using group_number [OF g b] assms(1,4) by (auto simp: groups_ok_def take_block_def Let_def)
  have len: "length (bm_set b ?bm) = bsz s" by (simp add: bitmap_of_def)
  have s': "s' = s\<lparr>disk := patch (disk s) ?pos (bm_set b ?bm),
      bgtable := (bgtable s)[g := ?d\<lparr>bg_free_blocks_count := bg_free_blocks_count ?d - 1\<rparr>],
      sup := (sup s)\<lparr>s_free_blocks_count := s_free_blocks_count (sup s) - 1\<rparr>, sdirty := True\<rparr>"
    using assms(4) write_block_in [OF bin len] by (simp add: take_block_def Let_def upd_bg_def)
  have bin': "block_in s' (bg_block_bitmap ?d)" using bin by (simp add: block_in_def s')
  have pos': "block_pos s' (bg_block_bitmap ?d) = ?pos" by (simp add: block_pos_def s')
  have "e2_read_block (bg_block_bitmap ?d) old s' = bm_set b ?bm" for old
    using read_block_in [OF bin'] bytes_patch_same [of "disk s" ?pos "bm_set b ?bm"] len pos' by (simp add: s')
  moreover have "bm_clear b (bm_set b ?bm) = ?bm" by (rule bm_clear_set [OF bm b clear])
  moreover have "e2_write_block (bg_block_bitmap ?d) ?bm s' = s'\<lparr>disk := disk s\<rparr>"
    using write_block_in [OF bin', of ?bm] patch_back [of "disk s" ?pos "bm_set b ?bm"] len pos'
    by (simp add: bitmap_of_def s')
  moreover have "nth_opt (bgtable s') g = Some (?d\<lparr>bg_free_blocks_count := bg_free_blocks_count ?d - 1\<rparr>)"
    using g by (simp add: nth_opt_def s')
  ultimately show "\<exists>s''. e2_free_block blk s' = Some (None, s'') \<and> disk s'' = disk s \<and> sup s'' = sup s \<and> bgtable s'' = bgtable s \<and> icache s'' = icache s"
    using m0 num assms(2) g by (simp add: e2_free_block_def e2_kmalloc_def Let_def s' unat_gt_0 upd_bg_def nth_upd)
  show "unat blk = g * ?m + b" "disk s' = patch (disk s) ?pos (bm_set b ?bm)" using num(1) s' by simp_all
qed

subsection \<open>Bits on the device\<close>

text \<open>Bit \<open>b\<close> of the bitmap of group \<open>g\<close>, where the format has it: in byte \<open>b div 8\<close> of the bitmap block.\<close>

definition bit_pos :: "e2 \<Rightarrow> nat \<Rightarrow> nat \<Rightarrow> nat" where
  "bit_pos s g b = unat (bg_block_bitmap (bgtable s ! g)) * bsz s + b div 8"

definition used_bit :: "e2 \<Rightarrow> nat \<Rightarrow> nat \<Rightarrow> bool" where
  "used_bit s g b \<longleftrightarrow> bit (disk s (bit_pos s g b)) (b mod 8)"

definition first_free :: "e2 \<Rightarrow> nat \<Rightarrow> nat \<Rightarrow> bool" where
  "first_free s g b \<longleftrightarrow> g < length (bgtable s) \<and> b < unat (s_blocks_per_group (sup s)) \<and> \<not> used_bit s g b
     \<and> (\<forall>c < b. used_bit s g c)"

lemma bit_b32: "k < 32 \<Longrightarrow> bit (b32 bs i) k = bit (byte bs (i + k div 8)) (k mod 8)"
proof -
  assume "k < 32"
  define q l where "q = k div 8" and "l = k mod 8"
  have k: "k = 8 * q + l" and l: "l < 8" by (simp_all add: q_def l_def)
  have "q < 4" using \<open>k < 32\<close> by (simp add: q_def)
  then have "q = 0 \<or> q = 1 \<or> q = 2 \<or> q = 3" by linarith
  then have "bit (b32 bs i) (8 * q + l) = bit (byte bs (i + q)) l"
    using l by (elim disjE) (auto simp: b32_def bit_simps dest: bit_u8)
  then show ?thesis by (simp add: k [symmetric] flip: q_def l_def)
qed

lemma bm_bit_byte: "bm_bit bm b \<longleftrightarrow> bit (byte bm (b div 8)) (b mod 8)"
proof -
  have "4 * (b div 32) + b mod 32 div 8 = b div 8" "b mod 32 mod 8 = b mod 8"
    using div_mult2_eq [of b 8 4] mod_mult2_eq [of b 8 4] by (simp_all add: mod_mod_cancel)
  then show ?thesis by (simp add: bm_bit_iff bit_b32)
qed

lemma byte_bm_set:
  assumes "length bm mod 4 = 0" "b < 8 * length bm" "j < length bm"
  shows "bm_set b bm ! j = (if j = b div 8 then set_bit (b mod 8) (bm ! j) else bm ! j)"
proof (rule bit_word_eqI)
  fix k assume "k < LENGTH(8)"
  then have k: "k < 8" by simp
  have ok: "bm_ok bm (8 * length bm)" using assms(1) by (simp add: bm_ok_def)
  have c: "8 * j + k < 8 * length bm" "(8 * j + k) div 8 = j" "(8 * j + k) mod 8 = k" using assms(3) k by simp_all
  have e: "8 * j + k = b \<longleftrightarrow> j = b div 8 \<and> k = b mod 8" using c(2,3) by (metis mult_div_mod_eq)
  have "bit (bm_set b bm ! j) k \<longleftrightarrow> 8 * j + k = b \<or> bit (bm ! j) k"
    using bm_set_bit [OF ok assms(2) c(1)] assms(3) k by (simp add: bm_bit_byte c byte_def)
  then show "bit (bm_set b bm ! j) k = bit (if j = b div 8 then set_bit (b mod 8) (bm ! j) else bm ! j) k"
    using k by (auto simp: e bit_simps)
qed

lemma patch_bm_set:
  assumes "length (bytes c p n) mod 4 = 0" "b < 8 * n"
  shows "patch c p (bm_set b (bytes c p n)) = c(p + b div 8 := set_bit (b mod 8) (c (p + b div 8)))"
proof
  fix i
  have "b div 8 < n" using assms(2) by (simp add: less_mult_imp_div_less mult.commute)
  moreover have "bytes c p n ! (i - p) = c i" if "p \<le> i" "i < p + n" using that by (simp add: bytes_def)
  moreover have "i - p = b div 8 \<longleftrightarrow> i = p + b div 8" if "p \<le> i" using that by auto
  ultimately show "patch c p (bm_set b (bytes c p n)) i = (c(p + b div 8 := set_bit (b mod 8) (c (p + b div 8)))) i"
    using assms byte_bm_set [of "bytes c p n" b "i - p"] by (auto simp: patch_def)
qed

lemma took_first_free:
  assumes "groups_ok s" "took g b s"
  shows "first_free s g b"
    "patch (disk s) (block_pos s (bg_block_bitmap (bgtable s ! g))) (bm_set b (bitmap_of s (bgtable s ! g)))
      = (disk s)(bit_pos s g b := set_bit (b mod 8) (disk s (bit_pos s g b)))"
proof -
  have n: "unat (s_blocks_per_group (sup s)) \<le> 8 * bsz s" "bsz s mod 4 = 0" using assms(1) by (simp_all add: groups_ok_def)
  have bm: "bm_bit (bitmap_of s (bgtable s ! g)) c \<longleftrightarrow> used_bit s g c" if "c < 8 * bsz s" for c
  proof -
    have "c div 8 < bsz s" using that by (simp add: less_mult_imp_div_less mult.commute)
    then show ?thesis by (simp add: bm_bit_byte byte_def bitmap_of_def used_bit_def bit_pos_def block_pos_def bytes_def)
  qed
  have b: "b < 8 * bsz s" using assms(2) n by (simp add: took_def)
  then show "first_free s g b" using assms(2) bm by (auto simp: took_def first_free_def)
  show "patch (disk s) (block_pos s (bg_block_bitmap (bgtable s ! g))) (bm_set b (bitmap_of s (bgtable s ! g)))
      = (disk s)(bit_pos s g b := set_bit (b mod 8) (disk s (bit_pos s g b)))"
    using patch_bm_set [of "disk s" _ "bsz s" b] b n(2) by (simp add: bitmap_of_def bit_pos_def block_pos_def)
qed


definition demo_inode :: e2_inode where
  "demo_inode = \<lparr>e_mode = 0x81A4, e_uid = 0, e_size = 512, e_atime = 0, e_ctime = 0, e_mtime = 0, e_dtime = 0, e_gid = 0,
     e_links_count = 1, e_blocks = 1, e_block = 6 # replicate 14 0, e_bytes = replicate 128 0\<rparr>"

definition demo_private :: e2_inode_private where
  "demo_private = \<lparr>vnode = \<lparr>v_mode = 0x81A4, v_uid = 0, v_size = 512, v_gid = 0, v_nlinks = 1, v_dev = 0\<rparr>,
     ind = demo_inode, rw_lock = False, rw_buf = [], bmap = [6], idirty = False\<rparr>"

text \<open>A device with one group of 32 blocks of \<open>n\<close> bytes, of which the first six are in use.\<close>

definition demo_e2 :: "u32 \<Rightarrow> e2" where
  "demo_e2 n = \<lparr>disk = (\<lambda>_. 0)(unat n := 0x3F), disk_size = 32 * unat n, mem = [], fresh = (\<lambda>_. 0), rtc = 0,
     sb = \<lparr>sb_blocksize = n, sb_inode_count = 8, sb_block_count = 32, sb_free_block_count = 26, sb_free_inode_count = 4, sb_root = None\<rparr>,
     sup = \<lparr>s_inodes_count = 8, s_blocks_count = 32, s_free_blocks_count = 26, s_free_inodes_count = 4, s_log_block_size = 0,
       s_blocks_per_group = 32, s_inodes_per_group = 8, s_mtime = 0, s_wtime = 0, s_magic = 0xEF53, s_inode_size = 128, s_bytes = []\<rparr>,
     bgtable = [\<lparr>bg_block_bitmap = 1, bg_inode_bitmap = 2, bg_inode_table = 3, bg_free_blocks_count = 26,
       bg_free_inodes_count = 4, bg_bytes = []\<rparr>],
     sdirty = False, icache = [5 \<mapsto> demo_private], irefs = (\<lambda>_. 0)\<rparr>"

lemma demo_groups: "groups_ok (demo_e2 8)"
  by (simp add: groups_ok_def demo_e2_def EXT2_BGCOUNT_def block_in_def)


text \<open>
  On a device with blocks of 1024 bytes bit \<open>b\<close> of the first group stands for block \<open>b + 1\<close>, since block 0
  is in no group. \<open>e2_alloc_block\<close> does not add \<open>s_first_data_block\<close>: the block it returns has its bit one
  place before the one that was clear, and is in use.
\<close>

lemma alloc_returns_used_block:
  assumes "groups_ok s" "mem s = []" "e2_alloc_block s = Some (blk, s')" "blk \<noteq> 0"
    "unat blk < unat (s_blocks_per_group (sup s))"
  shows "bm_bit (bitmap_of s (bgtable s ! 0)) (unat blk - 1)"
proof -
  obtain g b where gb: "took g b s" "(blk, s') = take_block g b (bgtable s ! g) (bitmap_of s (bgtable s ! g)) s"
    using e2_alloc_block_found [OF assms(3,4,1,2)] by blast
  have u: "unat blk = g * unat (s_blocks_per_group (sup s)) + b" by (rule free_after_take(2) [OF assms(1,2) gb])
  then have "g = 0" using assms(5) by (cases g) auto
  moreover have "0 < unat blk" using assms(4) by (simp add: unat_gt_0)
  ultimately show ?thesis using gb(1) u by (auto simp: took_def)
qed

section \<open>The bytes of a file\<close>

text \<open>Byte \<open>k\<close> of a file with the block map \<open>m\<close> on the disk \<open>d\<close>.\<close>

definition fbyte :: "nat \<Rightarrow> u32 list \<Rightarrow> (nat \<Rightarrow> u8) \<Rightarrow> nat \<Rightarrow> u8" where
  "fbyte n m d k = d (unat (m ! (k div n)) * n + k mod n)"

definition eq_upto :: "nat \<Rightarrow> (nat \<Rightarrow> u8) \<Rightarrow> (nat \<Rightarrow> u8) \<Rightarrow> bool" where
  "eq_upto n f g \<longleftrightarrow> (\<forall>k < n. f k = g k)"

text \<open>The inode is in memory and its first \<open>n\<close> blocks are different blocks of the device.\<close>

definition file_in :: "e2 \<Rightarrow> u32 \<Rightarrow> e2_inode_private \<Rightarrow> nat \<Rightarrow> bool" where
  "file_in s ino p n \<longleftrightarrow> icache s ino = Some p \<and> n \<le> length (bmap p) \<and> distinct (take n (bmap p))
     \<and> (\<forall>j < n. block_in s (bmap p ! j)) \<and> 0 < bsz s"

definition other_bytes :: "e2 \<Rightarrow> e2_inode_private \<Rightarrow> nat \<Rightarrow> (nat \<Rightarrow> u8) \<Rightarrow> bool" where
  "other_bytes s p n d \<longleftrightarrow>
    (\<forall>x. (\<forall>j < n. x < block_pos s (bmap p ! j) \<or> block_pos s (bmap p ! j) + bsz s \<le> x) \<longrightarrow> d x = disk s x)"

text \<open>What a transfer of \<open>buf\<close> at the offset \<open>off\<close> does.\<close>

definition moved :: "e2_cmd \<Rightarrow> nat \<Rightarrow> (nat \<Rightarrow> u8) \<Rightarrow> (nat \<Rightarrow> u8) \<Rightarrow> nat \<Rightarrow> u8 list \<Rightarrow> u8 list \<Rightarrow> bool" where
  "moved cmd N F F' off buf out \<longleftrightarrow>
    (case cmd of
       EXT2_READ \<Rightarrow> F' = F \<and> out = bytes F off (length buf)
     | EXT2_WRITE \<Rightarrow> out = buf \<and> eq_upto N F' (patch F off buf))"

definition transferred :: "e2_cmd \<Rightarrow> e2 \<Rightarrow> u32 \<Rightarrow> e2_inode_private \<Rightarrow> nat \<Rightarrow> nat \<Rightarrow> u8 list \<Rightarrow> u8 list \<Rightarrow> e2 \<Rightarrow> bool" where
  "transferred cmd s ino p n off buf out s' \<longleftrightarrow>
    (\<exists>rw d. s' = set_rw ino rw (s\<lparr>disk := d\<rparr>) \<and> other_bytes s p n d \<and> (cmd = EXT2_READ \<longrightarrow> d = disk s)
      \<and> moved cmd (n * bsz s) (fbyte (bsz s) (bmap p) (disk s)) (fbyte (bsz s) (bmap p) d) off buf out)"

lemma transferredI:
  assumes "s' = set_rw ino rw (s\<lparr>disk := d\<rparr>)" "other_bytes s p n d" "cmd = EXT2_READ \<longrightarrow> d = disk s"
    "moved cmd (n * bsz s) (fbyte (bsz s) (bmap p) (disk s)) (fbyte (bsz s) (bmap p) d) off buf out"
  shows "transferred cmd s ino p n off buf out s'"
  using assms unfolding transferred_def by blast

lemma eq_upto_patch: "eq_upto n f g \<Longrightarrow> eq_upto n (patch f p bs) (patch g p bs)"
  by (auto simp: eq_upto_def patch_def)

lemma eq_upto_trans: "eq_upto n f g \<Longrightarrow> eq_upto n g h \<Longrightarrow> eq_upto n f h"
  by (auto simp: eq_upto_def)

lemma set_rw_sel [simp]:
  "disk (set_rw ino rw s) = disk s" "sb (set_rw ino rw s) = sb s" "disk_size (set_rw ino rw s) = disk_size s"
  "icache (set_rw ino rw s) ino = map_option (\<lambda>p. p\<lparr>rw_buf := rw\<rparr>) (icache s ino)"
  by (simp_all add: set_rw_def upd_priv_def)

lemma set_rw_set_rw: "set_rw ino rw' ((set_rw ino rw s)\<lparr>disk := d\<rparr>) = set_rw ino rw' (s\<lparr>disk := d\<rparr>)"
  by (simp add: set_rw_def upd_priv_def option.map_comp comp_def)

lemma set_rw_same: "icache s ino = Some p \<Longrightarrow> set_rw ino (rw_buf p) s = s"
  by (simp add: set_rw_def upd_priv_def fun_upd_idem_iff)

lemma file_in_step:
  assumes "file_in s ino p n" "s' = set_rw ino rw (s\<lparr>disk := d\<rparr>)"
  shows "file_in s' ino (p\<lparr>rw_buf := rw\<rparr>) n" "bsz s' = bsz s" "block_pos s' b = block_pos s b"
  using assms by (auto simp: file_in_def block_in_def block_pos_def)

lemma moved_append:
  assumes "moved cmd N F G off a oa" "moved cmd N G H (off + length a) b ob"
  shows "moved cmd N F H off (a @ b) (oa @ ob)"
proof (cases cmd)
  case EXT2_READ
  then show ?thesis using assms by (simp add: moved_def bytes_append)
next
  case EXT2_WRITE
  then have "eq_upto N H (patch (patch F off a) (off + length a) b)"
    using assms eq_upto_patch eq_upto_trans unfolding moved_def by fastforce
  then show ?thesis using EXT2_WRITE assms by (simp add: moved_def patch_patch)
qed

lemma transferred_append:
  assumes "file_in s ino p n" "transferred cmd s ino p n off a oa s1"
    "\<And>p1. file_in s1 ino p1 n \<Longrightarrow> bmap p1 = bmap p \<Longrightarrow> transferred cmd s1 ino p1 n (off + length a) b ob s2"
  shows "transferred cmd s ino p n off (a @ b) (oa @ ob) s2"
proof -
  let ?F = "fbyte (bsz s) (bmap p)"
  obtain rw d where 1: "s1 = set_rw ino rw (s\<lparr>disk := d\<rparr>)" "other_bytes s p n d" "cmd = EXT2_READ \<longrightarrow> d = disk s"
    "moved cmd (n * bsz s) (?F (disk s)) (?F d) off a oa"
    using assms(2) unfolding transferred_def by blast
  note fs = file_in_step [OF assms(1) 1(1)]
  have d1: "disk s1 = d" by (simp add: 1(1))
  obtain rw' d' where 2: "s2 = set_rw ino rw' (s1\<lparr>disk := d'\<rparr>)" "other_bytes s1 (p\<lparr>rw_buf := rw\<rparr>) n d'"
    "cmd = EXT2_READ \<longrightarrow> d' = disk s1" "moved cmd (n * bsz s) (?F d) (?F d') (off + length a) b ob"
    using assms(3) [OF fs(1)] unfolding transferred_def fs(2) d1 by auto
  have "s2 = set_rw ino rw' (s\<lparr>disk := d'\<rparr>)" unfolding 2(1) 1(1) by (simp add: set_rw_set_rw)
  moreover have "other_bytes s p n d'" using 1(2) 2(2) fs(2,3) d1 by (simp add: other_bytes_def)
  ultimately show ?thesis unfolding transferred_def
    using 1(3) 2(3) d1 moved_append [OF 1(4) 2(4)] by blast
qed

text \<open>Rewriting one block of a file.\<close>

lemma fbyte_block:
  assumes "file_in s ino p n" "j < n" "length B = bsz s"
    "k < n * bsz s"
  shows "fbyte (bsz s) (bmap p) (patch (disk s) (block_pos s (bmap p ! j)) B) k
    = (if k div bsz s = j then B ! (k mod bsz s) else fbyte (bsz s) (bmap p) (disk s) k)"
proof -
  let ?b = "bsz s" and ?m = "bmap p"
  have b: "0 < ?b" using assms(1) by (simp add: file_in_def)
  have kd: "k div ?b < n" using assms(4) b by (simp add: div_less_iff_less_mult)
  have km: "k mod ?b < ?b" using b by simp
  show ?thesis
  proof (cases "k div ?b = j")
    case False
    have "?m ! (k div ?b) \<noteq> ?m ! j"
      using assms(1,2) kd False nth_eq_iff_index_eq [of "take n ?m" "k div ?b" j] by (auto simp: file_in_def)
    then have ne: "unat (?m ! (k div ?b)) \<noteq> unat (?m ! j)" by (simp add: word_unat_eq_iff)
    have "unat (?m ! (k div ?b)) * ?b + ?b \<le> unat (?m ! j) * ?b \<or> unat (?m ! j) * ?b + ?b \<le> unat (?m ! (k div ?b)) * ?b"
      using ne mult_le_mono1 [of "unat (?m ! (k div ?b)) + 1" "unat (?m ! j)" ?b]
        mult_le_mono1 [of "unat (?m ! j) + 1" "unat (?m ! (k div ?b))" ?b] by (simp add: distrib_right) linarith
    then show ?thesis using False km assms(3) by (auto simp: fbyte_def patch_def block_pos_def)
  qed (use km assms(3) in \<open>simp add: fbyte_def patch_def block_pos_def\<close>)
qed

lemma in_block_offset:
  assumes "at + l \<le> b" "0 < b"
  shows "j * b + at \<le> k \<and> k < j * b + at + l \<longleftrightarrow> k div b = j \<and> at \<le> k mod b \<and> k mod b < at + (l :: nat)"
proof -
  have "k div b * b + k mod b = k" "k mod b < b" using assms(2) by auto
  moreover have "k div b = j" if "j * b \<le> k" "k < j * b + b"
    using that assms(2) by (metis add.commute div_nat_eqI mult.commute mult_Suc_right)
  ultimately show ?thesis using assms(1) by (auto, linarith+)
qed

lemma patch_apply: "patch c q bs k = (if q \<le> k \<and> k < q + length bs then bs ! (k - q) else c k)"
  by (simp add: patch_def)

lemma rewrite_block:
  assumes "file_in s ino p n" "j < n" "at + length buf \<le> bsz s"
  defines "B \<equiv> put at buf (bytes (disk s) (block_pos s (bmap p ! j)) (bsz s))"
  shows "eq_upto (n * bsz s) (fbyte (bsz s) (bmap p) (patch (disk s) (block_pos s (bmap p ! j)) B))
      (patch (fbyte (bsz s) (bmap p) (disk s)) (j * bsz s + at) buf)"
    "other_bytes s p n (patch (disk s) (block_pos s (bmap p ! j)) B)"
proof -
  have lB: "length B = bsz s" by (simp add: B_def)
  have b: "0 < bsz s" using assms(1) by (simp add: file_in_def)
  show "other_bytes s p n (patch (disk s) (block_pos s (bmap p ! j)) B)"
    using assms(2) lB by (auto simp: other_bytes_def patch_def)
  show "eq_upto (n * bsz s) (fbyte (bsz s) (bmap p) (patch (disk s) (block_pos s (bmap p ! j)) B))
      (patch (fbyte (bsz s) (bmap p) (disk s)) (j * bsz s + at) buf)"
    unfolding eq_upto_def
  proof (intro allI impI)
    fix k assume k: "k < n * bsz s"
    let ?r = "k mod bsz s"
    have r: "?r < bsz s" using b by simp
    have "B ! ?r = (if at \<le> ?r \<and> ?r < at + length buf then buf ! (?r - at) else fbyte (bsz s) (bmap p) (disk s) k)"
      if "k div bsz s = j"
      using byte_put [of at buf "bytes (disk s) (block_pos s (bmap p ! j)) (bsz s)" ?r] assms(3) r that lB
      by (simp add: B_def byte_def fbyte_def bytes_def block_pos_def)
    moreover have "?r - at = k - (j * bsz s + at)" if "k div bsz s = j"
      using div_mult_mod_eq [of k "bsz s"] unfolding that by linarith
    ultimately show "fbyte (bsz s) (bmap p) (patch (disk s) (block_pos s (bmap p ! j)) B) k
        = patch (fbyte (bsz s) (bmap p) (disk s)) (j * bsz s + at) buf k"
      unfolding fbyte_block [OF assms(1,2) lB k] patch_apply [of _ _ buf] in_block_offset [OF assms(3) b] by auto
  qed
qed

lemma read_in_block:
  assumes "at + l \<le> b" "0 < b"
  shows "take l (drop at (bytes d (unat (m ! j) * b) b)) = bytes (fbyte b m d) (j * b + at) l"
proof (rule nth_equalityI)
  fix i assume "i < length (take l (drop at (bytes d (unat (m ! j) * b) b)))"
  then have i: "i < l" "at + i < b" using assms(1) by auto
  have "(j * b + (at + i)) div b = j" "(j * b + (at + i)) mod b = at + i" using i(2) by simp_all
  then show "take l (drop at (bytes d (unat (m ! j) * b) b)) ! i = bytes (fbyte b m d) (j * b + at) l ! i"
    using i by (simp add: bytes_def fbyte_def add.assoc)
qed (use assms in simp)

lemma io_part_ok:
  assumes "file_in s ino p n" "j < n" "at + length buf \<le> bsz s"
  shows "\<exists>out s'. io_part cmd ino j at buf s = Some (out, s') \<and> transferred cmd s ino p n (j * bsz s + at) buf out s'"
proof -
  let ?b = "bmap p ! j" and ?rw = "bytes (disk s) (block_pos s (bmap p ! j)) (bsz s)"
  have p: "icache s ino = Some p" and bin: "block_in s ?b" and b: "0 < bsz s" using assms(1,2) by (auto simp: file_in_def)
  have o: "nth_opt (bmap p) j = Some ?b" using assms(1,2) by (simp add: file_in_def nth_opt_def)
  have rd: "e2_read_block ?b old s = ?rw" for old by (rule read_block_in [OF bin])
  show ?thesis
  proof (cases cmd)
    case EXT2_READ
    have "io_part cmd ino j at buf s = Some (take (length buf) (drop at ?rw), set_rw ino ?rw (s\<lparr>disk := disk s\<rparr>))"
      using EXT2_READ p o rd by (simp add: io_part_def Let_def)
    moreover have "take (length buf) (drop at ?rw) = bytes (fbyte (bsz s) (bmap p) (disk s)) (j * bsz s + at) (length buf)"
      using read_in_block [OF assms(3) b] by (simp add: block_pos_def)
    ultimately have "io_part cmd ino j at buf s =
        Some (bytes (fbyte (bsz s) (bmap p) (disk s)) (j * bsz s + at) (length buf), set_rw ino ?rw (s\<lparr>disk := disk s\<rparr>))" by simp
    moreover have "transferred cmd s ino p n (j * bsz s + at) buf
        (bytes (fbyte (bsz s) (bmap p) (disk s)) (j * bsz s + at) (length buf)) (set_rw ino ?rw (s\<lparr>disk := disk s\<rparr>))"
      using EXT2_READ by (intro transferredI [OF refl]) (simp_all add: moved_def other_bytes_def)
    ultimately show ?thesis by blast
  next
    case EXT2_WRITE
    let ?B = "put at buf ?rw"
    have bin': "block_in (set_rw ino ?B s) ?b" using bin by (simp add: block_in_def)
    have "e2_write_block ?b ?B (set_rw ino ?B s) = set_rw ino ?B (s\<lparr>disk := patch (disk s) (block_pos s ?b) ?B\<rparr>)"
      using write_block_in [OF bin', of ?B] by (simp add: block_pos_def) (simp add: set_rw_def upd_priv_def)
    then have "io_part cmd ino j at buf s = Some (buf, set_rw ino ?B (s\<lparr>disk := patch (disk s) (block_pos s ?b) ?B\<rparr>))"
      using EXT2_WRITE p o rd by (simp add: io_part_def Let_def)
    moreover have "transferred cmd s ino p n (j * bsz s + at) buf buf (set_rw ino ?B (s\<lparr>disk := patch (disk s) (block_pos s ?b) ?B\<rparr>))"
      using EXT2_WRITE rewrite_block [OF assms] by (intro transferredI [OF refl]) (simp_all add: moved_def)
    ultimately show ?thesis by blast
  qed
qed

lemma put_whole: "length buf = length bs \<Longrightarrow> put 0 buf bs = buf"
  by (simp add: put_def)

lemma io_block_ok:
  assumes "file_in s ino p n" "j < n" "length buf = bsz s"
  shows "transferred cmd s ino p n (j * bsz s) buf
    (case cmd of EXT2_READ \<Rightarrow> e2_read_block (bmap p ! j) buf s | EXT2_WRITE \<Rightarrow> buf)
    (case cmd of EXT2_READ \<Rightarrow> s | EXT2_WRITE \<Rightarrow> e2_write_block (bmap p ! j) buf s)"
proof -
  let ?b = "bmap p ! j"
  have p: "icache s ino = Some p" and bin: "block_in s ?b" and b: "0 < bsz s" using assms(1,2) by (auto simp: file_in_def)
  show ?thesis
  proof (cases cmd)
    case EXT2_READ
    have "bytes (disk s) (block_pos s ?b) (bsz s) = bytes (fbyte (bsz s) (bmap p) (disk s)) (j * bsz s) (length buf)"
      using read_in_block [of 0 "bsz s" "bsz s"] b assms(3) by (simp add: block_pos_def)
    then show ?thesis using EXT2_READ p set_rw_same [OF p] unfolding transferred_def
      by (intro exI [of _ "rw_buf p"] exI [of _ "disk s"]) (simp add: moved_def other_bytes_def read_block_in [OF bin])
  next
    case EXT2_WRITE
    have "icache (s\<lparr>disk := d\<rparr>) ino = Some p" for d using p by simp
    then show ?thesis
      using EXT2_WRITE rewrite_block [OF assms(1,2), of 0 buf] assms(3) set_rw_same [of "s\<lparr>disk := patch (disk s) (block_pos s ?b) buf\<rparr>" ino p]
      unfolding transferred_def
      by (intro exI [of _ "rw_buf p"] exI [of _ "patch (disk s) (block_pos s ?b) buf"])
        (simp add: moved_def write_block_in [OF bin] put_whole)
  qed
qed

lemma transferred_Nil:
  assumes "file_in s ino p n"
  shows "transferred cmd s ino p n off [] [] s"
proof (rule transferredI)
  show "s = set_rw ino (rw_buf p) (s\<lparr>disk := disk s\<rparr>)" using assms set_rw_same [of s ino p] by (simp add: file_in_def)
qed (auto simp: other_bytes_def moved_def eq_upto_def bytes_def split: e2_cmd.splits)

lemma transferred_file:
  assumes "file_in s ino p n" "transferred cmd s ino p n off buf out s'"
  shows "\<exists>p'. file_in s' ino p' n \<and> bmap p' = bmap p \<and> bsz s' = bsz s"
proof -
  obtain rw d where s': "s' = set_rw ino rw (s\<lparr>disk := d\<rparr>)" using assms(2) unfolding transferred_def by blast
  have "file_in s' ino (p\<lparr>rw_buf := rw\<rparr>) n" "bsz s' = bsz s" by (rule file_in_step [OF assms(1) s'])+
  then show ?thesis by force
qed

lemma file_in_unique: "file_in s ino p n \<Longrightarrow> file_in s ino q m \<Longrightarrow> p = q"
  by (simp add: file_in_def)

lemma transferred_seq:
  assumes "file_in s ino p n" "transferred cmd s ino p n off a oa s1"
    "\<And>p1. file_in s1 ino p1 n \<Longrightarrow> bmap p1 = bmap p \<Longrightarrow> bsz s1 = bsz s \<Longrightarrow>
      \<exists>ob s2. f s1 = Some (ob, s2) \<and> transferred cmd s1 ino p1 n (off + length a) b ob s2"
  shows "\<exists>ob s2. f s1 = Some (ob, s2) \<and> transferred cmd s ino p n off (a @ b) (oa @ ob) s2"
proof -
  obtain p1 where p1: "file_in s1 ino p1 n" "bmap p1 = bmap p" "bsz s1 = bsz s" using transferred_file [OF assms(1,2)] by blast
  obtain ob s2 where o: "f s1 = Some (ob, s2)" "transferred cmd s1 ino p1 n (off + length a) b ob s2"
    using assms(3) [OF p1] by blast
  have "transferred cmd s ino p n off (a @ b) (oa @ ob) s2"
    by (rule transferred_append [OF assms(1,2)]) (use o(2) file_in_unique [OF p1(1)] in blast)
  then show ?thesis using o(1) by blast
qed

lemma io_blocks_ok:
  assumes "file_in s ino p n" "k + m \<le> n" "length buf = m * bsz s"
  shows "\<exists>out s'. io_blocks cmd ino k m buf s = Some (out, s') \<and> transferred cmd s ino p n (k * bsz s) buf out s'"
  using assms
proof (induction m arbitrary: k buf s p)
  case 0
  then show ?case using transferred_Nil by simp
next
  case (Suc m)
  let ?a = "take (bsz s) buf" and ?b = "drop (bsz s) buf"
  let ?out = "case cmd of EXT2_READ \<Rightarrow> e2_read_block (bmap p ! k) ?a s | EXT2_WRITE \<Rightarrow> ?a"
  let ?s = "case cmd of EXT2_READ \<Rightarrow> s | EXT2_WRITE \<Rightarrow> e2_write_block (bmap p ! k) ?a s"
  have la: "length ?a = bsz s" using Suc.prems(3) by simp
  have k: "k < n" using Suc.prems(2) by simp
  have one: "transferred cmd s ino p n (k * bsz s) ?a ?out ?s" by (rule io_block_ok [OF Suc.prems(1) k la])
  have "\<exists>ob s2. io_blocks cmd ino (k + 1) m ?b ?s = Some (ob, s2) \<and> transferred cmd s ino p n (k * bsz s) (?a @ ?b) (?out @ ob) s2"
  proof (rule transferred_seq [OF Suc.prems(1) one, of "io_blocks cmd ino (k + 1) m ?b"])
    fix p1 assume p1: "file_in ?s ino p1 n" "bsz ?s = bsz s"
    show "\<exists>ob s2. io_blocks cmd ino (k + 1) m ?b ?s = Some (ob, s2) \<and> transferred cmd ?s ino p1 n (k * bsz s + length ?a) ?b ob s2"
      using Suc.IH [OF p1(1), of "k + 1" ?b] Suc.prems(2,3) p1(2) la by (simp add: add.commute)
  qed
  moreover have "icache s ino = Some p" "nth_opt (bmap p) k = Some (bmap p ! k)"
    using Suc.prems(1) k by (auto simp: file_in_def nth_opt_def)
  ultimately show ?case by (cases cmd) (auto simp: Let_def)
qed

lemma io_rest_ok:
  assumes "file_in s ino p n" "k * bsz s + length buf \<le> n * bsz s"
  shows "\<exists>out s'. io_rest cmd ino k buf s = Some (out, s') \<and> transferred cmd s ino p n (k * bsz s) buf out s'"
proof -
  let ?b = "bsz s" and ?m = "length buf div bsz s"
  have b: "0 < ?b" using assms(1) by (simp add: file_in_def)
  have m: "?m * ?b \<le> length buf" by simp
  have km: "k + ?m \<le> n" by (rule blocks_inside [OF assms(2) b])
  let ?x = "take (?m * ?b) buf" and ?y = "drop (?m * ?b) buf"
  obtain oa s1 where 1: "io_blocks cmd ino k ?m ?x s = Some (oa, s1)" "transferred cmd s ino p n (k * ?b) ?x oa s1"
    using io_blocks_ok [OF assms(1) km, of ?x] m by fastforce
  show ?thesis
  proof (cases "?y = []")
    case True
    then have "?x = buf" by simp
    then show ?thesis using 1 True by (simp add: io_rest_def Let_def)
  next
    case False
    have ly: "length ?y < ?b" using b by (simp add: minus_div_mult_eq_mod)
    have kn: "k + ?m < n"
    proof -
      have "(k + ?m) * ?b + length ?y \<le> n * ?b" using assms(2) m by (simp add: distrib_right)
      then show ?thesis using block_inside [of "k + ?m" ?b "length ?y" n] False by simp
    qed
    have "\<exists>ob s2. io_part cmd ino (k + ?m) 0 ?y s1 = Some (ob, s2) \<and> transferred cmd s ino p n (k * ?b) (?x @ ?y) (oa @ ob) s2"
    proof (rule transferred_seq [OF assms(1) 1(2), of "io_part cmd ino (k + ?m) 0 ?y"])
      fix p1 assume p1: "file_in s1 ino p1 n" "bsz s1 = bsz s"
      show "\<exists>ob s2. io_part cmd ino (k + ?m) 0 ?y s1 = Some (ob, s2) \<and> transferred cmd s1 ino p1 n (k * ?b + length ?x) ?y ob s2"
        using io_part_ok [OF p1(1) kn, of 0 ?y cmd] ly p1(2) by (simp add: distrib_right min_absorb2)
    qed
    then show ?thesis using 1(1) False by (auto simp: io_rest_def Let_def)
  qed
qed

lemma io_transfer_ok:
  assumes "file_in s ino p n" "off + length buf \<le> n * bsz s"
  shows "\<exists>out s'. io_transfer cmd ino off buf s = Some (out, s') \<and> transferred cmd s ino p n off buf out s'"
proof -
  let ?b = "bsz s" and ?r = "off mod bsz s" and ?k = "off div bsz s"
  have b: "0 < ?b" using assms(1) by (simp add: file_in_def)
  have o: "?k * ?b + ?r = off" by simp
  show ?thesis
  proof (cases "?r = 0")
    case True
    then have k: "?k * ?b = off" using o by simp
    then show ?thesis using io_rest_ok [OF assms(1), of ?k buf cmd] assms(2) True by (simp add: io_transfer_def Let_def)
  next
    case False
    have "?k * ?b + ?r \<le> n * ?b" using assms(2) o by linarith
    then have k: "?k < n" using block_inside [of ?k ?b ?r n] False by simp
    have r: "?r < ?b" using b by simp
    show ?thesis
    proof (cases "length buf \<le> ?b - ?r")
      case True
      then have "?r + length buf \<le> ?b" using r by linarith
      from io_part_ok [OF assms(1) k this, of cmd] show ?thesis unfolding o using True False by (simp add: io_transfer_def Let_def)
    next
      case long: False
      let ?x = "take (?b - ?r) buf" and ?y = "drop (?b - ?r) buf"
      have lx: "length ?x = ?b - ?r" using long by simp
      then have "?r + length ?x \<le> ?b" using r by linarith
      from io_part_ok [OF assms(1) k this, of cmd] obtain oa s1
        where 1: "io_part cmd ino ?k ?r ?x s = Some (oa, s1)" "transferred cmd s ino p n off ?x oa s1" unfolding o by blast
      note e = next_block [OF b, of off]
      have "\<exists>ob s2. io_rest cmd ino (?k + 1) ?y s1 = Some (ob, s2) \<and> transferred cmd s ino p n off (?x @ ?y) (oa @ ob) s2"
      proof (rule transferred_seq [OF assms(1) 1(2), of "io_rest cmd ino (?k + 1) ?y"])
        fix p1 assume p1: "file_in s1 ino p1 n" "bsz s1 = bsz s"
        have "(?k + 1) * bsz s1 + length ?y \<le> n * bsz s1" unfolding p1(2) e using assms(2) long by simp
        from io_rest_ok [OF p1(1) this, of cmd]
        show "\<exists>ob s2. io_rest cmd ino (?k + 1) ?y s1 = Some (ob, s2) \<and> transferred cmd s1 ino p1 n (off + length ?x) ?y ob s2"
          unfolding p1(2) e lx .
      qed
      then show ?thesis using 1(1) False long by (auto simp: io_transfer_def Let_def)
    qed
  qed
qed

lemma bytes_eq_upto: "eq_upto n f g \<Longrightarrow> off + l \<le> n \<Longrightarrow> bytes f off l = bytes g off l"
  by (auto simp: bytes_def eq_upto_def)

lemma unat_off: "unat (off :: u32) + l < 2 ^ 32 \<Longrightarrow> unat (off + word_of_nat l) = unat off + l"
  by (simp add: unat_word_ariths unat_of_nat)

definition file_bytes :: "e2 \<Rightarrow> e2_inode_private \<Rightarrow> nat \<Rightarrow> u8" where
  "file_bytes s p = fbyte (bsz s) (bmap p) (disk s)"

lemma e2_read_ok:
  assumes "file_in s ino p n" "unat (e_size (ind p)) \<le> n * bsz s" "unat off + length buf < 2 ^ 32"
  shows "\<exists>s'. e2_inode_io ino EXT2_READ off buf s =
      Some (bytes (file_bytes s p) (unat off) (min (length buf) (unat (e_size (ind p)) - unat off)), s')
    \<and> disk s' = disk s"
proof -
  let ?sz = "e_size (ind p)"
  have p: "icache s ino = Some p" using assms(1) by (simp add: file_in_def)
  show ?thesis
  proof (cases "?sz \<le> off")
    case True
    then show ?thesis using p by (simp add: e2_inode_io_def word_le_nat_alt bytes_def)
  next
    case False
    then have lt: "unat off < unat ?sz" by (simp add: word_le_nat_alt)
    define b where "b = (if ?sz < off + word_of_nat (length buf) then take (unat (?sz - off)) buf else buf)"
    have d: "unat (?sz - off) = unat ?sz - unat off" using lt by (simp add: unat_sub word_le_nat_alt)
    have lb: "length b = min (length buf) (unat ?sz - unat off)"
      using unat_off [OF assms(3)] d by (auto simp: b_def word_less_nat_alt)
    then have "unat off + length b \<le> n * bsz s" using assms(2) lt by linarith
    from io_transfer_ok [OF assms(1) this, of EXT2_READ] obtain out s'
      where o: "io_transfer EXT2_READ ino (unat off) b s = Some (out, s')" "transferred EXT2_READ s ino p n (unat off) b out s'" by blast
    then have "out = bytes (file_bytes s p) (unat off) (length b)" "disk s' = disk s"
      by (auto simp: transferred_def moved_def file_bytes_def)
    then show ?thesis using o(1) p False lb by (simp add: e2_inode_io_def b_def)
  qed
qed

text \<open>
  C37: Reading a file gives what was written. A write inside a file, at any offset and of any length,
  succeeds without changing a byte of the device outside the blocks of the file; afterwards a read at
  any offset gives the bytes of the file from before with the written ones in their place, up to the
  end of the file.
\<close>

theorem e2_io_correct:
  assumes "file_in s ino p n" "unat (e_size (ind p)) \<le> n * bsz s"
    "unat off + length buf \<le> unat (e_size (ind p))" "unat q + length rbuf < 2 ^ 32"
  shows "\<exists>s1 s2. e2_inode_io ino EXT2_WRITE off buf s = Some (buf, s1) \<and> other_bytes s p n (disk s1)
    \<and> e2_inode_io ino EXT2_READ q rbuf s1 =
        Some (bytes (patch (file_bytes s p) (unat off) buf) (unat q) (min (length rbuf) (unat (e_size (ind p)) - unat q)), s2)"
proof -
  let ?F = "fbyte (bsz s) (bmap p)"
  have p: "icache s ino = Some p" using assms(1) by (simp add: file_in_def)
  have lt: "unat off + length buf < 2 ^ 32" using assms(3) unsigned_less [of "e_size (ind p)", where 'a = nat] by simp
  have "\<not> e_size (ind p) < off + word_of_nat (length buf)"
    using unat_off [OF lt] assms(3) by (simp add: word_less_nat_alt)
  moreover have "unat off + length buf \<le> n * bsz s" using assms(2,3) by linarith
  from io_transfer_ok [OF assms(1) this, of EXT2_WRITE] obtain out s1
    where o: "io_transfer EXT2_WRITE ino (unat off) buf s = Some (out, s1)" "transferred EXT2_WRITE s ino p n (unat off) buf out s1" by blast
  ultimately have w: "e2_inode_io ino EXT2_WRITE off buf s = Some (out, s1)" using p by (simp add: e2_inode_io_def)
  obtain rw d where s1: "s1 = set_rw ino rw (s\<lparr>disk := d\<rparr>)" "other_bytes s p n d" "out = buf"
      "eq_upto (n * bsz s) (?F d) (patch (?F (disk s)) (unat off) buf)"
    using o(2) by (auto simp: transferred_def moved_def)
  note f1 = file_in_step [OF assms(1) s1(1)]
  let ?l = "min (length rbuf) (unat (e_size (ind p)) - unat q)"
  obtain s2 where "e2_inode_io ino EXT2_READ q rbuf s1 = Some (bytes (?F d) (unat q) ?l, s2)"
    using e2_read_ok [OF f1(1), of q rbuf] assms(2,4) f1(2) by (auto simp: file_bytes_def s1(1))
  moreover have "bytes (?F d) (unat q) ?l = bytes (patch (file_bytes s p) (unat off) buf) (unat q) ?l"
  proof (cases "?l = 0")
    case False
    then have "unat q + ?l \<le> n * bsz s" using assms(2) by linarith
    then show ?thesis using bytes_eq_upto [OF s1(4)] by (simp add: file_bytes_def)
  qed (simp add: bytes_def)
  ultimately show ?thesis using w s1 by simp
qed

theorem e2_io_correct_witness:
  "\<exists>s1 s2. e2_inode_io 5 EXT2_WRITE 3 [1, 2] (demo_e2 512) = Some ([1, 2], s1)
    \<and> e2_inode_io 5 EXT2_READ 2 [9, 9, 9, 9] s1 = Some ([0, 1, 2, 0], s2)"
proof -
  let ?F = "file_bytes (demo_e2 512) demo_private"
  have f: "file_in (demo_e2 512) 5 demo_private 1"
    by (simp add: file_in_def demo_e2_def demo_private_def block_in_def)
  have "?F 2 = 0" "?F 5 = 0" by (simp_all add: file_bytes_def fbyte_def demo_e2_def demo_private_def)
  then have b: "bytes (patch ?F 3 [1, 2]) 2 (Suc (Suc (Suc (Suc 0)))) = [0, 1, 2, 0]" by (simp add: bytes_def patch_def upt_rec)
  have "unat (e_size (ind demo_private)) = 512" "bsz (demo_e2 512) = 512"
    by (simp_all add: demo_private_def demo_inode_def demo_e2_def)
  then show ?thesis using e2_io_correct [OF f, of 3 "[1, 2]" 2 "[9, 9, 9, 9]"] b by auto
qed

section \<open>Growing a file\<close>

text \<open>
  Appending to a file that ends at a block boundary: the size before and after lie in the same block
  number, so no block is added, and the transfer uses an entry of the block array that was never stored.
\<close>

lemma dev_write_sel [simp]:
  "icache (snd (dev_write a b s)) = icache s" "sup (snd (dev_write a b s)) = sup s"
  "bgtable (snd (dev_write a b s)) = bgtable s" "sb (snd (dev_write a b s)) = sb s"
  "disk_size (snd (dev_write a b s)) = disk_size s"
  by (simp_all add: dev_write_def)

lemma super_flush_sel [simp]:
  "icache (e2_super_flush s) = icache s" "sup (e2_super_flush s) = sup s"
  "bgtable (e2_super_flush s) = bgtable s" "sb (e2_super_flush s) = sb s" "disk_size (e2_super_flush s) = disk_size s"
  by (simp_all add: e2_super_flush_def Let_def)

lemma upd_priv_sel [simp]:
  "icache (upd_priv ino f s) ino = map_option f (icache s ino)" "sup (upd_priv ino f s) = sup s"
  "bgtable (upd_priv ino f s) = bgtable s" "sb (upd_priv ino f s) = sb s" "disk_size (upd_priv ino f s) = disk_size s"
  by (simp_all add: upd_priv_def)

lemma upd_ind_sel [simp]:
  "icache (upd_ind ino f s) ino = map_option (\<lambda>p. p\<lparr>ind := f (ind p)\<rparr>) (icache s ino)" "sup (upd_ind ino f s) = sup s"
  "bgtable (upd_ind ino f s) = bgtable s" "sb (upd_ind ino f s) = sb s" "disk_size (upd_ind ino f s) = disk_size s"
  by (simp_all add: upd_ind_def)

definition plain_file :: "e2_inode \<Rightarrow> bool" where
  "plain_file i \<longleftrightarrow> \<not> (S_ISBLK (ucast (e_mode i)) \<or> S_ISCHR (ucast (e_mode i)) \<or> S_ISFIFO (ucast (e_mode i)))"

lemma location_cong: "sup s' = sup s \<Longrightarrow> bgtable s' = bgtable s \<Longrightarrow> sb s' = sb s \<Longrightarrow> inode_location ino s' = inode_location ino s"
  by (simp add: inode_location_def)

text \<open>The group table, the counts and the block array stay the same: no block has been allocated.\<close>

definition no_new_blocks :: "e2 \<Rightarrow> e2 \<Rightarrow> u32 \<Rightarrow> bool" where
  "no_new_blocks s s' ino \<longleftrightarrow> sup s' = sup s \<and> bgtable s' = bgtable s \<and> sb s' = sb s \<and> disk_size s' = disk_size s
    \<and> map_option bmap (icache s' ino) = map_option bmap (icache s ino)
    \<and> map_option (\<lambda>p. e_blocks (ind p)) (icache s' ino) = map_option (\<lambda>p. e_blocks (ind p)) (icache s ino)"

lemma flush_small:
  assumes "icache s ino = Some p" "idirty p" "plain_file (ind p)" "0 < nblocks (ind p) s" "nblocks (ind p) s \<le> 12"
    "inode_location ino s = Some loc"
  shows "\<exists>r s1 p1. e2_inode_flush ino s = Some (r, s1) \<and> icache s1 ino = Some p1 \<and> e_size (ind p1) = e_size (ind p)
    \<and> no_new_blocks s s1 ino"
proof -
  obtain t q where t: "e2_inode_write_block_map ino s = Some (None, t)" "icache t ino = Some q"
      "e_size (ind q) = e_size (ind p)" "no_new_blocks s t ino"
    using assms by (simp add: e2_inode_write_block_map_def Let_def plain_file_def no_new_blocks_def)
  let ?s2 = "upd_priv ino (\<lambda>p. p\<lparr>idirty := False\<rparr>) (e2_super_flush t)"
  have "inode_location ino ?s2 = Some loc"
    using location_cong [of ?s2 s ino] t(4) assms(6) by (simp add: no_new_blocks_def)
  then have "e2_inode_flush ino s = Some (dev_write loc (inode_bytes (ind q)) ?s2)"
    using t assms(1,2) by (simp add: e2_inode_flush_def Let_def)
  moreover have "icache (snd (dev_write loc (inode_bytes (ind q)) ?s2)) ino = Some (q\<lparr>idirty := False\<rparr>)" using t by simp
  moreover have "no_new_blocks s (snd (dev_write loc (inode_bytes (ind q)) ?s2)) ino"
    using t by (simp add: no_new_blocks_def)
  ultimately show ?thesis using t(3) by (cases "dev_write loc (inode_bytes (ind q)) ?s2") auto
qed

lemma io_part_byte:
  assumes "icache s ino = Some p" "nth_opt (bmap p) k = Some u" "block_in s u" "0 < bsz s"
  shows "\<exists>s'. io_part EXT2_WRITE ino k 0 [c] s = Some ([c], s') \<and> disk s' = patch (disk s) (block_pos s u) [c]"
proof -
  let ?d = "bytes (disk s) (block_pos s u) (bsz s)"
  have l: "length (put 0 [c] ?d) = bsz (set_rw ino (put 0 [c] ?d) s)" by simp
  have b: "block_in (set_rw ino (put 0 [c] ?d) s) u" using assms(3) by (simp add: block_in_def set_rw_def)
  have "put 0 [c] ?d = take 0 ?d @ [c] @ drop (0 + length [c]) ?d" using assms(4) by (simp add: put_def)
  then have "patch (disk s) (block_pos s u) (put 0 [c] ?d) = patch (disk s) (block_pos s u) [c]"
    using patch_block [of 0 "[c]" "bsz s" "disk s" "block_pos s u"] assms(4) by (metis One_nat_def Suc_leI add_0 length_Cons list.size(3) add.right_neutral)
  then show ?thesis
    using assms write_block_in [OF b l]
    by (simp add: io_part_def read_block_in Let_def) (simp add: block_pos_def set_rw_def upd_priv_def)
qed


text \<open>A file of 1024 bytes in one block of 1024 bytes, whose array has room for two entries.\<close>

definition demo_full :: e2 where
  "demo_full = (demo_e2 1024)\<lparr>icache := [5 \<mapsto> demo_private\<lparr>ind := demo_inode\<lparr>e_size := 1024, e_blocks := 2\<rparr>, bmap := [6, 0]\<rparr>]\<rparr>"


end
