(* ===== verification/Ext2Dir.thy ===== *)
theory Ext2Dir
  imports Ext2Spec
begin

text \<open>
  Directory blocks of the ext2 file system. A block is a sequence of records; what a directory
  promises is a map from names to inode numbers. Entering a name in the record that the search for
  room finds adds the name to the map, and removing it gives the old map back.
\<close>

declare find_room.simps [code] find_entry.simps [code]

section \<open>Records\<close>

definition rec_ok :: "u8 list \<Rightarrow> bool" where
  "rec_ok r \<longleftrightarrow> 8 \<le> length r \<and> length r mod 4 = 0 \<and> de_rec_len r 0 = length r
     \<and> (de_inode r 0 \<noteq> 0 \<longrightarrow> 8 + unat (byte r 6) \<le> length r)"

definition dir_ok :: "u8 list \<Rightarrow> bool" where
  "dir_ok bs \<longleftrightarrow> (\<exists>rs. bs = concat rs \<and> (\<forall>r\<in>set rs. rec_ok r))"

definition rec_ino :: "u8 list \<Rightarrow> u8 list \<Rightarrow> u32 option" where
  "rec_ino n r = (if de_matches n r 0 then Some (de_inode r 0) else None)"

fun recs_ino :: "u8 list \<Rightarrow> u8 list list \<Rightarrow> u32 option" where
  "recs_ino n [] = None"
| "recs_ino n (r # rs) = (case rec_ino n r of None \<Rightarrow> recs_ino n rs | x \<Rightarrow> x)"

definition lookup_ino :: "u8 list \<Rightarrow> u8 list \<Rightarrow> u32 option" where
  "lookup_ino n bs = map_option (de_inode bs) (lookup_block n bs 0)"

lemma byte_mid: "j < length r \<Longrightarrow> byte (p @ r @ q) (length p + j) = byte r j"
  by (simp add: byte_def nth_append)

lemma word_mid:
  "j + 4 \<le> length r \<Longrightarrow> b32 (p @ r @ q) (length p + j) = b32 r j"
  "j + 2 \<le> length r \<Longrightarrow> b16 (p @ r @ q) (length p + j) = b16 r j"
  using byte_mid [of j r p q] byte_mid [of "j + 1" r p q] byte_mid [of "j + 2" r p q] byte_mid [of "j + 3" r p q]
  by (simp_all add: b32_def b16_def add.assoc)

lemma rec_mid:
  assumes "8 \<le> length r"
  shows "de_inode (p @ r @ q) (length p) = de_inode r 0" "b16 (p @ r @ q) (length p + 4) = b16 r 4"
    "byte (p @ r @ q) (length p + 6) = byte r 6"
  using assms word_mid(1) [of 0 r p q] word_mid(2) [of 4 r p q] byte_mid [of 6 r p q] by (simp_all add: de_inode_def)

lemma name_mid:
  assumes "8 + unat (byte r 6) \<le> length r"
  shows "de_name (p @ r @ q) (length p) = de_name r 0"
proof -
  have "byte (p @ r @ q) (length p + 8 + j) = byte r (8 + j)" if "j < unat (byte r 6)" for j
    using byte_mid [of "8 + j" r p q] that assms by (simp add: add.assoc)
  then show ?thesis using rec_mid(3) [of r p q] assms by (simp add: de_name_def)
qed

lemma matches_mid: "rec_ok r \<Longrightarrow> de_matches n (p @ r @ q) (length p) = de_matches n r 0"
  using rec_mid(1) [of r p q] name_mid [of r p q] by (auto simp: rec_ok_def de_matches_def)

lemma rec_len_mid: "rec_ok r \<Longrightarrow> de_rec_len (p @ r @ q) (length p) = length r"
  using rec_mid(2) [of r p q] by (simp add: rec_ok_def de_rec_len_def)

lemma lookup_recs:
  assumes "\<forall>r\<in>set rs. rec_ok r"
  shows "map_option (de_inode (p @ concat rs)) (lookup_block n (p @ concat rs) (length p)) = recs_ino n rs"
  using assms
proof (induction rs arbitrary: p)
  case (Cons r rs)
  have r: "rec_ok r" "8 \<le> length r" using Cons.prems by (simp_all add: rec_ok_def)
  have "lookup_block n (p @ r @ concat rs) (length p) =
      (if de_matches n r 0 then Some (length p) else lookup_block n (p @ r @ concat rs) (length p + length r))"
    using r by (subst lookup_block.simps) (auto simp: matches_mid rec_len_mid)
  then show ?case using Cons.IH [of "p @ r"] Cons.prems r rec_mid(1) [of r p "concat rs"] by (auto simp: rec_ino_def)
qed (simp add: lookup_block.simps)

lemma lookup_ino_recs: "\<forall>r\<in>set rs. rec_ok r \<Longrightarrow> lookup_ino n (concat rs) = recs_ino n rs"
  using lookup_recs [of rs "[]" n] by (simp add: lookup_ino_def)

lemma recs_ino_append: "recs_ino n (xs @ ys) = (case recs_ino n xs of None \<Rightarrow> recs_ino n ys | x \<Rightarrow> x)"
  by (induction xs) (auto split: option.splits)

section \<open>Searching for room and for a name\<close>

definition has_room :: "nat \<Rightarrow> u8 list \<Rightarrow> bool" where
  "has_room len r \<longleftrightarrow> de_inode r 0 = 0 \<and> 8 + len \<le> length r"

lemma unat_u16: "unat (w :: u16) < 65536"
  using unsigned_less [of w, where 'a = nat] by simp

lemma room_arith:
  assumes "k \<le> unat (w :: u16)"
  shows "unat (ucast w - word_of_nat k :: u32) = unat w - k"
proof -
  have "unat (ucast w :: u32) = unat w" using unat_u16 [of w] by (simp add: unsigned_ucast_eq take_bit_nat_eq_self)
  moreover have "unat (word_of_nat k :: u32) = k" using assms unat_u16 [of w] by (simp add: unsigned_of_nat take_bit_nat_eq_self)
  ultimately show ?thesis using assms by (simp add: unat_sub word_le_nat_alt)
qed

lemma find_room_recs:
  assumes "\<forall>r\<in>set rs. rec_ok r"
  shows "find_room len (p @ concat rs) (length p) = Some None
    \<or> (\<exists>xs r ys. rs = xs @ r # ys \<and> has_room len r \<and> find_room len (p @ concat rs) (length p) = Some (Some (length (p @ concat xs))))"
  using assms
proof (induction rs arbitrary: p)
  case (Cons r rs)
  have r: "rec_ok r" "8 \<le> length r" using Cons.prems by (simp_all add: rec_ok_def)
  have l: "unat (b16 r 4) = length r" using r(1) by (simp add: rec_ok_def de_rec_len_def)
  have f: "find_room len (p @ r @ concat rs) (length p) =
      (if has_room len r then Some (Some (length p)) else find_room len (p @ r @ concat rs) (length p + length r))"
    using r rec_mid [of r p "concat rs"] l room_arith [of 8 "b16 r 4"]
    by (subst find_room.simps) (auto simp: rec_len_mid has_room_def)
  show ?case
  proof (cases "has_room len r")
    case False
    then have f: "find_room len (p @ concat (r # rs)) (length p) = find_room len ((p @ r) @ concat rs) (length (p @ r))" using f by simp
    from Cons.IH [of "p @ r"] Cons.prems consider "find_room len ((p @ r) @ concat rs) (length (p @ r)) = Some None"
      | xs x ys where "rs = xs @ x # ys" "has_room len x"
          "find_room len ((p @ r) @ concat rs) (length (p @ r)) = Some (Some (length ((p @ r) @ concat xs)))" by auto
    then show ?thesis
    proof cases
      case 2
      then have "r # rs = (r # xs) @ x # ys" "find_room len (p @ concat (r # rs)) (length p) = Some (Some (length (p @ concat (r # xs))))"
        using f by simp_all
      then show ?thesis using 2(2) by blast
    qed (use f in simp)
  qed (use f in \<open>intro disjI2 exI [of _ "[]"] exI [of _ r] exI [of _ rs]; simp\<close>)
qed (simp add: find_room.simps)

lemma find_entry_recs:
  assumes "\<forall>r\<in>set rs. rec_ok r" "recs_ino n rs \<noteq> None"
  shows "\<exists>xs r ys. rs = xs @ r # ys \<and> de_matches n r 0 \<and> recs_ino n xs = None
    \<and> find_entry n (p @ concat rs) (length p) = Some (Some (length (p @ concat xs)))"
  using assms
proof (induction rs arbitrary: p)
  case (Cons r rs)
  have r: "rec_ok r" "8 \<le> length r" using Cons.prems by (simp_all add: rec_ok_def)
  have e: "length n \<noteq> unat (byte r 6) \<Longrightarrow> de_name r 0 \<noteq> n" by (auto simp: de_name_def)
  have f: "find_entry n (p @ r @ concat rs) (length p) =
      (if de_matches n r 0 then Some (Some (length p)) else find_entry n (p @ r @ concat rs) (length p + length r))"
    using r rec_mid [of r p "concat rs"] name_mid [of r p "concat rs"] e
    by (subst find_entry.simps) (auto simp: rec_len_mid de_matches_def rec_ok_def)
  show ?case
  proof (cases "de_matches n r 0")
    case False
    then have f: "find_entry n (p @ concat (r # rs)) (length p) = find_entry n ((p @ r) @ concat rs) (length (p @ r))" using f by simp
    have x: "rec_ino n r = None" using False by (simp add: rec_ino_def)
    obtain xs x ys where "rs = xs @ x # ys" "de_matches n x 0" "recs_ino n xs = None"
        "find_entry n ((p @ r) @ concat rs) (length (p @ r)) = Some (Some (length ((p @ r) @ concat xs)))"
      using Cons.IH [of "p @ r"] Cons.prems x by auto
    then have "r # rs = (r # xs) @ x # ys" "recs_ino n (r # xs) = None" "de_matches n x 0"
        "find_entry n (p @ concat (r # rs)) (length p) = Some (Some (length (p @ concat (r # xs))))"
      using f x by simp_all
    then show ?thesis by blast
  qed (use f in \<open>intro exI [of _ "[]"] exI [of _ r] exI [of _ rs]; simp\<close>)
qed simp

section \<open>Entering and removing a name\<close>

lemma put_mid: "j + length v \<le> length r \<Longrightarrow> put (length p + j) v (p @ r @ q) = p @ put j v r @ q"
  by (simp add: put_def)

definition filled :: "u32 \<Rightarrow> u8 \<Rightarrow> u8 list \<Rightarrow> u8 list \<Rightarrow> u8 list" where
  "filled ino ft name r = put 8 (name @ [0]) (put 6 [word_of_nat (length name), ft] (put 0 (bytes32 ino) r))"

definition split_rec :: "nat \<Rightarrow> u8 list \<Rightarrow> u8 list" where
  "split_rec need r = put 4 (bytes16 (word_of_nat need)) (put need (bytes32 0) (put (need + 4) (bytes16 (word_of_nat (length r - need))) r))"

lemma needed: "8 + len \<le> needed_size len" "needed_size len < 12 + len" "needed_size len mod 4 = 0"
  by (simp_all add: needed_size_def)

lemma needed_le:
  assumes "8 + len \<le> l" "l mod 4 = 0"
  shows "needed_size len \<le> l"
proof -
  obtain q where q: "l = 4 * q" using assms(2) by (auto simp: mod_eq_0_iff_dvd)
  then have "(8 + len + 3) div 4 \<le> (4 * q + 3) div 4" using assms(1) by (intro div_le_mono) simp
  then show ?thesis by (simp add: q needed_size_def)
qed

lemma ucast_u16: "ucast (x :: u32) = (word_of_nat (unat x) :: u16)"
  by (simp add: word_unat_eq_iff unsigned_ucast_eq unsigned_of_nat)

lemma fill_mid:
  assumes "rec_ok r" "8 + length name < length r"
  shows "fill_dirent ino ft name (length p) (p @ r @ q) = Some (p @ filled ino ft name
    (if needed_size (length name) + 8 < length r then split_rec (needed_size (length name)) r else r) @ q)"
proof -
  let ?n = "needed_size (length name)"
  have l: "unat (b16 r 4) = length r" "8 \<le> length r" using assms(1) by (simp_all add: rec_ok_def de_rec_len_def)
  have n: "?n \<le> length r" by (rule needed_le) (use assms in \<open>auto simp: rec_ok_def\<close>)
  have m: "b16 (p @ r @ q) (length p + 4) = b16 r 4" by (rule rec_mid(2) [OF l(2)])
  have u: "unat (ucast (b16 r 4) - word_of_nat ?n :: u32) = length r - ?n" using room_arith [of ?n "b16 r 4"] n l by simp
  then have c: "8 < (ucast (b16 r 4) - word_of_nat ?n :: u32) \<longleftrightarrow> ?n + 8 < length r" by (auto simp: word_less_nat_alt)
  have w: "ucast (ucast (b16 r 4) - word_of_nat ?n :: u32) = (word_of_nat (length r - ?n) :: u16)" using u by (simp add: ucast_u16)
  show ?thesis using assms(2) l(2) needed(1) [of "length name"]
    by (auto simp: fill_dirent_def Let_def m c w put_mid put_mid [of 0, simplified] filled_def split_rec_def add.assoc)
qed

lemma length_filled [simp]: "length (filled ino ft name r) = length r" "length (split_rec need r) = length r"
  by (simp_all add: filled_def split_rec_def)

lemma filled_rec:
  assumes "8 + length name < length r" "length name < 256"
  shows "de_inode (filled ino ft name r) 0 = ino" "b16 (filled ino ft name r) 4 = b16 r 4"
    "unat (byte (filled ino ft name r) 6) = length name" "de_name (filled ino ft name r) 0 = name"
    "8 + length name < j \<Longrightarrow> byte (filled ino ft name r) j = byte r j" "byte (filled ino ft name r) (8 + length name) = 0"
proof -
  show n: "unat (byte (filled ino ft name r) 6) = length name"
    using assms by (simp add: filled_def byte_put unsigned_of_nat take_bit_nat_eq_self)
  have "byte (filled ino ft name r) (8 + j) = name ! j" if "j < length name" for j
    using assms that by (simp add: filled_def byte_put nth_append)
  then show "de_name (filled ino ft name r) 0 = name" by (auto simp: de_name_def n intro!: nth_equalityI)
qed (use assms in \<open>simp_all add: filled_def de_inode_def b32_put_other b32_put b16_put_other byte_put\<close>)

lemma rec_ok_filled:
  assumes "rec_ok r" "8 + length name < length r" "length name < 256"
  shows "rec_ok (filled ino ft name r)"
  using assms filled_rec [OF assms(2,3), where ino = ino and ft = ft] by (simp add: rec_ok_def de_rec_len_def)

lemma rec_ino_filled:
  assumes "8 + length name < length r" "length name < 256" "ino \<noteq> 0"
  shows "rec_ino m (filled ino ft name r) = (if m = name then Some ino else None)"
  using filled_rec [OF assms(1,2), where ino = ino and ft = ft] assms(3) by (auto simp: rec_ino_def de_matches_def)

lemma unat_u16_of: "k < 65536 \<Longrightarrow> unat (word_of_nat k :: u16) = k"
  by (simp add: unsigned_of_nat take_bit_nat_eq_self)

lemma filled_split:
  fixes r ino ft name
  defines "need \<equiv> needed_size (length name)"
  defines "F \<equiv> filled ino ft name (split_rec need r)"
  assumes "rec_ok r" "need + 8 < length r" "length name < 256" "ino \<noteq> 0"
  shows "rec_ok (take need F)" "rec_ok (drop need F)" "de_inode (drop need F) 0 = 0"
    "rec_ino m (take need F) = (if m = name then Some ino else None)"
proof -
  let ?a = "take need F" and ?d = "drop need F"
  have n: "8 + length name \<le> need" "need < 12 + length name" "need mod 4 = 0" using needed [of "length name"] by (simp_all add: need_def)
  have lF: "length F = length r" by (simp add: F_def)
  have lr: "length r < 65536" "length r mod 4 = 0" using assms(3) unat_u16 [of "b16 r 4"] by (simp_all add: rec_ok_def de_rec_len_def)
  have lt: "8 + length name < length (split_rec need r)" using n assms(4) by simp
  note f = filled_rec [OF lt assms(5), where ino = ino and ft = ft, folded F_def]
  have R4: "b16 (split_rec need r) 4 = word_of_nat need" using n assms(4) by (simp add: split_rec_def b16_put)
  have Rb: "byte (split_rec need r) (need + j) = 0" if "j < 4" for j
    using that n assms(4) by (auto simp: split_rec_def byte_put bytes32_def nth_Cons split: nat.split)
  have Rn: "b16 (split_rec need r) (need + 4) = word_of_nat (length r - need)"
    using n assms(4) by (simp add: split_rec_def b16_put_other b16_put)
  have Fb: "byte F (need + j) = 0" if "j < 4" for j
    using f(5) [of "need + j"] f(6) Rb [OF that] n by (cases "need + j = 8 + length name") auto
  have Fi: "de_inode F need = 0" using Fb [of 0] Fb [of 1] Fb [of 2] Fb [of 3] by (simp add: de_inode_def b32_def)
  have Fn: "b16 F (need + 4) = word_of_nat (length r - need)"
    using f(5) [of "need + 4"] f(5) [of "need + 4 + 1"] n Rn by (simp add: b16_def)
  have la: "length ?a = need" "8 \<le> length ?a" "8 \<le> length ?d" using assms(4) n lF by simp_all
  have a: "de_inode ?a 0 = ino" "b16 ?a 4 = word_of_nat need" "unat (byte ?a 6) = length name"
    using rec_mid [of ?a "[]" ?d] la f R4 by simp_all
  have an: "de_name ?a 0 = name" using name_mid [of ?a "[]" ?d] a(3) la(1) n f(4) by simp
  have d: "de_inode ?d 0 = 0" "b16 ?d 4 = word_of_nat (length r - need)"
    using rec_mid [of ?d ?a "[]"] la Fi Fn by simp_all
  show "rec_ok ?a" using a n la assms(4) lr by (simp add: rec_ok_def de_rec_len_def unat_u16_of)
  have "(length r - need) mod 4 = 0" using lr(2) n(3) by (simp add: mod_eq_0_iff_dvd dvd_diff_nat)
  moreover have "unat (b16 ?d 4) = length r - need" unfolding d(2) by (rule unat_u16_of) (use lr in simp)
  ultimately show "rec_ok ?d" using d(1) lF la lr by (simp add: rec_ok_def de_rec_len_def)
  show "de_inode ?d 0 = 0" by (rule d(1))
  show "rec_ino m ?a = (if m = name then Some ino else None)" using a an assms(6) by (auto simp: rec_ino_def de_matches_def)
qed

lemma fill_recs:
  assumes "rec_ok r" "has_room (length name) r" "length r \<noteq> 8 + length name" "length name < 256" "ino \<noteq> 0"
  shows "\<exists>z us. fill_dirent ino ft name (length p) (p @ r @ q) = Some (p @ concat (z # us) @ q)
    \<and> (\<forall>x\<in>set (z # us). rec_ok x) \<and> (\<forall>u\<in>set us. de_inode u 0 = 0) \<and> (\<forall>m. rec_ino m z = (if m = name then Some ino else None))"
proof -
  let ?n = "needed_size (length name)"
  have lt: "8 + length name < length r" using assms(2,3) by (simp add: has_room_def)
  show ?thesis
  proof (cases "?n + 8 < length r")
    case True
    let ?F = "filled ino ft name (split_rec ?n r)"
    show ?thesis using fill_mid [OF assms(1) lt, of ino ft p q] True filled_split [OF assms(1) True assms(4,5), where ft = ft]
      by (intro exI [of _ "take ?n ?F"] exI [of _ "[drop ?n ?F]"]) simp
  next
    case False
    then show ?thesis using fill_mid [OF assms(1) lt, of ino ft p q] rec_ok_filled [OF assms(1) lt assms(4), of ino ft]
        rec_ino_filled [OF lt assms(4,5)] by (intro exI [of _ "filled ino ft name r"] exI [of _ "[]"]) simp
  qed
qed

lemma recs_ino_None: "recs_ino n rs = None \<longleftrightarrow> filter (\<lambda>r. de_matches n r 0) rs = []"
  by (induction rs) (auto simp: rec_ino_def)

lemma unused_rec [simp]: "de_inode r 0 = 0 \<Longrightarrow> rec_ino m r = None" "de_inode r 0 = 0 \<Longrightarrow> \<not> de_matches m r 0"
  by (simp_all add: rec_ino_def de_matches_def)

lemma recs_ino_unused: "\<forall>u\<in>set us. de_inode u 0 = 0 \<Longrightarrow> recs_ino m us = None"
  by (induction us) simp_all

lemma rec_ok_cleared:
  assumes "rec_ok r"
  shows "rec_ok (put 0 (bytes32 0) r)" "de_inode (put 0 (bytes32 0) r) 0 = 0"
  using assms by (simp_all add: rec_ok_def de_rec_len_def de_inode_def b32_put b16_put_other)

lemma clear_recs:
  assumes "\<forall>r\<in>set rs. rec_ok r" "length (filter (\<lambda>r. de_matches name r 0) rs) = 1"
  shows "\<exists>k rs'. find_entry name (concat rs) 0 = Some (Some k) \<and> put k (bytes32 0) (concat rs) = concat rs'
    \<and> (\<forall>r\<in>set rs'. rec_ok r) \<and> (\<forall>m. recs_ino m rs' = (if m = name then None else recs_ino m rs))"
proof -
  have "recs_ino name rs \<noteq> None" using assms(2) recs_ino_None [of name rs] by auto
  then obtain xs r ys where r: "rs = xs @ r # ys" "de_matches name r 0" "recs_ino name xs = None"
      "find_entry name (concat rs) 0 = Some (Some (length (concat xs)))"
    using find_entry_recs [OF assms(1), of name "[]"] by auto
  let ?r = "put 0 (bytes32 0) r"
  have y: "recs_ino name ys = None" using assms(2) r(1-3) recs_ino_None [of name xs] recs_ino_None [of name ys] by simp
  have ok: "rec_ok r" using assms(1) r(1) by simp
  then have "put (length (concat xs)) (bytes32 0) (concat rs) = concat (xs @ ?r # ys)"
    using put_mid [of 0 "bytes32 0" r "concat xs" "concat ys"] by (simp add: r(1) rec_ok_def)
  moreover have "recs_ino m (xs @ ?r # ys) = (if m = name then None else recs_ino m rs)" for m
    using r(2,3) y rec_ok_cleared(2) [OF ok] by (auto simp: r(1) recs_ino_append rec_ino_def de_matches_def split: option.splits)
  ultimately show ?thesis using r assms(1) rec_ok_cleared(1) [OF ok]
    by (intro exI [of _ "length (concat xs)"] exI [of _ "xs @ ?r # ys"]) simp
qed


definition demo_used :: "u8 list" where
  "demo_used = bytes32 5 @ bytes16 12 @ [2, 1, 97, 98, 0, 0]"

definition demo_unused :: "u8 list" where
  "demo_unused = bytes32 0 @ bytes16 24 @ replicate 18 0"


text \<open>
  A name that fills its record to the last byte: the terminator that \<open>strcpy\<close> copies clears the first
  byte of the next record, which is the low byte of its inode number.
\<close>

lemma fill_dirent_overwrites_next:
  assumes "rec_ok r" "length r = 8 + length name"
  shows "\<exists>r'. length r' = length r \<and> fill_dirent ino ft name (length p) (p @ r @ c # q) = Some (p @ r' @ 0 # q)"
proof -
  have "needed_size (length name) = length r" 
    using assms needed [of "length name"] needed_le [of "length name" "length r"] by (simp add: rec_ok_def)
  moreover have "unat (ucast (b16 r 4) - word_of_nat (length r) :: u32) = 0"
    using assms(1) room_arith [of "length r" "b16 r 4"] by (simp add: rec_ok_def de_rec_len_def)
  moreover have "b16 (p @ r @ c # q) (length p + 4) = b16 r 4" using rec_mid(2) [of r p "c # q"] assms(2) by simp
  moreover let ?r = "put 6 [word_of_nat (length name), ft] (put 0 (bytes32 ino) r)"
  have "put (length p + 8) (name @ [0]) (p @ ?r @ c # q) = p @ (take 8 ?r @ name) @ 0 # q"
    using assms(2) by (simp add: put_def [of "length p + 8"])
  ultimately show ?thesis using assms(2)
    by (intro exI [of _ "take 8 ?r @ name"]) (simp add: fill_dirent_def Let_def unat_eq_0 put_mid put_mid [of 0, simplified])
qed

end
