(* ===== verification/Spec2Isabelle.thy ===== *)
theory Spec2Isabelle
  imports LinkedList Spinlock Pmm KheapSpec TaskSpec Sem Message Pipe Tty Timer Console VfsFd SlreSpec PagingSpec ElfSpec Block Ext2Dir
begin

text \<open>
  StewieOS: verification of the kernel of a small operating system for 32 bit x86 (the sources are
  under \<^verbatim>\<open>src/\<close>).
\<close>

end
